(* ===== verification/Prelude.thy ===== *)
theory Prelude
  imports Main "HOL-Library.Word" "HOL-Library.Char_ord"
begin

text \<open>
  What the component theories share: the machine types, the sum-typed results that stand
  for C++ exceptions, the character classes of the C locale, and the part of
  \<^verbatim>\<open>std::string\<close> and \<^verbatim>\<open>std::istringstream\<close> the program uses (searching, trimming,
  splitting with \<^verbatim>\<open>std::getline\<close>, \<^verbatim>\<open>std::to_string\<close>, \<^verbatim>\<open>std::stoul\<close>).
  The lemmas are declared for the simplifier or collected below, so that the
  component proofs use them without naming them.
\<close>

named_theorems char_class_simps \<open>unfolding rules for the C character classes\<close>
named_theorems bind_simps \<open>computation rules for the sum-typed results\<close>

type_synonym uint32 = "32 word"
type_synonym int64 = "64 word"

section \<open>Results: a C++ exception on the left, a value on the right\<close>

definition bindr :: "'e + 'a \<Rightarrow> ('a \<Rightarrow> 'e + 'b) \<Rightarrow> 'e + 'b" where
  "bindr r f = (case r of Inl e \<Rightarrow> Inl e | Inr x \<Rightarrow> f x)"

lemma bindr_simps [simp, bind_simps]:
  "bindr (Inl e) f = Inl e"
  "bindr (Inr x) f = f x"
  by (simp_all add: bindr_def)

lemma bindr_eq_Inr [simp]: "bindr r f = Inr y \<longleftrightarrow> (\<exists>x. r = Inr x \<and> f x = Inr y)"
  by (cases r) auto

lemma bindr_eq_Inl: "bindr r f = Inl e \<longleftrightarrow> r = Inl e \<or> (\<exists>x. r = Inr x \<and> f x = Inl e)"
  by (cases r) auto

text \<open>A loop over a vector that may leave by an exception.\<close>

fun foldr_res :: "('a \<Rightarrow> 's \<Rightarrow> 'e + 's) \<Rightarrow> 'a list \<Rightarrow> 's \<Rightarrow> 'e + 's" where
  "foldr_res f [] s = Inr s"
| "foldr_res f (x # xs) s = bindr (f x s) (foldr_res f xs)"

lemma foldr_res_invariant:
  assumes "foldr_res f xs s = Inr t" and "P s"
    and "\<And>x u v. x \<in> set xs \<Longrightarrow> P u \<Longrightarrow> f x u = Inr v \<Longrightarrow> P v"
  shows "P t"
  using assms by (induction xs arbitrary: s) auto

fun mapr :: "('a \<Rightarrow> 'e + 'b) \<Rightarrow> 'a list \<Rightarrow> 'e + 'b list" where
  "mapr f [] = Inr []"
| "mapr f (x # xs) = bindr (f x) (\<lambda>y. bindr (mapr f xs) (\<lambda>ys. Inr (y # ys)))"

lemma mapr_length: "mapr f xs = Inr ys \<Longrightarrow> length ys = length xs"
  by (induction xs arbitrary: ys) auto

lemma mapr_total: "(\<And>x. x \<in> set xs \<Longrightarrow> f x = Inr (g x)) \<Longrightarrow> mapr f xs = Inr (map g xs)"
  by (induction xs) auto

section \<open>Character classes of the C locale\<close>

text \<open>\<^verbatim>\<open>char\<close> values from 128 on belong to no class of the C locale.\<close>

definition code :: "char \<Rightarrow> nat" where
  "code c = of_char c"

definition isdigit :: "char \<Rightarrow> bool" where
  "isdigit c \<longleftrightarrow> 48 \<le> code c \<and> code c \<le> 57"

definition isupper_char :: "char \<Rightarrow> bool" where
  "isupper_char c \<longleftrightarrow> 65 \<le> code c \<and> code c \<le> 90"

definition islower_char :: "char \<Rightarrow> bool" where
  "islower_char c \<longleftrightarrow> 97 \<le> code c \<and> code c \<le> 122"

definition isalpha :: "char \<Rightarrow> bool" where
  "isalpha c \<longleftrightarrow> isupper_char c \<or> islower_char c"

definition isalnum :: "char \<Rightarrow> bool" where
  "isalnum c \<longleftrightarrow> isalpha c \<or> isdigit c"

definition isxdigit :: "char \<Rightarrow> bool" where
  "isxdigit c \<longleftrightarrow> isdigit c \<or> (65 \<le> code c \<and> code c \<le> 70) \<or> (97 \<le> code c \<and> code c \<le> 102)"

definition isspace :: "char \<Rightarrow> bool" where
  "isspace c \<longleftrightarrow> code c = 32 \<or> (9 \<le> code c \<and> code c \<le> 13)"

lemmas char_classes [char_class_simps] =
  code_def isdigit_def isupper_char_def islower_char_def isalpha_def isalnum_def isxdigit_def isspace_def

abbreviation NL :: char where "NL \<equiv> CHR 0x0A"
abbreviation CR :: char where "CR \<equiv> CHR 0x0D"
abbreviation TAB :: char where "TAB \<equiv> CHR 0x09"
abbreviation NUL :: char where "NUL \<equiv> CHR 0x00"
abbreviation DQUOTE :: char where "DQUOTE \<equiv> CHR 0x22"
abbreviation SQUOTE :: char where "SQUOTE \<equiv> CHR 0x27"
abbreviation BACKSLASH :: char where "BACKSLASH \<equiv> CHR 0x5C"

section \<open>Searching and cutting strings\<close>

text \<open>\<^verbatim>\<open>s.find(c)\<close>, with \<open>None\<close> for \<^verbatim>\<open>npos\<close>.\<close>

fun find_char :: "char \<Rightarrow> string \<Rightarrow> nat option" where
  "find_char c [] = None"
| "find_char c (x # xs) = (if x = c then Some 0 else map_option Suc (find_char c xs))"

lemma find_char_None [simp]: "find_char c s = None \<longleftrightarrow> c \<notin> set s"
  by (induction s) auto

lemma find_char_append: "c \<notin> set xs \<Longrightarrow> find_char c (xs @ c # ys) = Some (length xs)"
  by (induction xs) auto

lemma find_char_Some:
  "find_char c s = Some n \<Longrightarrow> n < length s \<and> s ! n = c \<and> c \<notin> set (take n s)"
proof (induction s arbitrary: n)
  case (Cons x xs)
  then show ?case by (cases n) (auto split: if_splits)
qed simp

text \<open>\<^verbatim>\<open>s.rfind(p, 0) == 0\<close>: the string starts with the prefix.\<close>

definition starts_with :: "string \<Rightarrow> string \<Rightarrow> bool" where
  "starts_with p s \<longleftrightarrow> take (length p) s = p"

lemma starts_with_append [simp]: "starts_with p (p @ s)"
  by (simp add: starts_with_def)

text \<open>\<^verbatim>\<open>find_first_not_of\<close> and \<^verbatim>\<open>find_last_not_of\<close> followed by \<^verbatim>\<open>substr\<close>.\<close>

definition drop_leading :: "char set \<Rightarrow> string \<Rightarrow> string" where
  "drop_leading cs s = dropWhile (\<lambda>c. c \<in> cs) s"

definition drop_trailing :: "char set \<Rightarrow> string \<Rightarrow> string" where
  "drop_trailing cs s = rev (dropWhile (\<lambda>c. c \<in> cs) (rev s))"

lemma drop_leading_keep [simp]: "c \<notin> cs \<Longrightarrow> drop_leading cs (c # s) = c # s"
  by (simp add: drop_leading_def)

lemma drop_leading_Nil [simp]: "drop_leading cs [] = []"
  by (simp add: drop_leading_def)

lemma drop_leading_skip [simp]: "c \<in> cs \<Longrightarrow> drop_leading cs (c # s) = drop_leading cs s"
  by (simp add: drop_leading_def)

lemma drop_trailing_Nil [simp]: "drop_trailing cs [] = []"
  by (simp add: drop_trailing_def)

lemma drop_trailing_keep [simp]: "c \<notin> cs \<Longrightarrow> drop_trailing cs (s @ [c]) = s @ [c]"
  by (simp add: drop_trailing_def)

section \<open>Splitting with std::getline\<close>

text \<open>
  The strings that a loop \<^verbatim>\<open>while( std::getline( stream, s, d ) )\<close> yields: an empty rest ends
  the loop, so a delimiter at the very end yields no empty last string.
\<close>

function getlines :: "char \<Rightarrow> string \<Rightarrow> string list" where
  "getlines d s =
     (if s = [] then [] else takeWhile (\<lambda>c. c \<noteq> d) s # getlines d (drop 1 (dropWhile (\<lambda>c. c \<noteq> d) s)))"
  by pat_completeness auto
termination
proof (relation "measure (\<lambda>(d, s). length s)", simp)
  fix d :: char and s :: string
  assume "s \<noteq> []"
  then have "0 < length s" by simp
  then have "length (drop 1 (dropWhile (\<lambda>c. c \<noteq> d) s)) < length s"
    using length_dropWhile_le [of "\<lambda>c. c \<noteq> d" s] unfolding length_drop by linarith
  then show "((d, drop 1 (dropWhile (\<lambda>c. c \<noteq> d) s)), (d, s)) \<in> measure (\<lambda>(d, s). length s)"
    by simp
qed

declare getlines.simps [simp del]

lemma getlines_Nil [simp]: "getlines d [] = []"
  by (simp add: getlines.simps)

lemma getlines_last: "s \<noteq> [] \<Longrightarrow> d \<notin> set s \<Longrightarrow> getlines d s = [s]"
proof -
  assume "s \<noteq> []" and "d \<notin> set s"
  then have "takeWhile (\<lambda>c. c \<noteq> d) s = s" "dropWhile (\<lambda>c. c \<noteq> d) s = []"
    by (auto simp: takeWhile_eq_all_conv)
  with \<open>s \<noteq> []\<close> show ?thesis by (simp only: getlines.simps [of d s]) simp
qed

lemma getlines_line:
  assumes "d \<notin> set s"
  shows "getlines d (s @ d # t) = s # getlines d t"
proof -
  have "takeWhile (\<lambda>c. c \<noteq> d) (s @ d # t) = s" "dropWhile (\<lambda>c. c \<noteq> d) (s @ d # t) = d # t"
    using assms by (induction s) auto
  then show ?thesis by (simp add: getlines.simps [of d "s @ d # t"])
qed

lemma getlines_no_delimiter: "l \<in> set (getlines d s) \<Longrightarrow> d \<notin> set l"
proof (induction d s rule: getlines.induct)
  case (1 d s)
  from "1.prems" have "s \<noteq> []"
    by (auto simp: getlines.simps [of d s])
  moreover have "d \<notin> set (takeWhile (\<lambda>c. c \<noteq> d) s)"
    using set_takeWhileD by fastforce
  ultimately show ?case
    using "1.prems" "1.IH" by (auto simp: getlines.simps [of d s])
qed

text \<open>A text written line by line.\<close>

definition unlines :: "string list \<Rightarrow> string" where
  "unlines ls = concat (map (\<lambda>l. l @ [NL]) ls)"

lemma getlines_unlines: "\<forall>l \<in> set ls. NL \<notin> set l \<Longrightarrow> getlines NL (unlines ls) = ls"
  by (induction ls) (simp_all add: unlines_def getlines_line)

section \<open>Numbers as decimal strings\<close>

definition digit_char :: "nat \<Rightarrow> char" where
  "digit_char n = char_of (48 + n)"

text \<open>\<^verbatim>\<open>std::to_string\<close> of an unsigned value.\<close>

fun to_string :: "nat \<Rightarrow> string" where
  "to_string n = (if n < 10 then [digit_char n] else to_string (n div 10) @ [digit_char (n mod 10)])"

declare to_string.simps [simp del]

definition digit_value :: "char \<Rightarrow> nat" where
  "digit_value c = code c - 48"

definition decimal_value :: "string \<Rightarrow> nat" where
  "decimal_value s = foldl (\<lambda>n c. 10 * n + digit_value c) 0 s"

lemma code_digit_char: "n < 10 \<Longrightarrow> code (digit_char n) = 48 + n"
  by (simp add: code_def digit_char_def)

lemma isdigit_digit_char [simp]: "n < 10 \<Longrightarrow> isdigit (digit_char n)"
  by (simp add: isdigit_def code_digit_char)

lemma digit_value_digit_char [simp]: "n < 10 \<Longrightarrow> digit_value (digit_char n) = n"
  by (simp add: digit_value_def code_digit_char)

lemma to_string_digits: "c \<in> set (to_string n) \<Longrightarrow> isdigit c"
proof (induction n rule: to_string.induct)
  case (1 n)
  then show ?case by (subst (asm) (2) to_string.simps) (auto split: if_splits)
qed

lemma to_string_nonempty [simp]: "to_string n \<noteq> []"
  by (subst to_string.simps) simp

lemma decimal_value_to_string [simp]: "decimal_value (to_string n) = n"
proof (induction n rule: to_string.induct)
  case (1 n)
  then show ?case
    by (subst to_string.simps) (simp add: decimal_value_def)
qed

lemma to_string_inj [simp]: "to_string m = to_string n \<longleftrightarrow> m = n"
  using decimal_value_to_string by metis

text \<open>
  \<^verbatim>\<open>std::stoul(s)\<close> in base 10 on a 64-bit target: leading white space is skipped, one sign is
  taken, the longest run of digits is read and the rest ignored; no digit raises
  \<^verbatim>\<open>std::invalid_argument\<close>, a value beyond 64 bits raises \<^verbatim>\<open>std::out_of_range\<close>, a minus sign negates
  modulo 2 to the 64.
\<close>

datatype (plugins only: code size) number_error = InvalidArgument | OutOfRange

definition strtoul10 :: "bool \<Rightarrow> string \<Rightarrow> number_error + 64 word" where
  "strtoul10 negative s =
     (let digits = takeWhile isdigit s in
      if digits = [] then Inl InvalidArgument
      else if 2 ^ 64 \<le> decimal_value digits then Inl OutOfRange
      else Inr (if negative then - of_nat (decimal_value digits) else of_nat (decimal_value digits)))"

definition stoul :: "string \<Rightarrow> number_error + 64 word" where
  "stoul s =
     (case dropWhile isspace s of
        [] \<Rightarrow> Inl InvalidArgument
      | c # r \<Rightarrow> if c = CHR ''-'' then strtoul10 True r
                 else if c = CHR ''+'' then strtoul10 False r
                 else strtoul10 False (c # r))"

lemma isdigit_not_space [simp]: "isdigit c \<Longrightarrow> \<not> isspace c"
  by (simp add: char_class_simps)

lemma isdigit_not_sign:
  "isdigit c \<Longrightarrow> c \<noteq> CHR ''-''" "isdigit c \<Longrightarrow> c \<noteq> CHR ''+''" "isdigit c \<Longrightarrow> c \<noteq> CHR ''.''"
  "isdigit c \<Longrightarrow> c \<noteq> CHR ''v''"
  by (auto simp: char_class_simps)

lemma stoul_to_string:
  assumes "n < 2 ^ 64"
  shows "stoul (to_string n) = Inr (of_nat n)"
proof -
  obtain c r where s: "to_string n = c # r"
    using to_string_nonempty [of n] by (cases "to_string n") auto
  have digits: "isdigit x" if "x \<in> set (c # r)" for x
    using that to_string_digits [of x n] s by simp
  then have tw: "takeWhile isdigit (c # r) = c # r" by (simp add: takeWhile_eq_all_conv)
  have "strtoul10 False (c # r) = Inr (of_nat n)"
    using assms decimal_value_to_string [of n] s by (simp only: strtoul10_def tw Let_def) simp
  moreover have "dropWhile isspace (c # r) = c # r"
    using digits [of c] by simp
  ultimately show ?thesis
    using digits [of c] isdigit_not_sign [of c] by (simp add: s stoul_def)
qed

end
