(* ===== verification/Diagnostics.thy ===== *)
theory Diagnostics
  imports Prelude
begin

text \<open>
  Source locations (\<^verbatim>\<open>src/uranite/lookup/source.hpp\<close>) and the diagnostic engine
  (\<^verbatim>\<open>src/uranite/diagnostic/diagnostic.hpp\<close>, \<^verbatim>\<open>diagnostic.cpp\<close>).
  The engine is a record passed from call to call. Its counters are 32-bit words; an \<open>emit\<close>
  that reaches the error limit ends in the exception \<open>DiagnosticLimitReached\<close> and still hands
  back the engine, because the C++ object outlives the throw. What is printed on the
  standard error stream is collected in the field \<open>console\<close>, without the colour codes.
\<close>

section \<open>Source locations\<close>

record Location =
  loc_column :: uint32
  loc_line :: uint32

definition default_location :: Location where
  "default_location = \<lparr>loc_column = 0, loc_line = 0\<rparr>"

definition Location_toString :: "Location \<Rightarrow> string" where
  "Location_toString l = to_string (unat (loc_line l)) @ '':'' @ to_string (unat (loc_column l))"

record Range =
  range_begin :: Location
  range_end :: Location

definition default_range :: Range where
  "default_range = \<lparr>range_begin = default_location, range_end = default_location\<rparr>"

definition Range_toString :: "Range \<Rightarrow> string" where
  "Range_toString r = Location_toString (range_begin r) @ '':'' @ Location_toString (range_end r)"

record Source =
  filename :: string
  location :: Location
  pathname :: string
  srange :: Range

definition default_source :: Source where
  "default_source =
     \<lparr>filename = ''<unknown>'', location = default_location, pathname = ''<unknown>'', srange = default_range\<rparr>"

definition Source_toString :: "Source \<Rightarrow> string" where
  "Source_toString s = filename s @ '':'' @ Range_toString (srange s)"

section \<open>The diagnostic engine\<close>

datatype (plugins only: code size) Level = Level_Error | Level_Fatal | Level_Note | Level_Warning

fun Level_toString :: "Level \<Rightarrow> string" where
  "Level_toString Level_Note = ''Note''"
| "Level_toString Level_Error = ''Error''"
| "Level_toString Level_Fatal = ''Fatal''"
| "Level_toString Level_Warning = ''Warning''"

record Diagnostic =
  hinting :: string
  level :: Level
  messages :: string
  dsource :: Source

record Engine =
  errorCounts :: uint32
  errorMaximum :: uint32
  vdiagnostics :: "Diagnostic list"
  sourceLines :: "string list option"
  printable :: bool
  warningCounts :: uint32
  warningMaximum :: uint32
  console :: "string list"

definition Engine_default :: Engine where
  "Engine_default =
     \<lparr>errorCounts = 0, errorMaximum = 1, vdiagnostics = [], sourceLines = None, printable = True,
      warningCounts = 0, warningMaximum = 0, console = []\<rparr>"

definition Engine_with_limits :: "uint32 \<Rightarrow> uint32 \<Rightarrow> Engine" where
  "Engine_with_limits errors warnings =
     Engine_default\<lparr>errorMaximum := errors, warningMaximum := warnings\<rparr>"

datatype (plugins only: code size) diagnostic_exception = DiagnosticLimitReached

definition pad_left :: "nat \<Rightarrow> string \<Rightarrow> string" where
  "pad_left n s = replicate (n - length s) CHR '' '' @ s"

definition printDiagnostic :: "Engine \<Rightarrow> Diagnostic \<Rightarrow> string list" where
  "printDiagnostic e d =
     (let s = dsource d; ln = loc_line (location s); col = loc_column (location s) in
      [filename s @ '':'' @ to_string (unat ln) @ '':'' @ to_string (unat col) @ '': '',
       Level_toString (level d) @ '': '',
       messages d @ [NL]]
      @ (case sourceLines e of
           None \<Rightarrow> []
         | Some ls \<Rightarrow>
             if 0 < ln \<and> unat ln \<le> length ls
             then ['' '' @ pad_left 4 (to_string (unat ln)) @ '' | '' @ ls ! unat (ln - 1) @ [NL]]
                  @ (if 0 < col then [replicate (unat (col - 1 + 7)) CHR '' '' @ ''^'' @ [NL]] else [])
             else [])
      @ (if hinting d = '''' then [] else [''  hint: '' @ hinting d @ [NL]]))"

definition printAll :: "Engine \<Rightarrow> string list" where
  "printAll e = concat (map (printDiagnostic e) (vdiagnostics e))"

text \<open>The part of \<open>emit\<close> before the limit is tested: record, count, print.\<close>

definition record_diagnostic :: "Engine \<Rightarrow> Diagnostic \<Rightarrow> Engine" where
  "record_diagnostic e d =
     (let e1 = e\<lparr>vdiagnostics := vdiagnostics e @ [d]\<rparr>;
          e2 = (case level d of
                  Level_Error \<Rightarrow> e1\<lparr>errorCounts := errorCounts e1 + 1\<rparr>
                | Level_Fatal \<Rightarrow> e1\<lparr>errorCounts := errorCounts e1 + 1\<rparr>
                | Level_Warning \<Rightarrow> e1\<lparr>warningCounts := warningCounts e1 + 1\<rparr>
                | Level_Note \<Rightarrow> e1)
      in if printable e2 then e2\<lparr>console := console e2 @ printDiagnostic e2 d\<rparr> else e2)"

definition emit :: "Level \<Rightarrow> Source \<Rightarrow> string \<Rightarrow> string \<Rightarrow> Engine \<Rightarrow> (diagnostic_exception \<times> Engine) + Engine" where
  "emit lv src msg hint e =
     (let e' = record_diagnostic e \<lparr>hinting = hint, level = lv, messages = msg, dsource = src\<rparr> in
      if 0 < errorMaximum e' \<and> errorMaximum e' \<le> errorCounts e'
      then Inl (DiagnosticLimitReached, e') else Inr e')"

definition emit_error :: "Source \<Rightarrow> string \<Rightarrow> string \<Rightarrow> Engine \<Rightarrow> (diagnostic_exception \<times> Engine) + Engine" where
  "emit_error src msg hint = emit Level_Error src msg hint"

definition emit_fatal :: "Source \<Rightarrow> string \<Rightarrow> Engine \<Rightarrow> (diagnostic_exception \<times> Engine) + Engine" where
  "emit_fatal src msg = emit Level_Fatal src msg ''''"

definition emit_note :: "Source \<Rightarrow> string \<Rightarrow> Engine \<Rightarrow> (diagnostic_exception \<times> Engine) + Engine" where
  "emit_note src msg = emit Level_Note src msg ''''"

definition emit_warning :: "Source \<Rightarrow> string \<Rightarrow> Engine \<Rightarrow> (diagnostic_exception \<times> Engine) + Engine" where
  "emit_warning src msg = emit Level_Warning src msg ''''"

definition hasErrors :: "Engine \<Rightarrow> bool" where
  "hasErrors e \<longleftrightarrow> 0 < errorCounts e"

definition setConsolPrintable :: "bool \<Rightarrow> Engine \<Rightarrow> Engine" where
  "setConsolPrintable b e = e\<lparr>printable := b\<rparr>"

definition setMaxErrors :: "uint32 \<Rightarrow> Engine \<Rightarrow> Engine" where
  "setMaxErrors m e = e\<lparr>errorMaximum := m\<rparr>"

definition setSourceLines :: "string list \<Rightarrow> Engine \<Rightarrow> Engine" where
  "setSourceLines ls e = e\<lparr>sourceLines := Some ls\<rparr>"

section \<open>The counters agree with the recorded diagnostics\<close>

definition counts_as_error :: "Diagnostic \<Rightarrow> bool" where
  "counts_as_error d \<longleftrightarrow> level d = Level_Error \<or> level d = Level_Fatal"

definition counts_as_warning :: "Diagnostic \<Rightarrow> bool" where
  "counts_as_warning d \<longleftrightarrow> level d = Level_Warning"

definition engine_ok :: "Engine \<Rightarrow> bool" where
  "engine_ok e \<longleftrightarrow>
     errorCounts e = of_nat (length (filter counts_as_error (vdiagnostics e))) \<and>
     warningCounts e = of_nat (length (filter counts_as_warning (vdiagnostics e)))"

lemma record_diagnostic_fields [simp]:
  "vdiagnostics (record_diagnostic e d) = vdiagnostics e @ [d]"
  "errorMaximum (record_diagnostic e d) = errorMaximum e"
  "warningMaximum (record_diagnostic e d) = warningMaximum e"
  "printable (record_diagnostic e d) = printable e"
  "sourceLines (record_diagnostic e d) = sourceLines e"
  by (simp_all add: record_diagnostic_def Let_def split: Level.splits)

lemma record_diagnostic_counts:
  "errorCounts (record_diagnostic e d) = errorCounts e + (if counts_as_error d then 1 else 0)"
  "warningCounts (record_diagnostic e d) = warningCounts e + (if counts_as_warning d then 1 else 0)"
  by (simp_all add: record_diagnostic_def counts_as_error_def counts_as_warning_def Let_def
      split: Level.splits)

lemma record_diagnostic_ok: "engine_ok e \<Longrightarrow> engine_ok (record_diagnostic e d)"
  by (simp add: engine_ok_def record_diagnostic_counts)

lemma engine_ok_default [simp]: "engine_ok Engine_default" "engine_ok (Engine_with_limits m n)"
  by (simp_all add: engine_ok_def Engine_default_def Engine_with_limits_def)

lemma emit_InrD: "emit lv src msg hint e = Inr e' \<Longrightarrow> \<exists>d. level d = lv \<and> e' = record_diagnostic e d"
  by (force simp: emit_def Let_def split: if_splits)

lemma emit_below_limit:
  assumes "errorMaximum e = 0"
  shows "\<exists>e'. emit lv src msg hint e = Inr e' \<and> errorMaximum e' = 0"
  using assms by (simp add: emit_def Let_def)

text \<open>The calls a client makes, as data: the engine's life is a list of them.\<close>

datatype (plugins only: code size) engine_call =
  Call_error Source string string | Call_fatal Source string | Call_note Source string | Call_warning Source string

fun engine_step :: "engine_call \<Rightarrow> Engine \<Rightarrow> (diagnostic_exception \<times> Engine) + Engine" where
  "engine_step (Call_error s m h) = emit_error s m h"
| "engine_step (Call_fatal s m) = emit_fatal s m"
| "engine_step (Call_note s m) = emit_note s m"
| "engine_step (Call_warning s m) = emit_warning s m"

lemmas engine_calls = emit_error_def emit_fatal_def emit_note_def emit_warning_def

lemma engine_step_emit: "\<exists>lv s m h. engine_step c e = emit lv s m h e"
  by (cases c) (auto simp: engine_calls)

text \<open>
  Below the limit: no run of calls that returned has reached the limit, and the counters count.
\<close>

definition below_limit :: "Engine \<Rightarrow> bool" where
  "below_limit e \<longleftrightarrow> (0 < errorMaximum e \<longrightarrow> errorCounts e < errorMaximum e)"

lemma engine_step_keeps:
  assumes "engine_step c e = Inr e'" and "engine_ok e"
  shows "engine_ok e' \<and> below_limit e' \<and> errorMaximum e' = errorMaximum e"
proof -
  obtain lv s m h where "emit lv s m h e = Inr e'"
    using engine_step_emit [of c e] assms(1) by auto
  then show ?thesis
    using assms(2)
    by (auto simp: emit_def Let_def below_limit_def not_le intro: record_diagnostic_ok split: if_splits)
qed

lemma engine_run_keeps:
  "foldr_res engine_step cs e = Inr e' \<Longrightarrow> engine_ok e \<Longrightarrow> below_limit e \<Longrightarrow>
     engine_ok e' \<and> below_limit e' \<and> errorMaximum e' = errorMaximum e"
  by (induction cs arbitrary: e) (auto dest: engine_step_keeps)

text \<open>
  C33. The diagnostic engine stops at its limit and not before: after any sequence of calls
  that all returned, the error and warning counters are the numbers of recorded diagnostics
  of those levels and, for a positive limit, fewer errors than the limit were recorded; a call
  throws exactly when the limit is positive and the count including the call reaches it, and
  then the diagnostic is recorded all the same.
\<close>

theorem engine_limit:
  assumes "foldr_res engine_step cs (Engine_with_limits m n) = Inr e"
  shows "errorCounts e = of_nat (length (filter counts_as_error (vdiagnostics e)))
    \<and> warningCounts e = of_nat (length (filter counts_as_warning (vdiagnostics e)))
    \<and> (0 < m \<longrightarrow> errorCounts e < m)
    \<and> (\<forall>lv s msg h. (\<exists>x. emit lv s msg h e = Inl x) \<longleftrightarrow>
           0 < m \<and> m \<le> errorCounts e + (if lv = Level_Error \<or> lv = Level_Fatal then 1 else 0))
    \<and> (\<forall>lv s msg h x e'. emit lv s msg h e = Inl (x, e') \<longrightarrow>
           length (vdiagnostics e') = length (vdiagnostics e) + 1)"
proof -
  have "below_limit (Engine_with_limits m n)"
    by (simp add: below_limit_def Engine_with_limits_def Engine_default_def)
  then have k: "engine_ok e \<and> below_limit e \<and> errorMaximum e = errorMaximum (Engine_with_limits m n)"
    using engine_run_keeps [OF assms] by simp
  then have m: "errorMaximum e = m" by (simp add: Engine_with_limits_def)
  have "(\<exists>x. emit lv s msg h e = Inl x) \<longleftrightarrow>
      0 < m \<and> m \<le> errorCounts e + (if lv = Level_Error \<or> lv = Level_Fatal then 1 else 0)"
    for lv s msg h
    using m by (simp add: emit_def Let_def record_diagnostic_counts counts_as_error_def)
  moreover have "length (vdiagnostics e') = length (vdiagnostics e) + 1"
    if "emit lv s msg h e = Inl (x, e')" for lv s msg h x e'
    using that by (auto simp: emit_def Let_def split: if_splits)
  ultimately show ?thesis
    using k m by (auto simp: engine_ok_def below_limit_def)
qed

theorem engine_limit_witness:
  "\<exists>e. foldr_res engine_step [Call_warning default_source ''w'', Call_error default_source ''a'' '''']
         (Engine_with_limits 2 0) = Inr e \<and> errorCounts e = 1 \<and>
       (\<exists>x. emit Level_Error default_source ''b'' '''' e = Inl x)"
proof -
  let ?cs = "[Call_warning default_source ''w'', Call_error default_source ''a'' '''']"
  let ?r = "foldr_res engine_step ?cs (Engine_with_limits 2 0)"
  have run: "\<exists>e. ?r = Inr e \<and> errorCounts e = 1"
    by (simp add: engine_calls emit_def record_diagnostic_counts counts_as_error_def
        Engine_with_limits_def Engine_default_def Let_def word_le_nat_alt)
  then obtain e where e: "?r = Inr e" "errorCounts e = 1" by blast
  have "\<exists>x. emit Level_Error default_source ''b'' '''' e = Inl x"
    using engine_limit [OF e(1)] e(2) by simp
  with e show ?thesis by blast
qed

end
