(* ===== verification/Tokens.thy ===== *)
theory Tokens
  imports Diagnostics
begin

text \<open>
  Tokens: \<^verbatim>\<open>src/uranite/token/token.hpp\<close> and \<^verbatim>\<open>token.cpp\<close>. The C++ enumeration
  \<^verbatim>\<open>Type\<close> is split into one datatype per section of the enumeration (the section comments of the
  header), wrapped by \<open>token_type\<close>; the enumerators keep their names, and \<open>all_types\<close> lists them in
  declaration order, which is the order the range tests \<open>isKeyword\<close>, \<open>isOperator\<close>, ... compare by.
  The category vectors and the keyword table are lists in the order of the source; \<open>toString\<close> is the
  switch as a table with its default.
\<close>

section \<open>Token types\<close>

datatype (plugins only: code size) keyword_control =
    KeywordBreak | KeywordContinue | KeywordElse | KeywordElif | KeywordFor | KeywordIf
  | KeywordMatch | KeywordReturn | KeywordWhile | KeywordYield

datatype (plugins only: code size) keyword_declaration =
    KeywordClass | KeywordConstant | KeywordEnum | KeywordExtern | KeywordFrom | KeywordFunction
  | KeywordImplements | KeywordImport | KeywordInterface | KeywordMutable | KeywordPackage
  | KeywordStatic | KeywordStruct | KeywordType

datatype (plugins only: code size) keyword_access =
    KeywordPrivate | KeywordProtect | KeywordPublic

datatype (plugins only: code size) keyword_oop =
    KeywordAbstract | KeywordDelete | KeywordExtends | KeywordFinal | KeywordNative | KeywordNew
  | KeywordOverride | KeywordParent | KeywordProperty | KeywordReadonly | KeywordSelf
  | KeywordVirtual

datatype (plugins only: code size) keyword_memory =
    KeywordAddressof | KeywordMove | KeywordOwn | KeywordReference | KeywordUnsafe

datatype (plugins only: code size) keyword_logic =
    KeywordAnd | KeywordNot | KeywordOr

datatype (plugins only: code size) keyword_value =
    KeywordFalse | KeywordNone | KeywordTrue

datatype (plugins only: code size) keyword_handling =
    KeywordExcept | KeywordFinally | KeywordRaise | KeywordRaises | KeywordTry

datatype (plugins only: code size) keyword_other =
    KeywordAs | KeywordAssembly | KeywordAsync | KeywordAwait | KeywordBacked | KeywordCase
  | KeywordDefer | KeywordIn | KeywordInstanceOf | KeywordIs | KeywordLambda | KeywordPass
  | KeywordSubclassOf | KeywordSwitch | KeywordTrait | KeywordUnit | KeywordUse | KeywordVolatile
  | KeywordWhere

datatype (plugins only: code size) literal_type =
    LiteralChar | LiteralFloat | LiteralInteger | LiteralRegex | LiteralString

datatype (plugins only: code size) operator_arithmetic =
    Decrement | Increment | Minus | Percent | Plus | Power | Slash | Star

datatype (plugins only: code size) operator_bitwise =
    Ampersand | Caret | Pipe | ShiftLeft | ShiftRight | Tilde

datatype (plugins only: code size) operator_comparison =
    Equal | GreaterThan | GreaterThanEqual | LessThan | LessThanEqual | NotEqual

datatype (plugins only: code size) operator_assignment =
    AmpersandAssignment | Assignment | CaretAssignment | MinusAssignment | PercentAssignment
  | PipeAssignment | PlusAssignment | ShiftLeftAssignment | ShiftRightAssignment | SlashAssignment
  | StarAssignment

datatype (plugins only: code size) punctuation_type =
    Arrow | At | Bang | Colon | Comma | Dot | DoubleColon | DoubleDot | Ellipsis | FatArrow | Hash
  | Question | Semicolon

datatype (plugins only: code size) delimiter_type =
    LeftBrace | LeftBracket | LeftParenthesis | RightBrace | RightBracket | RightParenthesis

datatype (plugins only: code size) layout_type =
    Dedent | Indent | Newline

datatype (plugins only: code size) special_type =
    Eof | Error

datatype (plugins only: code size) token_type =
    Control keyword_control
  | Declaration keyword_declaration
  | Access keyword_access
  | Oop keyword_oop
  | Memory keyword_memory
  | Logic keyword_logic
  | KValue keyword_value
  | Handling keyword_handling
  | Other keyword_other
  | KeywordExport
  | Literal literal_type
  | Identifier
  | Arithmetic operator_arithmetic
  | Bitwise operator_bitwise
  | Comparison operator_comparison
  | Assigning operator_assignment
  | Punctuation punctuation_type
  | Delimiter delimiter_type
  | Layout layout_type
  | Special special_type

definition all_types :: "token_type list" where
  "all_types =
     [Control KeywordBreak, Control KeywordContinue, Control KeywordElse, Control KeywordElif,
      Control KeywordFor, Control KeywordIf, Control KeywordMatch, Control KeywordReturn,
      Control KeywordWhile, Control KeywordYield, Declaration KeywordClass,
      Declaration KeywordConstant, Declaration KeywordEnum, Declaration KeywordExtern,
      Declaration KeywordFrom, Declaration KeywordFunction, Declaration KeywordImplements,
      Declaration KeywordImport, Declaration KeywordInterface, Declaration KeywordMutable,
      Declaration KeywordPackage, Declaration KeywordStatic, Declaration KeywordStruct,
      Declaration KeywordType, Access KeywordPrivate, Access KeywordProtect, Access KeywordPublic,
      Oop KeywordAbstract, Oop KeywordDelete, Oop KeywordExtends, Oop KeywordFinal, Oop KeywordNative,
      Oop KeywordNew, Oop KeywordOverride, Oop KeywordParent, Oop KeywordProperty, Oop KeywordReadonly,
      Oop KeywordSelf, Oop KeywordVirtual, Memory KeywordAddressof, Memory KeywordMove,
      Memory KeywordOwn, Memory KeywordReference, Memory KeywordUnsafe, Logic KeywordAnd,
      Logic KeywordNot, Logic KeywordOr, KValue KeywordFalse, KValue KeywordNone, KValue KeywordTrue,
      Handling KeywordExcept, Handling KeywordFinally, Handling KeywordRaise, Handling KeywordRaises,
      Handling KeywordTry, Other KeywordAs, Other KeywordAssembly, Other KeywordAsync,
      Other KeywordAwait, Other KeywordBacked, Other KeywordCase, Other KeywordDefer, Other KeywordIn,
      Other KeywordInstanceOf, Other KeywordIs, Other KeywordLambda, Other KeywordPass,
      Other KeywordSubclassOf, Other KeywordSwitch, Other KeywordTrait, Other KeywordUnit,
      Other KeywordUse, Other KeywordVolatile, Other KeywordWhere, KeywordExport, Literal LiteralChar,
      Literal LiteralFloat, Literal LiteralInteger, Literal LiteralRegex, Literal LiteralString,
      Identifier, Arithmetic Decrement, Arithmetic Increment, Arithmetic Minus, Arithmetic Percent,
      Arithmetic Plus, Arithmetic Power, Arithmetic Slash, Arithmetic Star, Bitwise Ampersand,
      Bitwise Caret, Bitwise Pipe, Bitwise ShiftLeft, Bitwise ShiftRight, Bitwise Tilde,
      Comparison Equal, Comparison GreaterThan, Comparison GreaterThanEqual, Comparison LessThan,
      Comparison LessThanEqual, Comparison NotEqual, Assigning AmpersandAssignment,
      Assigning Assignment, Assigning CaretAssignment, Assigning MinusAssignment,
      Assigning PercentAssignment, Assigning PipeAssignment, Assigning PlusAssignment,
      Assigning ShiftLeftAssignment, Assigning ShiftRightAssignment, Assigning SlashAssignment,
      Assigning StarAssignment, Punctuation Arrow, Punctuation At, Punctuation Bang, Punctuation Colon,
      Punctuation Comma, Punctuation Dot, Punctuation DoubleColon, Punctuation DoubleDot,
      Punctuation Ellipsis, Punctuation FatArrow, Punctuation Hash, Punctuation Question,
      Punctuation Semicolon, Delimiter LeftBrace, Delimiter LeftBracket, Delimiter LeftParenthesis,
      Delimiter RightBrace, Delimiter RightBracket, Delimiter RightParenthesis, Layout Dedent,
      Layout Indent, Layout Newline, Special Eof, Special Error]"

section \<open>The keyword registry and the category vectors\<close>

definition keymaps_table :: "(string \<times> token_type) list" where
  "keymaps_table =
     [(''abstract'', Oop KeywordAbstract), (''addressof'', Memory KeywordAddressof),
      (''and'', Logic KeywordAnd), (''as'', Other KeywordAs), (''asm'', Other KeywordAssembly),
      (''async'', Other KeywordAsync), (''await'', Other KeywordAwait),
      (''backed'', Other KeywordBacked), (''break'', Control KeywordBreak),
      (''case'', Other KeywordCase), (''class'', Declaration KeywordClass),
      (''const'', Declaration KeywordConstant), (''continue'', Control KeywordContinue),
      (''defer'', Other KeywordDefer), (''delete'', Oop KeywordDelete),
      (''else'', Control KeywordElse), (''elif'', Control KeywordElif),
      (''enum'', Declaration KeywordEnum), (''except'', Handling KeywordExcept),
      (''export'', KeywordExport), (''extends'', Oop KeywordExtends),
      (''extern'', Declaration KeywordExtern), (''False'', KValue KeywordFalse),
      (''final'', Oop KeywordFinal), (''finally'', Handling KeywordFinally),
      (''for'', Control KeywordFor), (''from'', Declaration KeywordFrom),
      (''function'', Declaration KeywordFunction), (''if'', Control KeywordIf),
      (''implements'', Declaration KeywordImplements), (''import'', Declaration KeywordImport),
      (''in'', Other KeywordIn), (''instanceof'', Other KeywordInstanceOf),
      (''interface'', Declaration KeywordInterface), (''is'', Other KeywordIs),
      (''lambda'', Other KeywordLambda), (''match'', Control KeywordMatch),
      (''move'', Memory KeywordMove), (''mut'', Declaration KeywordMutable),
      (''native'', Oop KeywordNative), (''new'', Oop KeywordNew), (''None'', KValue KeywordNone),
      (''not'', Logic KeywordNot), (''or'', Logic KeywordOr), (''override'', Oop KeywordOverride),
      (''own'', Memory KeywordOwn), (''package'', Declaration KeywordPackage),
      (''parent'', Oop KeywordParent), (''pass'', Other KeywordPass),
      (''private'', Access KeywordPrivate), (''property'', Oop KeywordProperty),
      (''protect'', Access KeywordProtect), (''public'', Access KeywordPublic),
      (''raise'', Handling KeywordRaise), (''raises'', Handling KeywordRaises),
      (''readonly'', Oop KeywordReadonly), (''Readonly'', Oop KeywordReadonly),
      (''reference'', Memory KeywordReference), (''return'', Control KeywordReturn),
      (''self'', Oop KeywordSelf), (''static'', Declaration KeywordStatic),
      (''struct'', Declaration KeywordStruct), (''subclassof'', Other KeywordSubclassOf),
      (''switch'', Other KeywordSwitch), (''trait'', Other KeywordTrait),
      (''True'', KValue KeywordTrue), (''try'', Handling KeywordTry),
      (''type'', Declaration KeywordType), (''unit'', Other KeywordUnit),
      (''unsafe'', Memory KeywordUnsafe), (''use'', Other KeywordUse),
      (''virtual'', Oop KeywordVirtual), (''volatile'', Other KeywordVolatile),
      (''where'', Other KeywordWhere), (''while'', Control KeywordWhile),
      (''yield'', Control KeywordYield)]"

definition keymaps :: "string \<rightharpoonup> token_type" where
  "keymaps = map_of keymaps_table"

definition keywordsControlFlows :: "token_type list" where
  "keywordsControlFlows =
     [Control KeywordBreak, Control KeywordContinue, Control KeywordElse, Control KeywordElif,
      Control KeywordFor, Control KeywordIf, Control KeywordMatch, Control KeywordReturn,
      Control KeywordWhile, Control KeywordYield]"

definition keywordsDeclarations :: "token_type list" where
  "keywordsDeclarations =
     [Declaration KeywordClass, Declaration KeywordConstant, Declaration KeywordEnum,
      Declaration KeywordExtern, Declaration KeywordFrom, Declaration KeywordFunction,
      Declaration KeywordImplements, Declaration KeywordImport, Declaration KeywordInterface,
      Declaration KeywordMutable, Declaration KeywordPackage, Declaration KeywordStatic,
      Declaration KeywordStruct, Declaration KeywordType]"

definition keywordsAccessModifiers :: "token_type list" where
  "keywordsAccessModifiers =
     [Access KeywordPrivate, Access KeywordProtect, Access KeywordPublic]"

definition keywordsOOPs :: "token_type list" where
  "keywordsOOPs =
     [Oop KeywordAbstract, Oop KeywordDelete, Oop KeywordExtends, Oop KeywordFinal, Oop KeywordNative,
      Oop KeywordNew, Oop KeywordOverride, Oop KeywordParent, Oop KeywordProperty, Oop KeywordReadonly,
      Oop KeywordSelf, Oop KeywordVirtual]"

definition keywordsMemorySafetys :: "token_type list" where
  "keywordsMemorySafetys =
     [Memory KeywordMove, Memory KeywordOwn, Memory KeywordReference, Memory KeywordUnsafe]"

definition keywordsLogics :: "token_type list" where
  "keywordsLogics =
     [Logic KeywordAnd, Logic KeywordNot, Logic KeywordOr]"

definition keywordsValues :: "token_type list" where
  "keywordsValues =
     [KValue KeywordFalse, KValue KeywordNone, KValue KeywordTrue]"

definition keywordsErrorHandling :: "token_type list" where
  "keywordsErrorHandling =
     [Handling KeywordExcept, Handling KeywordFinally, Handling KeywordRaise, Handling KeywordRaises,
      Handling KeywordTry]"

definition keywordsOthers :: "token_type list" where
  "keywordsOthers =
     [Other KeywordAs, Other KeywordAssembly, Other KeywordAsync, Other KeywordAwait,
      Other KeywordBacked, Other KeywordCase, Other KeywordDefer, KeywordExport, Other KeywordIn,
      Other KeywordInstanceOf, Other KeywordIs, Other KeywordLambda, Other KeywordPass,
      Other KeywordSubclassOf, Other KeywordSwitch, Other KeywordTrait, Other KeywordUnit,
      Other KeywordUse, Other KeywordVolatile, Other KeywordWhere]"

definition literals :: "token_type list" where
  "literals =
     [Literal LiteralChar, Literal LiteralFloat, Literal LiteralInteger, Literal LiteralString]"

definition operatorsArithmetics :: "token_type list" where
  "operatorsArithmetics =
     [Arithmetic Decrement, Arithmetic Increment, Arithmetic Minus, Arithmetic Percent,
      Arithmetic Plus, Arithmetic Power, Arithmetic Slash, Arithmetic Star]"

definition operatorsBitwises :: "token_type list" where
  "operatorsBitwises =
     [Bitwise Ampersand, Bitwise Caret, Bitwise Pipe, Bitwise ShiftLeft, Bitwise ShiftRight,
      Bitwise Tilde]"

definition operatorsComparisons :: "token_type list" where
  "operatorsComparisons =
     [Comparison Equal, Comparison GreaterThan, Comparison GreaterThanEqual, Comparison LessThan,
      Comparison LessThanEqual, Comparison NotEqual]"

definition operatorsAssignments :: "token_type list" where
  "operatorsAssignments =
     [Assigning AmpersandAssignment, Assigning Assignment, Assigning CaretAssignment,
      Assigning MinusAssignment, Assigning PercentAssignment, Assigning PipeAssignment,
      Assigning PlusAssignment, Assigning ShiftLeftAssignment, Assigning ShiftRightAssignment,
      Assigning SlashAssignment, Assigning StarAssignment]"

definition punctuations :: "token_type list" where
  "punctuations =
     [Punctuation Arrow, Punctuation At, Punctuation Bang, Punctuation Colon, Punctuation Comma,
      Punctuation Dot, Punctuation DoubleColon, Punctuation DoubleDot, Punctuation Ellipsis,
      Punctuation FatArrow, Punctuation Hash, Punctuation Question, Punctuation Semicolon]"

definition delimiters :: "token_type list" where
  "delimiters =
     [Delimiter LeftBrace, Delimiter LeftBracket, Delimiter LeftParenthesis, Delimiter RightBrace,
      Delimiter RightBracket, Delimiter RightParenthesis]"

definition indentations :: "token_type list" where
  "indentations =
     [Layout Dedent, Layout Indent, Layout Newline]"

definition specials :: "token_type list" where
  "specials =
     [Special Eof, Special Error]"

section \<open>Printing\<close>

definition toString_table :: "(token_type \<times> string) list" where
  "toString_table =
     [(Bitwise Ampersand, ''&''), (Assigning AmpersandAssignment, ''&=''), (Punctuation Arrow, ''->''),
      (Assigning Assignment, ''=''), (Punctuation At, ''@''), (Punctuation Bang, ''!''),
      (Bitwise Caret, ''^''), (Assigning CaretAssignment, ''^=''), (Punctuation Colon, '':''),
      (Punctuation Comma, '',''), (Arithmetic Decrement, ''--''), (Layout Dedent, ''DEDENT''),
      (Punctuation Dot, ''.''), (Punctuation DoubleColon, ''::''), (Punctuation DoubleDot, ''..''),
      (Punctuation Ellipsis, ''...''), (Special Eof, ''EOF''), (Comparison Equal, ''==''),
      (Special Error, ''ERROR''), (Punctuation FatArrow, ''=>''), (Comparison GreaterThan, ''>''),
      (Comparison GreaterThanEqual, ''>=''), (Punctuation Hash, ''#''), (Identifier, ''identifier''),
      (Arithmetic Increment, ''++''), (Layout Indent, ''INDENT''), (Oop KeywordAbstract, ''abstract''),
      (Logic KeywordAnd, ''and''), (Other KeywordAs, ''as''), (Other KeywordAssembly, ''asm''),
      (Other KeywordAsync, ''async''), (Other KeywordAwait, ''await''),
      (Other KeywordBacked, ''backed''), (Control KeywordBreak, ''break''),
      (Other KeywordCase, ''case''), (Declaration KeywordClass, ''class''),
      (Declaration KeywordConstant, ''const''), (Control KeywordContinue, ''continue''),
      (Other KeywordDefer, ''defer''), (Oop KeywordDelete, ''delete''),
      (Control KeywordElse, ''else''), (Control KeywordElif, ''elif''),
      (Declaration KeywordEnum, ''enum''), (Handling KeywordExcept, ''except''),
      (KeywordExport, ''export''), (Oop KeywordExtends, ''extends''),
      (Declaration KeywordExtern, ''extern''), (KValue KeywordFalse, ''false''),
      (Oop KeywordFinal, ''final''), (Handling KeywordFinally, ''finally''),
      (Control KeywordFor, ''for''), (Declaration KeywordFrom, ''from''),
      (Declaration KeywordFunction, ''function''), (Control KeywordIf, ''if''),
      (Declaration KeywordImplements, ''implements''), (Declaration KeywordImport, ''import''),
      (Other KeywordIn, ''in''), (Other KeywordInstanceOf, ''instanceof''),
      (Declaration KeywordInterface, ''interface''), (Other KeywordIs, ''is''),
      (Other KeywordLambda, ''lambda''), (Control KeywordMatch, ''match''),
      (Memory KeywordMove, ''move''), (Declaration KeywordMutable, ''mut''),
      (Oop KeywordNative, ''native''), (Oop KeywordNew, ''new''), (KValue KeywordNone, ''none''),
      (Logic KeywordNot, ''not''), (Logic KeywordOr, ''or''), (Oop KeywordOverride, ''override''),
      (Memory KeywordOwn, ''own''), (Declaration KeywordPackage, ''package''),
      (Oop KeywordParent, ''parent''), (Other KeywordPass, ''pass''),
      (Access KeywordPrivate, ''private''), (Oop KeywordProperty, ''property''),
      (Access KeywordProtect, ''protect''), (Access KeywordPublic, ''public''),
      (Handling KeywordRaise, ''raise''), (Handling KeywordRaises, ''raises''),
      (Oop KeywordReadonly, ''readonly''), (Memory KeywordReference, ''ref''),
      (Control KeywordReturn, ''return''), (Oop KeywordSelf, ''self''),
      (Declaration KeywordStatic, ''static''), (Declaration KeywordStruct, ''struct''),
      (Other KeywordSubclassOf, ''subclassof''), (Other KeywordSwitch, ''switch''),
      (Other KeywordTrait, ''trait''), (KValue KeywordTrue, ''true''), (Handling KeywordTry, ''try''),
      (Declaration KeywordType, ''type''), (Other KeywordUnit, ''unit''),
      (Memory KeywordAddressof, ''addressof''), (Memory KeywordUnsafe, ''unsafe''),
      (Other KeywordUse, ''use''), (Oop KeywordVirtual, ''virtual''),
      (Other KeywordVolatile, ''volatile''), (Other KeywordWhere, ''where''),
      (Control KeywordWhile, ''while''), (Control KeywordYield, ''yield''),
      (Delimiter LeftBrace, ''{''), (Delimiter LeftBracket, ''[''), (Delimiter LeftParenthesis, ''(''),
      (Comparison LessThan, ''<''), (Comparison LessThanEqual, ''<=''),
      (Literal LiteralChar, ''char_literal''), (Literal LiteralFloat, ''float''),
      (Literal LiteralInteger, ''integer''), (Literal LiteralRegex, ''regex''),
      (Literal LiteralString, ''string''), (Arithmetic Minus, ''-''),
      (Assigning MinusAssignment, ''-=''), (Layout Newline, ''NEWLINE''),
      (Comparison NotEqual, ''!=''), (Arithmetic Percent, ''%''),
      (Assigning PercentAssignment, ''%=''), (Bitwise Pipe, ''|''), (Assigning PipeAssignment, ''|=''),
      (Arithmetic Plus, ''+''), (Assigning PlusAssignment, ''+=''), (Arithmetic Power, ''**''),
      (Punctuation Question, ''?''), (Delimiter RightBrace, ''}''), (Delimiter RightBracket, '']''),
      (Delimiter RightParenthesis, '')''), (Punctuation Semicolon, '';''), (Bitwise ShiftLeft, ''<<''),
      (Assigning ShiftLeftAssignment, ''<<=''), (Bitwise ShiftRight, ''>>''),
      (Assigning ShiftRightAssignment, ''>>=''), (Arithmetic Slash, ''/''),
      (Assigning SlashAssignment, ''/=''), (Arithmetic Star, ''*''),
      (Assigning StarAssignment, ''*=''), (Bitwise Tilde, ''~'')]"

definition toString :: "token_type \<Rightarrow> string" where
  "toString t = (case map_of toString_table t of Some s \<Rightarrow> s | None \<Rightarrow> ''Unspecified'')"

section \<open>Tokens\<close>

record Token =
  ttype :: token_type
  tsource :: Source
  tvalue :: string

definition default_token :: Token where
  "default_token = \<lparr>ttype = Special Eof, tsource = default_source, tvalue = ''''\<rparr>"

definition mk_token :: "token_type \<Rightarrow> Source \<Rightarrow> string \<Rightarrow> Token" where
  "mk_token t s v = \<lparr>ttype = t, tsource = s, tvalue = v\<rparr>"

lemma mk_token_sel [simp]:
  "ttype (mk_token t s v) = t" "tsource (mk_token t s v) = s" "tvalue (mk_token t s v) = v"
  by (simp_all add: mk_token_def)

definition is_type :: "Token \<Rightarrow> token_type \<Rightarrow> bool" where
  "is_type tok t \<longleftrightarrow> ttype tok = t"

definition is_not_type :: "Token \<Rightarrow> token_type \<Rightarrow> bool" where
  "is_not_type tok t \<longleftrightarrow> ttype tok \<noteq> t"

text \<open>The variadic \<^verbatim>\<open>isOneOf\<close>: the last two types are the base case.\<close>

fun isOneOf :: "Token \<Rightarrow> token_type list \<Rightarrow> bool" where
  "isOneOf tok [] = False"
| "isOneOf tok (t # ts) = (is_type tok t \<or> isOneOf tok ts)"

definition ordinal :: "token_type \<Rightarrow> nat" where
  "ordinal t = length (takeWhile (\<lambda>u. u \<noteq> t) all_types)"

definition in_range :: "token_type \<Rightarrow> token_type \<Rightarrow> token_type \<Rightarrow> bool" where
  "in_range lo hi t \<longleftrightarrow> ordinal lo \<le> ordinal t \<and> ordinal t \<le> ordinal hi"

definition isKeyword :: "token_type \<Rightarrow> bool" where
  "isKeyword t \<longleftrightarrow> in_range (Control KeywordBreak) KeywordExport t"

definition isLiteral :: "token_type \<Rightarrow> bool" where
  "isLiteral t \<longleftrightarrow> in_range (Literal LiteralChar) (Literal LiteralString) t"

definition isOperator :: "token_type \<Rightarrow> bool" where
  "isOperator t \<longleftrightarrow> in_range (Arithmetic Decrement) (Assigning StarAssignment) t"

definition isAssignment :: "token_type \<Rightarrow> bool" where
  "isAssignment t \<longleftrightarrow> in_range (Assigning Assignment) (Assigning StarAssignment) t"

definition isComparisonOp :: "token_type \<Rightarrow> bool" where
  "isComparisonOp t \<longleftrightarrow> in_range (Comparison Equal) (Comparison NotEqual) t"

definition isAccessModifier :: "token_type \<Rightarrow> bool" where
  "isAccessModifier t \<longleftrightarrow> in_range (Access KeywordPrivate) (Access KeywordPublic) t"

section \<open>The classification is consistent\<close>

lemma all_types_complete: "t \<in> set all_types"
proof (cases t)
  case (Control k) then show ?thesis by (cases k) (simp_all add: all_types_def)
next
  case (Declaration k) then show ?thesis by (cases k) (simp_all add: all_types_def)
next
  case (Access k) then show ?thesis by (cases k) (simp_all add: all_types_def)
next
  case (Oop k) then show ?thesis by (cases k) (simp_all add: all_types_def)
next
  case (Memory k) then show ?thesis by (cases k) (simp_all add: all_types_def)
next
  case (Logic k) then show ?thesis by (cases k) (simp_all add: all_types_def)
next
  case (KValue k) then show ?thesis by (cases k) (simp_all add: all_types_def)
next
  case (Handling k) then show ?thesis by (cases k) (simp_all add: all_types_def)
next
  case (Other k) then show ?thesis by (cases k) (simp_all add: all_types_def)
next
  case (Literal k) then show ?thesis by (cases k) (simp_all add: all_types_def)
next
  case (Arithmetic k) then show ?thesis by (cases k) (simp_all add: all_types_def)
next
  case (Bitwise k) then show ?thesis by (cases k) (simp_all add: all_types_def)
next
  case (Comparison k) then show ?thesis by (cases k) (simp_all add: all_types_def)
next
  case (Assigning k) then show ?thesis by (cases k) (simp_all add: all_types_def)
next
  case (Punctuation k) then show ?thesis by (cases k) (simp_all add: all_types_def)
next
  case (Delimiter k) then show ?thesis by (cases k) (simp_all add: all_types_def)
next
  case (Layout k) then show ?thesis by (cases k) (simp_all add: all_types_def)
next
  case (Special k) then show ?thesis by (cases k) (simp_all add: all_types_def)
qed (simp_all add: all_types_def)

text \<open>A decidable statement about every token type is checked on the list of all of them.\<close>

lemma by_all_types: "list_all P all_types \<Longrightarrow> P t"
  using all_types_complete by (auto simp: list_all_iff)

lemma distinct_all_types: "distinct all_types"
  by code_simp

lemma length_all_types: "length all_types = 136"
  by (simp add: all_types_def)

lemma takeWhile_distinct_nth:
  "distinct xs \<Longrightarrow> i < length xs \<Longrightarrow> takeWhile (\<lambda>u. u \<noteq> xs ! i) xs = take i xs"
proof (induction xs arbitrary: i)
  case (Cons x xs)
  then show ?case by (cases i) auto
qed simp

lemma ordinal_nth: "i < 136 \<Longrightarrow> ordinal (all_types ! i) = i"
  by (simp add: ordinal_def takeWhile_distinct_nth distinct_all_types length_all_types)

lemma in_range_slice:
  assumes "lo = all_types ! a" and "hi = all_types ! b" and "a < 136" and "b < 136"
  shows "in_range lo hi t \<longleftrightarrow> t \<in> set (take (Suc b - a) (drop a all_types))"
proof -
  obtain i where i: "i < 136" "t = all_types ! i"
    using all_types_complete [of t] by (auto simp: in_set_conv_nth length_all_types)
  have "t \<in> set (take (Suc b - a) (drop a all_types)) \<longleftrightarrow> (\<exists>j<Suc b - a. a + j < 136 \<and> all_types ! (a + j) = t)"
    using assms(3,4) by (auto simp: in_set_conv_nth length_all_types)
  also have "\<dots> \<longleftrightarrow> (\<exists>j<Suc b - a. a + j = i)"
    using i assms(4) by (auto simp: nth_eq_iff_index_eq [OF distinct_all_types] length_all_types)
  also have "\<dots> \<longleftrightarrow> a \<le> i \<and> i \<le> b"
    by (auto intro: exI [of _ "i - a"])
  finally show ?thesis
    using assms i by (simp add: in_range_def ordinal_nth)
qed

lemma isKeyword_slice: "isKeyword t \<longleftrightarrow> t \<in> set (take 75 all_types)"
  unfolding isKeyword_def
  by (subst in_range_slice [where a = 0 and b = 74]) (simp_all add: all_types_def)

lemma isLiteral_slice: "isLiteral t \<longleftrightarrow> t \<in> set (take 5 (drop 75 all_types))"
  unfolding isLiteral_def
  by (subst in_range_slice [where a = 75 and b = 79]) (simp_all add: all_types_def)

lemma isOperator_slice: "isOperator t \<longleftrightarrow> t \<in> set (take 31 (drop 81 all_types))"
  unfolding isOperator_def
  by (subst in_range_slice [where a = 81 and b = 111]) (simp_all add: all_types_def)

lemma isAssignment_slice: "isAssignment t \<longleftrightarrow> t \<in> set (take 10 (drop 102 all_types))"
  unfolding isAssignment_def
  by (subst in_range_slice [where a = 102 and b = 111]) (simp_all add: all_types_def)

lemma isComparisonOp_slice: "isComparisonOp t \<longleftrightarrow> t \<in> set (take 6 (drop 95 all_types))"
  unfolding isComparisonOp_def
  by (subst in_range_slice [where a = 95 and b = 100]) (simp_all add: all_types_def)

lemma isAccessModifier_slice: "isAccessModifier t \<longleftrightarrow> t \<in> set (take 3 (drop 24 all_types))"
  unfolding isAccessModifier_def
  by (subst in_range_slice [where a = 24 and b = 26]) (simp_all add: all_types_def)

lemma distinct_keymaps: "distinct (map fst keymaps_table)"
  by code_simp

lemma keymaps_iff: "keymaps s = Some t \<longleftrightarrow> (s, t) \<in> set keymaps_table"
  by (simp add: keymaps_def distinct_keymaps)

lemma keymaps_types: "set (map snd keymaps_table) = set (take 75 all_types)"
  by (simp add: keymaps_table_def all_types_def insert_commute)

text \<open>
  The keyword range of the enumeration and the keyword registry agree: a token type lies
  between the first and the last keyword of the enumeration exactly when some spelling is
  registered for it, so every keyword can be lexed and nothing but keywords is in the registry.
\<close>

lemma keyword_registry: "isKeyword t \<longleftrightarrow> (\<exists>s. keymaps s = Some t)"
proof -
  have "(\<exists>s. keymaps s = Some t) \<longleftrightarrow> t \<in> set (map snd keymaps_table)"
    by (force simp: keymaps_iff)
  then show ?thesis by (simp only: keymaps_types isKeyword_slice)
qed

text \<open>
  Printing and lexing of keywords are inverse except for four types: for every keyword type
  but these the printed name is the registered spelling; \<open>KeywordReference\<close>, \<open>KeywordTrue\<close>,
  \<open>KeywordFalse\<close> and \<open>KeywordNone\<close> print as \<open>ref\<close>, \<open>true\<close>, \<open>false\<close> and \<open>none\<close>,
  which the registry does not know (it has \<open>reference\<close>, \<open>True\<close>, \<open>False\<close>, \<open>None\<close>).
\<close>

lemma misprinted: "list_all (\<lambda>t. keymaps (toString t) = None)
    [Memory KeywordReference, KValue KeywordTrue, KValue KeywordFalse, KValue KeywordNone]"
  by code_simp

lemma printed: "list_all (\<lambda>t. t \<in> set [Memory KeywordReference, KValue KeywordTrue, KValue KeywordFalse, KValue KeywordNone]
     \<or> map_of (map prod.swap keymaps_table) t = Some (toString t)) (take 75 all_types)"
  by code_simp

lemma keyword_printing:
  "list_all (\<lambda>t. keymaps (toString t) =
      (if t \<in> {Memory KeywordReference, KValue KeywordTrue, KValue KeywordFalse, KValue KeywordNone}
       then None else Some t)) (filter isKeyword all_types)"
proof -
  have "keymaps (toString t) = Some t" if "map_of (map prod.swap keymaps_table) t = Some (toString t)" for t
    using map_of_SomeD [OF that] by (auto simp: keymaps_iff)
  then show ?thesis
    using misprinted printed by (auto simp: list_all_iff isKeyword_slice)
qed

lemmas category_vectors =
  operatorsArithmetics_def operatorsBitwises_def operatorsComparisons_def operatorsAssignments_def
  keywordsControlFlows_def keywordsDeclarations_def keywordsAccessModifiers_def keywordsOOPs_def
  keywordsMemorySafetys_def keywordsLogics_def keywordsValues_def keywordsErrorHandling_def
  keywordsOthers_def literals_def

lemma slice_operators:
  "set (take 31 (drop 81 all_types)) =
     set (operatorsArithmetics @ operatorsBitwises @ operatorsComparisons @ operatorsAssignments)"
  by (simp add: all_types_def category_vectors insert_commute)

lemma slice_keywords:
  "set (take 75 all_types) = set (Memory KeywordAddressof # keywordsControlFlows @ keywordsDeclarations
     @ keywordsAccessModifiers @ keywordsOOPs @ keywordsMemorySafetys @ keywordsLogics
     @ keywordsValues @ keywordsErrorHandling @ keywordsOthers)"
  by (simp add: all_types_def category_vectors insert_commute)

lemma slice_small:
  "set (take 10 (drop 102 all_types)) = set operatorsAssignments - {Assigning AmpersandAssignment}"
  "set (take 6 (drop 95 all_types)) = set operatorsComparisons"
  "set (take 3 (drop 24 all_types)) = set keywordsAccessModifiers"
  "set (take 5 (drop 75 all_types)) = set (Literal LiteralRegex # literals)"
  by (auto simp: all_types_def category_vectors)

text \<open>
  The range tests and the category vectors agree up to three omissions: operators,
  comparisons and access modifiers are exactly the members of their vectors; every keyword is
  in one of the keyword vectors or is \<open>KeywordAddressof\<close>; the literals are the members of
  \<open>literals\<close> together with \<open>LiteralRegex\<close>; and \<open>isAssignment\<close> accepts the assignment operators
  but \<open>AmpersandAssignment\<close>, which the enumeration declares before \<open>Assignment\<close>.
\<close>

lemma token_classes_agree:
  "(isOperator t \<longleftrightarrow> t \<in> set (operatorsArithmetics @ operatorsBitwises @ operatorsComparisons @ operatorsAssignments))
   \<and> (isAssignment t \<longleftrightarrow> t \<in> set operatorsAssignments - {Assigning AmpersandAssignment})
   \<and> (isComparisonOp t \<longleftrightarrow> t \<in> set operatorsComparisons)
   \<and> (isAccessModifier t \<longleftrightarrow> t \<in> set keywordsAccessModifiers)
   \<and> (isKeyword t \<longleftrightarrow> t \<in> set (Memory KeywordAddressof # keywordsControlFlows @ keywordsDeclarations
          @ keywordsAccessModifiers @ keywordsOOPs @ keywordsMemorySafetys @ keywordsLogics
          @ keywordsValues @ keywordsErrorHandling @ keywordsOthers))
   \<and> (isLiteral t \<longleftrightarrow> t \<in> set (Literal LiteralRegex # literals))"
  by (simp only: isOperator_slice isAssignment_slice isComparisonOp_slice isAccessModifier_slice
      isKeyword_slice isLiteral_slice slice_operators slice_keywords slice_small simp_thms)

end
