(* ===== verification/Lexer.thy ===== *)
theory Lexer
  imports Tokens
begin

text \<open>
  The lexer: \<^verbatim>\<open>src/uranite/lexer/lexer.hpp\<close> and \<^verbatim>\<open>lexer.cpp\<close>. The class is the record
  \<open>Lexer\<close>, each member function a function on it. The vector of tokens grows at its end; the
  indentation stack is a list with its top first. Loops over the source are recursive functions that
  terminate because the position moves towards the end of the source; \<open>tokenize\<close> is total.
  An exception (the diagnostic limit, or \<^verbatim>\<open>std::invalid_argument\<close> from \<^verbatim>\<open>std::stoi\<close>)
  is the left summand, with the lexer as it was left. Reading \<^verbatim>\<open>source[position]\<close> at the end of the
  source yields the terminating NUL of \<^verbatim>\<open>std::string\<close>.
\<close>

section \<open>State\<close>

record Lexer =
  source :: string
  lfilename :: string
  lfilepath :: string
  position :: nat
  line :: uint32
  column :: uint32
  lines :: "string list"
  atLineStart :: bool
  indentStack :: "int list"
  parenDepth :: int
  tokens :: "Token list"
  diagnostic :: Engine

datatype (plugins only: code size) lex_exception = Lex_Limit | Lex_InvalidArgument

type_synonym 'a lex = "(lex_exception \<times> Lexer) + 'a"

text \<open>\<^verbatim>\<open>std::filesystem::path::parent_path\<close> of a path with \<open>/\<close> separators.\<close>

definition parent_path :: "string \<Rightarrow> string" where
  "parent_path p =
     (let slashed = drop_trailing (- {CHR ''/''}) p; up = drop_trailing {CHR ''/''} slashed in
      if up = '''' then take 1 slashed else up)"

definition new_Lexer :: "string \<Rightarrow> string \<Rightarrow> Engine \<Rightarrow> Lexer" where
  "new_Lexer src file engine =
     \<lparr>source = src, lfilename = file, lfilepath = parent_path file, position = 0, line = 1, column = 1, lines = [],
      atLineStart = True, indentStack = [0], parenDepth = 0, tokens = [], diagnostic = engine\<rparr>"

text \<open>\<^verbatim>\<open>sourceLines()\<close>; no operation below ever writes the field \<open>lines\<close>.\<close>

definition Lexer_sourceLines :: "Lexer \<Rightarrow> string list" where
  "Lexer_sourceLines s = lines s"

section \<open>Reading characters\<close>

definition isAtEnd :: "Lexer \<Rightarrow> bool" where
  "isAtEnd s \<longleftrightarrow> length (source s) \<le> position s"

definition char_at :: "string \<Rightarrow> nat \<Rightarrow> char" where
  "char_at str i = (if i < length str then str ! i else NUL)"

definition advance :: "Lexer \<Rightarrow> char \<times> Lexer" where
  "advance s =
     (let c = char_at (source s) (position s); s1 = s\<lparr>position := position s + 1\<rparr> in
      if c = NL then (c, s1\<lparr>line := line s1 + 1, column := 1\<rparr>)
      else (c, s1\<lparr>column := column s1 + 1\<rparr>))"

abbreviation adv :: "Lexer \<Rightarrow> Lexer" where "adv s \<equiv> snd (advance s)"

definition current :: "Lexer \<Rightarrow> char" where
  "current s = (if isAtEnd s then NUL else source s ! position s)"

definition peek :: "nat \<Rightarrow> Lexer \<Rightarrow> char" where
  "peek k s = char_at (source s) (position s + k)"

definition match_char :: "char \<Rightarrow> Lexer \<Rightarrow> bool \<times> Lexer" where
  "match_char c s = (if isAtEnd s \<or> source s ! position s \<noteq> c then (False, s) else (True, adv s))"

definition currentSource :: "Lexer \<Rightarrow> Source" where
  "currentSource s =
     \<lparr>filename = lfilename s, location = \<lparr>loc_column = column s, loc_line = line s\<rparr>,
      pathname = lfilepath s, srange = default_range\<rparr>"

definition push :: "token_type \<Rightarrow> Source \<Rightarrow> string \<Rightarrow> Lexer \<Rightarrow> Lexer" where
  "push t src v s = s\<lparr>tokens := tokens s @ [mk_token t src v]\<rparr>"

text \<open>A call of the diagnostic engine: the engine is shared, so its state is kept on a throw.\<close>

definition report :: "(Engine \<Rightarrow> (diagnostic_exception \<times> Engine) + Engine) \<Rightarrow> Lexer \<Rightarrow> Lexer lex" where
  "report f s =
     (case f (diagnostic s) of
        Inl (x, e) \<Rightarrow> Inl (Lex_Limit, s\<lparr>diagnostic := e\<rparr>)
      | Inr e \<Rightarrow> Inr (s\<lparr>diagnostic := e\<rparr>))"

lemma advance_frame [simp]:
  "source (adv s) = source s" "lfilename (adv s) = lfilename s" "lfilepath (adv s) = lfilepath s"
  "lines (adv s) = lines s" "position (adv s) = Suc (position s)" "atLineStart (adv s) = atLineStart s"
  "indentStack (adv s) = indentStack s" "parenDepth (adv s) = parenDepth s"
  "tokens (adv s) = tokens s" "diagnostic (adv s) = diagnostic s"
  by (simp_all add: advance_def Let_def)

lemma fst_advance [simp]: "fst (advance s) = char_at (source s) (position s)"
  by (simp add: advance_def Let_def)

text \<open>
  The scanning loops \<^verbatim>\<open>while( isAtEnd() == false && P( current() ) ) { if keep: value+= current(); advance(); }\<close>.
\<close>

function scan_while :: "(char \<Rightarrow> bool) \<Rightarrow> (char \<Rightarrow> bool) \<Rightarrow> string \<Rightarrow> Lexer \<Rightarrow> string \<times> Lexer" where
  "scan_while P keep acc s =
     (if \<not> isAtEnd s \<and> P (current s)
      then scan_while P keep (if keep (current s) then acc @ [current s] else acc) (adv s)
      else (acc, s))"
  by pat_completeness auto
termination
  by (relation "measure (\<lambda>(P, keep, acc, s). length (source s) - position s)") (auto simp: isAtEnd_def)

declare scan_while.simps [simp del]

abbreviation skip_while :: "(char \<Rightarrow> bool) \<Rightarrow> Lexer \<Rightarrow> Lexer" where
  "skip_while P s \<equiv> snd (scan_while P (\<lambda>_. False) [] s)"

text \<open>The loop \<^verbatim>\<open>for( int i = 0; i < 2 && isAtEnd() == false && isxdigit( current() ); i++ )\<close>.\<close>

fun scan_hex :: "nat \<Rightarrow> string \<Rightarrow> Lexer \<Rightarrow> string \<times> Lexer" where
  "scan_hex 0 acc s = (acc, s)"
| "scan_hex (Suc n) acc s =
     (if \<not> isAtEnd s \<and> isxdigit (current s) then scan_hex n (acc @ [current s]) (adv s) else (acc, s))"

definition hex_digit :: "char \<Rightarrow> nat" where
  "hex_digit c = (if isdigit c then code c - 48 else if code c \<le> 70 then code c - 55 else code c - 87)"

text \<open>\<^verbatim>\<open>static_cast<char>( std::stoi( s, nullptr, 16 ) )\<close> for at most two hexadecimal digits.\<close>

definition hex_char :: "string \<Rightarrow> char" where
  "hex_char s = char_of (foldl (\<lambda>n c. 16 * n + hex_digit c) 0 s)"

section \<open>Indentation\<close>

text \<open>The loop that measures the leading white space: a tab counts for four.\<close>

function count_indent :: "int \<Rightarrow> Lexer \<Rightarrow> int \<times> Lexer" where
  "count_indent n s =
     (if \<not> isAtEnd s \<and> (current s = CHR '' '' \<or> current s = TAB)
      then count_indent (if current s = TAB then n + 4 else n + 1) (adv s)
      else (n, s))"
  by pat_completeness auto
termination
  by (relation "measure (\<lambda>(n, s). length (source s) - position s)") (auto simp: isAtEnd_def)

declare count_indent.simps [simp del]

definition skipLineComment :: "Lexer \<Rightarrow> Lexer" where
  "skipLineComment s = skip_while (\<lambda>c. c \<noteq> NL) s"

text \<open>The loop \<^verbatim>\<open>while( spaceCount < indentStack.top() )\<close> that pops and emits DEDENT.\<close>

fun dedent_loop :: "int \<Rightarrow> int list \<Rightarrow> Lexer \<Rightarrow> Lexer" where
  "dedent_loop n [] s = s\<lparr>indentStack := []\<rparr>"
| "dedent_loop n (lv # rest) s =
     (if n < lv then dedent_loop n rest (push (Layout Dedent) (currentSource s) ''DEDENT'' s)
      else s\<lparr>indentStack := lv # rest\<rparr>)"

definition handleIndentation :: "Lexer \<Rightarrow> Lexer lex" where
  "handleIndentation s0 =
     (let (spaceCount, s) = count_indent 0 s0 in
      if isAtEnd s \<or> current s = NL then Inr s
      else if current s = CHR ''#'' then Inr (skipLineComment s)
      else let previousIndent = hd (indentStack s) in
        bindr
          (if previousIndent < spaceCount
           then Inr (push (Layout Indent) (currentSource s) ''INDENT''
                       (s\<lparr>indentStack := spaceCount # indentStack s\<rparr>))
           else let s1 = dedent_loop spaceCount (indentStack s) s in
             if spaceCount \<noteq> hd (indentStack s1)
             then report (emit_error (currentSource s1) ''inconsistent indentation''
                            ''indentation does not match any outer level'') s1
             else Inr s1)
          (\<lambda>s2. Inr (s2\<lparr>atLineStart := False\<rparr>)))"

section \<open>Comments\<close>

function block_comment_loop :: "nat \<Rightarrow> Lexer \<Rightarrow> Lexer" where
  "block_comment_loop nestingDepth s =
     (if \<not> isAtEnd s \<and> 0 < nestingDepth
      then if current s = CHR ''#'' \<and> peek 1 s = CHR ''{''
           then block_comment_loop (nestingDepth + 1) (adv (adv s))
           else if current s = CHR ''}'' \<and> peek 1 s = CHR ''#''
           then block_comment_loop (nestingDepth - 1) (adv (adv s))
           else block_comment_loop nestingDepth (adv s)
      else s)"
  by pat_completeness auto
termination
  by (relation "measure (\<lambda>(n, s). length (source s) - position s)") (auto simp: isAtEnd_def)

declare block_comment_loop.simps [simp del]

definition skipBlockComment :: "Lexer \<Rightarrow> Lexer" where
  "skipBlockComment s = block_comment_loop 1 (adv s)"

function triple_quote_loop :: "char \<Rightarrow> Lexer \<Rightarrow> Lexer" where
  "triple_quote_loop q s =
     (if isAtEnd s then s
      else if current s = q \<and> peek 1 s = q \<and> peek 2 s = q then adv (adv (adv s))
      else triple_quote_loop q (adv s))"
  by pat_completeness auto
termination
  by (relation "measure (\<lambda>(q, s). length (source s) - position s)") (auto simp: isAtEnd_def)

declare triple_quote_loop.simps [simp del]

definition skipTripleQuoteComment :: "char \<Rightarrow> Lexer \<Rightarrow> Lexer" where
  "skipTripleQuoteComment q s = triple_quote_loop q (adv (adv (adv s)))"

section \<open>Literals and words\<close>

definition readIdentifierOrKeyword :: "Lexer \<Rightarrow> Token \<times> Lexer" where
  "readIdentifierOrKeyword s =
     (let src = currentSource s; (v, s1) = scan_while (\<lambda>c. isalnum c \<or> c = CHR ''_'') (\<lambda>_. True) [] s in
      case keymaps v of
        Some t \<Rightarrow> (mk_token t src v, s1)
      | None \<Rightarrow> (mk_token Identifier src v, s1))"

text \<open>The digits of one run: underscores separate and are dropped.\<close>

abbreviation scan_digits :: "(char \<Rightarrow> bool) \<Rightarrow> string \<Rightarrow> Lexer \<Rightarrow> string \<times> Lexer" where
  "scan_digits P acc s \<equiv> scan_while (\<lambda>c. P c \<or> c = CHR ''_'') (\<lambda>c. c \<noteq> CHR ''_'') acc s"

definition read_prefixed :: "(char \<Rightarrow> bool) \<Rightarrow> Lexer \<Rightarrow> Token \<times> Lexer" where
  "read_prefixed P s =
     (let src = currentSource s; s1 = adv s; s2 = adv s1;
          (v, s3) = scan_digits P [current s, current s1] s2
      in (mk_token (Literal LiteralInteger) src v, s3))"

text \<open>The three optional parts of a decimal number: each takes what was read before it.\<close>

definition read_fraction :: "string \<Rightarrow> Lexer \<Rightarrow> bool \<times> string \<times> Lexer" where
  "read_fraction v s =
     (if current s = CHR ''.'' \<and> isdigit (peek 1 s)
      then (True, scan_digits isdigit (v @ [current s]) (adv s))
      else (False, v, s))"

definition read_exponent :: "bool \<Rightarrow> string \<Rightarrow> Lexer \<Rightarrow> bool \<times> string \<times> Lexer" where
  "read_exponent isFloatingPoint v s =
     (if current s = CHR ''E'' \<or> current s = CHR ''e''
      then let v1 = v @ [current s]; s1 = adv s in
        (True, (if current s1 = CHR ''+'' \<or> current s1 = CHR ''-''
                then scan_while isdigit (\<lambda>_. True) (v1 @ [current s1]) (adv s1)
                else scan_while isdigit (\<lambda>_. True) v1 s1))
      else (isFloatingPoint, v, s))"

definition read_suffix :: "string \<Rightarrow> Lexer \<Rightarrow> string \<times> Lexer" where
  "read_suffix v s =
     (if isalpha (current s)
      then (let (numberSuffix, s1) = scan_while isalnum (\<lambda>_. True) [] s in (v @ numberSuffix, s1))
      else (v, s))"

definition readNumber :: "Lexer \<Rightarrow> Token \<times> Lexer" where
  "readNumber s =
     (if current s = CHR ''0'' \<and> (peek 1 s = CHR ''B'' \<or> peek 1 s = CHR ''b'')
      then read_prefixed (\<lambda>c. c = CHR ''0'' \<or> c = CHR ''1'') s
      else if current s = CHR ''0'' \<and> (peek 1 s = CHR ''O'' \<or> peek 1 s = CHR ''o'')
      then read_prefixed (\<lambda>c. code (CHR ''0'') \<le> code c \<and> code c \<le> code (CHR ''7'')) s
      else if current s = CHR ''0'' \<and> (peek 1 s = CHR ''X'' \<or> peek 1 s = CHR ''x'')
      then read_prefixed isxdigit s
      else
        let src = currentSource s;
            (v1, s1) = scan_digits isdigit [] s;
            (float2, v2, s2) = read_fraction v1 s1;
            (isFloatingPoint, v3, s3) = read_exponent float2 v2 s2;
            (v4, s4) = read_suffix v3 s3
        in (mk_token (Literal (if isFloatingPoint then LiteralFloat else LiteralInteger)) src v4, s4))"

definition simple_escape :: "char \<Rightarrow> char option" where
  "simple_escape c =
     (if c = SQUOTE then Some SQUOTE
      else if c = CHR ''0'' then Some NUL
      else if c = BACKSLASH then Some BACKSLASH
      else if c = CHR ''n'' then Some NL
      else if c = CHR ''r'' then Some CR
      else if c = CHR ''t'' then Some TAB
      else None)"

text \<open>The value part of \<open>readChar\<close>: what stands between the quotes.\<close>

definition char_value :: "Lexer \<Rightarrow> (string \<times> Lexer) lex" where
  "char_value s =
     (if current s = BACKSLASH then
        let s1 = adv s in
        case simple_escape (current s1) of
          Some c \<Rightarrow> Inr ([c], adv s1)
        | None \<Rightarrow>
            if current s1 = CHR ''x'' then
              let (hexByteValue, s2) = scan_hex 2 [] (adv s1) in
              if hexByteValue \<noteq> [] then Inr ([hex_char hexByteValue], s2)
              else bindr (report (emit_error (currentSource s2)
                       (''expected hex digits after '' @ [BACKSLASH] @ ''x in character literal'') '''') s2)
                     (\<lambda>s3. Inr (''x'', s3))
            else Inr ([current s1], adv s1)
      else Inr ([current s], adv s))"

definition readChar :: "Lexer \<Rightarrow> (Token \<times> Lexer) lex" where
  "readChar s =
     (let src = currentSource s in
      bindr (char_value (adv s)) (\<lambda>(v, s1).
        if current s1 \<noteq> SQUOTE
        then bindr (report (emit_error (currentSource s1) ''unterminated character literal'' '''') s1)
               (\<lambda>s2. Inr (mk_token (Special Error) src v, s2))
        else Inr (mk_token (Literal LiteralChar) src v, adv s1)))"

text \<open>
  One escape of a string literal, from the character after the backslash. The result says what to
  append; the \<^verbatim>\<open>\x\<close> case of the source leaves by \<^verbatim>\<open>continue\<close>, past its digits, and
  \<^verbatim>\<open>std::stoi\<close> of no digits raises \<^verbatim>\<open>std::invalid_argument\<close>.
\<close>

definition string_escape :: "Lexer \<Rightarrow> (string \<times> Lexer) lex" where
  "string_escape s =
     (let c = current s in
      if c = DQUOTE then Inr ([DQUOTE], adv s)
      else case simple_escape c of
        Some d \<Rightarrow> Inr ([d], adv s)
      | None \<Rightarrow>
          if c = CHR ''x'' then
            let (hexSequence, s1) = scan_hex 2 [] (adv s) in
            if hexSequence = [] then Inl (Lex_InvalidArgument, s1) else Inr ([hex_char hexSequence], s1)
          else bindr (report (emit_warning (currentSource s)
                   (''unknown escape sequence '' @ [DQUOTE, BACKSLASH, c, DQUOTE])) s)
                 (\<lambda>s1. Inr ([c], adv s1)))"

lemma report_frame:
  assumes "report f s = Inr s'"
  shows "source s' = source s \<and> position s' = position s"
  using assms by (auto simp: report_def split: sum.splits)

lemma scan_hex_frame:
  "scan_hex n acc s = (v, s') \<Longrightarrow> source s' = source s \<and> position s \<le> position s'"
  by (induction n acc s rule: scan_hex.induct) (fastforce split: if_splits)+

lemma string_escape_frame:
  "string_escape s = Inr (v, s') \<Longrightarrow> source s' = source s \<and> position s < position s'"
  by (auto simp: string_escape_def Let_def dest!: scan_hex_frame report_frame
      split: if_splits option.splits prod.splits)

lemma bindr_cong [fundef_cong]:
  "r = r' \<Longrightarrow> (\<And>x. r' = Inr x \<Longrightarrow> f x = g x) \<Longrightarrow> bindr r f = bindr r' g"
  by (cases r') auto

function read_string_loop :: "char \<Rightarrow> Source \<Rightarrow> string \<Rightarrow> Lexer \<Rightarrow> (Token \<times> Lexer) lex" where
  "read_string_loop q src acc s =
     (if isAtEnd s
      then bindr (report (emit_error src ''unterminated string literal'' '''') s)
             (\<lambda>s1. Inr (mk_token (Special Error) src acc, s1))
      else if current s = q then Inr (mk_token (Literal LiteralString) src acc, adv s)
      else if current s = NL
      then bindr (report (emit_error (currentSource s) ''unterminated string literal'' '''') s)
             (\<lambda>s1. Inr (mk_token (Special Error) src acc, s1))
      else if current s = BACKSLASH
      then bindr (string_escape (adv s)) (\<lambda>(v, s1). read_string_loop q src (acc @ v) s1)
      else read_string_loop q src (acc @ [current s]) (adv s))"
  by pat_completeness auto
termination
  by (relation "measure (\<lambda>(q, src, acc, s). length (source s) - position s)")
    (auto simp: isAtEnd_def dest: string_escape_frame)

declare read_string_loop.simps [simp del]

definition readString :: "Lexer \<Rightarrow> (Token \<times> Lexer) lex" where
  "readString s =
     (let src = currentSource s; (quoteCharacter, s1) = advance s
      in read_string_loop quoteCharacter src [] s1)"

section \<open>Operators and regular expressions\<close>

text \<open>A chain \<^verbatim>\<open>if( match( c1 ) ) push t1 else if( match( c2 ) ) push t2 ... else push t\<close>.\<close>

fun match_chain :: "(char \<times> token_type \<times> string) list \<Rightarrow> token_type \<times> string \<Rightarrow> Source \<Rightarrow> Lexer \<Rightarrow> Lexer" where
  "match_chain [] (t, v) src s = push t src v s"
| "match_chain ((c, t, v) # rest) otherwise src s =
     (let (b, s1) = match_char c s in if b then push t src v s1 else match_chain rest otherwise src s1)"

text \<open>
  The scan of a regex literal. It moves \<open>position\<close> directly: neither \<open>column\<close> nor
  \<open>line\<close> follow.
\<close>

function regex_loop :: "string \<Rightarrow> bool \<Rightarrow> bool \<Rightarrow> Lexer \<Rightarrow> string \<times> Lexer" where
  "regex_loop acc escaped inCharClass s =
     (if \<not> isAtEnd s then
        let rc = source s ! position s; s1 = s\<lparr>position := position s + 1\<rparr> in
        if escaped then regex_loop (acc @ [rc]) False inCharClass s1
        else if rc = BACKSLASH then regex_loop (acc @ [rc]) True inCharClass s1
        else let inClass = (if rc = CHR '']'' then False else if rc = CHR ''['' then True else inCharClass) in
          if rc = CHR ''/'' \<and> \<not> inClass then (acc, s1)
          else if rc = NL then (acc, s)
          else regex_loop (acc @ [rc]) escaped inClass s1
      else (acc, s))"
  by pat_completeness auto
termination
  by (relation "measure (\<lambda>(acc, e, b, s). length (source s) - position s)") (auto simp: isAtEnd_def)

declare regex_loop.simps [simp del]

definition operand_types :: "token_type list" where
  "operand_types =
     [Identifier, Literal LiteralInteger, Literal LiteralFloat, Literal LiteralString, Literal LiteralChar,
      Delimiter RightParenthesis, Delimiter RightBracket, Oop KeywordSelf, KValue KeywordTrue,
      KValue KeywordFalse, KValue KeywordNone]"

definition is_regex_position :: "Lexer \<Rightarrow> bool" where
  "is_regex_position s \<longleftrightarrow> tokens s = [] \<or> ttype (last (tokens s)) \<notin> set operand_types"

definition lex_slash :: "Source \<Rightarrow> Lexer \<Rightarrow> Lexer" where
  "lex_slash src s =
     (let (b, s1) = match_char (CHR ''='') s in
      if b then push (Assigning SlashAssignment) src ''/='' s1
      else if is_regex_position s1 \<and> \<not> isAtEnd s1 \<and> source s1 ! position s1 \<noteq> CHR '' ''
              \<and> source s1 ! position s1 \<noteq> NL
      then let (regexPattern, s2) = regex_loop [] False False s1
           in push (Literal LiteralRegex) src regexPattern s2
      else push (Arithmetic Slash) src ''/'' s1)"

definition open_bracket :: "token_type \<Rightarrow> string \<Rightarrow> Source \<Rightarrow> Lexer \<Rightarrow> Lexer" where
  "open_bracket t v src s = push t src v (s\<lparr>parenDepth := parenDepth s + 1\<rparr>)"

definition close_bracket :: "token_type \<Rightarrow> string \<Rightarrow> Source \<Rightarrow> Lexer \<Rightarrow> Lexer" where
  "close_bracket t v src s = push t src v (s\<lparr>parenDepth := parenDepth s - 1\<rparr>)"

text \<open>
  The switch on the character just consumed, in the order of the source: the second half, from the
  colon on, then the whole.
\<close>

definition lex_operator_late :: "char \<Rightarrow> Source \<Rightarrow> Lexer \<Rightarrow> Lexer lex" where
  "lex_operator_late c src s =
     (if c = CHR '':'' then
        Inr (match_chain [(CHR '':'', Punctuation DoubleColon, ''::'')] (Punctuation Colon, '':'') src s)
      else if c = CHR '';'' then Inr (push (Punctuation Semicolon) src '';'' s)
      else if c = CHR ''<'' then
        Inr (let (b, s1) = match_char (CHR ''<'') s in
             if b then match_chain [(CHR ''='', Assigning ShiftLeftAssignment, ''<<='')] (Bitwise ShiftLeft, ''<<'') src s1
             else match_chain [(CHR ''='', Comparison LessThanEqual, ''<='')] (Comparison LessThan, ''<'') src s1)
      else if c = CHR ''='' then
        Inr (match_chain [(CHR ''='', Comparison Equal, ''==''), (CHR ''>'', Punctuation FatArrow, ''=>'')]
               (Assigning Assignment, ''='') src s)
      else if c = CHR ''>'' then
        Inr (let (b, s1) = match_char (CHR ''>'') s in
             if b then match_chain [(CHR ''='', Assigning ShiftRightAssignment, ''>>='')] (Bitwise ShiftRight, ''>>'') src s1
             else match_chain [(CHR ''='', Comparison GreaterThanEqual, ''>='')] (Comparison GreaterThan, ''>'') src s1)
      else if c = CHR ''?'' then Inr (push (Punctuation Question) src ''?'' s)
      else if c = CHR ''@'' then Inr (push (Punctuation At) src ''@'' s)
      else if c = CHR ''['' then Inr (open_bracket (Delimiter LeftBracket) ''['' src s)
      else if c = CHR '']'' then Inr (close_bracket (Delimiter RightBracket) '']'' src s)
      else if c = CHR ''^'' then
        Inr (match_chain [(CHR ''='', Assigning CaretAssignment, ''^='')] (Bitwise Caret, ''^'') src s)
      else if c = CHR ''{'' then Inr (open_bracket (Delimiter LeftBrace) ''{'' src s)
      else if c = CHR ''|'' then
        Inr (match_chain [(CHR ''='', Assigning PipeAssignment, ''|='')] (Bitwise Pipe, ''|'') src s)
      else if c = CHR ''}'' then Inr (close_bracket (Delimiter RightBrace) ''}'' src s)
      else if c = CHR ''~'' then Inr (push (Bitwise Tilde) src ''~'' s)
      else bindr (report (emit_error src (''unexpected character '' @ [DQUOTE, c, DQUOTE]) '''') s)
             (\<lambda>s1. Inr (push (Special Error) src [c] s1)))"

definition lex_operator :: "char \<Rightarrow> Source \<Rightarrow> Lexer \<Rightarrow> Lexer lex" where
  "lex_operator c src s =
     (if c = CHR ''!'' then Inr (match_chain [(CHR ''='', Comparison NotEqual, ''!='')] (Punctuation Bang, ''!'') src s)
      else if c = CHR ''%'' then
        Inr (match_chain [(CHR ''='', Assigning PercentAssignment, ''%='')] (Arithmetic Percent, ''%'') src s)
      else if c = CHR ''&'' then
        Inr (match_chain [(CHR ''='', Assigning AmpersandAssignment, ''&='')] (Bitwise Ampersand, ''&'') src s)
      else if c = CHR ''('' then Inr (open_bracket (Delimiter LeftParenthesis) ''('' src s)
      else if c = CHR '')'' then Inr (close_bracket (Delimiter RightParenthesis) '')'' src s)
      else if c = CHR ''*'' then
        Inr (match_chain [(CHR ''*'', Arithmetic Power, ''**''), (CHR ''='', Assigning StarAssignment, ''*='')]
               (Arithmetic Star, ''*'') src s)
      else if c = CHR ''+'' then
        Inr (match_chain [(CHR ''+'', Arithmetic Increment, ''++''), (CHR ''='', Assigning PlusAssignment, ''+='')]
               (Arithmetic Plus, ''+'') src s)
      else if c = CHR '','' then Inr (push (Punctuation Comma) src '','' s)
      else if c = CHR ''-'' then
        Inr (match_chain [(CHR ''-'', Arithmetic Decrement, ''--''), (CHR ''>'', Punctuation Arrow, ''->''),
                     (CHR ''='', Assigning MinusAssignment, ''-='')]
               (Arithmetic Minus, ''-'') src s)
      else if c = CHR ''.'' then
        Inr (let (b, s1) = match_char (CHR ''.'') s in
             if b then match_chain [(CHR ''.'', Punctuation Ellipsis, ''...'')] (Punctuation DoubleDot, ''..'') src s1
             else push (Punctuation Dot) src ''.'' s1)
      else if c = CHR ''/'' then Inr (lex_slash src s)
      else lex_operator_late c src s)"

section \<open>The main loop\<close>

definition push_token :: "Token \<times> Lexer \<Rightarrow> Lexer" where
  "push_token r = (snd r)\<lparr>tokens := tokens (snd r) @ [fst r]\<rparr>"

definition lex_newline :: "Lexer \<Rightarrow> Lexer" where
  "lex_newline s =
     (let s1 = (if parenDepth s = 0 \<and> tokens s \<noteq> []
                   \<and> ttype (last (tokens s)) \<notin> {Layout Dedent, Layout Indent, Layout Newline}
                then push (Layout Newline) (currentSource s) [BACKSLASH, CHR ''n''] s else s)
      in (adv s1)\<lparr>atLineStart := True\<rparr>)"

definition tokenize_step :: "Lexer \<Rightarrow> Lexer lex" where
  "tokenize_step s =
     (let c = current s in
      if atLineStart s then
        if c = NL then Inr (adv s)
        else if parenDepth s = 0 then handleIndentation s
        else Inr ((skip_while (\<lambda>c. c = CHR '' '' \<or> c = TAB) s)\<lparr>atLineStart := False\<rparr>)
      else if c = TAB \<or> c = CR \<or> c = CHR '' '' then Inr (adv s)
      else if c = BACKSLASH \<and> peek 1 s = NL then Inr (adv (adv s))
      else if c = NL then Inr (lex_newline s)
      else if c = CHR ''#'' then
        Inr (if peek 1 s = CHR ''{'' then skipBlockComment (adv s) else skipLineComment s)
      else if (c = SQUOTE \<and> peek 1 s = SQUOTE \<and> peek 2 s = SQUOTE)
           \<or> (c = DQUOTE \<and> peek 1 s = DQUOTE \<and> peek 2 s = DQUOTE)
      then Inr (skipTripleQuoteComment c s)
      else if c = DQUOTE then bindr (readString s) (\<lambda>r. Inr (push_token r))
      else if c = SQUOTE then bindr (readChar s) (\<lambda>r. Inr (push_token r))
      else if isdigit c then Inr (push_token (readNumber s))
      else if isalpha c \<or> c = CHR ''_'' then Inr (push_token (readIdentifierOrKeyword s))
      else lex_operator c (currentSource s) (adv s))"

section \<open>What moving the cursor keeps\<close>

text \<open>
  The line and the column are those of the position: one more than the newlines before it, one more
  than the characters since the last of them. The source is followed by its NUL, the one character
  the lexer may step over at the end.
\<close>

definition line_at :: "string \<Rightarrow> nat \<Rightarrow> uint32" where
  "line_at str p = of_nat (Suc (count_list (take p (str @ [NUL])) NL))"

definition column_at :: "string \<Rightarrow> nat \<Rightarrow> uint32" where
  "column_at str p = of_nat (Suc (length (takeWhile (\<lambda>c. c \<noteq> NL) (rev (take p (str @ [NUL]))))))"

definition located :: "Lexer \<Rightarrow> bool" where
  "located s \<longleftrightarrow> line s = line_at (source s) (position s) \<and> column s = column_at (source s) (position s)"

definition moved :: "Lexer \<Rightarrow> Lexer \<Rightarrow> bool" where
  "moved s s' \<longleftrightarrow>
     source s' = source s \<and> lfilename s' = lfilename s \<and> lfilepath s' = lfilepath s \<and> lines s' = lines s
     \<and> atLineStart s' = atLineStart s \<and> indentStack s' = indentStack s \<and> parenDepth s' = parenDepth s
     \<and> tokens s' = tokens s \<and> position s \<le> position s'
     \<and> position s' \<le> max (position s) (length (source s) + 1)
     \<and> errorMaximum (diagnostic s') = errorMaximum (diagnostic s)
     \<and> (located s \<longrightarrow> located s')"

named_theorems moved_intros \<open>the cursor movements of the lexer\<close>

lemma moved_refl [simp, moved_intros]: "moved s s"
  by (simp add: moved_def)

lemma moved_trans: "moved s t \<Longrightarrow> moved t u \<Longrightarrow> moved s u"
  by (auto simp: moved_def)

lemma moved_fields:
  assumes "moved s s'"
  shows "source s' = source s" "lfilename s' = lfilename s" "lfilepath s' = lfilepath s" "lines s' = lines s"
    "atLineStart s' = atLineStart s" "indentStack s' = indentStack s" "parenDepth s' = parenDepth s"
    "tokens s' = tokens s" "position s \<le> position s'"
    "errorMaximum (diagnostic s') = errorMaximum (diagnostic s)"
  using assms by (simp_all add: moved_def)

lemma char_at_padded: "i \<le> length str \<Longrightarrow> char_at str i = (str @ [NUL]) ! i"
  by (auto simp: char_at_def nth_append)

lemma located_adv:
  assumes "located s" and "position s \<le> length (source s)"
  shows "located (adv s)"
proof -
  let ?p = "source s @ [NUL]"
  have snoc: "take (Suc (position s)) ?p = take (position s) ?p @ [char_at (source s) (position s)]"
    using assms(2) take_Suc_conv_app_nth [of "position s" ?p]
    by (simp only: char_at_padded) (simp del: take_append)
  show ?thesis
  proof (cases "char_at (source s) (position s) = NL")
    case True
    with assms(1) snoc show ?thesis
      by (simp add: located_def advance_def line_at_def column_at_def Let_def)
  next
    case False
    with assms(1) snoc show ?thesis
      by (simp add: located_def advance_def line_at_def column_at_def Let_def)
  qed
qed

lemma moved_adv [moved_intros]: "position s \<le> length (source s) \<Longrightarrow> moved s (adv s)"
  by (auto simp: moved_def located_adv)

lemma position_less: "\<not> isAtEnd s \<longleftrightarrow> position s < length (source s)"
  by (auto simp: isAtEnd_def)

lemma current_not_NUL: "current s \<noteq> NUL \<Longrightarrow> position s < length (source s)"
  by (auto simp: current_def isAtEnd_def split: if_splits)

lemma peek_not_NUL: "peek k s \<noteq> NUL \<Longrightarrow> position s + k < length (source s)"
  by (auto simp: peek_def char_at_def split: if_splits)

lemma moved_adv_trans: "moved (adv s) t \<Longrightarrow> position s \<le> length (source s) \<Longrightarrow> moved s t"
  using moved_trans moved_adv by blast

lemma scan_while_moved: "scan_while P keep acc s = (v, s') \<Longrightarrow> moved s s'"
proof (induction P keep acc s arbitrary: v s' rule: scan_while.induct)
  case (1 P keep acc s)
  show ?case
  proof (cases "\<not> isAtEnd s \<and> P (current s)")
    case True
    with "1.prems" have "scan_while P keep (if keep (current s) then acc @ [current s] else acc) (adv s) = (v, s')"
      by (simp add: scan_while.simps [of P keep acc s])
    with "1.IH" [OF True] have "moved (adv s) s'" by blast
    then show ?thesis
      by (rule moved_adv_trans) (use True in \<open>auto simp: isAtEnd_def\<close>)
  next
    case False
    with "1.prems" show ?thesis by (simp add: scan_while.simps [of P keep acc s] split: if_splits)
  qed
qed

lemma skip_while_moved [moved_intros]: "moved s (skip_while P s)"
  by (cases "scan_while P (\<lambda>_. False) [] s") (auto dest: scan_while_moved)

lemma scan_hex_moved: "scan_hex n acc s = (v, s') \<Longrightarrow> moved s s'"
proof (induction n acc s rule: scan_hex.induct)
  case (2 n acc s)
  then show ?case
    by (auto simp: position_less split: if_splits intro: moved_adv_trans)
qed simp

lemma count_indent_moved: "count_indent n s = (m, s') \<Longrightarrow> moved s s'"
proof (induction n s arbitrary: m s' rule: count_indent.induct)
  case (1 n s)
  show ?case
  proof (cases "\<not> isAtEnd s \<and> (current s = CHR '' '' \<or> current s = TAB)")
    case True
    with "1.prems" have "count_indent (if current s = TAB then n + 4 else n + 1) (adv s) = (m, s')"
      by (simp add: count_indent.simps [of n s])
    with "1.IH" [OF True] have "moved (adv s) s'" by blast
    then show ?thesis
      by (rule moved_adv_trans) (use True in \<open>auto simp: isAtEnd_def\<close>)
  next
    case False
    with "1.prems" show ?thesis by (simp add: count_indent.simps [of n s] split: if_splits)
  qed
qed

lemma block_comment_loop_moved: "moved s (block_comment_loop n s)"
proof (induction n s rule: block_comment_loop.induct)
  case (1 n s)
  show ?case
  proof (cases "\<not> isAtEnd s \<and> 0 < n")
    case True
    then have a1: "moved s (adv s)" and a2: "moved s (adv (adv s))"
      using moved_adv [of s] moved_adv_trans [OF moved_adv, of s] by (auto simp: position_less)
    show ?thesis
      using True "1.IH" a1 a2 by (subst block_comment_loop.simps) (auto intro: moved_trans)
  next
    case False
    then show ?thesis by (subst block_comment_loop.simps) auto
  qed
qed

lemma skipBlockComment_moved [moved_intros]:
  "position s \<le> length (source s) \<Longrightarrow> moved s (skipBlockComment s)"
  using moved_adv_trans [OF block_comment_loop_moved] by (simp add: skipBlockComment_def)

lemma moved_adv3 [moved_intros]:
  "peek 2 s \<noteq> NUL \<Longrightarrow> moved s (adv (adv (adv s)))"
  using peek_not_NUL [of 2 s]
  by (intro moved_adv_trans [of s] moved_adv_trans [of "adv s"] moved_adv) auto

lemma triple_quote_loop_moved: "q \<noteq> NUL \<Longrightarrow> moved s (triple_quote_loop q s)"
proof (induction q s rule: triple_quote_loop.induct)
  case (1 q s)
  show ?case
  proof (cases "isAtEnd s")
    case True
    then show ?thesis by (subst triple_quote_loop.simps) simp
  next
    case False
    then have "moved s (adv s)" by (auto simp: position_less intro: moved_adv)
    with False 1 show ?thesis
      by (subst triple_quote_loop.simps) (auto intro: moved_trans moved_adv3)
  qed
qed

lemma skipTripleQuoteComment_moved [moved_intros]:
  "peek 2 s = q \<Longrightarrow> q \<noteq> NUL \<Longrightarrow> moved s (skipTripleQuoteComment q s)"
  unfolding skipTripleQuoteComment_def by (rule moved_trans [OF moved_adv3 triple_quote_loop_moved]) auto

lemma report_emit_moved:
  assumes "report (emit lv src msg hint) s = Inr s'"
  shows "moved s s'"
proof -
  from assms obtain e where "emit lv src msg hint (diagnostic s) = Inr e" "s' = s\<lparr>diagnostic := e\<rparr>"
    by (auto simp: report_def split: sum.splits)
  then show ?thesis
    by (auto simp: moved_def located_def dest!: emit_InrD)
qed

lemma report_moved [moved_intros]:
  "report (emit_error src msg hint) s = Inr s' \<Longrightarrow> moved s s'"
  "report (emit_warning src msg) s = Inr s' \<Longrightarrow> moved s s'"
  unfolding emit_error_def emit_warning_def by (rule report_emit_moved, assumption)+

lemma moved_position: "moved s t \<Longrightarrow> position s \<le> length (source s) \<Longrightarrow> position t \<le> length (source t) + 1"
  by (auto simp: moved_def)

lemma moved_adv_at: "\<not> isAtEnd s \<Longrightarrow> moved s (adv s)"
  by (auto simp: position_less intro: moved_adv)

lemma readIdentifierOrKeyword_moved: "readIdentifierOrKeyword s = (t, s') \<Longrightarrow> moved s s'"
  by (auto simp: readIdentifierOrKeyword_def Let_def dest: scan_while_moved
      split: prod.splits option.splits)

lemma read_prefixed_moved:
  "current s = CHR ''0'' \<Longrightarrow> read_prefixed P s = (t, s') \<Longrightarrow> moved s s'"
  using current_not_NUL [of s]
  by (auto simp: read_prefixed_def Let_def split: prod.splits dest!: scan_while_moved
      intro!: moved_adv_trans [of s] moved_adv_trans [of "adv s"])

lemma number_parts_moved:
  "read_fraction v s = (f, v', s') \<Longrightarrow> moved s s'"
  "read_exponent g v s = (f, v', s') \<Longrightarrow> moved s s'"
  "read_suffix v s = (v', s') \<Longrightarrow> moved s s'"
  using current_not_NUL [of s] current_not_NUL [of "adv s"]
  by (auto simp: read_fraction_def read_exponent_def read_suffix_def Let_def
      split: if_splits prod.splits dest!: scan_while_moved
      intro!: moved_adv_trans [of s] moved_adv_trans [of "adv s"])

lemma readNumber_moved: "readNumber s = (t, s') \<Longrightarrow> moved s s'"
  by (auto simp: readNumber_def Let_def split: if_splits prod.splits
      dest!: scan_while_moved number_parts_moved read_prefixed_moved intro: moved_trans)

lemma char_value_moved:
  assumes "char_value s = Inr (v, s')" and "position s \<le> length (source s)"
  shows "moved s s'"
proof (cases "current s = BACKSLASH")
  case True
  then have less: "position s < length (source s)"
    using current_not_NUL [of s] by simp
  then have m1: "moved s (adv s)" and m2: "moved s (adv (adv s))"
    using moved_adv [of s] moved_adv_trans [OF moved_adv, of s] by auto
  show ?thesis
  proof (cases "current (adv s) = CHR ''x''")
    case x: True
    obtain h s2 where h: "scan_hex 2 [] (adv (adv s)) = (h, s2)" by fastforce
    then have "moved s s2" using m2 scan_hex_moved moved_trans by blast
    with assms True x h show ?thesis
      by (auto simp: char_value_def simple_escape_def split: if_splits
          intro: moved_trans dest!: report_moved)
  next
    case False
    with assms True m2 show ?thesis
      by (auto simp: char_value_def Let_def split: option.splits)
  qed
next
  case False
  with assms show ?thesis by (auto simp: char_value_def intro: moved_adv)
qed

lemma readChar_moved:
  assumes "readChar s = Inr (t, s')" and "\<not> isAtEnd s"
  shows "moved s s'"
proof -
  from assms(1) obtain v s1 where v: "char_value (adv s) = Inr (v, s1)" and
    r: "(if current s1 \<noteq> SQUOTE
         then bindr (report (emit_error (currentSource s1) ''unterminated character literal'' '''') s1)
                (\<lambda>s2. Inr (mk_token (Special Error) (currentSource s) v, s2))
         else Inr (mk_token (Literal LiteralChar) (currentSource s) v, adv s1)) = Inr (t, s')"
    by (auto simp: readChar_def Let_def)
  from v assms(2) have m: "moved s s1"
    by (auto simp: position_less intro!: moved_adv_trans [of s] dest: char_value_moved)
  show ?thesis
  proof (cases "current s1 = SQUOTE")
    case True
    with r m current_not_NUL [of s1] show ?thesis
      by (auto intro!: moved_trans [OF m] moved_adv)
  next
    case False
    with r m show ?thesis by (auto intro: moved_trans dest!: report_moved)
  qed
qed

lemma string_escape_moved:
  assumes "string_escape s = Inr (v, s')" and "position s \<le> length (source s)"
  shows "moved s s'"
proof -
  have m: "moved s (adv s)" using assms(2) by (rule moved_adv)
  have m': "moved s (adv s1)" if "moved s s1" "position s1 = position s" for s1
    using that assms(2) moved_fields(1) [OF that(1)] by (intro moved_trans [OF that(1)] moved_adv) simp
  show ?thesis
    using assms m
    by (auto simp: string_escape_def Let_def split: if_splits option.splits prod.splits
        dest!: scan_hex_moved intro: moved_trans m' report_moved report_frame [THEN conjunct2])
qed

lemma read_string_loop_moved: "read_string_loop q src acc s = Inr (t, s') \<Longrightarrow> moved s s'"
proof (induction q src acc s arbitrary: t s' rule: read_string_loop.induct)
  case (1 q src acc s)
  show ?case
  proof (cases "isAtEnd s \<or> current s = q \<or> current s = NL")
    case True
    with "1.prems" show ?thesis
      by (subst (asm) read_string_loop.simps)
        (auto split: if_splits dest!: report_moved intro: moved_adv_at)
  next
    case False
    then have m: "moved s (adv s)" by (auto intro: moved_adv_at)
    have p: "position (adv s) \<le> length (source (adv s))" using False by (auto simp: position_less)
    show ?thesis
    proof (cases "current s = BACKSLASH")
      case True
      with False "1.prems" obtain v s1 where e: "string_escape (adv s) = Inr (v, s1)"
        and r: "read_string_loop q src (acc @ v) s1 = Inr (t, s')"
        by (subst (asm) read_string_loop.simps) auto
      have "moved s1 s'" using "1.IH"(1) [of "(v, s1)" v s1 t s'] False True e r by simp
      with m string_escape_moved [OF e p] show ?thesis by (blast intro: moved_trans)
    next
      case nb: False
      with False "1.prems" have "read_string_loop q src (acc @ [current s]) (adv s) = Inr (t, s')"
        by (subst (asm) read_string_loop.simps) auto
      then have "moved (adv s) s'" using "1.IH"(2) False nb by blast
      with m show ?thesis by (rule moved_trans)
    qed
  qed
qed

lemma readString_moved: "readString s = Inr (t, s') \<Longrightarrow> \<not> isAtEnd s \<Longrightarrow> moved s s'"
  by (auto simp: readString_def Let_def position_less split: prod.splits
      dest!: read_string_loop_moved intro!: moved_adv_trans [of s])

section \<open>What one step of the main loop does\<close>

definition plain :: "token_type \<Rightarrow> bool" where
  "plain t \<longleftrightarrow> (\<forall>l. t \<noteq> Layout l) \<and> t \<noteq> Special Eof"

lemma plain_simps [simp]:
  "plain (Delimiter d)" "plain (Punctuation p)" "plain (Arithmetic a)" "plain (Bitwise b)"
  "plain (Comparison c)" "plain (Assigning g)" "plain (Literal l)" "plain Identifier" "plain (Special Error)"
  by (simp_all add: plain_def)

lemma plain_keyword: "keymaps v = Some t \<Longrightarrow> plain t"
proof -
  have all: "list_all (\<lambda>(k, t). plain t) keymaps_table"
    by (simp add: keymaps_table_def plain_def)
  assume "keymaps v = Some t"
  then have "(v, t) \<in> set keymaps_table" by (simp add: keymaps_iff)
  with all show "plain t" by (auto simp: list_all_iff)
qed

definition token_located :: "string \<Rightarrow> Token \<Rightarrow> bool" where
  "token_located str t \<longleftrightarrow>
     (\<exists>p \<le> length str + 1. location (tsource t) = \<lparr>loc_column = column_at str p, loc_line = line_at str p\<rparr>)"

lemma token_located_here:
  "located s \<Longrightarrow> position s \<le> length (source s) + 1 \<Longrightarrow> tsource t = currentSource s \<Longrightarrow>
     token_located (source s) t"
  by (auto simp: token_located_def located_def currentSource_def)

text \<open>A step that appends tokens other than layout tokens and end of file.\<close>

definition scanned :: "Lexer \<Rightarrow> Lexer \<Rightarrow> bool" where
  "scanned s s' \<longleftrightarrow>
     source s' = source s \<and> lines s' = lines s \<and> indentStack s' = indentStack s
     \<and> errorMaximum (diagnostic s') = errorMaximum (diagnostic s)
     \<and> position s \<le> position s' \<and> position s' \<le> max (position s) (length (source s) + 1)
     \<and> (\<exists>ts. tokens s' = tokens s @ ts \<and> (\<forall>t \<in> set ts. plain (ttype t))
            \<and> (located s \<and> position s \<le> length (source s) + 1 \<and> CHR ''/'' \<notin> set (source s) \<longrightarrow>
                 located s' \<and> (\<forall>t \<in> set ts. token_located (source s) t)))"

lemma moved_scanned: "moved s s' \<Longrightarrow> scanned s s'"
  by (simp add: moved_def scanned_def)

text \<open>A reader: it moves the cursor and returns a plain token that stands where it started.\<close>

definition reads :: "Lexer \<Rightarrow> Token \<Rightarrow> Lexer \<Rightarrow> bool" where
  "reads s t s' \<longleftrightarrow> moved s s' \<and> position s < position s' \<and> plain (ttype t) \<and> tsource t = currentSource s"

lemma reads_scanned: "reads s t s' \<Longrightarrow> scanned s (push_token (t, s'))"
  by (auto simp: reads_def scanned_def moved_def push_token_def located_def [of "_\<lparr>tokens := _\<rparr>"]
      located_def [of s'] intro!: token_located_here)

lemma scan_while_progress:
  assumes "scan_while P keep acc s = (v, s')" and "\<not> isAtEnd s" and "P (current s)"
  shows "position s < position s'"
proof -
  from assms have "scan_while P keep (if keep (current s) then acc @ [current s] else acc) (adv s) = (v, s')"
    by (subst (asm) scan_while.simps) simp
  then show ?thesis by (auto dest!: scan_while_moved simp: moved_def)
qed

lemma reads_number:
  assumes "isdigit (current s)" and "\<not> isAtEnd s"
  shows "reads s (fst (readNumber s)) (snd (readNumber s))"
proof -
  obtain t s' where r: "readNumber s = (t, s')" by fastforce
  obtain v1 s1 where sd: "scan_digits isdigit [] s = (v1, s1)" by fastforce
  have lt: "position s < position s1" using scan_while_progress [OF sd] assms by simp
  have "position s < position s' \<and> plain (ttype t) \<and> tsource t = currentSource s"
    using r sd lt
    by (auto simp: readNumber_def read_prefixed_def Let_def split: if_splits prod.splits
        dest!: scan_while_moved number_parts_moved moved_fields(9))
  with readNumber_moved [OF r] r show ?thesis by (simp add: reads_def)
qed

lemma reads_word:
  assumes "isalpha (current s) \<or> current s = CHR ''_''" and "\<not> isAtEnd s"
  shows "reads s (fst (readIdentifierOrKeyword s)) (snd (readIdentifierOrKeyword s))"
proof -
  obtain v s' where sw: "scan_while (\<lambda>c. isalnum c \<or> c = CHR ''_'') (\<lambda>_. True) [] s = (v, s')" by fastforce
  have "position s < position s'"
    using scan_while_progress [OF sw] assms by (auto simp: isalnum_def)
  then show ?thesis
    using scan_while_moved [OF sw] sw
    by (auto simp: readIdentifierOrKeyword_def Let_def reads_def dest: plain_keyword split: option.splits)
qed

lemma read_string_loop_token:
  "read_string_loop q src acc s = Inr (t, s') \<Longrightarrow> plain (ttype t) \<and> tsource t = src"
proof (induction q src acc s arbitrary: t s' rule: read_string_loop.induct)
  case (1 q src acc s)
  show ?case
  proof (cases "isAtEnd s \<or> current s = q \<or> current s = NL")
    case True
    with "1.prems" show ?thesis by (subst (asm) read_string_loop.simps) (auto split: if_splits)
  next
    case False
    show ?thesis
    proof (cases "current s = BACKSLASH")
      case True
      with False "1.prems" obtain v s1 where e: "string_escape (adv s) = Inr (v, s1)"
        and r: "read_string_loop q src (acc @ v) s1 = Inr (t, s')"
        by (subst (asm) read_string_loop.simps) auto
      then show ?thesis using "1.IH"(1) [of "(v, s1)" v s1 t s'] False True by simp
    next
      case nb: False
      with False "1.prems" have "read_string_loop q src (acc @ [current s]) (adv s) = Inr (t, s')"
        by (subst (asm) read_string_loop.simps) auto
      then show ?thesis using "1.IH"(2) False nb by blast
    qed
  qed
qed

lemma readString_loop:
  "readString s = read_string_loop (char_at (source s) (position s)) (currentSource s) [] (adv s)"
  by (simp add: readString_def Let_def split_beta)

lemma reads_string: "readString s = Inr (t, s') \<Longrightarrow> \<not> isAtEnd s \<Longrightarrow> reads s t s'"
  using readString_moved [of s t s'] read_string_loop_token
    moved_fields(9) [OF read_string_loop_moved]
  by (fastforce simp: readString_loop reads_def)

lemma reads_char: "readChar s = Inr (t, s') \<Longrightarrow> \<not> isAtEnd s \<Longrightarrow> reads s t s'"
proof -
  assume r: "readChar s = Inr (t, s')" and e: "\<not> isAtEnd s"
  from r obtain v s1 where v: "char_value (adv s) = Inr (v, s1)"
    by (auto simp: readChar_def Let_def)
  with e have "moved (adv s) s1" by (auto simp: position_less dest: char_value_moved)
  with r v have "position s < position s' \<and> plain (ttype t) \<and> tsource t = currentSource s"
    by (auto simp: readChar_def Let_def split: if_splits dest!: report_moved moved_fields(9))
  with readChar_moved [OF r e] show ?thesis by (simp add: reads_def)
qed

lemma scanned_trans_moved: "moved s t \<Longrightarrow> scanned t u \<Longrightarrow> position s \<le> length (source s) \<Longrightarrow> scanned s u"
  by (fastforce simp: moved_def scanned_def)

lemma match_char_moved: "match_char c s = (b, s') \<Longrightarrow> moved s s'"
  by (auto simp: match_char_def isAtEnd_def split: if_splits intro: moved_adv)

text \<open>
  The operators: from a state \<open>s\<close> whose character was consumed, the cursor moves on and one plain
  token is pushed that stands at \<open>s\<close>.
\<close>

definition operates :: "Lexer \<Rightarrow> Lexer \<Rightarrow> bool" where
  "operates s s' \<longleftrightarrow>
     (\<exists>u d t v. moved s u \<and> position s < position u \<and> plain t
        \<and> s' = push t (currentSource s) v (u\<lparr>parenDepth := d\<rparr>))"

lemma operates_scanned: "operates s s' \<Longrightarrow> scanned s s' \<and> position s < position s'"
  by (auto simp: operates_def scanned_def moved_def push_def located_def [of "_\<lparr>tokens := _\<rparr>"]
      located_def [of "_\<lparr>parenDepth := _, tokens := _\<rparr>"] intro!: token_located_here)
    (auto simp: located_def)

lemma operatesI:
  assumes "moved (adv s) u" and "\<not> isAtEnd s" and "plain t"
  shows "operates s (push t (currentSource s) v (u\<lparr>parenDepth := d\<rparr>))"
proof -
  have "moved s u" using assms(1,2) by (auto simp: position_less intro: moved_adv_trans)
  moreover have "position s < position u" using moved_fields(9) [OF assms(1)] by simp
  ultimately show ?thesis using assms(3) unfolding operates_def by blast
qed

lemma operatesI':
  assumes "moved (adv s) u" and "\<not> isAtEnd s" and "plain t"
  shows "operates s (push t (currentSource s) v u)"
  using operatesI [OF assms, of v "parenDepth u"] by simp

lemma match_chain_operates:
  assumes "moved (adv s) u" and "\<not> isAtEnd s" and "list_all (\<lambda>(c, t, v). plain t) cs" and "plain (fst d)"
  shows "operates s (match_chain cs d (currentSource s) u)"
  using assms
proof (induction cs d "currentSource s" u rule: match_chain.induct)
  case (1 t v u)
  then show ?case by (simp add: operatesI')
next
  case (2 c t v rest d u)
  obtain b u1 where m: "match_char c u = (b, u1)" by fastforce
  then have "moved (adv s) u1" using "2.prems"(1) match_char_moved moved_trans by blast
  with 2 m show ?case by (simp add: operatesI')
qed

lemma regex_loop_frame:
  "regex_loop acc e b s = (v, s') \<Longrightarrow> \<exists>p. s' = s\<lparr>position := p\<rparr> \<and> position s \<le> p \<and> p \<le> max (position s) (length (source s))"
proof (induction acc e b s arbitrary: v s' rule: regex_loop.induct)
  case (1 acc e b s)
  show ?case
  proof (cases "isAtEnd s")
    case True
    with "1.prems" show ?thesis
      by (subst (asm) regex_loop.simps) (auto intro: exI [of _ "position s"])
  next
    case False
    let ?rc = "source s ! position s" and ?s1 = "s\<lparr>position := position s + 1\<rparr>"
    let ?in = "if ?rc = CHR '']'' then False else if ?rc = CHR ''['' then True else b"
    have "(v, s') = (acc, s) \<or> (v, s') = (acc, ?s1) \<or>
        (\<exists>a e' b'. regex_loop a e' b' ?s1 = (v, s') \<and>
           (regex_loop a e' b' ?s1 = (v, s') \<longrightarrow> (\<exists>p. s' = ?s1\<lparr>position := p\<rparr> \<and> position ?s1 \<le> p \<and> p \<le> max (position ?s1) (length (source ?s1)))))"
      using "1.prems" False "1.IH"(1) [OF False refl refl] "1.IH"(2) [OF False refl refl]
        "1.IH"(3) [OF False refl refl _ _ refl]
      by (subst (asm) regex_loop.simps) (auto simp: Let_def split: if_splits)
    moreover have "s = s\<lparr>position := position s\<rparr>" by simp
    ultimately show ?thesis
      using False unfolding position_less by (elim disjE exE conjE) (auto intro: exI [of _ "position s"])
  qed
qed

lemma lex_slash_scanned:
  assumes "moved (adv s) u" and "\<not> isAtEnd s" and "current s = CHR ''/''"
  shows "scanned s (lex_slash (currentSource s) u) \<and> position s < position (lex_slash (currentSource s) u)"
proof -
  obtain b u1 where m: "match_char (CHR ''='') u = (b, u1)" by fastforce
  then have mv: "moved (adv s) u1" using assms(1) match_char_moved moved_trans by blast
  show ?thesis
  proof (cases "b \<or> \<not> (is_regex_position u1 \<and> \<not> isAtEnd u1 \<and> source u1 ! position u1 \<noteq> CHR '' ''
              \<and> source u1 ! position u1 \<noteq> NL)")
    case True
    then have "operates s (lex_slash (currentSource s) u)"
      using m mv assms(2) by (auto simp: lex_slash_def intro!: operatesI')
    then show ?thesis by (rule operates_scanned)
  next
    case False
    obtain v u2 where r: "regex_loop [] False False u1 = (v, u2)" by fastforce
    then obtain p where p: "u2 = u1\<lparr>position := p\<rparr>" "position u1 \<le> p" "p \<le> max (position u1) (length (source u1))"
      using regex_loop_frame by blast
    have "CHR ''/'' \<in> set (source s)"
      using assms(2,3) nth_mem [of "position s" "source s"] by (simp add: current_def isAtEnd_def)
    then show ?thesis
      using False m r p mv assms(2)
      by (auto simp: lex_slash_def scanned_def moved_def push_def position_less)
  qed
qed

lemma bracket_operates:
  assumes "moved (adv s) u" and "\<not> isAtEnd s" and "plain t"
  shows "operates s (open_bracket t v (currentSource s) u)" "operates s (close_bracket t v (currentSource s) u)"
  using assms by (simp_all add: open_bracket_def close_bracket_def operatesI)

lemma lex_operator_operates:
  assumes "lex_operator c (currentSource s) (adv s) = Inr s'" and "\<not> isAtEnd s" and "c \<noteq> CHR ''/''"
  shows "operates s s'"
proof -
  have one: "operates s (push t (currentSource s) v (adv s))" if "plain t" for t v
    using that assms(2) by (intro operatesI') simp_all
  have ch: "operates s (match_chain cs d (currentSource s) (adv s))"
    if "list_all (\<lambda>(c, t, v). plain t) cs" "plain (fst d)" for cs d
    using that assms(2) by (intro match_chain_operates) simp_all
  have ch2: "operates s (case match_char k (adv s) of (b, s1) \<Rightarrow>
      if b then match_chain cs d (currentSource s) s1 else match_chain cs' d' (currentSource s) s1)"
    if "list_all (\<lambda>(c, t, v). plain t) cs" "plain (fst d)" "list_all (\<lambda>(c, t, v). plain t) cs'" "plain (fst d')"
    for k cs d cs' d'
    using that assms(2) match_char_moved by (auto split: prod.split intro!: match_chain_operates)
  have ch3: "operates s (case match_char k (adv s) of (b, s1) \<Rightarrow>
      if b then match_chain cs d (currentSource s) s1 else push t (currentSource s) v s1)"
    if "list_all (\<lambda>(c, t, v). plain t) cs" "plain (fst d)" "plain t" for k cs d t v
    using that assms(2) match_char_moved by (auto split: prod.split intro!: match_chain_operates operatesI')
  have br: "operates s (open_bracket t v (currentSource s) (adv s))"
    "operates s (close_bracket t v (currentSource s) (adv s))" if "plain t" for t v
    using that assms(2) by (auto intro!: bracket_operates)
  have er: "operates s (push t (currentSource s) v u)"
    if "report (emit_error src msg hint) (adv s) = Inr u" "plain t" for t v u src msg hint
    using that assms(2) by (auto intro!: operatesI' dest: report_moved)
  show ?thesis
    using assms(1,3) unfolding lex_operator_def lex_operator_late_def
    by (auto simp del: match_chain.simps split: if_splits intro!: one ch ch2 ch3 br er)
qed

lemma lex_operator_scanned:
  assumes "lex_operator (current s) (currentSource s) (adv s) = Inr s'" and "\<not> isAtEnd s"
  shows "scanned s s' \<and> position s < position s'"
proof (cases "current s = CHR ''/''")
  case True
  with assms show ?thesis
    using lex_slash_scanned [of s "adv s"] by (simp add: lex_operator_def lex_operator_late_def)
next
  case False
  with assms show ?thesis by (intro operates_scanned lex_operator_operates)
qed

section \<open>The invariant of the token stream\<close>

text \<open>
  The depth of open blocks after a list of token types, if no block is closed that is not open.
\<close>

fun nest :: "nat \<Rightarrow> token_type list \<Rightarrow> nat option" where
  "nest d [] = Some d"
| "nest d (t # ts) =
     (if t = Layout Indent then nest (Suc d) ts
      else if t = Layout Dedent then (case d of 0 \<Rightarrow> None | Suc d' \<Rightarrow> nest d' ts)
      else nest d ts)"

text \<open>No NEWLINE comes first or directly after another one.\<close>

definition spaced :: "token_type list \<Rightarrow> bool" where
  "spaced ts \<longleftrightarrow> successively (\<lambda>a b. \<not> (a = Layout Newline \<and> b = Layout Newline)) (Layout Newline # ts)"

definition stack_ok :: "int list \<Rightarrow> bool" where
  "stack_ok st \<longleftrightarrow> st \<noteq> [] \<and> sorted_wrt (>) st \<and> last st = 0"

abbreviation types :: "Lexer \<Rightarrow> token_type list" where
  "types s \<equiv> map ttype (tokens s)"

definition wf_stream :: "int list \<Rightarrow> Lexer \<Rightarrow> bool" where
  "wf_stream st s \<longleftrightarrow>
     stack_ok st \<and> nest 0 (types s) = Some (length st - 1) \<and> spaced (types s)
     \<and> Special Eof \<notin> set (types s) \<and> position s \<le> length (source s) + 1
     \<and> (CHR ''/'' \<notin> set (source s) \<longrightarrow> located s \<and> (\<forall>t \<in> set (tokens s). token_located (source s) t))"

lemma nest_append: "nest d (xs @ ys) = Option.bind (nest d xs) (\<lambda>d'. nest d' ys)"
  by (induction d xs rule: nest.induct) (auto split: nat.splits)

lemma nest_plain: "\<forall>t \<in> set ts. plain t \<Longrightarrow> nest d ts = Some d"
  by (induction ts) (auto simp: plain_def)

lemma spaced_Nil [simp]: "spaced []"
  by (simp add: spaced_def)

lemma spaced_snoc [simp]:
  "spaced (ts @ [t]) \<longleftrightarrow> spaced ts \<and> (t = Layout Newline \<longrightarrow> ts \<noteq> [] \<and> last ts \<noteq> Layout Newline)"
  unfolding spaced_def append_Cons [symmetric] successively_append_iff by auto

lemma spaced_plain: "spaced ts \<Longrightarrow> \<forall>t \<in> set us. plain t \<Longrightarrow> spaced (ts @ us)"
proof (induction us rule: rev_induct)
  case (snoc u us)
  then show ?case unfolding append_assoc [symmetric] spaced_snoc by (auto simp: plain_def)
qed simp

lemma wf_stream_scanned:
  assumes "wf_stream st s" and "scanned s s'"
  shows "wf_stream st s'"
proof -
  from assms(2) obtain ts where ts: "tokens s' = tokens s @ ts" "\<forall>t \<in> set ts. plain (ttype t)"
    "located s \<and> position s \<le> length (source s) + 1 \<and> CHR ''/'' \<notin> set (source s) \<longrightarrow>
       located s' \<and> (\<forall>t \<in> set ts. token_located (source s) t)" "source s' = source s"
    "position s' \<le> max (position s) (length (source s) + 1)"
    by (auto simp: scanned_def)
  have "nest d (map ttype ts) = Some d" for d using ts(2) by (intro nest_plain) auto
  moreover have "spaced (types s @ map ttype ts)" if "spaced (types s)"
    using that ts(2) by (intro spaced_plain) auto
  moreover have "Special Eof \<notin> set (map ttype ts)" using ts(2) by (auto simp: plain_def)
  ultimately show ?thesis
    using assms(1) ts by (auto simp: wf_stream_def nest_append)
qed

lemma stack_ok_tl: "stack_ok (lv # rest) \<Longrightarrow> n < lv \<Longrightarrow> 0 \<le> n \<Longrightarrow> stack_ok rest"
  by (auto simp: stack_ok_def split: if_splits)

lemma stack_ok_hd_nonneg: "stack_ok st \<Longrightarrow> 0 \<le> hd st"
proof (cases st)
  case (Cons x xs)
  assume "stack_ok st"
  with Cons have "xs = [] \<and> x = 0 \<or> xs \<noteq> [] \<and> last xs = 0 \<and> (\<forall>y \<in> set xs. y < x)"
    by (auto simp: stack_ok_def split: if_splits)
  then have "0 \<le> x" using last_in_set [of xs] by fastforce
  with Cons show ?thesis by simp
qed (simp add: stack_ok_def)

lemma push_layout_wf:
  assumes "wf_stream st s" and "src = currentSource s"
    and "t = Layout Indent \<and> stack_ok st' \<and> length st' = Suc (length st) \<or>
         t = Layout Dedent \<and> stack_ok st' \<and> length st = Suc (length st')"
  shows "wf_stream st' (push t src v s)"
proof -
  have loc: "token_located (source s) (mk_token t src v)" if "CHR ''/'' \<notin> set (source s)"
    using assms(1,2) that by (intro token_located_here) (auto simp: wf_stream_def)
  have l: "length st = Suc (length st - 1)" "stack_ok st' \<Longrightarrow> length st' = Suc (length st' - 1)"
    using assms(1) by (auto simp: wf_stream_def stack_ok_def)
  show ?thesis
    using assms loc l by (auto simp: wf_stream_def push_def nest_append located_def split: nat.splits)
qed

lemma dedent_loop_frame [simp]:
  "source (dedent_loop n st s) = source s" "lines (dedent_loop n st s) = lines s"
  "position (dedent_loop n st s) = position s" "atLineStart (dedent_loop n st s) = atLineStart s"
  "diagnostic (dedent_loop n st s) = diagnostic s" "parenDepth (dedent_loop n st s) = parenDepth s"
  by (induction n st s rule: dedent_loop.induct) (simp_all add: push_def)

lemma dedent_loop_wf:
  "wf_stream st s \<Longrightarrow> 0 \<le> n \<Longrightarrow> s' = dedent_loop n st s \<Longrightarrow>
     wf_stream (indentStack s') s' \<and> hd (indentStack s') \<le> n"
proof (induction n st s arbitrary: s' rule: dedent_loop.induct)
  case (1 n s)
  then show ?case by (simp add: wf_stream_def stack_ok_def)
next
  case (2 n lv rest s)
  show ?case
  proof (cases "n < lv")
    case True
    with 2 have "wf_stream rest (push (Layout Dedent) (currentSource s) ''DEDENT'' s)"
      by (intro push_layout_wf) (auto simp: wf_stream_def intro: stack_ok_tl)
    from "2.IH" [OF True this "2.prems"(2)] True "2.prems"(3) show ?thesis by simp
  next
    case False
    with 2 show ?thesis by (simp add: wf_stream_def located_def)
  qed
qed

lemma count_indent_result:
  "count_indent n s = (m, s') \<Longrightarrow>
     n \<le> m \<and> (s' = s \<or> position s < position s') \<and> (isAtEnd s' \<or> current s' \<noteq> CHR '' '' \<and> current s' \<noteq> TAB)"
proof (induction n s arbitrary: m s' rule: count_indent.induct)
  case (1 n s)
  show ?case
  proof (cases "\<not> isAtEnd s \<and> (current s = CHR '' '' \<or> current s = TAB)")
    case True
    with "1.prems" have c: "count_indent (if current s = TAB then n + 4 else n + 1) (adv s) = (m, s')"
      by (simp add: count_indent.simps [of n s])
    with "1.IH" [OF True, of m s'] show ?thesis by (auto split: if_splits)
  next
    case False
    with "1.prems" show ?thesis by (auto simp: count_indent.simps [of n s] split: if_splits)
  qed
qed

definition progress :: "Lexer \<Rightarrow> Lexer \<Rightarrow> bool" where
  "progress s s' \<longleftrightarrow>
     source s' = source s \<and> lines s' = lines s \<and> errorMaximum (diagnostic s') = errorMaximum (diagnostic s)
     \<and> (position s < position s' \<or> position s' = position s \<and> atLineStart s \<and> \<not> atLineStart s')"

lemma skip_while_progress:
  "\<not> isAtEnd s \<Longrightarrow> P (current s) \<Longrightarrow> position s < position (skip_while P s)"
  by (cases "scan_while P (\<lambda>_. False) [] s") (auto dest: scan_while_progress)

lemma handleIndentation_progress:
  assumes "handleIndentation s = Inr s'" and "\<not> isAtEnd s" and "current s \<noteq> NL" and "atLineStart s"
  shows "progress s s'"
proof -
  obtain n u where c: "count_indent 0 s = (n, u)" by fastforce
  then have m: "moved s u" and r: "u = s \<or> position s < position u"
    using count_indent_moved count_indent_result by blast+
  show ?thesis
  proof (cases "isAtEnd u \<or> current u = NL \<or> current u = CHR ''#''")
    case True
    have skip: "moved u (skipLineComment u)" by (simp add: skipLineComment_def skip_while_moved)
    have "position u < position (skipLineComment u)" if "\<not> isAtEnd u" "current u = CHR ''#''"
      using that unfolding skipLineComment_def by (intro skip_while_progress) auto
    with True c m r skip assms show ?thesis
      by (auto simp: handleIndentation_def progress_def moved_def split: if_splits)
  next
    case False
    with assms c m r show ?thesis
      by (auto simp: handleIndentation_def progress_def moved_def Let_def push_def split: if_splits
          dest!: report_moved)
  qed
qed

lemma tokenize_step_scanned:
  assumes "tokenize_step s = Inr s'" and "\<not> isAtEnd s" and "\<not> atLineStart s" and "current s \<noteq> NL"
  shows "scanned s s' \<and> position s < position s'"
proof -
  let ?ok = "\<lambda>s'. scanned s s' \<and> position s < position s'"
  have adv1: "moved s (adv s)" using assms(2) by (rule moved_adv_at)
  then have space: "?ok (adv s)" by (simp add: moved_scanned)
  have esc: "?ok (adv (adv s))" if "peek 1 s = NL"
    using that peek_not_NUL [of 1 s] by (auto intro!: moved_scanned moved_trans [OF adv1] moved_adv)
  have block: "?ok (skipBlockComment (adv s))" if "peek 1 s = CHR ''{''"
  proof -
    have "moved (adv s) (skipBlockComment (adv s))"
      using that peek_not_NUL [of 1 s] by (intro skipBlockComment_moved) auto
    with moved_trans [OF adv1 this] show ?thesis by (auto intro: moved_scanned dest: moved_fields(9))
  qed
  have comment: "?ok (skipLineComment s)" if "current s = CHR ''#''"
    using that assms(2)
    by (auto simp: skipLineComment_def intro!: moved_scanned skip_while_moved skip_while_progress)
  have triple: "?ok (skipTripleQuoteComment q s)" if "peek 2 s = q" "q \<noteq> NUL" for q
    using moved_fields(9) [OF triple_quote_loop_moved [OF that(2), of "adv (adv (adv s))"]]
      moved_scanned [OF skipTripleQuoteComment_moved [OF that]]
    by (simp add: skipTripleQuoteComment_def)
  have read: "?ok (push_token r)" if "reads s (fst r) (snd r)" for r
    using reads_scanned [OF that] that by (cases r) (simp add: push_token_def reads_def)
  note readers = read [OF reads_number [OF _ assms(2)]] read [OF reads_word [OF _ assms(2)]]
  have str: "?ok s'" if "bindr (readString s) (\<lambda>r. Inr (push_token r)) = Inr s'"
    using that reads_string [OF _ assms(2)] by (auto intro!: read)
  have chr: "?ok s'" if "bindr (readChar s) (\<lambda>r. Inr (push_token r)) = Inr s'"
    using that reads_char [OF _ assms(2)] by (auto intro!: read)
  show ?thesis
    using assms(1,3,4) unfolding tokenize_step_def Let_def
    by (simp only: if_False split: if_splits)
      (auto intro!: space esc block comment triple readers simp del: bindr_eq_Inr
        dest: str chr lex_operator_scanned [OF _ assms(2)])
qed

lemma lex_newline_progress: "progress s (lex_newline s)"
  by (simp add: lex_newline_def progress_def Let_def push_def)

lemma tokenize_step_progress:
  assumes "tokenize_step s = Inr s'" and "\<not> isAtEnd s"
  shows "progress s s'"
proof (cases "atLineStart s")
  case True
  have m: "moved s (skip_while P s)" for P by (rule skip_while_moved)
  from True assms show ?thesis
    by (auto simp: tokenize_step_def Let_def progress_def moved_fields [OF m] intro: le_neq_trans
        dest: handleIndentation_progress [unfolded progress_def] split: if_splits)
next
  case False
  show ?thesis
  proof (cases "current s = NL")
    case True
    with False assms(1) have "s' = lex_newline s"
      by (simp add: tokenize_step_def isalpha_def char_class_simps)
    then show ?thesis by (simp add: lex_newline_progress)
  next
    case nl: False
    with tokenize_step_scanned [OF assms False] show ?thesis
      by (auto simp: progress_def scanned_def)
  qed
qed

text \<open>
  The main loop. Each turn moves the cursor, or leaves it where it is and clears \<open>atLineStart\<close>.
\<close>

function tokenize_loop :: "Lexer \<Rightarrow> Lexer lex" where
  "tokenize_loop s = (if isAtEnd s then Inr s else bindr (tokenize_step s) tokenize_loop)"
  by pat_completeness auto
termination
proof (relation "measure (\<lambda>s. 2 * (length (source s) - position s) + (if atLineStart s then 1 else 0))", simp)
  fix s s'
  assume "\<not> isAtEnd s" "tokenize_step s = Inr s'"
  then have "progress s s'" by (intro tokenize_step_progress)
  with \<open>\<not> isAtEnd s\<close> show "(s', s) \<in> measure (\<lambda>s. 2 * (length (source s) - position s) + (if atLineStart s then 1 else 0))"
    by (auto simp: progress_def position_less)
qed

declare tokenize_loop.simps [simp del]

text \<open>The end of the file: close the open blocks, end the line, mark the end.\<close>

fun close_blocks :: "int list \<Rightarrow> Lexer \<Rightarrow> Lexer" where
  "close_blocks (a # b # rest) s = close_blocks (b # rest) (push (Layout Dedent) (currentSource s) ''DEDENT'' s)"
| "close_blocks st s = s\<lparr>indentStack := st\<rparr>"

definition finish :: "Lexer \<Rightarrow> Lexer" where
  "finish s =
     (let s1 = close_blocks (indentStack s) s;
          s2 = (if tokens s1 \<noteq> [] \<and> ttype (last (tokens s1)) \<noteq> Layout Newline
                then push (Layout Newline) (currentSource s1) [BACKSLASH, CHR ''n''] s1 else s1)
      in push (Special Eof) (currentSource s2) '''' s2)"

definition tokenize :: "Lexer \<Rightarrow> (Token list \<times> Lexer) lex" where
  "tokenize s = bindr (tokenize_loop s) (\<lambda>s1. Inr (tokens (finish s1), finish s1))"

definition lex_source :: "string \<Rightarrow> string \<Rightarrow> Engine \<Rightarrow> (Token list \<times> Lexer) lex" where
  "lex_source src file engine = tokenize (new_Lexer src file engine)"

lemma indentStack_frame [simp]:
  "wf_stream st (s\<lparr>indentStack := x\<rparr>) = wf_stream st s"
  "wf_stream st (s\<lparr>atLineStart := b\<rparr>) = wf_stream st s"
  "currentSource (s\<lparr>indentStack := x\<rparr>) = currentSource s"
  "push t src v (s\<lparr>indentStack := x\<rparr>) = (push t src v s)\<lparr>indentStack := x\<rparr>"
  by (simp_all add: wf_stream_def located_def currentSource_def push_def)

lemma push_fields [simp]:
  "source (push t src v s) = source s" "position (push t src v s) = position s"
  "indentStack (push t src v s) = indentStack s" "atLineStart (push t src v s) = atLineStart s"
  "line (push t src v s) = line s" "column (push t src v s) = column s" "lines (push t src v s) = lines s"
  "tokens (push t src v s) = tokens s @ [mk_token t src v]" "diagnostic (push t src v s) = diagnostic s"
  by (simp_all add: push_def)

lemma wf_stream_moved: "moved t v \<Longrightarrow> wf_stream (indentStack t) t \<Longrightarrow> wf_stream (indentStack v) v"
  using wf_stream_scanned [OF _ moved_scanned] moved_fields(6) by metis

lemma handleIndentation_wf:
  assumes "handleIndentation s = Inr s'" and "wf_stream (indentStack s) s"
  shows "wf_stream (indentStack s') s'"
proof -
  obtain n u where c: "count_indent 0 s = (n, u)" by fastforce
  then have m: "moved s u" and n: "0 \<le> n" using count_indent_moved count_indent_result by blast+
  have wu: "wf_stream (indentStack u) u" using m assms(2) by (rule wf_stream_moved)
  have ind: "wf_stream (n # indentStack u) (push (Layout Indent) (currentSource u) ''INDENT'' u)"
    if "hd (indentStack u) < n"
  proof -
    have "stack_ok (n # indentStack u)"
      using that wu by (cases "indentStack u") (auto simp: wf_stream_def stack_ok_def)
    then show ?thesis using push_layout_wf [OF wu refl] by auto
  qed
  have ded: "wf_stream (indentStack (dedent_loop n (indentStack u) u)) (dedent_loop n (indentStack u) u)"
    using dedent_loop_wf [OF wu n refl] by simp
  have skip: "wf_stream (indentStack (skipLineComment u)) (skipLineComment u)"
    unfolding skipLineComment_def using skip_while_moved wu by (rule wf_stream_moved)
  show ?thesis
    using assms(1) c wu ind ded skip
    by (auto simp: handleIndentation_def Let_def dest!: report_moved intro: wf_stream_moved
        split: if_splits)
qed

lemma push_newline_wf:
  assumes "wf_stream st s" and "types s \<noteq> []" and "last (types s) \<noteq> Layout Newline"
  shows "wf_stream st (push (Layout Newline) (currentSource s) v s)"
proof -
  have "token_located (source s) (mk_token (Layout Newline) (currentSource s) v)"
    if "CHR ''/'' \<notin> set (source s)"
    using assms(1) that by (intro token_located_here) (auto simp: wf_stream_def)
  with assms show ?thesis by (auto simp: wf_stream_def nest_append located_def)
qed

lemma lex_newline_wf:
  assumes "wf_stream (indentStack s) s" and "\<not> isAtEnd s"
  shows "wf_stream (indentStack (lex_newline s)) (lex_newline s)"
proof -
  define s1 where "s1 = (if parenDepth s = 0 \<and> tokens s \<noteq> []
                   \<and> ttype (last (tokens s)) \<notin> {Layout Dedent, Layout Indent, Layout Newline}
                then push (Layout Newline) (currentSource s) [BACKSLASH, CHR ''n''] s else s)"
  have w: "wf_stream (indentStack s1) s1"
    using assms(1) push_newline_wf [OF assms(1)] by (auto simp: s1_def last_map)
  moreover have "moved s1 (adv s1)"
    using assms(2) by (intro moved_adv_at) (simp add: s1_def isAtEnd_def)
  ultimately have "wf_stream (indentStack (adv s1)) (adv s1)" by (rule wf_stream_moved [rotated])
  then show ?thesis by (simp add: lex_newline_def s1_def Let_def)
qed

lemma tokenize_step_wf:
  assumes "tokenize_step s = Inr s'" and "\<not> isAtEnd s" and "wf_stream (indentStack s) s"
  shows "wf_stream (indentStack s') s'"
proof (cases "atLineStart s")
  case True
  show ?thesis
    using assms True wf_stream_moved [OF moved_adv_at [OF assms(2)] assms(3)]
      wf_stream_moved [OF skip_while_moved assms(3)]
    by (auto simp: tokenize_step_def Let_def split: if_splits intro: handleIndentation_wf)
next
  case False
  show ?thesis
  proof (cases "current s = NL")
    case True
    with False assms(1) have "s' = lex_newline s"
      by (simp add: tokenize_step_def isalpha_def char_class_simps)
    then show ?thesis using assms(2,3) by (simp add: lex_newline_wf)
  next
    case nl: False
    have sc: "scanned s s'" using tokenize_step_scanned [OF assms(1,2) False nl] by simp
    moreover have "indentStack s' = indentStack s" using sc by (simp add: scanned_def)
    ultimately show ?thesis using wf_stream_scanned [OF assms(3)] by simp
  qed
qed

lemma tokenize_loop_wf:
  "tokenize_loop s = Inr s' \<Longrightarrow> wf_stream (indentStack s) s \<Longrightarrow>
     wf_stream (indentStack s') s' \<and> isAtEnd s' \<and> source s' = source s"
proof (induction s rule: tokenize_loop.induct)
  case (1 s)
  show ?case
  proof (cases "isAtEnd s")
    case True
    with 1 show ?thesis by (simp add: tokenize_loop.simps [of s])
  next
    case False
    with "1.prems"(1) obtain u where u: "tokenize_step s = Inr u" "tokenize_loop u = Inr s'"
      by (subst (asm) tokenize_loop.simps) auto
    then show ?thesis
      using "1.IH" [OF False u] tokenize_step_wf [OF u(1) False "1.prems"(2)]
        tokenize_step_progress [OF u(1) False] by (simp add: progress_def)
  qed
qed

lemma new_Lexer_wf: "wf_stream (indentStack (new_Lexer src f e)) (new_Lexer src f e)"
  by (simp add: new_Lexer_def wf_stream_def stack_ok_def located_def line_at_def column_at_def)

lemma close_blocks_wf:
  "wf_stream st s \<Longrightarrow> wf_stream [0] (close_blocks st s) \<and> source (close_blocks st s) = source s
     \<and> position (close_blocks st s) = position s"
proof (induction st s rule: close_blocks.induct)
  case (1 a b rest s)
  then have "wf_stream (b # rest) (push (Layout Dedent) (currentSource s) ''DEDENT'' s)"
    by (intro push_layout_wf [of "a # b # rest"]) (auto simp: wf_stream_def stack_ok_def)
  with 1 show ?case by simp
qed (auto simp: wf_stream_def stack_ok_def located_def)

text \<open>What a finished token stream is.\<close>

definition complete_stream :: "string \<Rightarrow> Token list \<Rightarrow> bool" where
  "complete_stream str ts \<longleftrightarrow>
     (\<exists>body eof. ts = body @ [eof] \<and> ttype eof = Special Eof \<and> Special Eof \<notin> set (map ttype body)
        \<and> nest 0 (map ttype body) = Some 0 \<and> spaced (map ttype body)
        \<and> (body \<noteq> [] \<longrightarrow> ttype (last body) = Layout Newline)
        \<and> (CHR ''/'' \<notin> set str \<longrightarrow> (\<forall>t \<in> set ts. token_located str t)))"

lemma finish_complete:
  assumes "wf_stream (indentStack s) s"
  shows "complete_stream (source s) (tokens (finish s))"
proof -
  define s1 where "s1 = close_blocks (indentStack s) s"
  define s2 where "s2 = (if tokens s1 \<noteq> [] \<and> ttype (last (tokens s1)) \<noteq> Layout Newline
                then push (Layout Newline) (currentSource s1) [BACKSLASH, CHR ''n''] s1 else s1)"
  have w1: "wf_stream [0] s1" "source s1 = source s" using close_blocks_wf [OF assms] by (simp_all add: s1_def)
  have w2: "wf_stream [0] s2 \<and> source s2 = source s
      \<and> (tokens s2 \<noteq> [] \<longrightarrow> ttype (last (tokens s2)) = Layout Newline)"
    using w1 push_newline_wf [OF w1(1)] by (auto simp: s2_def last_map)
  have loc: "token_located (source s) (mk_token (Special Eof) (currentSource s2) '''')"
    if "CHR ''/'' \<notin> set (source s)"
    using w2 that token_located_here [of s2] by (auto simp: wf_stream_def)
  have "tokens (finish s) = tokens s2 @ [mk_token (Special Eof) (currentSource s2) '''']"
    by (simp add: finish_def s2_def s1_def Let_def)
  with w2 loc show ?thesis unfolding complete_stream_def
    by (intro exI [of _ "tokens s2"] exI [of _ "mk_token (Special Eof) (currentSource s2) ''''"])
      (auto simp: wf_stream_def)
qed

lemma lex_source_complete:
  assumes "lex_source src file engine = Inr (ts, s')"
  shows "complete_stream src ts"
proof -
  from assms obtain u where u: "tokenize_loop (new_Lexer src file engine) = Inr u" "ts = tokens (finish u)"
    by (auto simp: lex_source_def tokenize_def)
  from tokenize_loop_wf [OF u(1) new_Lexer_wf] have "wf_stream (indentStack u) u" "source u = src"
    by (auto simp: new_Lexer_def)
  with finish_complete u(2) show ?thesis by metis
qed

end
