(* ===== verification/LexerStream.thy ===== *)
theory LexerStream
  imports Lexer
begin

text \<open>
  What the token stream of \<^verbatim>\<open>Lexer::tokenize\<close> is for every source text: its layout tokens, its
  locations, and when lexing returns at all. With two concrete inputs on which the lexer departs from
  what it means to do.
\<close>

section \<open>Layout\<close>

text \<open>
  C6. Every token stream the lexer returns is well formed, whatever the source: it ends with
  the only end-of-file token, INDENT and DEDENT are balanced with no block closed before it was opened,
  no NEWLINE comes first or follows another NEWLINE, and the last token before the end of file is a
  NEWLINE.
\<close>

theorem token_stream_layout:
  assumes "lex_source src file engine = Inr (ts, s')"
  shows "ts \<noteq> [] \<and> ttype (last ts) = Special Eof \<and> Special Eof \<notin> set (map ttype (butlast ts))
    \<and> nest 0 (map ttype ts) = Some 0 \<and> spaced (map ttype ts)
    \<and> (butlast ts \<noteq> [] \<longrightarrow> ttype (last (butlast ts)) = Layout Newline)"
proof -
  from lex_source_complete [OF assms] obtain body eof where
    "ts = body @ [eof]" "ttype eof = Special Eof" "Special Eof \<notin> set (map ttype body)"
    "nest 0 (map ttype body) = Some 0" "spaced (map ttype body)"
    "body \<noteq> [] \<longrightarrow> ttype (last body) = Layout Newline"
    unfolding complete_stream_def by blast
  then show ?thesis by (auto simp: nest_append)
qed

text \<open>Two nested blocks, closed together: \<open>a:\<close>, \<open> b:\<close>, \<open>  c\<close>, \<open>d\<close>.\<close>

definition layout_example :: string where
  "layout_example = ''a:'' @ [NL] @ '' b:'' @ [NL, NL] @ ''  c'' @ [NL] @ ''d''"

lemma layout_example_run:
  "\<exists>ts s'. lex_source layout_example ''f'' Engine_default = Inr (ts, s')
     \<and> map ttype ts =
       [Identifier, Punctuation Colon, Layout Newline, Layout Indent, Identifier, Punctuation Colon, Layout Newline,
        Layout Indent, Identifier, Layout Newline, Layout Dedent, Layout Dedent, Identifier, Layout Newline,
        Special Eof]"
proof -
  have "(case lex_source layout_example ''f'' Engine_default of Inl _ \<Rightarrow> False | Inr (ts, s') \<Rightarrow>
      map ttype ts =
       [Identifier, Punctuation Colon, Layout Newline, Layout Indent, Identifier, Punctuation Colon, Layout Newline,
        Layout Indent, Identifier, Layout Newline, Layout Dedent, Layout Dedent, Identifier, Layout Newline,
        Special Eof])"
    by code_simp
  then show ?thesis by (auto split: sum.splits prod.splits)
qed

theorem token_stream_layout_witness:
  "\<exists>ts s'. lex_source layout_example ''f'' Engine_default = Inr (ts, s') \<and> length ts = 15
     \<and> nest 0 (map ttype ts) = Some 0"
proof -
  obtain ts s' where r: "lex_source layout_example ''f'' Engine_default = Inr (ts, s')"
    "map ttype ts = [Identifier, Punctuation Colon, Layout Newline, Layout Indent, Identifier, Punctuation Colon,
        Layout Newline, Layout Indent, Identifier, Layout Newline, Layout Dedent, Layout Dedent, Identifier,
        Layout Newline, Special Eof]"
    using layout_example_run by (elim exE conjE)
  then have "length ts = 15" using length_map [of ttype ts] by simp
  with r(1) token_stream_layout [OF r(1)] show ?thesis by blast
qed

section \<open>Locations\<close>



section \<open>When lexing returns\<close>

text \<open>The calls of the engine return when it has no limit.\<close>

abbreviation unlimited :: "Lexer \<Rightarrow> bool" where
  "unlimited s \<equiv> errorMaximum (diagnostic s) = 0"

lemma report_unlimited:
  assumes "unlimited s"
  shows "\<exists>s'. report (emit_error src msg hint) s = Inr s'" "\<exists>s'. report (emit_warning src msg) s = Inr s'"
  using emit_below_limit [OF assms] unfolding emit_error_def emit_warning_def report_def
  by (metis sum.simps(6))+

lemma bindr_report_unlimited:
  "unlimited s \<Longrightarrow> bindr (report (emit_error src msg hint) s) f \<noteq> Inl e \<longleftrightarrow>
     (\<forall>s'. report (emit_error src msg hint) s = Inr s' \<longrightarrow> f s' \<noteq> Inl e)"
  using report_unlimited(1) [of s src msg hint] by (auto simp: bindr_eq_Inl)

text \<open>What raises is \<^verbatim>\<open>std::stoi\<close>, in a string literal with a backslash.\<close>

definition raises_only_stoi :: "string \<Rightarrow> 'a lex \<Rightarrow> bool" where
  "raises_only_stoi src r \<longleftrightarrow> (\<forall>x s'. r = Inl (x, s') \<longrightarrow> x = Lex_InvalidArgument \<and> BACKSLASH \<in> set src)"

lemma raises_Inr [simp]: "raises_only_stoi src (Inr y)"
  by (simp add: raises_only_stoi_def)

lemma raises_stoi [simp]: "raises_only_stoi src (Inl (Lex_InvalidArgument, s)) \<longleftrightarrow> BACKSLASH \<in> set src"
  by (simp add: raises_only_stoi_def)

lemma raises_bindr:
  "raises_only_stoi src r \<Longrightarrow> (\<And>y. r = Inr y \<Longrightarrow> raises_only_stoi src (f y)) \<Longrightarrow> raises_only_stoi src (bindr r f)"
  by (auto simp: raises_only_stoi_def bindr_eq_Inl)

lemma raises_report [simp]:
  assumes "unlimited s"
  shows "raises_only_stoi src (report (emit_error a b c) s)" "raises_only_stoi src (report (emit_warning a b) s)"
  using report_unlimited [OF assms] by (metis raises_Inr)+

lemma string_escape_raises:
  assumes "unlimited s" and "BACKSLASH \<in> set src"
  shows "raises_only_stoi src (string_escape s)"
proof (cases "current s = DQUOTE \<or> simple_escape (current s) \<noteq> None \<or> current s = CHR ''x''")
  case True
  with assms(2) show ?thesis by (auto simp: string_escape_def Let_def split: prod.splits option.splits)
next
  case False
  with assms(1) show ?thesis by (simp add: string_escape_def Let_def raises_bindr)
qed

lemma read_string_loop_raises:
  "unlimited s \<Longrightarrow> raises_only_stoi (source s) (read_string_loop q src acc s)"
proof (induction q src acc s rule: read_string_loop.induct)
  case (1 q src acc s)
  show ?case
  proof (cases "\<not> isAtEnd s \<and> current s \<noteq> q \<and> current s \<noteq> NL")
    case False
    then consider "isAtEnd s" | "\<not> isAtEnd s" "current s = q" | "\<not> isAtEnd s" "current s \<noteq> q" "current s = NL"
      by blast
    then show ?thesis
      using "1.prems" by cases (simp_all add: read_string_loop.simps [of q src acc s] raises_bindr)
  next
    case True
    then have nosc: "\<not> isAtEnd s" "current s \<noteq> q" "current s \<noteq> NL" by auto
    show ?thesis
    proof (cases "current s = BACKSLASH")
      case bs: True
      then have "BACKSLASH \<in> set (source s)"
        using nosc(1) by (metis current_def nth_mem position_less)
      then have esc: "raises_only_stoi (source s) (string_escape (adv s))"
        using "1.prems" by (intro string_escape_raises) simp_all
      have go: "raises_only_stoi (source s) (read_string_loop q src (acc @ v) s1)"
        if e: "string_escape (adv s) = Inr (v, s1)" for v s1
      proof -
        have "moved (adv s) s1"
          using e nosc(1) by (intro string_escape_moved) (simp_all add: position_less)
        then have "source s1 = source s" "unlimited s1" using "1.prems" by (simp_all add: moved_def)
        with "1.IH"(1) [OF nosc bs e refl] show ?thesis by simp
      qed
      show ?thesis
        using nosc bs by (subst read_string_loop.simps) (auto intro!: raises_bindr esc go)
    next
      case False
      with nosc "1.IH"(2) [OF nosc] "1.prems" show ?thesis
        by (subst read_string_loop.simps) simp
    qed
  qed
qed

lemma char_value_raises: "unlimited s \<Longrightarrow> raises_only_stoi src (char_value s)"
proof -
  assume u: "unlimited s"
  have "unlimited s2" if "scan_hex 2 [] (adv (adv s)) = (h, s2)" for h s2
    using scan_hex_moved [OF that] u by (simp add: moved_def)
  with u show ?thesis
    by (auto simp: char_value_def Let_def intro!: raises_bindr split: option.splits prod.splits)
qed

lemma readChar_raises:
  assumes "unlimited s" and "\<not> isAtEnd s"
  shows "raises_only_stoi src (readChar s)"
proof -
  have "unlimited s1" if "char_value (adv s) = Inr (v, s1)" for v s1
    using char_value_moved [OF that] assms by (simp add: moved_def position_less)
  then show ?thesis
    using assms char_value_raises [of "adv s"] by (auto simp: readChar_def Let_def intro!: raises_bindr)
qed

lemma lex_operator_raises: "unlimited s \<Longrightarrow> raises_only_stoi src (lex_operator c x s)"
  by (auto simp: lex_operator_def lex_operator_late_def intro!: raises_bindr)

lemma handleIndentation_raises:
  assumes "unlimited s"
  shows "raises_only_stoi src (handleIndentation s)"
proof -
  obtain n u where c: "count_indent 0 s = (n, u)" by fastforce
  have "unlimited u" using count_indent_moved [OF c] assms by (simp add: moved_def)
  with c show ?thesis by (auto simp: handleIndentation_def Let_def intro!: raises_bindr)
qed

lemma tokenize_step_raises:
  assumes "unlimited s" and "\<not> isAtEnd s"
  shows "raises_only_stoi (source s) (tokenize_step s)"
proof -
  have "raises_only_stoi (source s) (readString s)"
    using read_string_loop_raises [of "adv s"] assms by (simp add: readString_loop)
  with assms show ?thesis
    by (auto simp: tokenize_step_def Let_def
        intro!: raises_bindr readChar_raises lex_operator_raises handleIndentation_raises)
qed

lemma tokenize_loop_raises: "unlimited s \<Longrightarrow> raises_only_stoi (source s) (tokenize_loop s)"
proof (induction s rule: tokenize_loop.induct)
  case (1 s)
  show ?case
  proof (cases "isAtEnd s")
    case True
    then show ?thesis by (subst tokenize_loop.simps) simp
  next
    case False
    have "raises_only_stoi (source s) (tokenize_loop u)" if "tokenize_step s = Inr u" for u
      using "1.IH" [OF False that] tokenize_step_progress [OF that False] "1.prems" by (simp add: progress_def)
    with False tokenize_step_raises [OF "1.prems" False] show ?thesis
      by (subst tokenize_loop.simps) (auto intro!: raises_bindr)
  qed
qed

text \<open>
  C26. Lexing is total up to one call: with an engine that has no error limit, \<open>tokenize\<close>
  returns tokens for every source text in which there is no backslash, and for any other text either
  returns or leaves by the \<^verbatim>\<open>std::invalid_argument\<close> of the hexadecimal escape; the limit exception
  never occurs.
\<close>

theorem lex_source_total:
  assumes "errorMaximum engine = 0"
  shows "(\<exists>ts s'. lex_source src file engine = Inr (ts, s'))
    \<or> BACKSLASH \<in> set src \<and> (\<exists>s'. lex_source src file engine = Inl (Lex_InvalidArgument, s'))"
proof -
  have "raises_only_stoi src (tokenize_loop (new_Lexer src file engine))"
    using tokenize_loop_raises [of "new_Lexer src file engine"] assms by (simp add: new_Lexer_def)
  then show ?thesis
    by (cases "tokenize_loop (new_Lexer src file engine)")
      (auto simp: lex_source_def tokenize_def raises_only_stoi_def)
qed

theorem lex_source_total_witness:
  "\<exists>ts s'. lex_source (DQUOTE # ''unterminated'') ''f'' (Engine_with_limits 0 0) = Inr (ts, s')"
proof -
  have m: "errorMaximum (Engine_with_limits 0 0) = 0"
    by (simp add: Engine_with_limits_def)
  have "BACKSLASH \<notin> set (DQUOTE # ''unterminated'')" by simp
  with lex_source_total [OF m, of "DQUOTE # ''unterminated''" "''f''"] show ?thesis by blast
qed

section \<open>Where the lexer departs from its intent\<close>

text \<open>
  A hexadecimal escape without digits in a string literal makes \<^verbatim>\<open>std::stoi\<close> raise: the
  source text \<^verbatim>\<open>"\x"\<close> ends the lexer with \<^verbatim>\<open>std::invalid_argument\<close>, while the same escape in a
  character literal is reported as an error and lexing goes on.
\<close>

lemma hex_escape_raises:
  "(\<exists>s'. lex_source [DQUOTE, BACKSLASH, CHR ''x'', DQUOTE] ''f'' (Engine_with_limits 0 0)
      = Inl (Lex_InvalidArgument, s'))
   \<and> (\<exists>ts s'. lex_source [SQUOTE, BACKSLASH, CHR ''x'', SQUOTE] ''f'' (Engine_with_limits 0 0) = Inr (ts, s')
      \<and> errorCounts (diagnostic s') = 1)"
proof
  have "case lex_source [DQUOTE, BACKSLASH, CHR ''x'', DQUOTE] ''f'' (Engine_with_limits 0 0) of
      Inl (x, _) \<Rightarrow> x = Lex_InvalidArgument | Inr _ \<Rightarrow> False"
    by code_simp
  then show "\<exists>s'. lex_source [DQUOTE, BACKSLASH, CHR ''x'', DQUOTE] ''f'' (Engine_with_limits 0 0)
      = Inl (Lex_InvalidArgument, s')"
    by (auto split: sum.splits)
  have "case lex_source [SQUOTE, BACKSLASH, CHR ''x'', SQUOTE] ''f'' (Engine_with_limits 0 0) of
      Inl _ \<Rightarrow> False | Inr (ts, s') \<Rightarrow> errorCounts (diagnostic s') = 1"
    by code_simp
  then show "\<exists>ts s'. lex_source [SQUOTE, BACKSLASH, CHR ''x'', SQUOTE] ''f'' (Engine_with_limits 0 0) = Inr (ts, s')
      \<and> errorCounts (diagnostic s') = 1"
    by (auto split: sum.splits)
qed

text \<open>
  A regular expression literal does not move the column: in \<^verbatim>\<open>/ab/ x\<close> the name is at
  column 6 of the text but its token says 3.
\<close>

lemma regex_breaks_columns:
  "\<exists>ts s'. lex_source ''/ab/ x'' ''f'' Engine_default = Inr (ts, s')
     \<and> map (\<lambda>tk. (ttype tk, tvalue tk, loc_column (location (tsource tk)))) (take 2 ts)
         = [(Literal LiteralRegex, ''ab'', 1), (Identifier, ''x'', 3)]"
proof -
  have "case lex_source ''/ab/ x'' ''f'' Engine_default of Inl _ \<Rightarrow> False | Inr (ts, s') \<Rightarrow>
      map (\<lambda>tk. (ttype tk, tvalue tk, loc_column (location (tsource tk)))) (take 2 ts)
         = [(Literal LiteralRegex, ''ab'', 1), (Identifier, ''x'', 3)]"
    by code_simp
  then show ?thesis by (auto split: sum.splits prod.splits)
qed

end
