(* ===== verification/LexerRoundTrip.thy ===== *)
theory LexerRoundTrip
  imports Lexer
begin

text \<open>
  What the lexer reads back: tokens written one after the other with a space between them are lexed to
  the same tokens. The rest of the source from the position on, \<open>rest_of\<close>, carries the proofs: the
  character functions are those of its head.
\<close>

section \<open>The rest of the source\<close>

definition rest_of :: "Lexer \<Rightarrow> string" where
  "rest_of s = drop (position s) (source s)"

lemma rest_isAtEnd: "isAtEnd s \<longleftrightarrow> rest_of s = []"
  by (simp add: isAtEnd_def rest_of_def)

lemma rest_char: "position s + k < length (source s) \<longleftrightarrow> k < length (rest_of s)"
  "k < length (rest_of s) \<Longrightarrow> source s ! (position s + k) = rest_of s ! k"
  by (auto simp: rest_of_def)

lemma rest_current: "current s = (if rest_of s = [] then NUL else hd (rest_of s))"
  using rest_char(2) [of 0 s] by (auto simp: current_def rest_isAtEnd hd_conv_nth)

lemma rest_nth: "rest_of s \<noteq> [] \<Longrightarrow> source s ! position s = hd (rest_of s)"
  using rest_char(2) [of 0 s] by (simp add: hd_conv_nth)

lemma rest_peek: "peek k s = (if k < length (rest_of s) then rest_of s ! k else NUL)"
  by (simp add: peek_def char_at_def rest_char)

lemma rest_adv: "rest_of (adv s) = tl (rest_of s)"
  by (simp add: rest_of_def drop_Suc tl_drop [symmetric])

lemma rest_advance: "rest_of s \<noteq> [] \<Longrightarrow> advance s = (hd (rest_of s), adv s)"
  using rest_char(1) [of s 0] rest_nth [of s] by (cases "advance s") (auto simp: char_at_def dest: arg_cong [of _ _ fst])

lemma rest_match:
  "match_char d s = (if rest_of s \<noteq> [] \<and> hd (rest_of s) = d then (True, adv s) else (False, s))"
  using rest_nth [of s] by (auto simp: match_char_def rest_isAtEnd)

lemma rest_updates [simp]:
  "rest_of (push t src v s) = rest_of s" "rest_of (s\<lparr>parenDepth := d\<rparr>) = rest_of s"
  "rest_of (s\<lparr>tokens := ts\<rparr>) = rest_of s" "rest_of (s\<lparr>atLineStart := b\<rparr>) = rest_of s"
  by (simp_all add: rest_of_def)

lemmas rest_simps = rest_isAtEnd rest_current rest_peek rest_match rest_adv rest_nth

lemma scan_while_rest:
  "rest_of s = w @ r \<Longrightarrow> \<forall>c \<in> set w. P c \<Longrightarrow> r = [] \<or> \<not> P (hd r) \<Longrightarrow>
     \<exists>s'. scan_while P keep acc s = (acc @ filter keep w, s') \<and> rest_of s' = r"
proof (induction w arbitrary: acc s)
  case Nil
  then show ?case by (auto simp: scan_while.simps [of P keep acc s] rest_simps)
next
  case (Cons c w)
  then have "\<exists>s'. scan_while P keep (if keep c then acc @ [c] else acc) (adv s)
       = ((if keep c then acc @ [c] else acc) @ filter keep w, s') \<and> rest_of s' = r"
    by (intro Cons.IH) (simp_all add: rest_adv)
  with Cons.prems show ?case
    by (auto simp: scan_while.simps [of P keep acc s] rest_simps)
qed

section \<open>One token at a time\<close>

text \<open>One step of the main loop reads the token \<open>t\<close>, \<open>v\<close> and leaves \<open>r\<close>.\<close>

definition yields :: "Lexer \<Rightarrow> token_type \<Rightarrow> string \<Rightarrow> string \<Rightarrow> bool" where
  "yields s t v r \<longleftrightarrow>
     (\<exists>s' tk. tokenize_step s = Inr s' \<and> rest_of s' = r \<and> tokens s' = tokens s @ [tk] \<and> ttype tk = t \<and> tvalue tk = v
        \<and> indentStack s' = indentStack s \<and> \<not> atLineStart s')"

definition at_break :: "string \<Rightarrow> bool" where
  "at_break r \<longleftrightarrow> r = [] \<or> hd r = CHR '' ''"

lemma yields_push_token:
  assumes "tokenize_step s = Inr (push_token (tk, s'))" and "moved s s'" and "rest_of s' = r"
    and "\<not> atLineStart s" and "ttype tk = t" and "tvalue tk = v"
  shows "yields s t v r"
  using assms(1,3-6) moved_fields(5,6,8) [OF assms(2)]
  by (auto simp: yields_def push_token_def)

definition operator_tokens :: "token_type list" where
  "operator_tokens =
     operatorsArithmetics @ operatorsBitwises @ operatorsComparisons @ operatorsAssignments
     @ filter (\<lambda>t. t \<noteq> Punctuation Hash) punctuations @ delimiters"

lemma rest_nth1: "1 < length (rest_of s) \<Longrightarrow> source s ! Suc (position s) = rest_of s ! 1"
  using rest_char(2) [of 1 s] by simp

lemmas step_unfold =
  yields_def tokenize_step_def lex_operator_def lex_operator_late_def lex_slash_def open_bracket_def close_bracket_def
  rest_simps rest_nth1 char_class_simps at_break_def Let_def hd_conv_nth

definition yields_at_break :: "token_type \<Rightarrow> string \<Rightarrow> bool" where
  "yields_at_break t v \<longleftrightarrow>
     (\<forall>s r. rest_of s = v @ r \<longrightarrow> at_break r \<longrightarrow> \<not> atLineStart s \<longrightarrow> yields s t v r)"

lemma operator_tokens_table:
  "map (\<lambda>t. (t, toString t)) operator_tokens =
    [(Arithmetic Decrement, ''--''), (Arithmetic Increment, ''++''), (Arithmetic Minus, ''-''),
     (Arithmetic Percent, ''%''), (Arithmetic Plus, ''+''), (Arithmetic Power, ''**''),
     (Arithmetic Slash, ''/''), (Arithmetic Star, ''*''), (Bitwise Ampersand, ''&''), (Bitwise Caret, ''^''),
     (Bitwise Pipe, ''|''), (Bitwise ShiftLeft, ''<<''), (Bitwise ShiftRight, ''>>''),
     (Bitwise Tilde, ''~''), (Comparison Equal, ''==''), (Comparison GreaterThan, ''>''),
     (Comparison GreaterThanEqual, ''>=''), (Comparison LessThan, ''<''), (Comparison LessThanEqual, ''<=''),
     (Comparison NotEqual, ''!=''), (Assigning AmpersandAssignment, ''&=''), (Assigning Assignment, ''=''),
     (Assigning CaretAssignment, ''^=''), (Assigning MinusAssignment, ''-=''),
     (Assigning PercentAssignment, ''%=''), (Assigning PipeAssignment, ''|=''),
     (Assigning PlusAssignment, ''+=''), (Assigning ShiftLeftAssignment, ''<<=''),
     (Assigning ShiftRightAssignment, ''>>=''), (Assigning SlashAssignment, ''/=''),
     (Assigning StarAssignment, ''*=''), (Punctuation Arrow, ''->''), (Punctuation At, ''@''),
     (Punctuation Bang, ''!''), (Punctuation Colon, '':''), (Punctuation Comma, '',''),
     (Punctuation Dot, ''.''), (Punctuation DoubleColon, ''::''), (Punctuation DoubleDot, ''..''),
     (Punctuation Ellipsis, ''...''), (Punctuation FatArrow, ''=>''), (Punctuation Question, ''?''),
     (Punctuation Semicolon, '';''), (Delimiter LeftBrace, ''{''), (Delimiter LeftBracket, ''[''),
     (Delimiter LeftParenthesis, ''(''), (Delimiter RightBrace, ''}''), (Delimiter RightBracket, '']''),
     (Delimiter RightParenthesis, '')'')]"
  by code_simp

lemma operator_tokens_yield: "t \<in> set operator_tokens \<Longrightarrow> yields_at_break t (toString t)"
proof -
  have "list_all (\<lambda>(t, v). yields_at_break t v) (map (\<lambda>t. (t, toString t)) operator_tokens)"
    unfolding operator_tokens_table list.pred_inject(2) prod.case
    by (intro conjI list.pred_inject(1); auto simp: yields_at_break_def step_unfold)
  then show "t \<in> set operator_tokens \<Longrightarrow> ?thesis"
    by (auto simp: list_all_iff)
qed

text \<open>Words: identifiers and keywords.\<close>

definition word_char :: "char \<Rightarrow> bool" where
  "word_char c \<longleftrightarrow> isalnum c \<or> c = CHR ''_''"

definition is_word :: "string \<Rightarrow> bool" where
  "is_word v \<longleftrightarrow> v \<noteq> [] \<and> list_all word_char v \<and> \<not> isdigit (hd v)"

definition word_type :: "string \<Rightarrow> token_type" where
  "word_type v = (case keymaps v of Some t \<Rightarrow> t | None \<Rightarrow> Identifier)"

lemma isalpha_class:
  "isalpha c \<or> c = CHR ''_'' \<Longrightarrow>
     c \<notin> {NL, TAB, CR, CHR '' '', BACKSLASH, CHR ''#'', SQUOTE, DQUOTE} \<and> \<not> isdigit c"
  by (auto simp: char_class_simps)

lemma isdigit_class:
  "isdigit c \<Longrightarrow> c \<notin> {NL, TAB, CR, CHR '' '', BACKSLASH, CHR ''#'', SQUOTE, DQUOTE, CHR ''_''} \<and> \<not> isalpha c"
  by (auto simp: char_class_simps)

lemma at_break_class: "at_break r \<Longrightarrow> r = [] \<or> \<not> word_char (hd r) \<and> \<not> isdigit (hd r) \<and> \<not> isalpha (hd r)"
  by (auto simp: at_break_def word_char_def char_class_simps)

lemma word_yields:
  assumes "is_word v"
  shows "yields_at_break (word_type v) v"
  unfolding yields_at_break_def
proof (intro allI impI)
  fix s r
  assume s: "rest_of s = v @ r" "at_break r" "\<not> atLineStart s"
  from assms obtain c w where v: "v = c # w" and start: "isalpha c \<or> c = CHR ''_''"
    by (cases v) (auto simp: is_word_def word_char_def isalnum_def)
  have "\<exists>s'. scan_while word_char (\<lambda>_. True) [] s = ([] @ filter (\<lambda>_. True) v, s') \<and> rest_of s' = r"
    using assms s at_break_class by (intro scan_while_rest) (auto simp: is_word_def list_all_iff)
  then obtain s' where sc: "scan_while (\<lambda>c. isalnum c \<or> c = CHR ''_'') (\<lambda>_. True) [] s = (v, s')" "rest_of s' = r"
    by (auto simp: word_char_def [abs_def])
  let ?tk = "mk_token (word_type v) (currentSource s) v"
  have "tokenize_step s = Inr (push_token (?tk, s'))"
    using s start isalpha_class [OF start] sc
    by (auto simp: tokenize_step_def rest_simps v readIdentifierOrKeyword_def word_type_def split: option.split)
  then show "yields s (word_type v) v r"
    using scan_while_moved [OF sc(1)] sc(2) s(3) by (rule yields_push_token) simp_all
qed

text \<open>Decimal integers.\<close>

definition is_decimal :: "string \<Rightarrow> bool" where
  "is_decimal v \<longleftrightarrow> v \<noteq> [] \<and> list_all isdigit v"

lemma decimal_yields:
  assumes "is_decimal v"
  shows "yields_at_break (Literal LiteralInteger) v"
  unfolding yields_at_break_def
proof (intro allI impI)
  fix s r
  assume s: "rest_of s = v @ r" "at_break r" "\<not> atLineStart s"
  from assms obtain c w where v: "v = c # w" and c: "isdigit c" and w: "list_all isdigit w"
    by (cases v) (auto simp: is_decimal_def)
  have "\<exists>s'. scan_while (\<lambda>c. isdigit c \<or> c = CHR ''_'') (\<lambda>c. c \<noteq> CHR ''_'') [] s
       = ([] @ filter (\<lambda>c. c \<noteq> CHR ''_'') v, s') \<and> rest_of s' = r"
    using assms s at_break_class [OF s(2)]
    by (intro scan_while_rest) (auto simp: is_decimal_def list_all_iff word_char_def)
  moreover have "filter (\<lambda>c. c \<noteq> CHR ''_'') v = v"
    using assms isdigit_class by (auto simp: is_decimal_def list_all_iff filter_id_conv)
  ultimately obtain s' where sc: "scan_digits isdigit [] s = (v, s')" "rest_of s' = r" by auto
  have second: "peek 1 s \<notin> {CHR ''B'', CHR ''b'', CHR ''O'', CHR ''o'', CHR ''X'', CHR ''x''}"
    using s(1,2) w v by (cases w; cases r) (auto simp: rest_peek at_break_def char_class_simps)
  have stop: "current s' = NUL \<or> current s' = CHR '' ''"
    using sc(2) s(2) by (auto simp: rest_current at_break_def)
  let ?tk = "mk_token (Literal LiteralInteger) (currentSource s) v"
  have "readNumber s = (?tk, s')"
    using second stop sc(1)
    by (auto simp: readNumber_def read_fraction_def read_exponent_def read_suffix_def Let_def char_class_simps)
  then have "tokenize_step s = Inr (push_token (?tk, s'))"
    using s c isdigit_class [OF c] by (auto simp: tokenize_step_def rest_simps v)
  then show "yields s (Literal LiteralInteger) v r"
    using scan_while_moved [OF sc(1)] sc(2) s(3) by (rule yields_push_token) simp_all
qed

text \<open>String literals, with the escapes a printer must write.\<close>

definition escape_char :: "char \<Rightarrow> string" where
  "escape_char c =
     (if c = DQUOTE \<or> c = BACKSLASH then [BACKSLASH, c] else if c = NL then [BACKSLASH, CHR ''n''] else [c])"

definition quote :: "string \<Rightarrow> string" where
  "quote v = DQUOTE # concat (map escape_char v) @ [DQUOTE]"

lemma read_string_loop_rest:
  "rest_of s = concat (map escape_char v) @ DQUOTE # r \<Longrightarrow>
     \<exists>s'. read_string_loop DQUOTE src acc s = Inr (mk_token (Literal LiteralString) src (acc @ v), s')
        \<and> rest_of s' = r"
proof (induction v arbitrary: acc s)
  case Nil
  then show ?case by (simp add: read_string_loop.simps [of _ _ _ s] rest_simps)
next
  case (Cons c v)
  show ?case
  proof (cases "c = DQUOTE \<or> c = BACKSLASH \<or> c = NL")
    case True
    then have r: "rest_of s = BACKSLASH # (if c = NL then CHR ''n'' else c) # concat (map escape_char v) @ DQUOTE # r"
      using Cons.prems by (auto simp: escape_char_def [of c])
    then have "string_escape (adv s) = Inr ([c], adv (adv s))"
      using True by (auto simp: string_escape_def simple_escape_def rest_simps)
    with r Cons.IH [of "adv (adv s)" "acc @ [c]"] show ?thesis
      by (simp add: read_string_loop.simps [of _ _ _ s] rest_simps)
  next
    case False
    with Cons.prems Cons.IH [of "adv s" "acc @ [c]"] show ?thesis
      by (simp add: read_string_loop.simps [of _ _ _ s] rest_simps escape_char_def [of c])
  qed
qed

lemma escape_char_hd: "hd (concat (map escape_char v) @ DQUOTE # r) = DQUOTE \<Longrightarrow> v = []"
  by (cases v) (auto simp: escape_char_def split: if_splits)

lemma string_yields:
  "\<forall>s r. rest_of s = quote v @ r \<longrightarrow> at_break r \<longrightarrow> \<not> atLineStart s \<longrightarrow> yields s (Literal LiteralString) v r"
proof (intro allI impI)
  fix s r
  assume s: "rest_of s = quote v @ r" "at_break r" "\<not> atLineStart s"
  then have "rest_of (adv s) = concat (map escape_char v) @ DQUOTE # r"
    by (simp add: rest_adv quote_def)
  from read_string_loop_rest [OF this, of "currentSource s" "[]"] obtain s' where
    l: "read_string_loop DQUOTE (currentSource s) [] (adv s)
          = Inr (mk_token (Literal LiteralString) (currentSource s) v, s')" "rest_of s' = r"
    by auto
  let ?tk = "mk_token (Literal LiteralString) (currentSource s) v"
  have "fst (advance s) = DQUOTE"
    using arg_cong [OF rest_advance [of s], of fst] s(1) by (simp add: quote_def)
  then have rs: "readString s = Inr (?tk, s')"
    using l(1) by (simp add: readString_def split_beta)
  have "\<not> (peek 1 s = DQUOTE \<and> peek 2 s = DQUOTE)"
  proof
    assume p: "peek 1 s = DQUOTE \<and> peek 2 s = DQUOTE"
    obtain a b where ab: "concat (map escape_char v) @ DQUOTE # r = a # b"
      by (cases "concat (map escape_char v) @ DQUOTE # r") auto
    with s(1) have "rest_of s = DQUOTE # a # b" by (simp add: quote_def)
    with p have "a = DQUOTE" by (simp add: rest_peek)
    with ab escape_char_hd [of v r] have "v = []" by simp
    with p s(1,2) show False by (cases r) (auto simp: rest_peek quote_def at_break_def)
  qed
  then have "tokenize_step s = Inr (push_token (?tk, s'))"
    using s rs by (auto simp: tokenize_step_def rest_current quote_def Let_def)
  moreover have "moved s s'"
    using readString_moved [OF rs] s(1) by (simp add: rest_isAtEnd quote_def)
  ultimately show "yields s (Literal LiteralString) v r"
    using l(2) s(3) by (rule yields_push_token) simp_all
qed

section \<open>A line of tokens\<close>

definition printable :: "token_type \<times> string \<Rightarrow> bool" where
  "printable = (\<lambda>(t, v).
     t \<in> set operator_tokens \<and> v = toString t \<or> is_word v \<and> t = word_type v
     \<or> t = Literal LiteralInteger \<and> is_decimal v \<or> t = Literal LiteralString)"

definition print :: "token_type \<times> string \<Rightarrow> string" where
  "print = (\<lambda>(t, v). if t = Literal LiteralString then quote v else v)"

fun print_line :: "(token_type \<times> string) list \<Rightarrow> string" where
  "print_line [] = []"
| "print_line [x] = print x"
| "print_line (x # y # xs) = print x @ CHR '' '' # print_line (y # xs)"

lemma print_yields:
  assumes "printable x" and "rest_of s = print x @ r" and "at_break r" and "\<not> atLineStart s"
  shows "yields s (fst x) (snd x) r"
proof (cases "fst x = Literal LiteralString")
  case True
  with assms string_yields show ?thesis by (cases x) (simp add: print_def)
next
  case False
  then have "yields_at_break (fst x) (snd x)"
    using assms(1) operator_tokens_yield word_yields decimal_yields
    by (cases x) (auto simp: printable_def)
  with False assms(2-4) show ?thesis by (cases x) (simp add: print_def yields_at_break_def)
qed

lemma operator_tokens_start:
  "list_all (\<lambda>(t, v). plain t \<and> v \<noteq> [] \<and> hd v \<notin> {NL, TAB, CHR '' '', CHR ''#''})
     (map (\<lambda>t. (t, toString t)) operator_tokens)"
  unfolding operator_tokens_table by (simp del: list.map)

lemma printable_start:
  assumes "printable x"
  shows "plain (fst x) \<and> print x \<noteq> [] \<and> hd (print x) \<notin> {NL, TAB, CHR '' '', CHR ''#''}"
proof -
  obtain t v where x: "x = (t, v)" by (cases x)
  have w: "plain (word_type v)"
    using plain_keyword [of v] by (auto simp: word_type_def split: option.splits)
  consider "t = Literal LiteralString" | "t \<noteq> Literal LiteralString" "t \<in> set operator_tokens" "v = toString t"
    | "t \<noteq> Literal LiteralString" "is_word v" "t = word_type v"
    | "t = Literal LiteralInteger" "is_decimal v"
    using assms by (auto simp: x printable_def)
  then show ?thesis
  proof cases
    case 2
    with operator_tokens_start show ?thesis by (auto simp: x print_def list_all_iff)
  next
    case 3
    with w show ?thesis by (cases v) (auto simp: x print_def is_word_def word_char_def char_class_simps)
  next
    case 4
    then show ?thesis by (cases v) (auto simp: x print_def is_decimal_def char_class_simps)
  qed (simp add: x print_def quote_def)
qed

lemma tokenize_loop_line:
  "\<forall>x \<in> set xs. printable x \<Longrightarrow> rest_of s = print_line xs \<Longrightarrow> \<not> atLineStart s \<Longrightarrow>
     \<exists>s' tks. tokenize_loop s = Inr s' \<and> tokens s' = tokens s @ tks
       \<and> map (\<lambda>tk. (ttype tk, tvalue tk)) tks = xs \<and> indentStack s' = indentStack s"
proof (induction xs arbitrary: s rule: print_line.induct)
  case 1
  then show ?case by (simp add: tokenize_loop.simps [of s] rest_isAtEnd)
next
  case (2 x)
  then have ne: "\<not> isAtEnd s" using printable_start [of x] by (simp add: rest_isAtEnd)
  from 2 have "yields s (fst x) (snd x) []"
    by (intro print_yields) (simp_all add: at_break_def)
  then obtain u tk where u: "tokenize_step s = Inr u" "rest_of u = []" "tokens u = tokens s @ [tk]"
      "ttype tk = fst x" "tvalue tk = snd x" "indentStack u = indentStack s"
    by (auto simp: yields_def)
  then have "tokenize_loop s = Inr u"
    using ne by (simp add: tokenize_loop.simps [of s] tokenize_loop.simps [of u] rest_isAtEnd [of u])
  with u show ?case by auto
next
  case (3 x y xs)
  then have ne: "\<not> isAtEnd s" using printable_start [of x] by (simp add: rest_isAtEnd)
  from 3 have "yields s (fst x) (snd x) (CHR '' '' # print_line (y # xs))"
    by (intro print_yields) (simp_all add: at_break_def)
  then obtain u tk where u: "tokenize_step s = Inr u" "rest_of u = CHR '' '' # print_line (y # xs)"
      "tokens u = tokens s @ [tk]" "ttype tk = fst x" "tvalue tk = snd x" "indentStack u = indentStack s"
      "\<not> atLineStart u"
    by (auto simp: yields_def)
  then have "tokenize_step u = Inr (adv u)" by (simp add: tokenize_step_def rest_current)
  then have step: "tokenize_loop s = tokenize_loop (adv u)"
    using u(1,2) ne by (simp add: tokenize_loop.simps [of s] tokenize_loop.simps [of u] rest_isAtEnd [of u])
  have "rest_of (adv u) = print_line (y # xs)" using u(2) by (simp add: rest_adv)
  with "3.IH" [of "adv u"] "3.prems"(1) u(7) obtain s' tks where
    "tokenize_loop (adv u) = Inr s'" "tokens s' = tokens u @ tks"
    "map (\<lambda>tk. (ttype tk, tvalue tk)) tks = y # xs" "indentStack s' = indentStack u"
    by auto
  with step u show ?case by auto
qed

lemma handleIndentation_none:
  assumes "rest_of s = c # r" and "c \<notin> {NL, TAB, CHR '' '', CHR ''#''}" and "indentStack s = [0]"
  shows "handleIndentation s = Inr (s\<lparr>atLineStart := False\<rparr>)"
proof -
  have "count_indent 0 s = (0, s)"
    using assms by (simp add: count_indent.simps [of 0 s] rest_current rest_isAtEnd)
  moreover have "s\<lparr>indentStack := [0]\<rparr> = s" using assms(3) by simp
  ultimately show ?thesis
    using assms by (simp add: handleIndentation_def rest_current rest_isAtEnd Let_def)
qed

text \<open>
  C1. Round trip of the lexer: a line of identifiers, keywords, decimal integers, string literals of
  arbitrary content and operators, brackets and punctuation of every kind the lexer knows, written with
  the documented escapes and a space between two of them, is read back as exactly those tokens with
  those values, followed by NEWLINE and end of file. No diagnostic is needed: the result does not
  depend on the engine.
\<close>

theorem lex_print_line:
  assumes "\<forall>x \<in> set xs. printable x" and "xs \<noteq> []"
  shows "\<exists>ts s'. lex_source (print_line xs) file engine = Inr (ts, s')
    \<and> map (\<lambda>tk. (ttype tk, tvalue tk)) ts = xs @ [(Layout Newline, [BACKSLASH, CHR ''n'']), (Special Eof, '''')]"
proof -
  let ?s = "new_Lexer (print_line xs) file engine"
  have rest: "rest_of ?s = print_line xs" by (simp add: rest_of_def new_Lexer_def)
  obtain x ys where xs: "xs = x # ys" using assms(2) by (cases xs) auto
  have px: "plain (fst x)" "print x \<noteq> []" "hd (print x) \<notin> {NL, TAB, CHR '' '', CHR ''#''}"
    using printable_start [of x] assms(1) xs by auto
  obtain c r where cr: "print_line xs = c # r" "c = hd (print x)"
    using px(2) xs by (cases ys; cases "print x") auto
  let ?u = "?s\<lparr>atLineStart := False\<rparr>"
  have "handleIndentation ?s = Inr ?u"
    using rest cr px(3) by (intro handleIndentation_none) (simp_all add: new_Lexer_def)
  then have "tokenize_step ?s = Inr ?u"
    using rest cr px(3) by (simp add: tokenize_step_def rest_current) (simp add: new_Lexer_def)
  then have "tokenize_loop ?s = tokenize_loop ?u"
    using rest cr(1) by (subst tokenize_loop.simps) (simp add: rest_isAtEnd)
  moreover obtain s' tks where l: "tokenize_loop ?u = Inr s'" "tokens s' = tokens ?u @ tks"
     "map (\<lambda>tk. (ttype tk, tvalue tk)) tks = xs" "indentStack s' = indentStack ?u"
    using tokenize_loop_line [OF assms(1), of ?u] rest by auto
  ultimately have loop: "tokenize_loop ?s = Inr s'" by simp
  have t: "tokens s' = tks" "indentStack s' = [0]" using l(2,4) by (simp_all add: new_Lexer_def)
  then have tks: "tks \<noteq> []" "map fst xs = map ttype tks" using l(3) assms(2) by auto
  have "ttype (last tks) = fst (last xs)"
    using tks assms(2) by (metis last_map)
  moreover have "plain (fst (last xs))" using printable_start assms by simp
  ultimately have "ttype (last (tokens s')) \<noteq> Layout Newline" by (auto simp: t plain_def)
  then show ?thesis
    using l(3) tks(1) t by (simp add: lex_source_def tokenize_def loop finish_def Let_def)
qed

text \<open>A keyword, a name, operators, a number, a string with a quote and a newline in it.\<close>

theorem lex_print_line_witness:
  "\<exists>ts s'. lex_source
      (print_line [(Control KeywordIf, ''if''), (Identifier, ''x1''), (Assigning ShiftRightAssignment, ''>>=''),
         (Literal LiteralInteger, ''42''), (Arithmetic Slash, ''/''), (Literal LiteralString, [DQUOTE, NL]),
         (Delimiter LeftParenthesis, ''('')]) ''f.urn'' Engine_default = Inr (ts, s')
    \<and> map (\<lambda>tk. (ttype tk, tvalue tk)) ts =
       [(Control KeywordIf, ''if''), (Identifier, ''x1''), (Assigning ShiftRightAssignment, ''>>=''),
        (Literal LiteralInteger, ''42''), (Arithmetic Slash, ''/''), (Literal LiteralString, [DQUOTE, NL]),
        (Delimiter LeftParenthesis, ''(''), (Layout Newline, [BACKSLASH, CHR ''n'']), (Special Eof, '''')]"
proof -
  let ?xs = "[(Control KeywordIf, ''if''), (Identifier, ''x1''), (Assigning ShiftRightAssignment, ''>>=''),
         (Literal LiteralInteger, ''42''), (Arithmetic Slash, ''/''), (Literal LiteralString, [DQUOTE, NL]),
         (Delimiter LeftParenthesis, ''('')]"
  have "list_all printable ?xs" by code_simp
  then have "\<forall>x \<in> set ?xs. printable x" by (simp only: list_all_iff)
  from lex_print_line [OF this, of "''f.urn''" Engine_default] show ?thesis by simp
qed

end
