(* ===== verification/Version.thy ===== *)
theory Version
  imports Prelude "HOL-Library.List_Lexorder" "HOL-Library.Multiset"
begin

text \<open>
  Semantic versions and version constraints: \<^verbatim>\<open>src/uranite-pkg/resolver/version.hpp\<close> and
  \<^verbatim>\<open>version.cpp\<close>. The struct is a datatype with the source's fields as selectors, so that its
  comparison can be made an instance of \<open>linorder\<close>; the comparison operators are functions of their own
  as in the source. What \<^verbatim>\<open>std::stoul\<close> raises is the left summand of \<open>parse\<close>. What \<^verbatim>\<open>std::sort\<close>
  asks of its order, and gives for it, is the locale \<open>sort_order\<close>, interpreted on the versions.
\<close>

section \<open>Versions\<close>

datatype (plugins only: code size) SemanticVersion =
  SemanticVersion (majorVersion: uint32) (minorVersion: uint32) (patchVersion: uint32) (prereleaseLabel: string)

definition version_eq :: "SemanticVersion \<Rightarrow> SemanticVersion \<Rightarrow> bool" where
  "version_eq a b \<longleftrightarrow>
     majorVersion a = majorVersion b \<and> minorVersion a = minorVersion b \<and> patchVersion a = patchVersion b
     \<and> prereleaseLabel a = prereleaseLabel b"

definition version_less :: "SemanticVersion \<Rightarrow> SemanticVersion \<Rightarrow> bool" where
  "version_less a b =
     (if majorVersion a \<noteq> majorVersion b then majorVersion a < majorVersion b
      else if minorVersion a \<noteq> minorVersion b then minorVersion a < minorVersion b
      else if patchVersion a \<noteq> patchVersion b then patchVersion a < patchVersion b
      else if prereleaseLabel a = [] \<and> prereleaseLabel b = [] then False
      else if prereleaseLabel a = [] then False
      else if prereleaseLabel b = [] then True
      else prereleaseLabel a < prereleaseLabel b)"

definition version_le :: "SemanticVersion \<Rightarrow> SemanticVersion \<Rightarrow> bool" where
  "version_le a b \<longleftrightarrow> version_eq a b \<or> version_less a b"

definition version_greater :: "SemanticVersion \<Rightarrow> SemanticVersion \<Rightarrow> bool" where
  "version_greater a b \<longleftrightarrow> version_less b a"

definition version_ge :: "SemanticVersion \<Rightarrow> SemanticVersion \<Rightarrow> bool" where
  "version_ge a b \<longleftrightarrow> version_eq a b \<or> version_greater a b"

definition version_toString :: "SemanticVersion \<Rightarrow> string" where
  "version_toString v =
     to_string (unat (majorVersion v)) @ ''.'' @ to_string (unat (minorVersion v)) @ ''.''
     @ to_string (unat (patchVersion v))
     @ (if prereleaseLabel v \<noteq> [] then ''-'' @ prereleaseLabel v else [])"

lemma version_eq_iff: "version_eq a b \<longleftrightarrow> a = b"
  by (cases a; cases b) (auto simp: version_eq_def)

lemma version_less_irrefl: "\<not> version_less a a"
  by (simp add: version_less_def)

lemma version_less_trans: "version_less a b \<Longrightarrow> version_less b c \<Longrightarrow> version_less a c"
  by (cases a; cases b; cases c) (auto simp: version_less_def split: if_splits)

lemma version_less_total: "version_less a b \<or> a = b \<or> version_less b a"
  by (cases a; cases b) (auto simp: version_less_def)

instantiation SemanticVersion :: linorder
begin

definition less_SemanticVersion :: "SemanticVersion \<Rightarrow> SemanticVersion \<Rightarrow> bool" where
  "a < b \<longleftrightarrow> version_less a b"

definition less_eq_SemanticVersion :: "SemanticVersion \<Rightarrow> SemanticVersion \<Rightarrow> bool" where
  "a \<le> b \<longleftrightarrow> version_le a b"

instance
proof
  fix a b c :: SemanticVersion
  note defs = less_SemanticVersion_def less_eq_SemanticVersion_def version_le_def version_eq_iff
  show "a < b \<longleftrightarrow> a \<le> b \<and> \<not> b \<le> a"
    unfolding defs using version_less_irrefl version_less_trans by blast
  show "a \<le> a" unfolding defs by simp
  show "a \<le> b \<Longrightarrow> b \<le> c \<Longrightarrow> a \<le> c" unfolding defs using version_less_trans by blast
  show "a \<le> b \<Longrightarrow> b \<le> a \<Longrightarrow> a = b"
    unfolding defs using version_less_irrefl version_less_trans by blast
  show "a \<le> b \<or> b \<le> a" unfolding defs using version_less_total by blast
qed

end

text \<open>The operators of the source are those of the order.\<close>

lemma version_operators:
  "version_less a b \<longleftrightarrow> a < b" "version_le a b \<longleftrightarrow> a \<le> b" "version_greater a b \<longleftrightarrow> b < a"
  "version_ge a b \<longleftrightarrow> b \<le> a"
  by (auto simp: less_SemanticVersion_def less_eq_SemanticVersion_def version_greater_def version_ge_def
      version_le_def version_eq_iff)

lemma version_le_components:
  "a \<le> b \<Longrightarrow> majorVersion a \<le> majorVersion b"
  "a \<le> b \<Longrightarrow> majorVersion a = majorVersion b \<Longrightarrow> minorVersion a \<le> minorVersion b"
  by (auto simp: less_eq_SemanticVersion_def version_le_def version_eq_iff version_less_def split: if_splits)

section \<open>Sorting\<close>

text \<open>\<^verbatim>\<open>std::sort\<close> with the order \<^verbatim>\<open>operator<\<close>.\<close>

fun insert_by :: "('a \<Rightarrow> 'a \<Rightarrow> bool) \<Rightarrow> 'a \<Rightarrow> 'a list \<Rightarrow> 'a list" where
  "insert_by lt x [] = [x]"
| "insert_by lt x (y # ys) = (if lt y x then y # insert_by lt x ys else x # y # ys)"

definition std_sort :: "('a \<Rightarrow> 'a \<Rightarrow> bool) \<Rightarrow> 'a list \<Rightarrow> 'a list" where
  "std_sort lt xs = foldr (insert_by lt) xs []"

lemma insert_by_mset [simp]: "mset (insert_by lt x ys) = add_mset x (mset ys)"
  by (induction ys) auto

lemma std_sort_mset: "mset (std_sort lt xs) = mset xs"
  by (induction xs) (simp_all add: std_sort_def)

lemma std_sort_set [simp]: "set (std_sort lt xs) = set xs"
  using std_sort_mset [of lt xs] by (metis set_mset_mset)

lemma std_sort_Nil [simp]: "std_sort lt xs = [] \<longleftrightarrow> xs = []"
  using std_sort_mset [of lt xs] by (metis mset_zero_iff)

text \<open>What the standard asks of the order: a strict order; here it is total besides.\<close>

locale sort_order =
  fixes lt :: "'a \<Rightarrow> 'a \<Rightarrow> bool"
  assumes lt_irrefl: "\<not> lt a a"
    and lt_trans: "lt a b \<Longrightarrow> lt b c \<Longrightarrow> lt a c"
    and lt_total: "lt a b \<or> a = b \<or> lt b a"
begin

lemma insert_by_sorted:
  "sorted_wrt (\<lambda>a b. \<not> lt b a) ys \<Longrightarrow> sorted_wrt (\<lambda>a b. \<not> lt b a) (insert_by lt x ys)"
proof (induction ys)
  case (Cons y ys)
  have set: "set (insert_by lt x zs) = insert x (set zs)" for zs by (induction zs) auto
  from Cons show ?case by (auto simp: set) (use lt_irrefl lt_trans lt_total in metis)+
qed simp

lemma std_sort_sorted: "sorted_wrt (\<lambda>a b. \<not> lt b a) (std_sort lt xs)"
  by (induction xs) (simp_all add: std_sort_def insert_by_sorted)

lemma last_sorted: "sorted_wrt (\<lambda>a b. \<not> lt b a) xs \<Longrightarrow> x \<in> set xs \<Longrightarrow> \<not> lt (last xs) x"
  by (induction xs) (use lt_irrefl in \<open>auto split: if_splits\<close>)

lemma std_sort_last:
  assumes "xs \<noteq> []"
  shows "last (std_sort lt xs) \<in> set xs \<and> (\<forall>x \<in> set xs. x = last (std_sort lt xs) \<or> lt x (last (std_sort lt xs)))"
proof -
  have "last (std_sort lt xs) \<in> set xs"
    using assms last_in_set [of "std_sort lt xs"] by simp
  moreover have "\<not> lt (last (std_sort lt xs)) x" if "x \<in> set xs" for x
    using that last_sorted [OF std_sort_sorted] by simp
  ultimately show ?thesis using lt_total by blast
qed

end

interpretation version_sort: sort_order version_less
  by unfold_locales (fact version_less_irrefl version_less_trans version_less_total)+

section \<open>Parsing\<close>

definition segment_value :: "string list \<Rightarrow> nat \<Rightarrow> number_error + uint32" where
  "segment_value segments i =
     (if i < length segments then bindr (stoul (segments ! i)) (\<lambda>w. Inr (ucast w)) else Inr 0)"

definition version_parse :: "string \<Rightarrow> number_error + SemanticVersion" where
  "version_parse versionString =
     (let input = (if versionString \<noteq> [] \<and> hd versionString = CHR ''v'' then tl versionString else versionString);
          (numericPart, label) =
            (case find_char CHR ''-'' input of
               None \<Rightarrow> (input, [])
             | Some p \<Rightarrow> (take p input, drop (p + 1) input));
          segments = getlines CHR ''.'' numericPart in
      bindr (segment_value segments 0) (\<lambda>a. bindr (segment_value segments 1) (\<lambda>b.
      bindr (segment_value segments 2) (\<lambda>c. Inr (SemanticVersion a b c label)))))"

datatype (plugins only: code size) ConstraintOperator =
  Exact | GreaterThan | GreaterThanOrEqual | LessThan | LessThanOrEqual | Caret | Tilde

record VersionConstraint =
  constraintOperator :: ConstraintOperator
  constraintVersion :: SemanticVersion

definition blanks :: "char set" where
  "blanks = {CHR '' '', TAB}"

text \<open>\<^verbatim>\<open>find_first_not_of\<close> and \<^verbatim>\<open>substr\<close>: a part that is all blank stays as it is.\<close>

definition skip_blanks :: "string \<Rightarrow> string" where
  "skip_blanks part = (if drop_leading blanks part = [] then part else drop_leading blanks part)"

definition constraint_of :: "ConstraintOperator \<Rightarrow> string \<Rightarrow> number_error + VersionConstraint" where
  "constraint_of operator part =
     bindr (version_parse part) (\<lambda>v. Inr \<lparr>constraintOperator = operator, constraintVersion = v\<rparr>)"

definition parse_single :: "string \<Rightarrow> number_error + VersionConstraint" where
  "parse_single c =
     (if hd c = CHR ''^'' then constraint_of Caret (drop 1 c)
      else if hd c = CHR ''~'' then constraint_of Tilde (drop 1 c)
      else if 2 \<le> length c \<and> hd c = CHR ''>'' \<and> c ! 1 = CHR ''=''
      then constraint_of GreaterThanOrEqual (skip_blanks (drop 2 c))
      else if 2 \<le> length c \<and> hd c = CHR ''<'' \<and> c ! 1 = CHR ''=''
      then constraint_of LessThanOrEqual (skip_blanks (drop 2 c))
      else if hd c = CHR ''>'' then constraint_of GreaterThan (skip_blanks (drop 1 c))
      else if hd c = CHR ''<'' then constraint_of LessThan (skip_blanks (drop 1 c))
      else constraint_of Exact c)"

fun parse_pieces :: "string list \<Rightarrow> number_error + VersionConstraint list" where
  "parse_pieces [] = Inr []"
| "parse_pieces (p # ps) =
     (let c = drop_leading blanks p in
      if c = [] then parse_pieces ps
      else bindr (parse_single c) (\<lambda>x. bindr (parse_pieces ps) (\<lambda>xs. Inr (x # xs))))"

definition parseConstraint :: "string \<Rightarrow> number_error + VersionConstraint list" where
  "parseConstraint s =
     bindr (parse_pieces (getlines CHR '','' s)) (\<lambda>constraints.
       if constraints = []
       then bindr (constraint_of GreaterThanOrEqual ''0.0.0'') (\<lambda>fallback. Inr [fallback])
       else Inr constraints)"

section \<open>Satisfaction\<close>

definition satisfiesSingle :: "SemanticVersion \<Rightarrow> VersionConstraint \<Rightarrow> bool" where
  "satisfiesSingle candidate c =
     (let v = constraintVersion c in
      case constraintOperator c of
        Exact \<Rightarrow> version_eq candidate v
      | GreaterThan \<Rightarrow> version_greater candidate v
      | GreaterThanOrEqual \<Rightarrow> version_ge candidate v
      | LessThan \<Rightarrow> version_less candidate v
      | LessThanOrEqual \<Rightarrow> version_le candidate v
      | Caret \<Rightarrow>
          (if version_less candidate v then False
           else if 0 < majorVersion v then majorVersion candidate = majorVersion v
           else if 0 < minorVersion v
           then majorVersion candidate = 0 \<and> minorVersion candidate = minorVersion v
           else version_eq candidate v)
      | Tilde \<Rightarrow>
          (if version_less candidate v then False
           else majorVersion candidate = majorVersion v \<and> minorVersion candidate = minorVersion v))"

fun satisfies :: "SemanticVersion \<Rightarrow> VersionConstraint list \<Rightarrow> bool" where
  "satisfies v [] = True"
| "satisfies v (c # cs) = (if satisfiesSingle v c = False then False else satisfies v cs)"

datatype (plugins only: code size) selection_error = NoCompatibleVersion

definition findHighestCompatible ::
    "SemanticVersion list \<Rightarrow> VersionConstraint list \<Rightarrow> selection_error + SemanticVersion" where
  "findHighestCompatible availableVersions constraints =
     (let compatibleVersions = filter (\<lambda>v. satisfies v constraints) availableVersions in
      if compatibleVersions = [] then Inl NoCompatibleVersion
      else Inr (last (std_sort version_less compatibleVersions)))"

lemma satisfies_all: "satisfies v cs \<longleftrightarrow> (\<forall>c \<in> set cs. satisfiesSingle v c)"
  by (induction cs) auto

section \<open>Properties\<close>

text \<open>
  C31. The comparison operators form one strict total order whose equality is equality of the
  four components: exactly one of less, equal and greater holds, less is transitive, the three derived
  operators are the negations or the unions of it, and a prerelease comes before its release and after
  every release before it.
\<close>

theorem version_order:
  "(version_less a b \<and> \<not> version_eq a b \<and> \<not> version_greater a b
      \<or> \<not> version_less a b \<and> version_eq a b \<and> \<not> version_greater a b
      \<or> \<not> version_less a b \<and> \<not> version_eq a b \<and> version_greater a b)
   \<and> (version_eq a b \<longleftrightarrow> a = b)
   \<and> (version_less a b \<and> version_less b c \<longrightarrow> version_less a c)
   \<and> (version_le a b \<longleftrightarrow> \<not> version_greater a b) \<and> (version_ge a b \<longleftrightarrow> \<not> version_less a b)
   \<and> (label \<noteq> [] \<longrightarrow> version_less (SemanticVersion x y z label) (SemanticVersion x y z []))
   \<and> (z' < z \<longrightarrow> version_less (SemanticVersion x y z' []) (SemanticVersion x y z label))"
  by (auto simp: version_operators version_eq_iff)
    (auto simp: less_SemanticVersion_def version_less_def)

theorem version_order_witness:
  "version_less (SemanticVersion 1 0 0 ''rc'') (SemanticVersion 1 0 0 [])
   \<and> version_less (SemanticVersion 1 0 0 []) (SemanticVersion 1 0 1 ''rc'')"
  using version_order [of undefined undefined undefined "''rc''" 1 0 0 0]
    version_order [of undefined undefined undefined "''rc''" 1 0 1 0]
  by simp

lemma dot_dash_not_digit:
  assumes "c \<in> set (to_string n)"
  shows "c \<noteq> CHR ''.''" "c \<noteq> CHR ''-''" "c \<noteq> CHR ''v''" "c \<noteq> CHR '',''"
  using to_string_digits [OF assms] by (auto simp: char_class_simps)

lemma component_less: "unat (w :: uint32) < 2 ^ 64"
proof -
  have "unat w < 2 ^ LENGTH(32)" by (rule unsigned_less)
  then show ?thesis by simp
qed

lemma stoul_component: "stoul (to_string (unat (w :: uint32))) = Inr (of_nat (unat w))"
  by (rule stoul_to_string [OF component_less])

lemma ucast_component [simp]: "ucast (ucast (w :: uint32) :: 64 word) = w"
  by (rule bit_word_eqI) (simp add: bit_simps)

lemma getlines_three:
  "getlines CHR ''.'' (to_string a @ CHR ''.'' # to_string b @ CHR ''.'' # to_string c)
     = [to_string a, to_string b, to_string c]"
proof -
  have "CHR ''.'' \<notin> set (to_string n)" for n using dot_dash_not_digit(1) by blast
  then show ?thesis by (simp add: getlines_line getlines_last)
qed

lemma version_parse_toString: "version_parse (version_toString v) = Inr v"
proof -
  let ?num = "to_string (unat (majorVersion v)) @ ''.'' @ to_string (unat (minorVersion v)) @ ''.''
     @ to_string (unat (patchVersion v))"
  have dash: "CHR ''-'' \<notin> set ?num" using dot_dash_not_digit(2) by auto
  have v0: "hd (version_toString v) \<noteq> CHR ''v''"
    using dot_dash_not_digit(3) [OF hd_in_set [OF to_string_nonempty]] by (simp add: version_toString_def)
  have split: "(case find_char CHR ''-'' (version_toString v) of None \<Rightarrow> (version_toString v, [])
             | Some p \<Rightarrow> (take p (version_toString v), drop (p + 1) (version_toString v)))
           = (?num, prereleaseLabel v)"
  proof (cases "prereleaseLabel v = []")
    case True
    with dash have "find_char CHR ''-'' (version_toString v) = None"
      by (simp only: find_char_None) (simp add: version_toString_def)
    then show ?thesis using True by (simp only: option.case) (simp add: version_toString_def)
  next
    case False
    then have s: "version_toString v = ?num @ CHR ''-'' # prereleaseLabel v" by (simp add: version_toString_def)
    have "take (length ?num) (?num @ CHR ''-'' # prereleaseLabel v) = ?num"
      "drop (length ?num + 1) (?num @ CHR ''-'' # prereleaseLabel v) = prereleaseLabel v"
      by (rule append_eq_conv_conj [THEN iffD1, THEN conjunct1, symmetric], rule refl) (simp only: drop_append, simp)
    then show ?thesis unfolding s find_char_append [OF dash] option.case by simp
  qed
  show ?thesis
    using v0 by (simp add: version_parse_def Let_def split [unfolded append_Cons append_Nil] getlines_three segment_value_def stoul_component numeral_2_eq_2)
qed

text \<open>
  Printing a version and parsing it gives the version back, for every value of the three
  32-bit components and every prerelease label, one with dashes and dots included.
\<close>

lemma version_roundtrip: "version_parse (version_toString v) = Inr v"
  by (rule version_parse_toString)

fun operator_sign :: "ConstraintOperator \<Rightarrow> string" where
  "operator_sign Exact = ''''"
| "operator_sign GreaterThan = ''>''"
| "operator_sign GreaterThanOrEqual = ''>=''"
| "operator_sign LessThan = ''<''"
| "operator_sign LessThanOrEqual = ''<=''"
| "operator_sign Caret = ''^''"
| "operator_sign Tilde = ''~''"

definition print_constraint :: "VersionConstraint \<Rightarrow> string" where
  "print_constraint c = operator_sign (constraintOperator c) @ version_toString (constraintVersion c)"

fun print_constraints :: "VersionConstraint list \<Rightarrow> string" where
  "print_constraints [] = ''''"
| "print_constraints [c] = print_constraint c"
| "print_constraints (c # d # cs) = print_constraint c @ '', '' @ print_constraints (d # cs)"

definition no_comma :: "VersionConstraint \<Rightarrow> bool" where
  "no_comma c \<longleftrightarrow> CHR '','' \<notin> set (prereleaseLabel (constraintVersion c))"

lemma version_toString_start:
  "\<exists>d r. version_toString v = d # r \<and> isdigit d"
proof -
  obtain d r where "to_string (unat (majorVersion v)) = d # r"
    using to_string_nonempty by (cases "to_string (unat (majorVersion v))") auto
  then show ?thesis using to_string_digits [of d "unat (majorVersion v)"] by (auto simp: version_toString_def)
qed

lemma print_constraint_parse:
  "parse_single (print_constraint c) = Inr c"
  "drop_leading blanks (print_constraint c) = print_constraint c" "print_constraint c \<noteq> []"
proof -
  obtain d r where v: "version_toString (constraintVersion c) = d # r" "isdigit d"
    using version_toString_start by blast
  then have d: "d \<noteq> CHR ''^''" "d \<noteq> CHR ''~''" "d \<noteq> CHR ''>''" "d \<noteq> CHR ''<''" "d \<noteq> CHR ''=''" "d \<notin> blanks"
    by (auto simp: char_class_simps blanks_def)
  have p: "version_parse (d # r) = Inr (constraintVersion c)"
    using version_parse_toString [of "constraintVersion c"] v by simp
  show "parse_single (print_constraint c) = Inr c"
    using d p by (cases "constraintOperator c")
      (simp_all add: print_constraint_def parse_single_def constraint_of_def skip_blanks_def v numeral_2_eq_2)
  show "drop_leading blanks (print_constraint c) = print_constraint c" "print_constraint c \<noteq> []"
    using d by (cases "constraintOperator c"; simp add: print_constraint_def v blanks_def)+
qed

lemma print_constraint_comma: "no_comma c \<Longrightarrow> CHR '','' \<notin> set (print_constraint c)"
  using dot_dash_not_digit(4)
  by (cases "constraintOperator c") (auto simp: print_constraint_def no_comma_def version_toString_def)

lemma parse_pieces_print:
  "\<forall>c \<in> set cs. no_comma c \<Longrightarrow>
     parse_pieces (getlines CHR '','' (print_constraints cs)) = Inr cs
     \<and> (cs \<noteq> [] \<longrightarrow> parse_pieces (getlines CHR '','' (CHR '' '' # print_constraints cs)) = Inr cs)"
proof (induction cs rule: print_constraints.induct)
  case (2 c)
  have b: "CHR '','' \<notin> set (CHR '' '' # print_constraint c)" "CHR '','' \<notin> set (print_constraint c)"
    using print_constraint_comma [of c] 2 by simp_all
  have s: "drop_leading blanks (CHR '' '' # print_constraint c) = print_constraint c"
    using print_constraint_parse(2) [of c] by (simp add: blanks_def)
  show ?case using b s print_constraint_parse [of c] by (simp add: getlines_last)
next
  case (3 c d cs)
  have b: "CHR '','' \<notin> set (CHR '' '' # print_constraint c)" "CHR '','' \<notin> set (print_constraint c)"
    using print_constraint_comma [of c] 3(2) by simp_all
  have s: "drop_leading blanks (CHR '' '' # print_constraint c) = print_constraint c"
    using print_constraint_parse(2) [of c] by (simp add: blanks_def)
  show ?case
    using 3 s print_constraint_parse [of c] getlines_line [OF b(2), of "CHR '' '' # print_constraints (d # cs)"]
      getlines_line [OF b(1), of "CHR '' '' # print_constraints (d # cs)"] by simp
qed simp

text \<open>
  C32. A constraint string written from a nonempty list of constraints, the operator sign before the
  version and a comma and a blank between two of them, is parsed to exactly that list, for all seven
  operators, as long as no prerelease label holds a comma; and whatever string is parsed
  successfully, the list is not empty, so that its first element may be taken.
\<close>

theorem constraint_roundtrip:
  "(cs \<noteq> [] \<and> (\<forall>c \<in> set cs. no_comma c) \<longrightarrow> parseConstraint (print_constraints cs) = Inr cs)
   \<and> (parseConstraint s = Inr parsed \<longrightarrow> parsed \<noteq> [])"
  using parse_pieces_print [of cs] by (auto simp: parseConstraint_def split: if_splits)

theorem constraint_roundtrip_witness:
  "parseConstraint ''>=1.2.0, <2.0.0-rc.1'' = Inr
     [\<lparr>constraintOperator = GreaterThanOrEqual, constraintVersion = SemanticVersion 1 2 0 []\<rparr>,
      \<lparr>constraintOperator = LessThan, constraintVersion = SemanticVersion 2 0 0 ''rc.1''\<rparr>]"
proof -
  let ?cs = "[\<lparr>constraintOperator = GreaterThanOrEqual, constraintVersion = SemanticVersion 1 2 0 []\<rparr>,
      \<lparr>constraintOperator = LessThan, constraintVersion = SemanticVersion 2 0 0 ''rc.1''\<rparr>]"
  have "print_constraints ?cs = ''>=1.2.0, <2.0.0-rc.1''" by code_simp
  moreover have "?cs \<noteq> [] \<and> (\<forall>c \<in> set ?cs. no_comma c)" by (simp add: no_comma_def)
  then have "parseConstraint (print_constraints ?cs) = Inr ?cs" using constraint_roundtrip [of ?cs] by blast
  ultimately show ?thesis by simp
qed

text \<open>
  C27. \<^verbatim>\<open>findHighestCompatible\<close> selects the greatest available version that satisfies all
  constraints, and raises exactly when there is none.
\<close>

theorem highest_compatible:
  "(findHighestCompatible vs cs = Inr v \<longrightarrow>
      v \<in> set vs \<and> satisfies v cs \<and> (\<forall>w \<in> set vs. satisfies w cs \<longrightarrow> version_le w v))
   \<and> ((\<exists>e. findHighestCompatible vs cs = Inl e) \<longleftrightarrow> (\<forall>w \<in> set vs. \<not> satisfies w cs))"
proof -
  have "v \<in> set vs \<and> satisfies v cs \<and> (\<forall>w \<in> set vs. satisfies w cs \<longrightarrow> version_le w v)"
    if "findHighestCompatible vs cs = Inr v"
  proof -
    let ?ok = "filter (\<lambda>v. satisfies v cs) vs"
    from that have "?ok \<noteq> []" and v: "v = last (std_sort version_less ?ok)"
      by (simp_all add: findHighestCompatible_def Let_def split: if_splits)
    from version_sort.std_sort_last [OF this(1)] show ?thesis
      unfolding v by (auto simp: version_le_def version_eq_iff)
  qed
  then show ?thesis by (auto simp: findHighestCompatible_def Let_def filter_empty_conv)
qed

theorem highest_compatible_witness:
  "findHighestCompatible [SemanticVersion 1 4 0 [], SemanticVersion 1 9 2 [], SemanticVersion 2 0 0 []]
       [\<lparr>constraintOperator = Caret, constraintVersion = SemanticVersion 1 4 0 []\<rparr>] = Inr (SemanticVersion 1 9 2 [])
   \<and> version_le (SemanticVersion 1 4 0 []) (SemanticVersion 1 9 2 [])"
proof -
  let ?vs = "[SemanticVersion 1 4 0 [], SemanticVersion 1 9 2 [], SemanticVersion 2 0 0 []]"
  let ?cs = "[\<lparr>constraintOperator = Caret, constraintVersion = SemanticVersion 1 4 0 []\<rparr>]"
  have r: "findHighestCompatible ?vs ?cs = Inr (SemanticVersion 1 9 2 [])" by code_simp
  have "satisfies (SemanticVersion 1 4 0 []) ?cs" by code_simp
  then show ?thesis using r highest_compatible [of ?vs ?cs "SemanticVersion 1 9 2 []"] by simp
qed

lemma satisfiesSingle_convex:
  assumes "satisfiesSingle a c" and "satisfiesSingle b c" and "a \<le> v" and "v \<le> b"
  shows "satisfiesSingle v c"
proof -
  have maj: "majorVersion a \<le> majorVersion v" "majorVersion v \<le> majorVersion b"
    using assms(3,4) version_le_components by auto
  have min: "minorVersion a \<le> minorVersion v" if "majorVersion a = majorVersion v"
    using that assms(3) version_le_components by auto
  have min': "minorVersion v \<le> minorVersion b" if "majorVersion v = majorVersion b"
    using that assms(4) version_le_components by auto
  show ?thesis
    using assms maj min min'
    by (cases "constraintOperator c")
      (auto simp: satisfiesSingle_def version_operators version_eq_iff Let_def split: if_splits)
qed

text \<open>
  Every list of constraints selects an interval of versions: with two versions it
  accepts, it accepts all between them.
\<close>

lemma satisfies_convex:
  assumes "satisfies a cs" and "satisfies b cs" and "version_le a v" and "version_le v b"
  shows "satisfies v cs"
  using assms satisfiesSingle_convex unfolding satisfies_all version_operators by blast

lemma satisfies_convex_example:
  "satisfies (SemanticVersion 1 5 0 ''beta'') [\<lparr>constraintOperator = Caret, constraintVersion = SemanticVersion 1 4 0 []\<rparr>]"
proof -
  let ?cs = "[\<lparr>constraintOperator = Caret, constraintVersion = SemanticVersion 1 4 0 []\<rparr>]"
  have "satisfies (SemanticVersion 1 4 0 []) ?cs" "satisfies (SemanticVersion 1 9 2 []) ?cs"
    "version_le (SemanticVersion 1 4 0 []) (SemanticVersion 1 5 0 ''beta'')"
    "version_le (SemanticVersion 1 5 0 ''beta'') (SemanticVersion 1 9 2 [])"
    by code_simp+
  then show ?thesis by (rule satisfies_convex)
qed

end
