(* ===== verification/Manifest.thy ===== *)
theory Manifest
  imports Prelude "HOL-Library.AList" "HOL-Library.Multiset"
begin

text \<open>
  The package manifest: \<^verbatim>\<open>src/uranite-pkg/manifest/manifest.hpp\<close> and \<^verbatim>\<open>manifest.cpp\<close>. First the
  reader of the YAML subset, then what \<^verbatim>\<open>parseFromString\<close> takes from it. An
  \<^verbatim>\<open>std::unordered_map\<close> is an association list with distinct keys, grown at its end; the order in which
  the source's loops visit one is not specified, so it is an argument, a function \<open>visit\<close> that permutes
  the entries. The maps that are only stored are HOL maps. Columns and depths (\<^verbatim>\<open>int32_t\<close>) are
  integers: a line of 2 to the 31 blanks is beyond the model.
\<close>

section \<open>Data\<close>

record AuthorInfo =
  author_name :: string
  author_email :: string
  author_role :: string
  author_url :: string

record RepositoryInfo =
  repository_type :: string
  repository_url :: string

record PackageDependency =
  packageName :: string
  versionConstraint :: string
  sourceRepository :: string
  isDevelopmentOnly :: bool

record BuildProfile =
  profile_optimizationLevel :: string
  profile_debugInfo :: bool
  profile_stripSymbols :: bool
  profile_linkTimeOptimization :: bool

record BuildConfiguration =
  buildPath :: string
  optimizationLevel :: string
  targetTriple :: string
  build_modulesPath :: string
  features :: "string list"
  includePaths :: "string list"
  linkLibraries :: "string list"
  staticLink :: bool
  stripSymbols :: bool
  emitLlvmIr :: bool
  profiles :: "string \<rightharpoonup> BuildProfile"

record TestConfiguration =
  test_path :: string
  coverage :: bool
  coveragePath :: string
  parallel :: bool
  timeout :: int
  environment :: "string \<rightharpoonup> string"

record RequirementsConfiguration =
  requirements_modulesPath :: string
  dependencies :: "PackageDependency list"
  developmentDependencies :: "PackageDependency list"
  systemDependencies :: "string list"

record PackageManifest =
  manifest_packageName :: string
  packageVersion :: string
  packageDescription :: string
  licenseIdentifier :: string
  entrySourceFile :: string
  packageType :: string
  authorInfoList :: "AuthorInfo list"
  package_keywords :: "string list"
  excludePatterns :: "string list"
  repository :: RepositoryInfo
  requirements :: RequirementsConfiguration
  buildConfig :: BuildConfiguration
  scripts :: "string \<rightharpoonup> string"
  testConfig :: TestConfiguration

definition default_dependency :: PackageDependency where
  "default_dependency =
     \<lparr>packageName = '''', versionConstraint = '''', sourceRepository = '''', isDevelopmentOnly = False\<rparr>"

definition default_profile :: BuildProfile where
  "default_profile =
     \<lparr>profile_optimizationLevel = '''', profile_debugInfo = False, profile_stripSymbols = False,
      profile_linkTimeOptimization = False\<rparr>"

definition default_build :: BuildConfiguration where
  "default_build =
     \<lparr>buildPath = '''', optimizationLevel = ''2'', targetTriple = '''', build_modulesPath = ''modules'', features = [],
      includePaths = [], linkLibraries = [], staticLink = False, stripSymbols = False, emitLlvmIr = False,
      profiles = Map.empty\<rparr>"

definition default_test :: TestConfiguration where
  "default_test =
     \<lparr>test_path = '''', coverage = False, coveragePath = '''', parallel = False, timeout = 0,
      environment = Map.empty\<rparr>"

definition default_manifest :: PackageManifest where
  "default_manifest =
     \<lparr>manifest_packageName = '''', packageVersion = '''', packageDescription = '''', licenseIdentifier = '''',
      entrySourceFile = ''src/main.urn'', packageType = ''binary'', authorInfoList = [], package_keywords = [],
      excludePatterns = [], repository = \<lparr>repository_type = '''', repository_url = ''''\<rparr>,
      requirements = \<lparr>requirements_modulesPath = ''build/modules'', dependencies = [],
        developmentDependencies = [], systemDependencies = []\<rparr>,
      buildConfig = default_build, scripts = Map.empty, testConfig = default_test\<rparr>"

datatype (plugins only: code size) Kind = KString | KArray | KInlineTable

record ConfigValue =
  valueKind :: Kind
  stringValue :: string
  arrayValues :: "string list"
  tableValues :: "(string \<times> string) list"

definition default_value :: ConfigValue where
  "default_value = \<lparr>valueKind = KString, stringValue = '''', arrayValues = [], tableValues = []\<rparr>"

definition string_value :: "string \<Rightarrow> ConfigValue" where
  "string_value s = default_value\<lparr>stringValue := s\<rparr>"

type_synonym fields = "(string \<times> ConfigValue) list"
type_synonym sections = "(string \<times> fields) list"

section \<open>Strings\<close>

definition trim_chars :: "char set" where
  "trim_chars = {CHR '' '', TAB, CR, NL}"

definition trimWhitespace :: "string \<Rightarrow> string" where
  "trimWhitespace text = drop_trailing trim_chars (drop_leading trim_chars text)"

definition stripQuotes :: "string \<Rightarrow> string" where
  "stripQuotes text =
     (let trimmed = trimWhitespace text in
      if 2 \<le> length trimmed \<and>
         (hd trimmed = DQUOTE \<and> last trimmed = DQUOTE \<or> hd trimmed = SQUOTE \<and> last trimmed = SQUOTE)
      then butlast (tl trimmed) else trimmed)"

fun measureIndent :: "string \<Rightarrow> int" where
  "measureIndent [] = 0"
| "measureIndent (c # s) =
     (if c = CHR '' '' then measureIndent s + 1 else if c = TAB then measureIndent s + 4 else 0)"

fun join :: "string \<Rightarrow> string list \<Rightarrow> string" where
  "join d [] = ''''"
| "join d [s] = s"
| "join d (s # t # ss) = s @ d @ join d (t # ss)"

definition buildSectionPath :: "(int \<times> string) list \<Rightarrow> string" where
  "buildSectionPath stack = join ''.'' (map snd stack)"

text \<open>The loop of \<^verbatim>\<open>parseInlineSequence\<close>; \<open>prev\<close> is the character before, if there is one.\<close>

definition push_element :: "string \<Rightarrow> string list \<Rightarrow> string list" where
  "push_element current elements =
     (let t = trimWhitespace current in if t \<noteq> [] then elements @ [stripQuotes t] else elements)"

fun sequence_loop :: "char option \<Rightarrow> string \<Rightarrow> bool \<Rightarrow> int \<Rightarrow> string list \<Rightarrow> string \<Rightarrow> string list" where
  "sequence_loop prev current insideQuotes braceDepth elements [] = push_element current elements"
| "sequence_loop prev current insideQuotes braceDepth elements (c # rest) =
     (if c = DQUOTE \<and> prev \<noteq> Some BACKSLASH
      then sequence_loop (Some c) (current @ [c]) (\<not> insideQuotes) braceDepth elements rest
      else if c = SQUOTE \<and> \<not> insideQuotes \<and> prev \<noteq> Some BACKSLASH
      then sequence_loop (Some c) (current @ [c]) (\<not> insideQuotes) braceDepth elements rest
      else if c = CHR ''{'' \<and> \<not> insideQuotes
      then sequence_loop (Some c) (current @ [c]) insideQuotes (braceDepth + 1) elements rest
      else if c = CHR ''}'' \<and> \<not> insideQuotes
      then sequence_loop (Some c) (current @ [c]) insideQuotes (braceDepth - 1) elements rest
      else if c = CHR '','' \<and> \<not> insideQuotes \<and> braceDepth = 0
      then sequence_loop (Some c) [] insideQuotes braceDepth (push_element current elements) rest
      else sequence_loop (Some c) (current @ [c]) insideQuotes braceDepth elements rest)"

definition unwrap :: "char \<Rightarrow> char \<Rightarrow> string \<Rightarrow> string" where
  "unwrap l r s =
     (let content = trimWhitespace s in
      if 2 \<le> length content \<and> hd content = l \<and> last content = r then butlast (tl content) else content)"

definition parseInlineSequence :: "string \<Rightarrow> string list" where
  "parseInlineSequence s = sequence_loop None [] False 0 [] (unwrap CHR ''['' CHR '']'' s)"

lemma find_char_absent [simp]: "c \<notin> set s \<Longrightarrow> find_char c s = None"
  by simp

definition put_pair :: "string \<Rightarrow> (string \<times> string) list \<Rightarrow> (string \<times> string) list" where
  "put_pair currentPair result =
     (case find_char CHR '':'' currentPair of
        None \<Rightarrow> result
      | Some p \<Rightarrow> AList.update (trimWhitespace (take p currentPair)) (stripQuotes (drop (p + 1) currentPair)) result)"

fun mapping_loop ::
    "char option \<Rightarrow> string \<Rightarrow> bool \<Rightarrow> (string \<times> string) list \<Rightarrow> string \<Rightarrow> (string \<times> string) list" where
  "mapping_loop prev current insideQuotes result [] = (if current \<noteq> [] then put_pair current result else result)"
| "mapping_loop prev current insideQuotes result (c # rest) =
     (if c = DQUOTE \<and> prev \<noteq> Some BACKSLASH
      then mapping_loop (Some c) (current @ [c]) (\<not> insideQuotes) result rest
      else if c = CHR '','' \<and> \<not> insideQuotes
      then mapping_loop (Some c) [] insideQuotes (put_pair current result) rest
      else mapping_loop (Some c) (current @ [c]) insideQuotes result rest)"

definition parseInlineMapping :: "string \<Rightarrow> (string \<times> string) list" where
  "parseInlineMapping s = mapping_loop None [] False [] (unwrap CHR ''{'' CHR ''}'' s)"

section \<open>The YAML subset\<close>

record yaml_state =
  ysections :: sections
  pathStack :: "(int \<times> string) list"
  arrayObjectIndexCounters :: "(string \<times> nat) list"

definition section_at :: "sections \<Rightarrow> string \<Rightarrow> fields" where
  "section_at ss path = (case map_of ss path of Some s \<Rightarrow> s | None \<Rightarrow> [])"

definition value_at :: "fields \<Rightarrow> string \<Rightarrow> ConfigValue" where
  "value_at s key = (case map_of s key of Some v \<Rightarrow> v | None \<Rightarrow> default_value)"

text \<open>\<^verbatim>\<open>sections[path][key] = v\<close>\<close>

definition put_value :: "string \<Rightarrow> string \<Rightarrow> ConfigValue \<Rightarrow> sections \<Rightarrow> sections" where
  "put_value path key v ss = AList.update path (AList.update key v (section_at ss path)) ss"

text \<open>The first colon outside quotes that a blank follows or that ends the text.\<close>

fun find_colon :: "bool \<Rightarrow> nat \<Rightarrow> string \<Rightarrow> nat option" where
  "find_colon insideQuotes i [] = None"
| "find_colon insideQuotes i (c # rest) =
     (if c = DQUOTE \<or> c = SQUOTE then find_colon (\<not> insideQuotes) (i + 1) rest
      else if c = CHR '':'' \<and> \<not> insideQuotes \<and> (rest = [] \<or> hd rest = CHR '' '') then Some i
      else find_colon insideQuotes (i + 1) rest)"

definition pop_path :: "int \<Rightarrow> (int \<times> string) list \<Rightarrow> (int \<times> string) list" where
  "pop_path popThreshold stack = rev (dropWhile (\<lambda>e. popThreshold \<le> fst e) (rev stack))"

definition raw_after :: "nat \<Rightarrow> string \<Rightarrow> string" where
  "raw_after p s = (if p + 1 < length s then trimWhitespace (drop (p + 1) s) else '''')"

definition yaml_object_item :: "int \<Rightarrow> string \<Rightarrow> string \<Rightarrow> nat \<Rightarrow> string \<Rightarrow> yaml_state \<Rightarrow> yaml_state" where
  "yaml_object_item indent sectionPath parentKey colon itemContent st =
     (let fullArrayKey = (if sectionPath = '''' then parentKey else sectionPath @ ''.'' @ parentKey);
          objectIndex = (case map_of (arrayObjectIndexCounters st) fullArrayKey of Some n \<Rightarrow> n | None \<Rightarrow> 0);
          indexedSectionPath = fullArrayKey @ ''.'' @ to_string objectIndex;
          firstKey = trimWhitespace (take colon itemContent);
          firstRawValue = raw_after colon itemContent
      in st\<lparr>arrayObjectIndexCounters := AList.update fullArrayKey (objectIndex + 1) (arrayObjectIndexCounters st),
            ysections := (if firstRawValue \<noteq> ''''
                          then put_value indexedSectionPath firstKey (string_value (stripQuotes firstRawValue)) (ysections st)
                          else ysections st),
            pathStack := pathStack st @ [(indent + 1, to_string objectIndex)]\<rparr>)"

definition yaml_plain_item :: "string \<Rightarrow> string \<Rightarrow> string \<Rightarrow> yaml_state \<Rightarrow> yaml_state" where
  "yaml_plain_item sectionPath parentKey itemContent st =
     (let old = value_at (section_at (ysections st) sectionPath) parentKey
      in st\<lparr>ysections := put_value sectionPath parentKey
              (old\<lparr>valueKind := KArray, arrayValues := arrayValues old @ [stripQuotes itemContent]\<rparr>) (ysections st)\<rparr>)"

definition yaml_item :: "int \<Rightarrow> string \<Rightarrow> yaml_state \<Rightarrow> yaml_state" where
  "yaml_item indent trimmedLine st =
     (let itemContent = trimWhitespace (drop 2 trimmedLine) in
      if pathStack st = [] then st
      else
        let parentKey = snd (last (pathStack st));
            sectionPath = (if 2 \<le> length (pathStack st) then buildSectionPath (butlast (pathStack st)) else '''')
        in case find_colon False 0 itemContent of
             Some p \<Rightarrow>
               if hd itemContent \<noteq> DQUOTE \<and> hd itemContent \<noteq> SQUOTE
               then yaml_object_item indent sectionPath parentKey p itemContent st
               else yaml_plain_item sectionPath parentKey itemContent st
           | None \<Rightarrow> yaml_plain_item sectionPath parentKey itemContent st)"

definition yaml_value :: "string \<Rightarrow> ConfigValue" where
  "yaml_value rawValue =
     (if rawValue = ''[]'' then default_value\<lparr>valueKind := KArray\<rparr>
      else if hd rawValue = CHR ''[''
      then default_value\<lparr>valueKind := KArray, arrayValues := parseInlineSequence rawValue\<rparr>
      else if hd rawValue = CHR ''{''
      then default_value\<lparr>valueKind := KInlineTable, tableValues := parseInlineMapping rawValue\<rparr>
      else string_value (stripQuotes rawValue))"

definition yaml_entry :: "int \<Rightarrow> string \<Rightarrow> yaml_state \<Rightarrow> yaml_state" where
  "yaml_entry indent trimmedLine st =
     (case find_colon False 0 trimmedLine of
        None \<Rightarrow> st
      | Some p \<Rightarrow>
          let key = trimWhitespace (take p trimmedLine); rawValue = raw_after p trimmedLine in
          if rawValue = '''' then st\<lparr>pathStack := pathStack st @ [(indent, key)]\<rparr>
          else if rawValue = ''{}'' then st
          else st\<lparr>ysections := put_value (buildSectionPath (pathStack st)) key (yaml_value rawValue) (ysections st)\<rparr>)"

definition yaml_line :: "string \<Rightarrow> yaml_state \<Rightarrow> yaml_state" where
  "yaml_line line st =
     (let indent = measureIndent line; trimmedLine = trimWhitespace line in
      if trimmedLine = [] \<or> hd trimmedLine = CHR ''#'' then st
      else
        let isArrayItem = (2 \<le> length trimmedLine \<and> hd trimmedLine = CHR ''-''
               \<and> (trimmedLine ! 1 = CHR '' '' \<or> trimmedLine ! 1 = TAB));
            popThreshold = (if isArrayItem then indent + 1 else indent);
            st1 = st\<lparr>pathStack := pop_path popThreshold (pathStack st)\<rparr>
        in if isArrayItem then yaml_item indent trimmedLine st1 else yaml_entry indent trimmedLine st1)"

definition yaml_start :: yaml_state where
  "yaml_start = \<lparr>ysections = [], pathStack = [], arrayObjectIndexCounters = []\<rparr>"

definition parseYaml :: "string \<Rightarrow> sections" where
  "parseYaml content = ysections (fold yaml_line (getlines NL content) yaml_start)"

section \<open>From sections to the manifest\<close>

text \<open>\<^verbatim>\<open>std::stoi\<close> in base 10.\<close>

definition stoi :: "string \<Rightarrow> number_error + int" where
  "stoi s =
     (let t = dropWhile isspace s;
          (negative, r) = (case t of
             [] \<Rightarrow> (False, [])
           | c # cs \<Rightarrow> if c = CHR ''-'' then (True, cs) else if c = CHR ''+'' then (False, cs) else (False, t));
          digits = takeWhile isdigit r;
          v = (if negative then - int (decimal_value digits) else int (decimal_value digits)) in
      if digits = [] then Inl InvalidArgument
      else if v < - (2 ^ 31) \<or> 2 ^ 31 \<le> v then Inl OutOfRange
      else Inr v)"

text \<open>The three ways a field is read: as a string, as a flag, as an array.\<close>

definition string_field :: "fields \<Rightarrow> string \<Rightarrow> string \<Rightarrow> string" where
  "string_field s key dflt = (case map_of s key of Some v \<Rightarrow> stringValue v | None \<Rightarrow> dflt)"

definition flag_field :: "fields \<Rightarrow> string \<Rightarrow> bool \<Rightarrow> bool" where
  "flag_field s key dflt = (case map_of s key of Some v \<Rightarrow> stringValue v = ''true'' | None \<Rightarrow> dflt)"

definition array_field :: "fields \<Rightarrow> string \<Rightarrow> string list \<Rightarrow> string list" where
  "array_field s key dflt =
     (case map_of s key of
        Some v \<Rightarrow> if valueKind v = KArray then arrayValues v else dflt
      | None \<Rightarrow> dflt)"

text \<open>\<^verbatim>\<open>sections[name]\<close> inserts an empty section where there is none.\<close>

definition touch :: "string \<Rightarrow> sections \<Rightarrow> sections" where
  "touch name ss = (if map_of ss name = None then ss @ [(name, [])] else ss)"

text \<open>The name and the repository of a dependency: both branches of the source read them the same way.\<close>

definition source_fields :: "string \<Rightarrow> PackageDependency \<Rightarrow> PackageDependency" where
  "source_fields sourceIdentifier dependency =
     (case find_char CHR ''/'' sourceIdentifier of
        Some q \<Rightarrow> dependency\<lparr>packageName := drop (q + 1) sourceIdentifier, sourceRepository := sourceIdentifier\<rparr>
      | None \<Rightarrow> dependency\<lparr>packageName := sourceIdentifier\<rparr>)"

definition parseDependencyString :: "string \<Rightarrow> bool \<Rightarrow> PackageDependency" where
  "parseDependencyString spec dev =
     (let dependency = default_dependency\<lparr>isDevelopmentOnly := dev\<rparr> in
      case find_char CHR ''@'' spec of
        Some p \<Rightarrow> source_fields (take p spec) (dependency\<lparr>versionConstraint := drop (p + 1) spec\<rparr>)
      | None \<Rightarrow> source_fields spec dependency)"

definition read_package :: "fields \<Rightarrow> PackageManifest \<Rightarrow> PackageManifest" where
  "read_package s m =
     m\<lparr>manifest_packageName := string_field s ''name'' (manifest_packageName m),
       packageVersion := string_field s ''version'' (packageVersion m),
       packageDescription := string_field s ''description'' (packageDescription m),
       licenseIdentifier := string_field s ''license'' (licenseIdentifier m),
       entrySourceFile := string_field s ''entry'' (entrySourceFile m),
       packageType := string_field s ''type'' (packageType m),
       package_keywords := array_field s ''keywords'' (package_keywords m),
       excludePatterns := array_field s ''exclude'' (excludePatterns m)\<rparr>"

definition author_path :: "nat \<Rightarrow> string" where
  "author_path n = ''package.authors.'' @ to_string n"

definition read_author :: "fields \<Rightarrow> AuthorInfo" where
  "read_author s =
     \<lparr>author_name = string_field s ''name'' '''', author_email = string_field s ''email'' '''',
      author_role = string_field s ''role'' '''', author_url = string_field s ''url'' ''''\<rparr>"

lemma author_path_inj: "inj author_path"
  by (auto intro!: injI simp: author_path_def)

text \<open>The loop without a condition that leaves at the first index with no section.\<close>

function author_loop :: "sections \<Rightarrow> nat \<Rightarrow> AuthorInfo list" where
  "author_loop ss n =
     (case map_of ss (author_path n) of
        None \<Rightarrow> []
      | Some s \<Rightarrow> read_author s # author_loop ss (n + 1))"
  by pat_completeness auto
termination
proof (relation "measure (\<lambda>(ss, n). card {k. n \<le> k \<and> author_path k \<in> fst ` set ss})", simp)
  fix ss :: sections and n s
  assume "map_of ss (author_path n) = Some s"
  then have n: "author_path n \<in> fst ` set ss" by (force dest: map_of_SomeD)
  have "finite (author_path -` (fst ` set ss))"
    using author_path_inj by (intro finite_vimageI) auto
  then have fin: "finite {k. n \<le> k \<and> author_path k \<in> fst ` set ss}"
    by (rule rev_finite_subset) auto
  let ?A = "{k. n + 1 \<le> k \<and> author_path k \<in> fst ` set ss}" and ?B = "{k. n \<le> k \<and> author_path k \<in> fst ` set ss}"
  have "n \<in> ?B" "n \<notin> ?A" using n by simp_all
  then have "?A \<noteq> ?B" by blast
  moreover have "?A \<subseteq> ?B" by auto
  ultimately have "?A \<subset> ?B" by (rule psubsetI [rotated])
  from psubset_card_mono [OF fin this]
  show "((ss, n + 1), (ss, n)) \<in> measure (\<lambda>(ss, n). card {k. n \<le> k \<and> author_path k \<in> fst ` set ss})"
    by (simp only: in_measure prod.case)
qed

declare author_loop.simps [simp del]

definition read_authors :: "sections \<Rightarrow> PackageManifest \<Rightarrow> PackageManifest" where
  "read_authors ss m =
     (let listed = author_loop ss 0; package = section_at ss ''package'' in
      m\<lparr>authorInfoList :=
          (if listed = []
           then map (\<lambda>a. \<lparr>author_name = a, author_email = '''', author_role = '''', author_url = ''''\<rparr>)
                  (array_field package ''authors'' [])
           else listed)\<rparr>)"

definition read_repository :: "fields \<Rightarrow> PackageManifest \<Rightarrow> PackageManifest" where
  "read_repository s m =
     m\<lparr>repository := \<lparr>repository_type = string_field s ''type'' (repository_type (repository m)),
                      repository_url = string_field s ''url'' (repository_url (repository m))\<rparr>\<rparr>"

definition read_requirements :: "fields \<Rightarrow> PackageManifest \<Rightarrow> PackageManifest" where
  "read_requirements s m =
     (let r = requirements m in
      m\<lparr>requirements :=
          \<lparr>requirements_modulesPath = string_field s ''path'' (requirements_modulesPath r),
           dependencies = dependencies r
             @ map (\<lambda>d. parseDependencyString d False) (array_field s ''dependencies'' []),
           developmentDependencies = developmentDependencies r
             @ map (\<lambda>d. parseDependencyString d True) (array_field s ''dev-dependencies'' []),
           systemDependencies = array_field s ''system-dependencies'' (systemDependencies r)\<rparr>\<rparr>)"

text \<open>One section below \<open>requirements\<close>: a dependency of its own, unless it lies deeper.\<close>

definition required_section :: "string \<times> fields \<Rightarrow> PackageDependency list" where
  "required_section =
     (\<lambda>(sectionName, fields).
        if \<not> starts_with ''requirements.'' sectionName then []
        else
          let remainder = drop 13 sectionName in
          if starts_with ''dependencies.'' remainder \<or> starts_with ''dev-dependencies.'' remainder then []
          else if CHR ''.'' \<in> set remainder then []
          else [default_dependency\<lparr>packageName := remainder,
                  versionConstraint := string_field fields ''version'' '''',
                  sourceRepository := string_field fields ''source'' ''''\<rparr>])"

definition legacy_dependency :: "bool \<Rightarrow> string \<times> ConfigValue \<Rightarrow> PackageDependency" where
  "legacy_dependency dev =
     (\<lambda>(name, v).
        let dependency = default_dependency\<lparr>packageName := name, isDevelopmentOnly := dev\<rparr> in
        if valueKind v = KInlineTable
        then dependency\<lparr>
               versionConstraint := (case map_of (tableValues v) ''version'' of Some x \<Rightarrow> x | None \<Rightarrow> ''''),
               sourceRepository := (case map_of (tableValues v) ''source'' of Some x \<Rightarrow> x | None \<Rightarrow> '''')\<rparr>
        else dependency\<lparr>versionConstraint := stringValue v\<rparr>)"

definition add_dependencies :: "PackageDependency list \<Rightarrow> PackageManifest \<Rightarrow> PackageManifest" where
  "add_dependencies ds m =
     m\<lparr>requirements := (requirements m)\<lparr>dependencies := dependencies (requirements m) @ ds\<rparr>\<rparr>"

definition add_development :: "PackageDependency list \<Rightarrow> PackageManifest \<Rightarrow> PackageManifest" where
  "add_development ds m =
     m\<lparr>requirements := (requirements m)\<lparr>developmentDependencies := developmentDependencies (requirements m) @ ds\<rparr>\<rparr>"

definition parseProfile :: "fields \<Rightarrow> BuildProfile" where
  "parseProfile s =
     \<lparr>profile_optimizationLevel = string_field s ''optimization'' '''',
      profile_debugInfo = flag_field s ''debug-info'' False,
      profile_stripSymbols = flag_field s ''strip-symbols'' False,
      profile_linkTimeOptimization = flag_field s ''link-time-optimization'' False\<rparr>"

definition read_profile :: "string \<Rightarrow> sections \<Rightarrow> (string \<rightharpoonup> BuildProfile) \<Rightarrow> (string \<rightharpoonup> BuildProfile)" where
  "read_profile name ss ps =
     (case map_of ss (''build.profiles.'' @ name) of Some s \<Rightarrow> ps(name \<mapsto> parseProfile s) | None \<Rightarrow> ps)"

definition read_build :: "sections \<Rightarrow> PackageManifest \<Rightarrow> PackageManifest" where
  "read_build ss m =
     (let s = section_at ss ''build''; flags = section_at ss ''build.flags''; b = buildConfig m in
      m\<lparr>buildConfig :=
          \<lparr>buildPath = string_field s ''build-path'' (string_field s ''output'' (buildPath b)),
           optimizationLevel = string_field s ''optimization'' (optimizationLevel b),
           targetTriple = string_field s ''target'' (targetTriple b),
           build_modulesPath = string_field s ''modules-path'' (build_modulesPath b),
           features = array_field s ''features'' (features b),
           includePaths = array_field s ''include-paths'' (includePaths b),
           linkLibraries = array_field s ''link-libraries'' (linkLibraries b),
           staticLink = flag_field s ''static-link'' (staticLink b),
           stripSymbols = flag_field flags ''strip-debug'' (flag_field s ''strip-symbols'' (stripSymbols b)),
           emitLlvmIr = flag_field flags ''emit-llvm'' (emitLlvmIr b),
           profiles = read_profile ''release'' ss (read_profile ''dev'' ss (profiles b))\<rparr>\<rparr>)"

definition read_script :: "string \<times> ConfigValue \<Rightarrow> (string \<rightharpoonup> string) \<Rightarrow> (string \<rightharpoonup> string)" where
  "read_script = (\<lambda>(k, v) m. if valueKind v = KString then m(k \<mapsto> stringValue v) else m)"

definition read_test :: "fields \<Rightarrow> PackageManifest \<Rightarrow> PackageManifest" where
  "read_test s m =
     (let t = testConfig m in
      m\<lparr>testConfig := t\<lparr>
          test_path := string_field s ''path'' (string_field s ''entry'' (test_path t)),
          coverage := flag_field s ''coverage'' (coverage t),
          coveragePath := string_field s ''coverage-path'' (coveragePath t),
          parallel := flag_field s ''parallel'' (parallel t),
          timeout := (case map_of s ''timeout'' of
              Some v \<Rightarrow> (case stoi (stringValue v) of Inr n \<Rightarrow> n | Inl _ \<Rightarrow> timeout t)
            | None \<Rightarrow> timeout t)\<rparr>\<rparr>)"

text \<open>
  The whole of \<^verbatim>\<open>parseFromString\<close>. The arguments \<open>visit\<close> and \<open>visit'\<close> are the orders
  in which the map of sections and the map of one section are iterated.
\<close>

definition parseFromString :: "(sections \<Rightarrow> sections) \<Rightarrow> (fields \<Rightarrow> fields) \<Rightarrow> string \<Rightarrow> PackageManifest" where
  "parseFromString visit visit' yamlContent =
     (let s1 = touch ''package'' (parseYaml yamlContent);
          m1 = read_authors s1 (read_package (section_at s1 ''package'') default_manifest);
          s2 = touch ''package.repository'' s1;
          m2 = read_repository (section_at s2 ''package.repository'') m1;
          s3 = touch ''requirements'' s2;
          m3 = read_requirements (section_at s3 ''requirements'') m2;
          m4 = add_dependencies (concat (map required_section (visit s3))) m3;
          s4 = touch ''dependencies'' s3;
          m5 = add_dependencies (map (legacy_dependency False) (visit' (section_at s4 ''dependencies''))) m4;
          s5 = touch ''dev-dependencies'' s4;
          m6 = add_development (map (legacy_dependency True) (visit' (section_at s5 ''dev-dependencies''))) m5;
          s6 = touch ''build.flags'' (touch ''build'' s5);
          m7 = read_build s6 m6;
          s7 = touch ''scripts'' s6;
          m8 = m7\<lparr>scripts := fold read_script (visit' (section_at s7 ''scripts'')) (scripts m7)\<rparr>;
          s8 = touch ''test'' s7;
          m9 = read_test (section_at s8 ''test'') m8;
          s9 = touch ''test.environment'' s8
      in m9\<lparr>testConfig := (testConfig m9)\<lparr>environment :=
           fold (\<lambda>(k, v) env. env(k \<mapsto> stringValue v)) (visit' (section_at s9 ''test.environment''))
             (environment (testConfig m9))\<rparr>\<rparr>)"

section \<open>Lines of a written file\<close>

text \<open>Keys as the program writes them: letters, digits, underscores, dashes and dots.\<close>

definition key_char :: "char \<Rightarrow> bool" where
  "key_char c \<longleftrightarrow> isalnum c \<or> c = CHR ''_'' \<or> c = CHR ''-'' \<or> c = CHR ''.''"

definition plain_key :: "string \<Rightarrow> bool" where
  "plain_key k \<longleftrightarrow> k \<noteq> [] \<and> list_all key_char k \<and> hd k \<noteq> CHR ''-''"

abbreviation quoted :: "string \<Rightarrow> string" where
  "quoted v \<equiv> DQUOTE # v @ [DQUOTE]"

definition header_line :: "nat \<Rightarrow> string \<Rightarrow> string" where
  "header_line n key = replicate n CHR '' '' @ key @ '':''"

definition entry_line :: "nat \<Rightarrow> string \<Rightarrow> string \<Rightarrow> string" where
  "entry_line n key v = replicate n CHR '' '' @ key @ '': '' @ quoted v"

definition item_line :: "nat \<Rightarrow> string \<Rightarrow> string" where
  "item_line n v = replicate n CHR '' '' @ ''- '' @ quoted v"

lemma key_char_class:
  "key_char c \<Longrightarrow> c \<notin> trim_chars \<and> c \<noteq> CHR ''#'' \<and> c \<noteq> CHR '':'' \<and> c \<noteq> DQUOTE \<and> c \<noteq> SQUOTE \<and> c \<noteq> NL"
  by (auto simp: key_char_def trim_chars_def char_class_simps)

lemma trim_both:
  assumes "s \<noteq> []" and "hd s \<notin> trim_chars" and "last s \<notin> trim_chars"
  shows "trimWhitespace s = s"
proof -
  obtain c t where s: "s = c # t" using assms(1) by (cases s) auto
  obtain u d where u: "s = u @ [d]" using assms(1) by (cases s rule: rev_cases) auto
  have "drop_leading trim_chars s = s" using assms(2) by (simp add: s)
  moreover have "drop_trailing trim_chars s = s" using assms(3) by (simp add: u)
  ultimately show ?thesis by (simp add: trimWhitespace_def)
qed

lemma trim_blanks: "trimWhitespace (replicate n CHR '' '' @ s) = trimWhitespace s"
  by (induction n) (simp_all add: trimWhitespace_def trim_chars_def)

lemma trim_key: "plain_key k \<Longrightarrow> trimWhitespace k = k"
  using key_char_class by (intro trim_both) (auto simp: plain_key_def list_all_iff)

lemma measureIndent_blanks:
  "s \<noteq> [] \<Longrightarrow> hd s \<notin> trim_chars \<Longrightarrow> measureIndent (replicate n CHR '' '' @ s) = int n"
  by (induction n) (cases s; auto simp: trim_chars_def)+

lemma find_colon_key:
  "list_all key_char k \<Longrightarrow> rest = [] \<or> hd rest = CHR '' '' \<Longrightarrow>
     find_colon False i (k @ CHR '':'' # rest) = Some (i + length k)"
  by (induction k arbitrary: i) (use key_char_class in auto)

lemma stripQuotes_quoted [simp]: "stripQuotes (quoted v) = v"
proof -
  have "trimWhitespace (quoted v) = quoted v" by (rule trim_both) (auto simp: trim_chars_def)
  then show ?thesis by (simp add: stripQuotes_def)
qed

lemma header_line_yaml:
  assumes "plain_key key"
  shows "yaml_line (header_line n key) st
     = st\<lparr>pathStack := pop_path (int n) (pathStack st) @ [(int n, key)]\<rparr>"
proof -
  obtain c r where k: "key = c # r" and c: "key_char c" "c \<noteq> CHR ''-''"
    using assms by (cases key) (auto simp: plain_key_def)
  have t: "trimWhitespace (header_line n key) = key @ '':''"
    unfolding header_line_def trim_blanks
    using k c key_char_class [OF c(1)] by (intro trim_both) (auto simp: trim_chars_def)
  have m: "measureIndent (header_line n key) = int n"
    unfolding header_line_def using k key_char_class [OF c(1)] by (intro measureIndent_blanks) auto
  have f: "find_colon False 0 (key @ '':'') = Some (length key)"
    using find_colon_key [of key "[]" 0] assms by (simp add: plain_key_def)
  have e: "yaml_entry (int n) (key @ '':'') st' = st'\<lparr>pathStack := pathStack st' @ [(int n, key)]\<rparr>" for st'
    unfolding yaml_entry_def f option.case using trim_key [OF assms] by (simp add: raw_after_def)
  have i: "hd (key @ '':'') = c" "key @ '':'' \<noteq> []" by (simp_all add: k)
  show ?thesis
    unfolding yaml_line_def t m Let_def using i c key_char_class [OF c(1)] e by simp
qed

definition raw_line :: "nat \<Rightarrow> string \<Rightarrow> string \<Rightarrow> string" where
  "raw_line n key raw = replicate n CHR '' '' @ key @ '': '' @ raw"

lemma raw_line_yaml:
  assumes "plain_key key" and "raw \<noteq> []" "hd raw \<notin> trim_chars" "last raw \<notin> trim_chars" "raw \<noteq> ''{}''"
  shows "yaml_line (raw_line n key raw) st
     = st\<lparr>pathStack := pop_path (int n) (pathStack st),
         ysections := put_value (buildSectionPath (pop_path (int n) (pathStack st))) key (yaml_value raw) (ysections st)\<rparr>"
proof -
  obtain c r where k: "key = c # r" and c: "key_char c" "c \<noteq> CHR ''-''"
    using assms(1) by (cases key) (auto simp: plain_key_def)
  let ?t = "key @ '': '' @ raw"
  have t: "trimWhitespace (raw_line n key raw) = ?t"
    unfolding raw_line_def trim_blanks
    using k c key_char_class [OF c(1)] assms(2,4) by (intro trim_both) auto
  have m: "measureIndent (raw_line n key raw) = int n"
    unfolding raw_line_def using k key_char_class [OF c(1)] by (intro measureIndent_blanks) auto
  have f: "find_colon False 0 ?t = Some (length key)"
    using find_colon_key [of key "CHR '' '' # raw" 0] assms(1) by (simp add: plain_key_def)
  have "trimWhitespace (CHR '' '' # raw) = raw"
    using trim_blanks [of 1 raw] trim_both [OF assms(2-4)] by simp
  then have raw: "raw_after (length key) ?t = raw" by (simp add: raw_after_def)
  have e: "yaml_entry (int n) ?t st' = st'\<lparr>ysections := put_value (buildSectionPath (pathStack st')) key (yaml_value raw) (ysections st')\<rparr>"
    for st'
    unfolding yaml_entry_def f option.case raw using trim_key [OF assms(1)] assms(2,5) by simp
  have i: "hd ?t = c" "?t \<noteq> []" by (simp_all add: k)
  show ?thesis
    unfolding yaml_line_def t m Let_def using i c key_char_class [OF c(1)] e by simp
qed

lemma entry_line_yaml:
  assumes "plain_key key"
  shows "yaml_line (entry_line n key v) st
     = st\<lparr>pathStack := pop_path (int n) (pathStack st),
         ysections := put_value (buildSectionPath (pop_path (int n) (pathStack st))) key (string_value v) (ysections st)\<rparr>"
  using raw_line_yaml [OF assms, of "quoted v" n st]
  by (simp add: entry_line_def raw_line_def trim_chars_def yaml_value_def)

lemma item_line_yaml:
  assumes "pop_path (int n + 1) (pathStack st) = stack @ [(d, parentKey)]" and "stack \<noteq> []"
  shows "yaml_line (item_line n v) st
     = yaml_plain_item (buildSectionPath stack) parentKey (quoted v)
         (st\<lparr>pathStack := stack @ [(d, parentKey)]\<rparr>)"
proof -
  let ?t = "''- '' @ quoted v"
  have t: "trimWhitespace (item_line n v) = ?t"
    unfolding item_line_def trim_blanks by (intro trim_both) (auto simp: trim_chars_def)
  have m: "measureIndent (item_line n v) = int n"
    unfolding item_line_def by (intro measureIndent_blanks) (auto simp: trim_chars_def)
  have q: "trimWhitespace (quoted v) = quoted v" by (rule trim_both) (auto simp: trim_chars_def)
  have "2 \<le> length stack + 1" using assms(2) by (cases stack) auto
  then have "yaml_item (int n) ?t (st\<lparr>pathStack := stack @ [(d, parentKey)]\<rparr>)
      = yaml_plain_item (buildSectionPath stack) parentKey (quoted v) (st\<lparr>pathStack := stack @ [(d, parentKey)]\<rparr>)"
    using q by (simp add: yaml_item_def Let_def numeral_2_eq_2 split: option.split)
  then show ?thesis
    using assms(1) unfolding yaml_line_def t m Let_def by simp
qed

lemma blank_line_yaml [simp]: "yaml_line [] st = st" "yaml_line (CHR ''#'' # s) st = st"
proof -
  have "hd (trimWhitespace (CHR ''#'' # s)) = CHR ''#''" "trimWhitespace (CHR ''#'' # s) \<noteq> []"
    by (induction s rule: rev_induct) (auto simp: trimWhitespace_def drop_trailing_def trim_chars_def)
  then show "yaml_line (CHR ''#'' # s) st = st" by (simp add: yaml_line_def)
qed (simp add: yaml_line_def trimWhitespace_def)

end
