(* ===== verification/ManifestLaws.thy ===== *)
theory ManifestLaws
  imports Manifest
begin

text \<open>
  What the manifest reader guarantees: dependency strings and inline sequences are read back as they
  were written, the order of hash-map iteration does not matter, the manifest of
  \<^verbatim>\<open>uranite-pkg init\<close> (\<^verbatim>\<open>src/uranite-pkg/pkg.cpp\<close>) is read as meant; and the documented
  manifest is not.
\<close>

section \<open>Dependency strings and inline sequences\<close>

text \<open>How a dependency is written: repository or name, and a constraint after an at sign.\<close>

definition print_dependency :: "PackageDependency \<Rightarrow> string" where
  "print_dependency d =
     (if sourceRepository d \<noteq> '''' then sourceRepository d else packageName d)
     @ (if versionConstraint d \<noteq> '''' then ''@'' @ versionConstraint d else '''')"

definition dependency_ok :: "PackageDependency \<Rightarrow> bool" where
  "dependency_ok d \<longleftrightarrow>
     CHR ''@'' \<notin> set (packageName d @ sourceRepository d)
     \<and> (if sourceRepository d = '''' then CHR ''/'' \<notin> set (packageName d)
        else \<exists>r1. find_char CHR ''/'' (sourceRepository d) = Some r1 \<and> packageName d = drop (r1 + 1) (sourceRepository d))"

text \<open>
  A dependency written as a string is read back: the name alone, or the repository path whose
  part after the first slash is the name, followed by an at sign and the constraint when there is one.
\<close>

lemma dependency_roundtrip:
  assumes "dependency_ok d"
  shows "parseDependencyString (print_dependency d) (isDevelopmentOnly d) = d"
proof -
  let ?id = "if sourceRepository d \<noteq> '''' then sourceRepository d else packageName d"
  have at: "CHR ''@'' \<notin> set ?id" using assms by (auto simp: dependency_ok_def)
  have src: "source_fields ?id (default_dependency\<lparr>isDevelopmentOnly := isDevelopmentOnly d, versionConstraint := versionConstraint d\<rparr>) = d"
  proof (cases "sourceRepository d = ''''")
    case True
    with assms have "CHR ''/'' \<notin> set (packageName d)" by (simp add: dependency_ok_def)
    with True show ?thesis by (simp add: source_fields_def default_dependency_def)
  next
    case False
    with assms obtain q where "find_char CHR ''/'' (sourceRepository d) = Some q"
      "packageName d = drop (q + 1) (sourceRepository d)"
      by (auto simp: dependency_ok_def)
    with False show ?thesis by (simp add: source_fields_def default_dependency_def)
  qed
  show ?thesis
  proof (cases "versionConstraint d = ''''")
    case True
    then have "print_dependency d = ?id" by (simp add: print_dependency_def)
    moreover have "find_char CHR ''@'' ?id = None" using at by (simp only: find_char_None) simp
    ultimately show ?thesis
      using src True by (simp only: parseDependencyString_def Let_def option.case) (simp add: default_dependency_def)
  next
    case False
    then have "print_dependency d = ?id @ CHR ''@'' # versionConstraint d" by (simp add: print_dependency_def)
    moreover have "find_char CHR ''@'' (?id @ CHR ''@'' # versionConstraint d) = Some (length ?id)"
      using at by (rule find_char_append)
    ultimately show ?thesis
      using src by (simp only: parseDependencyString_def Let_def option.case) simp
  qed
qed

lemma dependency_roundtrip_example:
  "parseDependencyString ''acme/http@^1.2.0'' False
     = \<lparr>packageName = ''http'', versionConstraint = ''^1.2.0'', sourceRepository = ''acme/http'',
        isDevelopmentOnly = False\<rparr>"
proof -
  let ?d = "\<lparr>packageName = ''http'', versionConstraint = ''^1.2.0'', sourceRepository = ''acme/http'',
        isDevelopmentOnly = False\<rparr>"
  have "dependency_ok ?d" by (simp add: dependency_ok_def)
  moreover have "print_dependency ?d = ''acme/http@^1.2.0''" by (simp add: print_dependency_def)
  ultimately show ?thesis using dependency_roundtrip [of ?d] by simp
qed

definition quotable :: "string \<Rightarrow> bool" where
  "quotable v \<longleftrightarrow> DQUOTE \<notin> set v \<and> (v \<noteq> [] \<longrightarrow> last v \<noteq> BACKSLASH)"

definition print_sequence :: "string list \<Rightarrow> string" where
  "print_sequence vs = ''['' @ join '', '' (map quoted vs) @ '']''"

lemma sequence_loop_inside:
  "DQUOTE \<notin> set v \<Longrightarrow> last (c # v) \<noteq> BACKSLASH \<Longrightarrow>
     sequence_loop (Some c) cur True d els (v @ DQUOTE # rest)
       = sequence_loop (Some DQUOTE) (cur @ v @ [DQUOTE]) False d els rest"
proof (induction v arbitrary: c cur)
  case (Cons x v)
  from Cons.IH [of x "cur @ [x]"] Cons.prems show ?case by (cases "v = []") auto
qed simp

lemma sequence_loop_quoted:
  assumes "quotable v" and "prev \<noteq> Some BACKSLASH"
  shows "sequence_loop prev cur False 0 els (quoted v @ rest)
    = sequence_loop (Some DQUOTE) (cur @ quoted v) False 0 els rest"
  using assms sequence_loop_inside [of v DQUOTE "cur @ [DQUOTE]" 0 els rest]
  by (simp add: quotable_def)

lemma push_quoted:
  "push_element (quoted v) els = els @ [v]" "push_element (CHR '' '' # quoted v) els = els @ [v]"
proof -
  have q: "trimWhitespace (quoted v) = quoted v" by (rule trim_both) (auto simp: trim_chars_def)
  then have "trimWhitespace (CHR '' '' # quoted v) = quoted v" using trim_blanks [of 1 "quoted v"] by simp
  with q show "push_element (quoted v) els = els @ [v]" "push_element (CHR '' '' # quoted v) els = els @ [v]"
    by (simp_all add: push_element_def)
qed

lemma sequence_loop_join:
  "\<forall>v \<in> set vs. quotable v \<Longrightarrow> vs \<noteq> [] \<Longrightarrow> prev \<noteq> Some BACKSLASH \<Longrightarrow> cur = [] \<or> cur = '' '' \<Longrightarrow>
     sequence_loop prev cur False 0 els (join '', '' (map quoted vs)) = els @ vs"
proof (induction vs arbitrary: prev cur els)
  case (Cons v vs)
  have c: "push_element (cur @ quoted v) els' = els' @ [v]" for els'
    using Cons.prems(4) push_quoted by auto
  show ?case
  proof (cases vs)
    case Nil
    then show ?thesis
      using sequence_loop_quoted [of v prev cur els "[]"] Cons.prems c [of els] by simp
  next
    case (Cons w ws)
    have ih: "sequence_loop (Some CHR '' '') '' '' False 0 (els @ [v]) (join '', '' (map quoted vs)) = (els @ [v]) @ vs"
      using Cons.IH Cons.prems Cons by simp
    have "sequence_loop prev cur False 0 els (quoted v @ '', '' @ join '', '' (map quoted vs))
      = sequence_loop (Some DQUOTE) (cur @ quoted v) False 0 els ('', '' @ join '', '' (map quoted vs))"
      using Cons.prems by (intro sequence_loop_quoted) simp_all
    also have "\<dots> = sequence_loop (Some CHR '' '') '' '' False 0 (els @ [v]) (join '', '' (map quoted vs))"
      using c [of els] by simp
    finally show ?thesis using ih Cons by simp
  qed
qed simp

text \<open>
  An inline sequence of double-quoted elements is read back element by element, empty ones,
  commas, brackets, braces and single quotes included, as long as no element holds a double quote or
  ends in a backslash.
\<close>

lemma inline_sequence_roundtrip:
  assumes "\<forall>v \<in> set vs. quotable v"
  shows "parseInlineSequence (print_sequence vs) = vs"
proof -
  let ?b = "join '', '' (map quoted vs)"
  have "trimWhitespace (print_sequence vs) = print_sequence vs"
    by (rule trim_both) (auto simp: print_sequence_def trim_chars_def)
  then have u: "unwrap CHR ''['' CHR '']'' (print_sequence vs) = ?b"
    by (simp add: unwrap_def print_sequence_def)
  show ?thesis
  proof (cases "vs = []")
    case True
    then show ?thesis unfolding parseInlineSequence_def u by (simp add: push_element_def trimWhitespace_def)
  next
    case False
    then show ?thesis
      unfolding parseInlineSequence_def u using assms sequence_loop_join [of vs None "[]" "[]"] by simp
  qed
qed

lemma inline_sequence_roundtrip_example:
  "parseInlineSequence (print_sequence [''a,b'', '''', ''{it's}'']) = [''a,b'', '''', ''{it's}'']"
  by (rule inline_sequence_roundtrip) (simp add: quotable_def)

section \<open>The sections are maps\<close>

definition sections_ok :: "sections \<Rightarrow> bool" where
  "sections_ok ss \<longleftrightarrow> distinct (map fst ss) \<and> (\<forall>(k, s) \<in> set ss. distinct (map fst s))"

lemma section_at_distinct: "sections_ok ss \<Longrightarrow> distinct (map fst (section_at ss path))"
  by (auto simp: sections_ok_def section_at_def split: option.splits dest: map_of_SomeD)

lemma put_value_ok:
  assumes "sections_ok ss"
  shows "sections_ok (put_value path key v ss)"
proof -
  have d: "distinct (map fst (AList.update key v (section_at ss path)))"
    using section_at_distinct [OF assms] by (rule distinct_update)
  have "set (AList.update k x al) \<subseteq> insert (k, x) (set al)" for k and x :: fields and al
    by (induction al) auto
  then have "set (put_value path key v ss) \<subseteq> insert (path, AList.update key v (section_at ss path)) (set ss)"
    by (simp add: put_value_def)
  moreover have "distinct (map fst (put_value path key v ss))"
    using assms unfolding put_value_def sections_ok_def by (intro distinct_update) simp
  ultimately show ?thesis
    using assms d by (fastforce simp: sections_ok_def)
qed

lemma yaml_line_ok: "sections_ok (ysections st) \<Longrightarrow> sections_ok (ysections (yaml_line l st))"
  by (auto simp: yaml_line_def yaml_entry_def yaml_item_def yaml_plain_item_def yaml_object_item_def Let_def
      intro!: put_value_ok split: option.split)

lemma parseYaml_ok: "sections_ok (parseYaml content)"
proof -
  have "sections_ok (ysections st) \<Longrightarrow> sections_ok (ysections (fold yaml_line ls st))" for ls st
    by (induction ls arbitrary: st) (auto intro: yaml_line_ok)
  from this [of yaml_start "getlines NL content"] show ?thesis
    by (simp add: parseYaml_def yaml_start_def) (simp add: sections_ok_def)
qed

lemma touch_ok: "sections_ok ss \<Longrightarrow> sections_ok (touch name ss)"
  by (auto simp: sections_ok_def touch_def map_of_eq_None_iff)

text \<open>The empty sections that \<^verbatim>\<open>operator[]\<close> inserts are invisible to the readers.\<close>

lemma touch_reads [simp]:
  "section_at (touch n ss) p = section_at ss p"
  "p \<noteq> n \<Longrightarrow> map_of (touch n ss) p = map_of ss p"
  by (auto simp: section_at_def touch_def map_add_def split: option.split)

lemma author_loop_touch [simp]: "author_loop (touch ''package'' ss) n = author_loop ss n"
proof (induction ss n rule: author_loop.induct)
  case (1 ss n)
  have "map_of (touch ''package'' ss) (author_path n) = map_of ss (author_path n)"
    by (simp add: author_path_def)
  with 1 show ?case by (simp add: author_loop.simps [of "touch ''package'' ss"] author_loop.simps [of ss] split: option.split)
qed

lemma fold_permuted:
  assumes "distinct (map fst xs)" and "mset xs = mset ys"
    and comm: "\<And>x y. fst x \<noteq> fst y \<Longrightarrow> f x \<circ> f y = f y \<circ> f x"
  shows "fold f xs = fold f ys"
proof (rule fold_multiset_equiv [OF _ assms(2)])
  fix x y
  assume "x \<in> set xs" "y \<in> set xs"
  then show "f x \<circ> f y = f y \<circ> f x"
    using assms(1) comm [of x y] by (cases "x = y") (auto simp: distinct_map inj_on_def)
qed

lemma mset_concat_map:
  assumes "mset xs = mset ys"
  shows "mset (concat (map f xs)) = mset (concat (map f ys))"
proof -
  have "mset (concat (map f zs)) = sum_mset (image_mset (\<lambda>x. mset (f x)) (mset zs))" for zs
    by (induction zs) auto
  with assms show ?thesis by simp
qed

text \<open>An order of iteration: it visits every entry once.\<close>

definition visits :: "('a list \<Rightarrow> 'a list) \<Rightarrow> bool" where
  "visits f \<longleftrightarrow> (\<forall>xs. mset (f xs) = mset xs)"

text \<open>
  C29. The order in which the hash maps are iterated cannot change what a manifest says: two
  runs of \<^verbatim>\<open>parseFromString\<close> with different orders yield manifests that agree in every field but the
  two dependency lists, and each of those is the same up to the order of its elements.
\<close>

theorem manifest_order_independent:
  assumes "visits v1" and "visits v1'" and "visits v2" and "visits v2'"
    and "a = parseFromString v1 v1' y" and "b = parseFromString v2 v2' y"
  shows "mset (dependencies (requirements a)) = mset (dependencies (requirements b))
    \<and> mset (developmentDependencies (requirements a)) = mset (developmentDependencies (requirements b))
    \<and> a\<lparr>requirements := (requirements a)\<lparr>dependencies := [], developmentDependencies := []\<rparr>\<rparr>
      = b\<lparr>requirements := (requirements b)\<lparr>dependencies := [], developmentDependencies := []\<rparr>\<rparr>"
proof -
  define s3 where "s3 = touch ''requirements'' (touch ''package.repository'' (touch ''package'' (parseYaml y)))"
  define s5 where "s5 = touch ''dev-dependencies'' (touch ''dependencies'' s3)"
  define s7 where "s7 = touch ''scripts'' (touch ''build.flags'' (touch ''build'' s5))"
  define s9 where "s9 = touch ''test.environment'' (touch ''test'' s7)"
  have ok: "sections_ok s7" "sections_ok s9" by (simp_all add: s9_def s7_def s5_def s3_def touch_ok parseYaml_ok)
  have vis: "mset (v1 xs) = mset (v2 xs)" "mset (v1' zs) = mset (v2' zs)" for xs zs
    using assms(1-4) by (simp_all add: visits_def)
  have "mset (map fst (v1' zs)) = mset (map fst zs)" for zs
    using assms(2) by (simp add: visits_def)
  then have dist: "distinct (map fst (v1' zs)) = distinct (map fst zs)" for zs
    by (rule mset_eq_imp_distinct_iff)
  have req: "mset (concat (map required_section (v1 ss))) = mset (concat (map required_section (v2 ss)))" for ss
    using vis(1) by (rule mset_concat_map)
  have leg: "mset (map (legacy_dependency d) (v1' s)) = mset (map (legacy_dependency d) (v2' s))" for d s
    by (simp add: vis(2))
  have scr: "fold read_script (v1' (section_at s7 n)) = fold read_script (v2' (section_at s7 n))" for n
    using section_at_distinct [OF ok(1)] vis(2) dist by (intro fold_permuted) (auto simp: read_script_def fun_eq_iff)
  have env: "fold (\<lambda>(k, v) e. e(k \<mapsto> stringValue v)) (v1' (section_at s9 n))
      = fold (\<lambda>(k, v) e. e(k \<mapsto> stringValue v)) (v2' (section_at s9 n))" for n
    using section_at_distinct [OF ok(2)] vis(2) dist by (intro fold_permuted) (auto simp: fun_eq_iff)
  note unf = s3_def [symmetric] s5_def [symmetric] s7_def [symmetric] s9_def [symmetric]
  show ?thesis
    unfolding assms(5,6) parseFromString_def Let_def unf scr env
    using req leg by (simp add: add_dependencies_def add_development_def read_build_def read_test_def Let_def)
qed

theorem manifest_order_independent_witness:
  "mset (dependencies (requirements (parseFromString rev rev ''dependencies:'')))
     = mset (dependencies (requirements (parseFromString (\<lambda>x. x) (\<lambda>x. x) ''dependencies:'')))"
proof -
  have v: "visits rev" "visits (\<lambda>x. x)" for x :: "'a list" by (simp_all add: visits_def)
  have "visits (rev :: sections \<Rightarrow> sections)" "visits (rev :: fields \<Rightarrow> fields)"
    "visits (\<lambda>x :: sections. x)" "visits (\<lambda>x :: fields. x)"
    by (simp_all add: visits_def)
  from manifest_order_independent [OF this refl refl] show ?thesis by blast
qed

section \<open>The manifest that \<open>init\<close> writes\<close>

text \<open>What \<^verbatim>\<open>commandInit\<close> of \<^verbatim>\<open>src/uranite-pkg/pkg.cpp\<close> writes in a directory.\<close>

definition init_manifest :: "string \<Rightarrow> string" where
  "init_manifest directoryName = unlines
     [''build:'',
      ''    build-path: '' @ quoted (''build/'' @ directoryName),
      ''    optimization: 2'',
      ''    strip-symbols: false'',
      '''',
      ''package:'',
      ''    authors:'',
      ''    -   email: '' @ quoted '''',
      ''        name: '' @ quoted '''',
      ''    description: '' @ quoted '''',
      ''    entry: '' @ quoted ''src'',
      ''    license: '' @ quoted ''GPL-3.0'',
      ''    name: '' @ quoted directoryName,
      ''    type: '' @ quoted ''binary'',
      ''    version: '' @ quoted ''0.1.0'',
      '''',
      ''requirements:'',
      ''    dependencies: []'',
      ''    dev-dependencies: []'',
      ''    path: '' @ quoted ''build/modules'',
      ''    system-dependencies: []'',
      '''',
      ''scripts:'',
      ''    # pre-build: '' @ quoted ''echo preparing...'',
      ''    # post-build: '' @ quoted ''echo done!'',
      '''',
      ''test:'',
      ''    coverage: false'',
      ''    parallel: false'',
      ''    path: '' @ quoted ''testing/'',
      ''    timeout: 5000'']"

definition comment_line :: "nat \<Rightarrow> string \<Rightarrow> string" where
  "comment_line n v = replicate n CHR '' '' @ CHR ''#'' # v"

definition author_line :: string where
  "author_line = ''    -   email: '' @ quoted ''''"

lemma init_manifest_lines:
  "init_manifest directoryName = unlines (
     [header_line 0 ''build'', entry_line 4 ''build-path'' (''build/'' @ directoryName),
      raw_line 4 ''optimization'' ''2'', raw_line 4 ''strip-symbols'' ''false'', '''']
     @ [header_line 0 ''package'', header_line 4 ''authors'', author_line,
      entry_line 8 ''name'' '''', entry_line 4 ''description'' '''', entry_line 4 ''entry'' ''src'',
      entry_line 4 ''license'' ''GPL-3.0'', entry_line 4 ''name'' directoryName,
      entry_line 4 ''type'' ''binary'', entry_line 4 ''version'' ''0.1.0'', '''']
     @ [header_line 0 ''requirements'', raw_line 4 ''dependencies'' ''[]'', raw_line 4 ''dev-dependencies'' ''[]'',
      entry_line 4 ''path'' ''build/modules'', raw_line 4 ''system-dependencies'' ''[]'', '''']
     @ [header_line 0 ''scripts'', comment_line 4 ('' pre-build: '' @ quoted ''echo preparing...''),
      comment_line 4 ('' post-build: '' @ quoted ''echo done!''), '''',
      header_line 0 ''test'', raw_line 4 ''coverage'' ''false'', raw_line 4 ''parallel'' ''false'',
      entry_line 4 ''path'' ''testing/'', raw_line 4 ''timeout'' ''5000''])"
  by (simp add: init_manifest_def header_line_def entry_line_def raw_line_def comment_line_def author_line_def
      numeral_eq_Suc)

lemma init_keys:
  "list_all plain_key [''build'', ''build-path'', ''optimization'', ''strip-symbols'', ''package'', ''authors'', ''name'',
     ''description'', ''entry'', ''license'', ''type'', ''version'', ''requirements'', ''dependencies'',
     ''dev-dependencies'', ''path'', ''system-dependencies'', ''scripts'', ''test'', ''coverage'', ''parallel'', ''timeout'']"
  by code_simp

lemma comment_line_yaml: "yaml_line (comment_line n v) st = st"
proof -
  have "hd (trimWhitespace (comment_line n v)) = CHR ''#''"
    unfolding comment_line_def trim_blanks
    by (induction v rule: rev_induct) (auto simp: trimWhitespace_def drop_trailing_def trim_chars_def)
  then show ?thesis by (simp add: yaml_line_def)
qed

lemma author_line_yaml:
  assumes "pop_path 5 (pathStack st) = [(0, ''package''), (4, ''authors'')]" and "arrayObjectIndexCounters st = []"
  shows "yaml_line author_line st
    = st\<lparr>arrayObjectIndexCounters := [(''package.authors'', 1)],
        ysections := put_value ''package.authors.0'' ''email'' (string_value '''') (ysections st),
        pathStack := [(0, ''package''), (4, ''authors''), (5, ''0'')]\<rparr>"
proof -
  let ?t = "''-   email: '' @ quoted ''''" and ?i = "''email: '' @ quoted ''''"
  have t: "trimWhitespace author_line = ?t" "measureIndent author_line = 4"
    "trimWhitespace (drop 2 ?t) = ?i" "find_colon False 0 ?i = Some 5" "trimWhitespace (take 5 ?i) = ''email''"
    "raw_after 5 ?i = quoted ''''" "to_string 0 = ''0''" "stripQuotes (quoted '''') = ''''"
    by code_simp+
  have o: "yaml_object_item 4 ''package'' ''authors'' 5 ?i st' = st'\<lparr>arrayObjectIndexCounters := [(''package.authors'', 1)],
        ysections := put_value ''package.authors.0'' ''email'' (string_value '''') (ysections st'),
        pathStack := pathStack st' @ [(5, ''0'')]\<rparr>" if "arrayObjectIndexCounters st' = []" for st'
    unfolding yaml_object_item_def t Let_def that by (simp add: t(7))
  have "yaml_item 4 ?t (st\<lparr>pathStack := [(0, ''package''), (4, ''authors'')]\<rparr>)
    = yaml_object_item 4 ''package'' ''authors'' 5 ?i (st\<lparr>pathStack := [(0, ''package''), (4, ''authors'')]\<rparr>)"
    unfolding yaml_item_def t Let_def option.case by (simp add: buildSectionPath_def)
  then show ?thesis
    using assms o [of "st\<lparr>pathStack := [(0, ''package''), (4, ''authors'')]\<rparr>"]
    unfolding yaml_line_def t Let_def by simp
qed

definition init_build :: "string \<Rightarrow> sections" where
  "init_build directoryName =
     [(''build'', [(''build-path'', string_value (''build/'' @ directoryName)), (''optimization'', string_value ''2''),
         (''strip-symbols'', string_value ''false'')])]"

definition init_package :: "string \<Rightarrow> sections" where
  "init_package directoryName =
     [(''package.authors.0'', [(''email'', string_value ''''), (''name'', string_value '''')]),
      (''package'', [(''description'', string_value ''''), (''entry'', string_value ''src''),
         (''license'', string_value ''GPL-3.0''), (''name'', string_value directoryName),
         (''type'', string_value ''binary''), (''version'', string_value ''0.1.0'')])]"

definition init_requirements :: sections where
  "init_requirements =
     [(''requirements'', [(''dependencies'', default_value\<lparr>valueKind := KArray\<rparr>),
         (''dev-dependencies'', default_value\<lparr>valueKind := KArray\<rparr>), (''path'', string_value ''build/modules''),
         (''system-dependencies'', default_value\<lparr>valueKind := KArray\<rparr>)])]"

definition init_test :: sections where
  "init_test =
     [(''test'', [(''coverage'', string_value ''false''), (''parallel'', string_value ''false''),
         (''path'', string_value ''testing/''), (''timeout'', string_value ''5000'')])]"

lemma init_values:
  "yaml_value ''2'' = string_value ''2''" "yaml_value ''false'' = string_value ''false''"
  "yaml_value ''[]'' = default_value\<lparr>valueKind := KArray\<rparr>" "yaml_value ''5000'' = string_value ''5000''"
  by code_simp+

lemmas init_simps =
  init_keys [unfolded list.pred_inject(2)] header_line_yaml entry_line_yaml raw_line_yaml trim_chars_def pop_path_def
  buildSectionPath_def put_value_def section_at_def author_line_yaml comment_line_yaml init_values
  init_build_def init_package_def init_requirements_def init_test_def

lemma init_fold:
  "fold yaml_line [header_line 0 ''build'', entry_line 4 ''build-path'' (''build/'' @ directoryName),
      raw_line 4 ''optimization'' ''2'', raw_line 4 ''strip-symbols'' ''false'', ''''] yaml_start
   = \<lparr>ysections = init_build directoryName, pathStack = [(0, ''build'')], arrayObjectIndexCounters = []\<rparr>"
  "fold yaml_line [header_line 0 ''package'', header_line 4 ''authors'', author_line,
      entry_line 8 ''name'' '''', entry_line 4 ''description'' '''', entry_line 4 ''entry'' ''src'',
      entry_line 4 ''license'' ''GPL-3.0'', entry_line 4 ''name'' directoryName,
      entry_line 4 ''type'' ''binary'', entry_line 4 ''version'' ''0.1.0'', '''']
    \<lparr>ysections = init_build directoryName, pathStack = [(0, ''build'')], arrayObjectIndexCounters = []\<rparr>
   = \<lparr>ysections = init_build directoryName @ init_package directoryName, pathStack = [(0, ''package'')],
      arrayObjectIndexCounters = [(''package.authors'', 1)]\<rparr>"
  "fold yaml_line [header_line 0 ''requirements'', raw_line 4 ''dependencies'' ''[]'',
      raw_line 4 ''dev-dependencies'' ''[]'', entry_line 4 ''path'' ''build/modules'',
      raw_line 4 ''system-dependencies'' ''[]'', '''']
    \<lparr>ysections = init_build directoryName @ init_package directoryName, pathStack = [(0, ''package'')],
      arrayObjectIndexCounters = [(''package.authors'', 1)]\<rparr>
   = \<lparr>ysections = init_build directoryName @ init_package directoryName @ init_requirements,
      pathStack = [(0, ''requirements'')], arrayObjectIndexCounters = [(''package.authors'', 1)]\<rparr>"
  "fold yaml_line [header_line 0 ''scripts'', comment_line 4 c1, comment_line 4 c2, '''',
      header_line 0 ''test'', raw_line 4 ''coverage'' ''false'', raw_line 4 ''parallel'' ''false'',
      entry_line 4 ''path'' ''testing/'', raw_line 4 ''timeout'' ''5000'']
    \<lparr>ysections = init_build directoryName @ init_package directoryName @ init_requirements,
      pathStack = [(0, ''requirements'')], arrayObjectIndexCounters = [(''package.authors'', 1)]\<rparr>
   = \<lparr>ysections = init_build directoryName @ init_package directoryName @ init_requirements @ init_test,
      pathStack = [(0, ''test'')], arrayObjectIndexCounters = [(''package.authors'', 1)]\<rparr>"
  by (simp_all add: init_simps yaml_start_def)

lemma init_parseYaml:
  assumes "NL \<notin> set directoryName"
  shows "parseYaml (init_manifest directoryName)
    = init_build directoryName @ init_package directoryName @ init_requirements @ init_test"
proof -
  have "getlines NL (init_manifest directoryName) = (
     [header_line 0 ''build'', entry_line 4 ''build-path'' (''build/'' @ directoryName),
      raw_line 4 ''optimization'' ''2'', raw_line 4 ''strip-symbols'' ''false'', '''']
     @ [header_line 0 ''package'', header_line 4 ''authors'', author_line,
      entry_line 8 ''name'' '''', entry_line 4 ''description'' '''', entry_line 4 ''entry'' ''src'',
      entry_line 4 ''license'' ''GPL-3.0'', entry_line 4 ''name'' directoryName,
      entry_line 4 ''type'' ''binary'', entry_line 4 ''version'' ''0.1.0'', '''']
     @ [header_line 0 ''requirements'', raw_line 4 ''dependencies'' ''[]'', raw_line 4 ''dev-dependencies'' ''[]'',
      entry_line 4 ''path'' ''build/modules'', raw_line 4 ''system-dependencies'' ''[]'', '''']
     @ [header_line 0 ''scripts'', comment_line 4 ('' pre-build: '' @ quoted ''echo preparing...''),
      comment_line 4 ('' post-build: '' @ quoted ''echo done!''), '''',
      header_line 0 ''test'', raw_line 4 ''coverage'' ''false'', raw_line 4 ''parallel'' ''false'',
      entry_line 4 ''path'' ''testing/'', raw_line 4 ''timeout'' ''5000''])"
    unfolding init_manifest_lines
    using assms by (intro getlines_unlines) (auto simp: header_line_def entry_line_def raw_line_def
        comment_line_def author_line_def)
  then show ?thesis
    unfolding parseYaml_def by (simp only: fold_append o_apply init_fold yaml_state.select_convs)
qed

text \<open>
  C30. The manifest that \<^verbatim>\<open>uranite-pkg init\<close> writes is read as it is meant, in a directory of
  any name without a newline and for every order of iteration: the name of the package is that of the
  directory, its version 0.1.0, the build goes below \<^verbatim>\<open>build/\<close>, there is one author with empty
  fields, there are no dependencies, and the test settings are those written; everything else has its
  default.
\<close>

theorem init_manifest_read:
  assumes "NL \<notin> set directoryName" and "visits visit" and "visits visit'"
  shows "parseFromString visit visit' (init_manifest directoryName) =
    default_manifest\<lparr>manifest_packageName := directoryName, packageVersion := ''0.1.0'',
      licenseIdentifier := ''GPL-3.0'', entrySourceFile := ''src'',
      authorInfoList := [\<lparr>author_name = '''', author_email = '''', author_role = '''', author_url = ''''\<rparr>],
      buildConfig := default_build\<lparr>buildPath := ''build/'' @ directoryName\<rparr>,
      testConfig := default_test\<lparr>test_path := ''testing/'', timeout := 5000\<rparr>\<rparr>"
proof -
  define ss where "ss = init_build directoryName @ init_package directoryName @ init_requirements @ init_test"
  note defs = init_build_def init_package_def init_requirements_def init_test_def
  have sec: "section_at ss ''build'' = snd (hd (init_build directoryName))"
    "section_at ss ''package'' = snd (init_package directoryName ! 1)"
    "section_at ss ''requirements'' = snd (hd init_requirements)" "section_at ss ''test'' = snd (hd init_test)"
    "section_at ss ''package.repository'' = []" "section_at ss ''dependencies'' = []"
    "section_at ss ''dev-dependencies'' = []" "section_at ss ''build.flags'' = []"
    "section_at ss ''scripts'' = []" "section_at ss ''test.environment'' = []"
    by (simp_all add: ss_def section_at_def defs)
  have profiles: "map_of ss ''build.profiles.dev'' = None" "map_of ss ''build.profiles.release'' = None"
    by (simp_all add: ss_def defs)
  have path: "author_path 0 = ''package.authors.0''" "author_path (Suc 0) = ''package.authors.1''"
    "stoi ''5000'' = Inr 5000"
    by code_simp+
  have "map_of ss ''package.authors.0'' = Some (snd (hd (init_package directoryName)))"
    "map_of ss ''package.authors.1'' = None"
    by (simp_all add: ss_def defs)
  then have authors: "author_loop ss 0 = [\<lparr>author_name = '''', author_email = '''', author_role = '''', author_url = ''''\<rparr>]"
    by (simp add: author_loop.simps [of ss 0] author_loop.simps [of ss "Suc 0"] path init_package_def
        read_author_def string_field_def string_value_def default_value_def)
  have visit0: "visit' [] = []" using assms(3) unfolding visits_def by (metis mset.simps(1) mset_zero_iff)
  have "\<forall>x \<in> set (touch ''requirements'' (touch ''package.repository'' (touch ''package'' ss))). required_section x = []"
    by (simp add: ss_def defs required_section_def starts_with_def touch_def)
  moreover have "set (visit xs) = set xs" for xs using assms(2) unfolding visits_def by (metis set_mset_mset)
  ultimately have req: "concat (map required_section
      (visit (touch ''requirements'' (touch ''package.repository'' (touch ''package'' ss))))) = []"
    by simp
  note fields = string_field_def array_field_def flag_field_def string_value_def default_value_def
  show ?thesis
    unfolding parseFromString_def init_parseYaml [OF assms(1)] ss_def [symmetric] Let_def req
    by (simp add: sec read_package_def read_authors_def read_repository_def read_requirements_def
      add_dependencies_def add_development_def read_build_def read_profile_def profiles read_test_def authors visit0
      defs fields path Let_def default_manifest_def)
     (simp add: default_build_def default_test_def)
qed

theorem init_manifest_read_witness:
  "manifest_packageName (parseFromString rev (\<lambda>x. x) (init_manifest ''my-app'')) = ''my-app''
   \<and> timeout (testConfig (parseFromString rev (\<lambda>x. x) (init_manifest ''my-app''))) = 5000"
proof -
  have "NL \<notin> set ''my-app''" "visits (rev :: sections \<Rightarrow> sections)" "visits (\<lambda>x :: fields. x)"
    by (simp_all add: visits_def)
  from init_manifest_read [OF this] show ?thesis by simp
qed

text \<open>
  The complete example of \<^verbatim>\<open>docs/started/project-structure.md\<close>, with the dependency that has a source
  from the same page.
\<close>

definition documented_manifest :: string where
  "documented_manifest = unlines
     [''name: sensor-dashboard'', ''version: 2.1.0'', ''license: GPL-3.0'', '''', ''entry: src/main.urn'', ''type: library'', '''',
      ''dependencies:'', ''  http-server: '' @ quoted ''^1.4.0'', ''  custom-lib:'', ''    version: '' @ quoted ''^1.0.0'',
      ''    source: '' @ quoted ''https://github.com/user/custom-lib.git'', '''',
      ''build:'', ''  optimization: '' @ quoted ''3'', ''  link: ['' @ quoted ''pthread'' @ '', '' @ quoted ''ssl'' @ '']'',
      ''  strip: true'']"

text \<open>
  The documented manifest is not the one that is read: of the documented top-level keys
  \<^verbatim>\<open>name\<close>, \<^verbatim>\<open>version\<close>, \<^verbatim>\<open>license\<close> and \<^verbatim>\<open>type\<close> none is taken, the dependency with
  a source is dropped, and \<^verbatim>\<open>link\<close> and \<^verbatim>\<open>strip\<close> have no effect; the plain dependency and the
  optimization level are read.
\<close>

lemma documented_manifest_read:
  "let m = parseFromString (\<lambda>x. x) (\<lambda>x. x) documented_manifest in
     manifest_packageName m = '''' \<and> packageVersion m = '''' \<and> licenseIdentifier m = '''' \<and> packageType m = ''binary''
     \<and> map packageName (dependencies (requirements m)) = [''http-server'']
     \<and> linkLibraries (buildConfig m) = [] \<and> \<not> stripSymbols (buildConfig m)
     \<and> optimizationLevel (buildConfig m) = ''3''"
  by code_simp

end
