(* ===== verification/Lockfile.thy ===== *)
theory Lockfile
  imports ManifestLaws
begin

text \<open>
  The lockfile: \<^verbatim>\<open>src/uranite-pkg/manifest/lockfile.hpp\<close> and \<^verbatim>\<open>lockfile.cpp\<close>. Writing
  yields the text of the file; reading starts from the content of the file, \<open>None\<close> for one that
  cannot be opened. What either raises is the left summand.
\<close>

section \<open>Model\<close>

record LockfileEntry =
  lock_packageName :: string
  resolvedVersionString :: string
  sourceIntegrityHash :: string
  lock_sourceRepository :: string
  transitiveDependencyNames :: "string list"

record Lockfile =
  lockfileFormatVersion :: string
  lockedEntries :: "LockfileEntry list"

definition default_lockfile :: Lockfile where
  "default_lockfile = \<lparr>lockfileFormatVersion = ''1'', lockedEntries = []\<rparr>"

datatype (plugins only: code size) lock_error = CouldNotOpen | InvalidPackageName string

fun escapeYamlString :: "string \<Rightarrow> string" where
  "escapeYamlString [] = []"
| "escapeYamlString (c # s) =
     (if c = DQUOTE then [BACKSLASH, DQUOTE] @ escapeYamlString s
      else if c = BACKSLASH then [BACKSLASH, BACKSLASH] @ escapeYamlString s
      else c # escapeYamlString s)"

definition entry_text :: "LockfileEntry \<Rightarrow> string" where
  "entry_text e =
     ''package:'' @ [NL]
     @ ''  '' @ lock_packageName e @ '':'' @ [NL]
     @ ''    version: '' @ [DQUOTE] @ escapeYamlString (resolvedVersionString e) @ [DQUOTE, NL]
     @ (if sourceIntegrityHash e \<noteq> ''''
        then ''    integrity: '' @ [DQUOTE] @ escapeYamlString (sourceIntegrityHash e) @ [DQUOTE, NL] else '''')
     @ (if lock_sourceRepository e \<noteq> ''''
        then ''    source: '' @ [DQUOTE] @ escapeYamlString (lock_sourceRepository e) @ [DQUOTE, NL] else '''')
     @ (if transitiveDependencyNames e \<noteq> []
        then ''    dependencies:'' @ [NL]
          @ concat (map (\<lambda>d. ''      - '' @ [DQUOTE] @ escapeYamlString d @ [DQUOTE, NL]) (transitiveDependencyNames e))
        else '''')
     @ [NL]"

definition writeToFile :: "Lockfile \<Rightarrow> string" where
  "writeToFile lockfile =
     ''# This file is auto-generated by uranite-pkg. Do not edit manually.'' @ [NL, NL]
     @ ''lock:'' @ [NL]
     @ ''  version: '' @ [DQUOTE] @ escapeYamlString (lockfileFormatVersion lockfile) @ [DQUOTE, NL, NL]
     @ concat (map entry_text (lockedEntries lockfile))"

text \<open>\<^verbatim>\<open>std::regex_match\<close> with the pattern \<^verbatim>\<open>^[A-Za-z0-9_][A-Za-z0-9._-]{0,63}$\<close>\<close>

definition valid_name :: "string \<Rightarrow> bool" where
  "valid_name n \<longleftrightarrow>
     n \<noteq> [] \<and> length n \<le> 64 \<and> (isalnum (hd n) \<or> hd n = CHR ''_'')
     \<and> list_all (\<lambda>c. isalnum c \<or> c = CHR ''.'' \<or> c = CHR ''_'' \<or> c = CHR ''-'') (tl n)"

definition read_entry :: "string \<Rightarrow> fields \<Rightarrow> LockfileEntry" where
  "read_entry name s =
     \<lparr>lock_packageName = name, resolvedVersionString = string_field s ''version'' '''',
      sourceIntegrityHash = string_field s ''integrity'' '''', lock_sourceRepository = string_field s ''source'' '''',
      transitiveDependencyNames = array_field s ''dependencies'' []\<rparr>"

fun read_entries :: "sections \<Rightarrow> lock_error + LockfileEntry list" where
  "read_entries [] = Inr []"
| "read_entries ((sectionName, s) # rest) =
     (if \<not> starts_with ''package.'' sectionName then read_entries rest
      else
        let name = drop 8 sectionName in
        if \<not> valid_name name then Inl (InvalidPackageName name)
        else bindr (read_entries rest) (\<lambda>es. Inr (read_entry name s # es)))"

definition readFromFile :: "(sections \<Rightarrow> sections) \<Rightarrow> string option \<Rightarrow> lock_error + Lockfile" where
  "readFromFile visit content =
     (case content of
        None \<Rightarrow> Inl CouldNotOpen
      | Some text \<Rightarrow>
          let ss = touch ''lock'' (parseYaml text);
              version = string_field (section_at ss ''lock'') ''version'' (lockfileFormatVersion default_lockfile)
          in bindr (read_entries (visit ss))
               (\<lambda>es. Inr \<lparr>lockfileFormatVersion = version, lockedEntries = es\<rparr>))"

section \<open>The text line by line\<close>

definition clean :: "string \<Rightarrow> bool" where
  "clean v \<longleftrightarrow> DQUOTE \<notin> set v \<and> BACKSLASH \<notin> set v \<and> NL \<notin> set v"

definition entry_clean :: "LockfileEntry \<Rightarrow> bool" where
  "entry_clean e \<longleftrightarrow>
     valid_name (lock_packageName e) \<and> clean (resolvedVersionString e) \<and> clean (sourceIntegrityHash e)
     \<and> clean (lock_sourceRepository e) \<and> list_all clean (transitiveDependencyNames e)"

definition lockfile_clean :: "Lockfile \<Rightarrow> bool" where
  "lockfile_clean l \<longleftrightarrow>
     clean (lockfileFormatVersion l) \<and> list_all entry_clean (lockedEntries l)
     \<and> distinct (map lock_packageName (lockedEntries l))"

lemma escape_clean: "clean v \<Longrightarrow> escapeYamlString v = v"
  by (induction v) (auto simp: clean_def)

definition entry_lines :: "LockfileEntry \<Rightarrow> string list" where
  "entry_lines e =
     [header_line 0 ''package'', header_line 2 (lock_packageName e), entry_line 4 ''version'' (resolvedVersionString e)]
     @ (if sourceIntegrityHash e \<noteq> '''' then [entry_line 4 ''integrity'' (sourceIntegrityHash e)] else [])
     @ (if lock_sourceRepository e \<noteq> '''' then [entry_line 4 ''source'' (lock_sourceRepository e)] else [])
     @ (if transitiveDependencyNames e \<noteq> []
        then header_line 4 ''dependencies'' # map (item_line 6) (transitiveDependencyNames e) else [])
     @ ['''']"

lemma entry_text_lines:
  assumes "entry_clean e"
  shows "entry_text e = unlines (entry_lines e)"
proof -
  have items: "concat (map (\<lambda>d. ''      - '' @ [DQUOTE] @ escapeYamlString d @ [DQUOTE, NL]) ds) = unlines (map (item_line 6) ds)"
    if "list_all clean ds" for ds
    using that by (induction ds) (simp_all add: unlines_def item_line_def escape_clean numeral_eq_Suc)
  show ?thesis
    using assms items [of "transitiveDependencyNames e"]
    by (auto simp: entry_clean_def entry_text_def entry_lines_def escape_clean unlines_def header_line_def entry_line_def
        numeral_eq_Suc)
qed

definition lock_lines :: "Lockfile \<Rightarrow> string list" where
  "lock_lines l =
     [''# This file is auto-generated by uranite-pkg. Do not edit manually.'', '''', header_line 0 ''lock'',
      entry_line 2 ''version'' (lockfileFormatVersion l), ''''] @ concat (map entry_lines (lockedEntries l))"

lemma unlines_append: "unlines (a @ b) = unlines a @ unlines b"
  by (simp add: unlines_def)

lemma writeToFile_lines:
  assumes "lockfile_clean l"
  shows "writeToFile l = unlines (lock_lines l)"
proof -
  have "concat (map entry_text es) = unlines (concat (map entry_lines es))" if "list_all entry_clean es" for es
    using that by (induction es) (simp_all add: entry_text_lines unlines_append, simp add: unlines_def)
  then show ?thesis
    using assms
    by (simp add: lockfile_clean_def writeToFile_def lock_lines_def unlines_append escape_clean)
      (simp add: unlines_def header_line_def entry_line_def numeral_eq_Suc)
qed

lemma valid_name_key: "valid_name n \<Longrightarrow> plain_key n \<and> NL \<notin> set n"
  by (cases n) (auto simp: valid_name_def plain_key_def key_char_def list_all_iff char_class_simps)

lemma lock_keys:
  "list_all plain_key [''lock'', ''package'', ''version'', ''integrity'', ''source'', ''dependencies'']"
  by code_simp

lemma lock_lines_one_line:
  assumes "lockfile_clean l"
  shows "\<forall>s \<in> set (lock_lines l). NL \<notin> set s"
proof -
  have "NL \<notin> set s" if "e \<in> set (lockedEntries l)" "s \<in> set (entry_lines e)" for e s
    using that assms valid_name_key [of "lock_packageName e"]
    by (auto simp: lockfile_clean_def list_all_iff entry_clean_def entry_lines_def header_line_def entry_line_def
        item_line_def clean_def split: if_splits)
  then show ?thesis
    using assms by (auto simp: lock_lines_def lockfile_clean_def header_line_def entry_line_def clean_def)
qed

section \<open>What parsing the text yields\<close>

definition array_value :: "string list \<Rightarrow> ConfigValue" where
  "array_value xs = default_value\<lparr>valueKind := KArray, arrayValues := xs\<rparr>"

definition fields_of :: "LockfileEntry \<Rightarrow> fields" where
  "fields_of e =
     [(''version'', string_value (resolvedVersionString e))]
     @ (if sourceIntegrityHash e \<noteq> '''' then [(''integrity'', string_value (sourceIntegrityHash e))] else [])
     @ (if lock_sourceRepository e \<noteq> '''' then [(''source'', string_value (lock_sourceRepository e))] else [])
     @ (if transitiveDependencyNames e \<noteq> [] then [(''dependencies'', array_value (transitiveDependencyNames e))] else [])"

abbreviation package_path :: "LockfileEntry \<Rightarrow> string" where
  "package_path e \<equiv> ''package.'' @ lock_packageName e"

lemma update_append:
  "k \<notin> fst ` set xs \<Longrightarrow> AList.update k v (xs @ ys) = xs @ AList.update k v ys"
  by (induction xs) auto

lemma lookup_append: "k \<notin> fst ` set xs \<Longrightarrow> map_of (xs @ ys) k = map_of ys k"
  by (induction xs) auto

lemma lookup_fresh: "k \<notin> fst ` set xs \<Longrightarrow> map_of xs k = None"
  using lookup_append [of k xs "[]"] by simp

lemma section_at_last: "path \<notin> fst ` set ss \<Longrightarrow> section_at (ss @ [(path, fs)]) path = fs"
  by (simp add: section_at_def lookup_append del: map_of_append)

lemma value_at_last: "key \<notin> fst ` set fs \<Longrightarrow> value_at (fs @ [(key, v)]) key = v"
  by (simp add: value_at_def lookup_append del: map_of_append)

lemma put_value_fresh:
  "path \<notin> fst ` set ss \<Longrightarrow> put_value path k v ss = ss @ [(path, [(k, v)])]"
  using update_append [of path ss _ "[]"] by (simp add: put_value_def section_at_def lookup_fresh)

lemma put_value_last:
  "path \<notin> fst ` set ss \<Longrightarrow> put_value path k v (ss @ [(path, fs)]) = ss @ [(path, AList.update k v fs)]"
  by (simp add: put_value_def section_at_last update_append)

lemma items_fold:
  assumes "path \<notin> fst ` set ss" and "''dependencies'' \<notin> fst ` set fs"
    and "path = buildSectionPath [(0, p), (2, n)]"
  shows "fold yaml_line (map (item_line 6) ds)
      (st\<lparr>pathStack := [(0, p), (2, n), (4, ''dependencies'')],
         ysections := ss @ [(path, fs @ [(''dependencies'', array_value xs)])]\<rparr>)
    = st\<lparr>pathStack := [(0, p), (2, n), (4, ''dependencies'')],
         ysections := ss @ [(path, fs @ [(''dependencies'', array_value (xs @ ds))])]\<rparr>"
proof (induction ds arbitrary: xs)
  case (Cons d ds)
  have "yaml_line (item_line 6 d) (st\<lparr>pathStack := [(0, p), (2, n), (4, ''dependencies'')],
         ysections := ss @ [(path, fs @ [(''dependencies'', array_value xs)])]\<rparr>)
    = st\<lparr>pathStack := [(0, p), (2, n), (4, ''dependencies'')],
         ysections := ss @ [(path, fs @ [(''dependencies'', array_value (xs @ [d]))])]\<rparr>"
    using assms
    by (subst item_line_yaml [of 6 _ "[(0, p), (2, n)]" 4 "''dependencies''"])
      (simp_all add: pop_path_def yaml_plain_item_def section_at_last value_at_last put_value_last update_append
        array_value_def Let_def)
  then show ?case using Cons.IH [of "xs @ [d]"] by simp
qed simp

lemma items_fold_first:
  assumes "path \<notin> fst ` set ss" and "''dependencies'' \<notin> fst ` set fs"
    and "path = buildSectionPath [(0, p), (2, n)]" and "ds \<noteq> []"
  shows "fold yaml_line (map (item_line 6) ds)
      (st\<lparr>pathStack := [(0, p), (2, n), (4, ''dependencies'')], ysections := ss @ [(path, fs)]\<rparr>)
    = st\<lparr>pathStack := [(0, p), (2, n), (4, ''dependencies'')],
         ysections := ss @ [(path, fs @ [(''dependencies'', array_value ds)])]\<rparr>"
proof (cases ds)
  case (Cons d ds')
  have "value_at fs ''dependencies'' = default_value" using assms(2) by (simp add: value_at_def lookup_fresh)
  then have "yaml_line (item_line 6 d)
      (st\<lparr>pathStack := [(0, p), (2, n), (4, ''dependencies'')], ysections := ss @ [(path, fs)]\<rparr>)
    = st\<lparr>pathStack := [(0, p), (2, n), (4, ''dependencies'')],
         ysections := ss @ [(path, fs @ [(''dependencies'', array_value [d])])]\<rparr>"
    using assms update_append [OF assms(2), where ys = "[]"]
    by (subst item_line_yaml [of 6 _ "[(0, p), (2, n)]" 4 "''dependencies''"])
      (simp_all add: pop_path_def yaml_plain_item_def section_at_last put_value_last array_value_def default_value_def Let_def)
  then show ?thesis using items_fold [OF assms(1-3), where ds = ds' and st = st and xs = "[d]"] Cons by simp
qed (use assms(4) in simp)

definition rooted :: "(int \<times> string) list \<Rightarrow> bool" where
  "rooted stack \<longleftrightarrow> list_all (\<lambda>e. 0 \<le> fst e) stack"

lemma pop_rooted: "rooted stack \<Longrightarrow> pop_path 0 stack = []"
  by (simp add: rooted_def pop_path_def list_all_iff)

lemma entry_fold:
  assumes "entry_clean e" and "rooted (pathStack st)" and "package_path e \<notin> fst ` set (ysections st)"
  shows "\<exists>stack. rooted stack \<and> fold yaml_line (entry_lines e) st
    = st\<lparr>pathStack := stack, ysections := ysections st @ [(package_path e, fields_of e)]\<rparr>"
proof -
  let ?n = "lock_packageName e" and ?ss = "ysections st" and ?ds = "transitiveDependencyNames e"
  let ?stack = "[(0, ''package''), (2, ?n)]"
  define P where "P = package_path e"
  define fs where "fs = [(''version'', string_value (resolvedVersionString e))]
     @ (if sourceIntegrityHash e \<noteq> '''' then [(''integrity'', string_value (sourceIntegrityHash e))] else [])
     @ (if lock_sourceRepository e \<noteq> '''' then [(''source'', string_value (lock_sourceRepository e))] else [])"
  define start where "start = [header_line 0 ''package'', header_line 2 ?n, entry_line 4 ''version'' (resolvedVersionString e)]
     @ (if sourceIntegrityHash e \<noteq> '''' then [entry_line 4 ''integrity'' (sourceIntegrityHash e)] else [])
     @ (if lock_sourceRepository e \<noteq> '''' then [entry_line 4 ''source'' (lock_sourceRepository e)] else [])"
  have key: "plain_key ?n" using assms(1) valid_name_key by (simp add: entry_clean_def)
  note keys = lock_keys [unfolded list.pred_inject(2)]
  have path: "buildSectionPath ?stack = P" by (simp add: buildSectionPath_def P_def)
  have fresh: "P \<notin> fst ` set ?ss" using assms(3) by (simp add: P_def)
  have pops: "pop_path 0 (pathStack st) = []" "pop_path 2 [(0, ''package'')] = [(0, ''package'')]" "pop_path 4 ?stack = ?stack"
    using pop_rooted [OF assms(2)] by (simp_all add: pop_path_def)
  have s: "fold yaml_line start st = st\<lparr>pathStack := ?stack, ysections := ?ss @ [(P, fs)]\<rparr>"
    using key keys path fresh pops
    by (simp add: start_def header_line_yaml entry_line_yaml put_value_fresh put_value_last fs_def)
  have deps: "''dependencies'' \<notin> fst ` set fs" by (auto simp: fs_def)
  have lines: "entry_lines e = start
     @ (if ?ds \<noteq> [] then header_line 4 ''dependencies'' # map (item_line 6) ?ds else []) @ ['''']"
    by (simp add: entry_lines_def start_def)
  show ?thesis
  proof (cases "?ds = []")
    case True
    then have "fields_of e = fs" by (simp add: fields_of_def fs_def)
    then show ?thesis
      using True s unfolding lines P_def [symmetric]
      by (intro exI [of _ ?stack]) (simp add: rooted_def)
  next
    case False
    then have "fields_of e = fs @ [(''dependencies'', array_value ?ds)]" by (simp add: fields_of_def fs_def)
    moreover have "yaml_line (header_line 4 ''dependencies'') (st\<lparr>pathStack := ?stack, ysections := ?ss @ [(P, fs)]\<rparr>)
       = st\<lparr>pathStack := [(0, ''package''), (2, ?n), (4, ''dependencies'')], ysections := ?ss @ [(P, fs)]\<rparr>"
      using keys pops by (simp add: header_line_yaml)
    ultimately show ?thesis
      using False s items_fold_first [OF fresh deps path [symmetric] False, where st = st] unfolding lines P_def [symmetric]
      by (intro exI [of _ "[(0, ''package''), (2, ?n), (4, ''dependencies'')]"]) (simp add: rooted_def)
  qed
qed

lemma entries_fold:
  "list_all entry_clean es \<Longrightarrow> distinct (map lock_packageName es) \<Longrightarrow> rooted (pathStack st) \<Longrightarrow>
     (\<forall>e \<in> set es. package_path e \<notin> fst ` set (ysections st)) \<Longrightarrow>
     ysections (fold yaml_line (concat (map entry_lines es)) st)
       = ysections st @ map (\<lambda>e. (package_path e, fields_of e)) es"
proof (induction es arbitrary: st)
  case (Cons e es)
  from Cons.prems obtain stack where r: "rooted stack" and f: "fold yaml_line (entry_lines e) st
      = st\<lparr>pathStack := stack, ysections := ysections st @ [(package_path e, fields_of e)]\<rparr>"
    using entry_fold [of e st] by auto
  let ?st = "st\<lparr>pathStack := stack, ysections := ysections st @ [(package_path e, fields_of e)]\<rparr>"
  have "ysections (fold yaml_line (concat (map entry_lines es)) ?st)
      = ysections ?st @ map (\<lambda>e. (package_path e, fields_of e)) es"
    using Cons.prems r by (intro Cons.IH) (auto simp: image_iff)
  then show ?case using f by simp
qed simp

lemma lockfile_parse:
  assumes "lockfile_clean l"
  shows "parseYaml (writeToFile l)
    = (''lock'', [(''version'', string_value (lockfileFormatVersion l))])
        # map (\<lambda>e. (package_path e, fields_of e)) (lockedEntries l)"
proof -
  note keys = lock_keys [unfolded list.pred_inject(2)]
  let ?st = "\<lparr>ysections = [(''lock'', [(''version'', string_value (lockfileFormatVersion l))])],
      pathStack = [(0, ''lock'')], arrayObjectIndexCounters = []\<rparr>"
  have "getlines NL (writeToFile l) = lock_lines l"
    unfolding writeToFile_lines [OF assms] using lock_lines_one_line [OF assms] by (rule getlines_unlines)
  moreover have "fold yaml_line [''# This file is auto-generated by uranite-pkg. Do not edit manually.'', '''', header_line 0 ''lock'',
      entry_line 2 ''version'' (lockfileFormatVersion l), ''''] yaml_start = ?st"
    using keys by (simp add: header_line_yaml entry_line_yaml yaml_start_def pop_path_def put_value_fresh buildSectionPath_def)
  ultimately have "parseYaml (writeToFile l) = ysections (fold yaml_line (concat (map entry_lines (lockedEntries l))) ?st)"
    by (simp only: parseYaml_def lock_lines_def fold_append o_apply)
  also have "\<dots> = ysections ?st @ map (\<lambda>e. (package_path e, fields_of e)) (lockedEntries l)"
    using assms by (intro entries_fold) (auto simp: lockfile_clean_def rooted_def)
  finally show ?thesis by simp
qed

lemma read_entry_fields: "read_entry (lock_packageName e) (fields_of e) = e"
  by (cases e) (auto simp: read_entry_def fields_of_def string_field_def array_field_def string_value_def array_value_def
      default_value_def)

text \<open>The entry of one section, if it is a package.\<close>

definition entry_of :: "string \<times> fields \<Rightarrow> LockfileEntry list" where
  "entry_of = (\<lambda>(n, s). if starts_with ''package.'' n then [read_entry (drop 8 n) s] else [])"

lemma read_entries_total:
  "(\<forall>(n, s) \<in> set ss. starts_with ''package.'' n \<longrightarrow> valid_name (drop 8 n)) \<Longrightarrow>
     read_entries ss = Inr (concat (map entry_of ss))"
  by (induction ss rule: read_entries.induct) (auto simp: entry_of_def)

lemma read_entries_valid:
  "read_entries ss = Inr es \<Longrightarrow>
     es = concat (map entry_of ss) \<and> (\<forall>e \<in> set es. valid_name (lock_packageName e))"
  by (induction ss arbitrary: es rule: read_entries.induct)
    (auto simp: entry_of_def read_entry_def Let_def split: if_splits)


definition lock_example :: Lockfile where
  "lock_example = \<lparr>lockfileFormatVersion = ''1'', lockedEntries =
     [\<lparr>lock_packageName = ''http'', resolvedVersionString = ''1.4.3'', sourceIntegrityHash = ''sha256:ab'',
       lock_sourceRepository = ''acme/http'', transitiveDependencyNames = [''tcp'', ''json'']\<rparr>,
      \<lparr>lock_packageName = ''tcp'', resolvedVersionString = ''0.9.1'', sourceIntegrityHash = '''',
       lock_sourceRepository = '''', transitiveDependencyNames = []\<rparr>]\<rparr>"


text \<open>
  C19. Whatever text a lockfile holds, reading it either raises or yields entries with distinct
  names, each of which is 1 to 64 characters long, without a slash, and not a dot name, so that no
  entry names a path outside the modules directory.
\<close>

theorem lockfile_names_safe:
  assumes "readFromFile visit content = Inr l" and "visits visit"
  shows "distinct (map lock_packageName (lockedEntries l))
    \<and> (\<forall>e \<in> set (lockedEntries l). length (lock_packageName e) \<in> {1..64} \<and> CHR ''/'' \<notin> set (lock_packageName e)
         \<and> hd (lock_packageName e) \<noteq> CHR ''.'')"
proof -
  from assms(1) obtain str where c: "content = Some str"
    by (cases content) (simp_all add: readFromFile_def)
  let ?ss = "touch ''lock'' (parseYaml str)"
  from assms(1) c obtain es where es: "read_entries (visit ?ss) = Inr es" "lockedEntries l = es"
    by (auto simp: readFromFile_def Let_def)
  have "mset (map fst (visit ?ss)) = mset (map fst ?ss)" using assms(2) by (simp add: visits_def)
  moreover have "distinct (map fst ?ss)" using touch_ok [OF parseYaml_ok] by (simp add: sections_ok_def)
  ultimately have d: "distinct (map fst (visit ?ss))" by (metis mset_eq_imp_distinct_iff)
  have "distinct (map lock_packageName (concat (map entry_of xs)))" if "distinct (map fst xs)" for xs
    using that
  proof (induction xs)
    case (Cons x xs)
    obtain n s where x: "x = (n, s)" by (cases x)
    have "n = ''package.'' @ drop 8 n" if "starts_with ''package.'' n" for n
    proof -
      have "take 8 n = ''package.''" using that by (simp add: starts_with_def numeral_eq_Suc)
      then show ?thesis by (metis append_take_drop_id)
    qed
    then have inj: "drop 8 n = drop 8 m \<Longrightarrow> starts_with ''package.'' n \<Longrightarrow> starts_with ''package.'' m \<Longrightarrow> n = m" for m
      by metis
    have names: "lock_packageName ` set (entry_of y) = (if starts_with ''package.'' (fst y) then {drop 8 (fst y)} else {})" for y
      by (cases y) (simp add: entry_of_def read_entry_def)
    have "drop 8 n \<notin> lock_packageName ` set (concat (map entry_of xs))" if "starts_with ''package.'' n"
    proof
      assume "drop 8 n \<in> lock_packageName ` set (concat (map entry_of xs))"
      then obtain y where y: "y \<in> set xs" "drop 8 n \<in> lock_packageName ` set (entry_of y)" by auto
      then have "starts_with ''package.'' (fst y)" "drop 8 n = drop 8 (fst y)"
        unfolding names by (simp_all split: if_splits)
      with inj that have "n = fst y" by blast
      with Cons.prems y(1) show False by (simp add: x)
    qed
    moreover have "distinct (map lock_packageName (concat (map entry_of xs)))" using Cons by simp
    ultimately show ?case by (simp add: x entry_of_def read_entry_def)
  qed simp
  with read_entries_valid [OF es(1)] d
  have "distinct (map lock_packageName es)" "\<forall>e \<in> set es. valid_name (lock_packageName e)" by simp_all
  moreover have "length n \<in> {1..64} \<and> CHR ''/'' \<notin> set n \<and> hd n \<noteq> CHR ''.''" if "valid_name n" for n
    using that by (cases n) (auto simp: valid_name_def list_all_iff char_class_simps)
  ultimately show ?thesis using es(2) by blast
qed

theorem lockfile_names_safe_witness:
  "\<exists>l. readFromFile rev (Some (writeToFile lock_example)) = Inr l \<and> distinct (map lock_packageName (lockedEntries l))"
proof -
  have "case readFromFile rev (Some (writeToFile lock_example)) of Inl _ \<Rightarrow> False | Inr _ \<Rightarrow> True" by code_simp
  then obtain l where l: "readFromFile rev (Some (writeToFile lock_example)) = Inr l" by (auto split: sum.splits)
  have "visits (rev :: sections \<Rightarrow> sections)" by (simp add: visits_def)
  from lockfile_names_safe [OF l this] l show ?thesis by blast
qed

text \<open>
  The escapes of the writer are never undone by the reader: a version string with a double
  quote comes back with a backslash before it.
\<close>

lemma lockfile_escape_not_undone:
  "let e = \<lparr>lock_packageName = ''p'', resolvedVersionString = [CHR ''1'', DQUOTE, CHR ''2''], sourceIntegrityHash = '''',
           lock_sourceRepository = '''', transitiveDependencyNames = []\<rparr> in
   map_sum (\<lambda>_. ()) (map resolvedVersionString \<circ> lockedEntries)
     (readFromFile (\<lambda>x. x) (Some (writeToFile \<lparr>lockfileFormatVersion = ''1'', lockedEntries = [e]\<rparr>)))
   = Inr [[CHR ''1'', BACKSLASH, DQUOTE, CHR ''2'']]"
  by code_simp

end
