(* ===== verification/Resolver.thy ===== *)
theory Resolver
  imports Version Lockfile
begin

text \<open>
  Dependency resolution: \<^verbatim>\<open>src/uranite-pkg/resolver/resolver.hpp\<close> and \<^verbatim>\<open>resolver.cpp\<close>. The two
  fetch functions are a record \<open>registry\<close>; the ones of the source, which return nothing, are
  \<open>source_registry\<close>, so that what is proved for every registry also holds for the one to come. The
  two recursions carry a fuel, whose exhaustion is an error of its own; that enough fuel never runs out
  is proved. The two hash sets are HOL sets, the map of resolved packages is an association list whose order
  of iteration is an argument.
\<close>

section \<open>Resolution\<close>

record ResolvedDependency =
  rd_packageName :: string
  resolvedVersion :: SemanticVersion
  rd_sourceRepository :: string
  integrityHash :: string
  rd_transitiveDependencyNames :: "string list"

record ResolutionResult =
  resolvedPackages :: "ResolvedDependency list"
  hasConflicts :: bool
  conflictMessages :: "string list"

definition default_version :: SemanticVersion where
  "default_version = SemanticVersion 0 0 0 []"

record registry =
  fetchAvailableVersions :: "string \<Rightarrow> string \<Rightarrow> SemanticVersion list"
  fetchPackageManifest :: "string \<Rightarrow> SemanticVersion \<Rightarrow> string \<Rightarrow> PackageManifest"

definition source_registry :: registry where
  "source_registry =
     \<lparr>fetchAvailableVersions = (\<lambda>packageName sourceRepository. []),
      fetchPackageManifest = (\<lambda>packageName version sourceRepository. default_manifest)\<rparr>"

record resolve_state =
  resolvedMap :: "(string \<times> ResolvedDependency) list"
  visitedPackages :: "string set"
  conflicts :: "string list"

datatype (plugins only: code size) resolve_error = Resolve_Fuel | Resolve_Number number_error

definition lift_number :: "number_error + 'a \<Rightarrow> resolve_error + 'a" where
  "lift_number r = (case r of Inl e \<Rightarrow> Inl (Resolve_Number e) | Inr x \<Rightarrow> Inr x)"

text \<open>The choice of the version: the highest compatible one, or that of the first constraint.\<close>

definition select_version ::
    "registry \<Rightarrow> string \<Rightarrow> string \<Rightarrow> string \<Rightarrow> VersionConstraint list \<Rightarrow> SemanticVersion option \<times> string list" where
  "select_version reg name versionConstr source constraints =
     (let availableVersions = fetchAvailableVersions reg name source in
      if availableVersions \<noteq> [] then
        (case findHighestCompatible availableVersions constraints of
           Inr v \<Rightarrow> (Some v, [])
         | Inl _ \<Rightarrow> (None, [''no compatible version found for '' @ name @ '' matching '' @ versionConstr]))
      else (Some (constraintVersion (hd constraints)), []))"

text \<open>A package that was visited before: only its constraint is checked.\<close>

definition resolve_visited :: "string \<Rightarrow> string \<Rightarrow> resolve_state \<Rightarrow> resolve_error + resolve_state" where
  "resolve_visited name versionConstr st =
     (case map_of (resolvedMap st) name of
        None \<Rightarrow> Inr st
      | Some existing \<Rightarrow>
          bindr (lift_number (parseConstraint versionConstr)) (\<lambda>constraints.
            if \<not> satisfies (resolvedVersion existing) constraints
            then Inr (st\<lparr>conflicts := conflicts st @
                   [''version conflict for '' @ name @ '': resolved '' @ version_toString (resolvedVersion existing)
                    @ '' but '' @ versionConstr @ '' required'']\<rparr>)
            else Inr st))"

text \<open>A new package; \<open>recurse\<close> is the recursive call for one of its dependencies.\<close>

definition resolve_new ::
    "(PackageDependency \<Rightarrow> resolve_state \<Rightarrow> resolve_error + resolve_state) \<Rightarrow> registry \<Rightarrow> string \<Rightarrow> string \<Rightarrow> string
      \<Rightarrow> resolve_state \<Rightarrow> resolve_error + resolve_state" where
  "resolve_new recurse reg name versionConstr source st =
     (let st1 = st\<lparr>visitedPackages := insert name (visitedPackages st)\<rparr> in
      bindr (lift_number (parseConstraint versionConstr)) (\<lambda>constraints.
        case select_version reg name versionConstr source constraints of
          (None, messages) \<Rightarrow> Inr (st1\<lparr>conflicts := conflicts st1 @ messages\<rparr>)
        | (Some selectedVersion, messages) \<Rightarrow>
            let st2 = st1\<lparr>conflicts := conflicts st1 @ messages\<rparr>;
                transitive = dependencies (requirements (fetchPackageManifest reg name selectedVersion source));
                resolved = \<lparr>rd_packageName = name, resolvedVersion = selectedVersion, rd_sourceRepository = source,
                            integrityHash = '''', rd_transitiveDependencyNames = map packageName transitive\<rparr>
            in bindr (foldr_res recurse transitive st2)
                 (\<lambda>st3. Inr (st3\<lparr>resolvedMap := AList.update name resolved (resolvedMap st3)\<rparr>))))"

fun resolveRecursive ::
    "registry \<Rightarrow> nat \<Rightarrow> string \<Rightarrow> string \<Rightarrow> string \<Rightarrow> resolve_state \<Rightarrow> resolve_error + resolve_state" where
  "resolveRecursive reg 0 name versionConstr source st = Inl Resolve_Fuel"
| "resolveRecursive reg (Suc fuel) name versionConstr source st =
     (if name \<in> visitedPackages st then resolve_visited name versionConstr st
      else resolve_new (\<lambda>d. resolveRecursive reg fuel (packageName d) (versionConstraint d) (sourceRepository d))
             reg name versionConstr source st)"

definition resolve_all :: "registry \<Rightarrow> nat \<Rightarrow> PackageDependency list \<Rightarrow> resolve_state \<Rightarrow> resolve_error + resolve_state" where
  "resolve_all reg fuel =
     foldr_res (\<lambda>d. resolveRecursive reg fuel (packageName d) (versionConstraint d) (sourceRepository d))"

definition empty_resolution :: resolve_state where
  "empty_resolution = \<lparr>resolvedMap = [], visitedPackages = {}, conflicts = []\<rparr>"

definition resolve ::
    "registry \<Rightarrow> nat \<Rightarrow> ((string \<times> ResolvedDependency) list \<Rightarrow> (string \<times> ResolvedDependency) list)
      \<Rightarrow> PackageManifest \<Rightarrow> bool \<Rightarrow> resolve_error + ResolutionResult" where
  "resolve reg fuel visit manifest includeDevelopmentDependencies =
     bindr (resolve_all reg fuel (dependencies (requirements manifest)) empty_resolution) (\<lambda>st1.
     bindr (if includeDevelopmentDependencies
            then resolve_all reg fuel (developmentDependencies (requirements manifest)) st1 else Inr st1) (\<lambda>st2.
     Inr \<lparr>resolvedPackages = map snd (visit (resolvedMap st2)), hasConflicts = conflicts st2 \<noteq> [],
          conflictMessages = conflicts st2\<rparr>))"

definition resolveFromLockfile :: "Lockfile \<Rightarrow> number_error + ResolutionResult" where
  "resolveFromLockfile lockfile =
     bindr (mapr (\<lambda>e. bindr (version_parse (resolvedVersionString e)) (\<lambda>v. Inr
              \<lparr>rd_packageName = lock_packageName e, resolvedVersion = v, rd_sourceRepository = lock_sourceRepository e,
               integrityHash = sourceIntegrityHash e,
               rd_transitiveDependencyNames = transitiveDependencyNames e\<rparr>)) (lockedEntries lockfile))
       (\<lambda>ps. Inr \<lparr>resolvedPackages = ps, hasConflicts = False, conflictMessages = []\<rparr>)"

section \<open>Ordering\<close>

datatype (plugins only: code size) sort_error = CircularDependency string | Sort_Fuel

record sort_state =
  visitedSet :: "string set"
  recursionStack :: "string set"
  sortedOrder :: "string list"

definition dependency_names :: "(string \<times> ResolvedDependency) list \<Rightarrow> string \<Rightarrow> string list" where
  "dependency_names m name =
     (case map_of m name of Some resolved \<Rightarrow> rd_transitiveDependencyNames resolved | None \<Rightarrow> [])"

fun topologicalSortVisit ::
    "(string \<times> ResolvedDependency) list \<Rightarrow> nat \<Rightarrow> string \<Rightarrow> sort_state \<Rightarrow> sort_error + sort_state" where
  "topologicalSortVisit m 0 name st = Inl Sort_Fuel"
| "topologicalSortVisit m (Suc fuel) name st =
     (if name \<in> recursionStack st then Inl (CircularDependency name)
      else if name \<in> visitedSet st then Inr st
      else
        bindr (foldr_res (topologicalSortVisit m fuel) (dependency_names m name)
                 (st\<lparr>recursionStack := insert name (recursionStack st)\<rparr>))
          (\<lambda>st1. Inr (st1\<lparr>recursionStack := recursionStack st1 - {name},
                         visitedSet := insert name (visitedSet st1),
                         sortedOrder := sortedOrder st1 @ [name]\<rparr>)))"

definition sort_map :: "ResolvedDependency list \<Rightarrow> (string \<times> ResolvedDependency) list" where
  "sort_map ps = fold (\<lambda>p m. AList.update (rd_packageName p) p m) ps []"

definition sort_start :: sort_state where
  "sort_start = \<lparr>visitedSet = {}, recursionStack = {}, sortedOrder = []\<rparr>"

text \<open>The fuel is the number of packages and two more: the depth of the recursion never gets there.\<close>

definition topologicalSort :: "ResolvedDependency list \<Rightarrow> sort_error + string list" where
  "topologicalSort ps =
     bindr (foldr_res (\<lambda>p st. if rd_packageName p \<notin> visitedSet st
              then topologicalSortVisit (sort_map ps) (length ps + 2) (rd_packageName p) st else Inr st) ps sort_start)
       (\<lambda>st. Inr (sortedOrder st))"

section \<open>An order in which everything comes after what it needs\<close>

locale build_order =
  fixes deps :: "'a \<Rightarrow> 'a list" and order :: "'a list"
  assumes order_distinct: "distinct order"
    and deps_before: "i < length order \<Longrightarrow> set (deps (order ! i)) \<subseteq> set (take i order)"
begin

abbreviation edges :: "('a \<times> 'a) set" where
  "edges \<equiv> {(x, y). y \<in> set (deps x)}"

lemma edge_down:
  assumes "(order ! i, y) \<in> edges" and "i < length order"
  shows "\<exists>j < i. order ! j = y"
proof -
  have "y \<in> set (take i order)" using assms deps_before [OF assms(2)] by auto
  then show ?thesis by (auto simp: in_set_conv_nth)
qed

lemma trancl_down:
  "(x, y) \<in> edges\<^sup>+ \<Longrightarrow> i < length order \<Longrightarrow> order ! i = x \<Longrightarrow> \<exists>j < i. order ! j = y"
proof (induction arbitrary: i rule: trancl_induct)
  case (base y)
  then show ?case using edge_down by blast
next
  case (step y z)
  then obtain j where "j < i" "order ! j = y" by blast
  with step edge_down [of j z] show ?case by (meson less_trans)
qed

lemma closed: "x \<in> set order \<Longrightarrow> (x, y) \<in> edges\<^sup>* \<Longrightarrow> y \<in> set order"
proof (erule rtranclE)
  fix z
  assume x: "x \<in> set order" and z: "(x, z) \<in> edges\<^sup>*" "(z, y) \<in> edges"
  from x obtain i where i: "i < length order" "order ! i = x" by (auto simp: in_set_conv_nth)
  have "(x, y) \<in> edges\<^sup>+" using z by (rule rtrancl_into_trancl1)
  from trancl_down [OF this i] i(1) show "y \<in> set order" by (auto intro: nth_mem order.strict_trans)
qed simp

lemma no_cycle: "x \<in> set order \<Longrightarrow> (x, x) \<notin> edges\<^sup>+"
proof
  assume "x \<in> set order" and c: "(x, x) \<in> edges\<^sup>+"
  then obtain i where i: "i < length order" "order ! i = x" by (auto simp: in_set_conv_nth)
  from trancl_down [OF c i] obtain j where "j < i" "order ! j = x" by blast
  with i order_distinct show False by (auto simp: nth_eq_iff_index_eq)
qed

end

lemma ordered_snoc:
  assumes "\<forall>i < length xs. set (d (xs ! i)) \<subseteq> set (take i xs)" and "set (d x) \<subseteq> set xs"
  shows "\<forall>i < length (xs @ [x]). set (d ((xs @ [x]) ! i)) \<subseteq> set (take i (xs @ [x]))"
  using assms by (auto simp: nth_append less_Suc_eq)

section \<open>The search\<close>

definition depends :: "(string \<times> ResolvedDependency) list \<Rightarrow> (string \<times> string) set" where
  "depends m = {(x, y). y \<in> set (dependency_names m x)}"

definition sort_inv :: "(string \<times> ResolvedDependency) list \<Rightarrow> sort_state \<Rightarrow> bool" where
  "sort_inv m st \<longleftrightarrow>
     visitedSet st = set (sortedOrder st) \<and> distinct (sortedOrder st)
     \<and> (\<forall>i < length (sortedOrder st). set (dependency_names m (sortedOrder st ! i)) \<subseteq> set (take i (sortedOrder st)))"

text \<open>What a search from the names \<open>xs\<close> does to the state.\<close>

definition searched :: "(string \<times> ResolvedDependency) list \<Rightarrow> string set \<Rightarrow> sort_state \<Rightarrow> sort_state \<Rightarrow> bool" where
  "searched m xs st st' \<longleftrightarrow>
     sort_inv m st' \<and> recursionStack st' = recursionStack st \<and> xs \<subseteq> visitedSet st'
     \<and> (\<exists>ys. sortedOrder st' = sortedOrder st @ ys \<and> set ys \<inter> recursionStack st = {} \<and> set ys \<subseteq> (depends m)\<^sup>* `` xs)"

lemma searched_visited:
  assumes "sort_inv m st" and "searched m xs st st'"
  shows "visitedSet st \<subseteq> visitedSet st'"
  using assms by (auto simp: searched_def sort_inv_def)

lemma searched_loop:
  assumes visit: "\<And>x st st'. x \<in> set xs \<Longrightarrow> f x st = Inr st' \<Longrightarrow> sort_inv m st \<Longrightarrow> searched m {x} st st'"
    and "foldr_res f xs st = Inr st'" and "sort_inv m st"
  shows "searched m (set xs) st st'"
  using assms
proof (induction xs arbitrary: st)
  case Nil
  then show ?case by (simp add: searched_def)
next
  case (Cons x xs)
  from Cons.prems(2) obtain u where u: "f x st = Inr u" "foldr_res f xs u = Inr st'" by auto
  have s1: "searched m {x} st u" using Cons.prems(1,3) u(1) by simp
  then have i: "sort_inv m u" by (simp add: searched_def)
  have s2: "searched m (set xs) u st'" using Cons.IH [OF _ u(2) i] Cons.prems(1) by simp
  have v: "visitedSet u \<subseteq> visitedSet st'" using searched_visited [OF i s2] .
  from s1 obtain ys where ys: "sortedOrder u = sortedOrder st @ ys" "set ys \<inter> recursionStack st = {}"
    "set ys \<subseteq> (depends m)\<^sup>* `` {x}" "recursionStack u = recursionStack st" "x \<in> visitedSet u"
    by (auto simp: searched_def)
  from s2 obtain zs where zs: "sortedOrder st' = sortedOrder u @ zs" "set zs \<inter> recursionStack u = {}"
    "set zs \<subseteq> (depends m)\<^sup>* `` set xs" "recursionStack st' = recursionStack u" "set xs \<subseteq> visitedSet st'"
    "sort_inv m st'"
    by (auto simp: searched_def)
  show ?case
    unfolding searched_def using v ys zs by (intro conjI exI [of _ "ys @ zs"]) auto
qed

lemma visit_searched:
  "topologicalSortVisit m n x st = Inr st' \<Longrightarrow> sort_inv m st \<Longrightarrow> searched m {x} st st'"
proof (induction n arbitrary: x st st')
  case (Suc n)
  show ?case
  proof (cases "x \<in> visitedSet st")
    case True
    with Suc.prems show ?thesis by (auto simp: searched_def split: if_splits)
  next
    case False
    let ?st = "st\<lparr>recursionStack := insert x (recursionStack st)\<rparr>" and ?ds = "dependency_names m x"
    from False Suc.prems(1) obtain u where ns: "x \<notin> recursionStack st"
      and u: "foldr_res (topologicalSortVisit m n) ?ds ?st = Inr u"
      and st': "st' = u\<lparr>recursionStack := recursionStack u - {x}, visitedSet := insert x (visitedSet u),
                         sortedOrder := sortedOrder u @ [x]\<rparr>"
      by (auto split: if_splits)
    have "sort_inv m ?st" using Suc.prems(2) by (simp add: sort_inv_def)
    from searched_loop [OF Suc.IH u this] have s: "searched m (set ?ds) ?st u" .
    then obtain ys where ys: "sortedOrder u = sortedOrder st @ ys" "set ys \<inter> insert x (recursionStack st) = {}"
      "set ys \<subseteq> (depends m)\<^sup>* `` set ?ds" "recursionStack u = insert x (recursionStack st)"
      "set ?ds \<subseteq> visitedSet u" "sort_inv m u"
      by (auto simp: searched_def)
    have "x \<notin> set (sortedOrder u)" using False ys(1,2) Suc.prems(2) by (auto simp: sort_inv_def)
    moreover have "\<forall>i < length (sortedOrder u @ [x]).
        set (dependency_names m ((sortedOrder u @ [x]) ! i)) \<subseteq> set (take i (sortedOrder u @ [x]))"
      using ys(5,6) by (intro ordered_snoc) (auto simp: sort_inv_def)
    ultimately have inv: "sort_inv m st'"
      using ys(6) by (auto simp: sort_inv_def st')
    have "(depends m)\<^sup>* `` set ?ds \<subseteq> (depends m)\<^sup>* `` {x}"
      by (auto simp: depends_def intro: converse_rtrancl_into_rtrancl)
    then show ?thesis
      unfolding searched_def using inv ys(1-4) ns
      by (intro conjI exI [of _ "ys @ [x]"]) (auto simp: st')
  qed
qed simp

lemma visit_stack:
  assumes "topologicalSortVisit m n x st = Inr st'" and "sort_inv m st"
  shows "recursionStack st' = recursionStack st" "sort_inv m st'"
  using visit_searched [OF assms] by (simp_all add: searched_def)

text \<open>Where a loop of visits fails: one visit fails in a state with the same stack.\<close>

lemma loop_error:
  "foldr_res (topologicalSortVisit m n) xs st = Inl e \<Longrightarrow> sort_inv m st \<Longrightarrow>
     \<exists>x \<in> set xs. \<exists>u. topologicalSortVisit m n x u = Inl e \<and> sort_inv m u \<and> recursionStack u = recursionStack st"
proof (induction xs arbitrary: st)
  case (Cons x xs)
  show ?case
  proof (cases "topologicalSortVisit m n x st")
    case (Inl e')
    with Cons.prems show ?thesis by auto
  next
    case (Inr u)
    with Cons.prems have "foldr_res (topologicalSortVisit m n) xs u = Inl e" by simp
    with Cons.IH visit_stack [OF Inr Cons.prems(2)] show ?thesis by fastforce
  qed
qed simp

lemma visit_circular:
  "topologicalSortVisit m n x st = Inl (CircularDependency y) \<Longrightarrow> sort_inv m st \<Longrightarrow>
     \<forall>s \<in> recursionStack st. (s, x) \<in> (depends m)\<^sup>+ \<Longrightarrow> (y, y) \<in> (depends m)\<^sup>+ \<and> (x, y) \<in> (depends m)\<^sup>*"
proof (induction n arbitrary: x st)
  case (Suc n)
  show ?case
  proof (cases "x \<in> recursionStack st")
    case True
    with Suc.prems show ?thesis by auto
  next
    case False
    let ?st = "st\<lparr>recursionStack := insert x (recursionStack st)\<rparr>"
    have f: "foldr_res (topologicalSortVisit m n) (dependency_names m x) ?st = Inl (CircularDependency y)"
      using False Suc.prems(1) by (simp add: bindr_eq_Inl split: if_splits)
    have "sort_inv m ?st" using Suc.prems(2) by (simp add: sort_inv_def)
    from loop_error [OF f this] obtain d u where d: "d \<in> set (dependency_names m x)"
      "topologicalSortVisit m n d u = Inl (CircularDependency y)" "sort_inv m u"
      "recursionStack u = insert x (recursionStack st)"
      by auto
    have "(x, d) \<in> depends m" using d(1) by (simp add: depends_def)
    then have "\<forall>s \<in> recursionStack u. (s, d) \<in> (depends m)\<^sup>+"
      using Suc.prems(3) d(4) by (auto intro: trancl_into_trancl)
    from Suc.IH [OF d(2,3) this] \<open>(x, d) \<in> depends m\<close> show ?thesis
      by (auto intro: converse_rtrancl_into_rtrancl)
  qed
qed simp

lemma visit_fuel:
  "sort_inv m st \<Longrightarrow> card (fst ` set m - recursionStack st) < n \<Longrightarrow> topologicalSortVisit m n x st \<noteq> Inl Sort_Fuel"
proof (induction n arbitrary: x st)
  case (Suc n)
  let ?st = "st\<lparr>recursionStack := insert x (recursionStack st)\<rparr>"
  have inv: "sort_inv m ?st" using Suc.prems(1) by (simp add: sort_inv_def)
  have "foldr_res (topologicalSortVisit m n) (dependency_names m x) ?st \<noteq> Inl Sort_Fuel" if ns: "x \<notin> recursionStack st"
  proof
    assume "foldr_res (topologicalSortVisit m n) (dependency_names m x) ?st = Inl Sort_Fuel"
    from loop_error [OF this inv] obtain d u where d: "d \<in> set (dependency_names m x)"
      "topologicalSortVisit m n d u = Inl Sort_Fuel" "sort_inv m u" "recursionStack u = insert x (recursionStack st)"
      by auto
    from d(1) have key: "x \<in> fst ` set m"
      by (rule_tac ccontr) (simp add: dependency_names_def map_of_eq_None_iff [THEN iffD2])
    have "fst ` set m - insert x (recursionStack st) = (fst ` set m - recursionStack st) - {x}" by auto
    moreover have "card ((fst ` set m - recursionStack st) - {x}) < card (fst ` set m - recursionStack st)"
      using key ns by (intro card_Diff1_less) auto
    ultimately have "card (fst ` set m - recursionStack u) < card (fst ` set m - recursionStack st)"
      using d(4) by simp
    then have "card (fst ` set m - recursionStack u) < n" using Suc.prems(2) by simp
    with Suc.IH [OF d(3)] d(2) show False by blast
  qed
  then show ?case by (auto simp: bindr_eq_Inl)
qed simp

lemma sort_map_keys: "card (fst ` set (sort_map ps)) \<le> length ps"
proof -
  have "fst ` set (fold (\<lambda>p m. AList.update (rd_packageName p) p m) ps m) = fst ` set m \<union> rd_packageName ` set ps" for m
    by (induction ps arbitrary: m) (auto simp: dom_update)
  then have "fst ` set (sort_map ps) = rd_packageName ` set ps" by (simp add: sort_map_def)
  then show ?thesis by (simp add: card_image_le le_trans [OF card_image_le card_length])
qed

abbreviation sort_visit :: "ResolvedDependency list \<Rightarrow> ResolvedDependency \<Rightarrow> sort_state \<Rightarrow> sort_error + sort_state" where
  "sort_visit ps \<equiv> (\<lambda>p st. if rd_packageName p \<notin> visitedSet st
      then topologicalSortVisit (sort_map ps) (length ps + 2) (rd_packageName p) st else Inr st)"

lemma sort_start_inv: "sort_inv m sort_start"
  by (simp add: sort_inv_def sort_start_def)

lemma foldr_res_map: "foldr_res (\<lambda>x. f (g x)) xs = foldr_res f (map g xs)"
proof (induction xs)
  case (Cons x xs)
  show ?case by (rule ext) (simp add: Cons.IH)
qed (simp add: fun_eq_iff)

declare topologicalSortVisit.simps [simp del]

lemma sort_visit_loop:
  assumes "foldr_res (sort_visit ps) qs st = Inr st'" and "sort_inv (sort_map ps) st"
  shows "searched (sort_map ps) (set (map rd_packageName qs)) st st'"
proof -
  let ?f = "\<lambda>n st. if n \<notin> visitedSet st then topologicalSortVisit (sort_map ps) (length ps + 2) n st else Inr st"
  have "foldr_res (sort_visit ps) qs st = foldr_res ?f (map rd_packageName qs) st" for st
    by (rule fun_cong [OF foldr_res_map])
  moreover have "searched (sort_map ps) {x} st st'" if "?f x st = Inr st'" "sort_inv (sort_map ps) st" for x st st'
    using that visit_searched by (auto simp: searched_def split: if_splits)
  ultimately show ?thesis using assms by (intro searched_loop [where f = ?f]) simp_all
qed

lemma sort_visit_error:
  "foldr_res (sort_visit ps) qs st = Inl e \<Longrightarrow> sort_inv (sort_map ps) st \<Longrightarrow>
     \<exists>q \<in> set qs. \<exists>u. topologicalSortVisit (sort_map ps) (length ps + 2) (rd_packageName q) u = Inl e
       \<and> sort_inv (sort_map ps) u \<and> recursionStack u = recursionStack st"
proof (induction qs arbitrary: st)
  case (Cons q qs)
  show ?case
  proof (cases "sort_visit ps q st")
    case (Inl e')
    with Cons.prems show ?thesis by (auto split: if_splits)
  next
    case (Inr u)
    have u: "sort_inv (sort_map ps) u" "recursionStack u = recursionStack st"
      using sort_visit_loop [of ps "[q]" st u] Inr Cons.prems(2) by (simp_all add: searched_def)
    from Inr Cons.prems(1) have "foldr_res (sort_visit ps) qs u = Inl e" by simp
    from Cons.IH [OF this u(1)] u(2) show ?thesis by auto
  qed
qed simp

lemma topologicalSort_result:
  assumes "topologicalSort ps = Inr order"
  shows "distinct order \<and> rd_packageName ` set ps \<subseteq> set order
    \<and> (\<forall>i < length order. set (dependency_names (sort_map ps) (order ! i)) \<subseteq> set (take i order))
    \<and> set order \<subseteq> (depends (sort_map ps))\<^sup>* `` (rd_packageName ` set ps)"
proof -
  from assms obtain st where st: "foldr_res (sort_visit ps) ps sort_start = Inr st" "order = sortedOrder st"
    by (auto simp: topologicalSort_def)
  from sort_visit_loop [OF st(1) sort_start_inv] show ?thesis
    by (auto simp: searched_def sort_inv_def sort_start_def st(2))
qed

interpretation sorted: build_order "dependency_names (sort_map ps)"
    "case topologicalSort ps of Inr order \<Rightarrow> order | Inl e \<Rightarrow> []" for ps
  using topologicalSort_result [of ps] by unfold_locales (auto split: sum.splits)

lemma sort_fuel: "topologicalSort ps \<noteq> Inl Sort_Fuel"
proof
  assume "topologicalSort ps = Inl Sort_Fuel"
  then have "foldr_res (sort_visit ps) ps sort_start = Inl Sort_Fuel" by (auto simp: topologicalSort_def bindr_eq_Inl)
  from sort_visit_error [OF this sort_start_inv] obtain q :: ResolvedDependency and u where
    u: "topologicalSortVisit (sort_map ps) (length ps + 2) (rd_packageName q) u = Inl Sort_Fuel" "sort_inv (sort_map ps) u"
    by blast
  have "card (fst ` set (sort_map ps) - recursionStack u) \<le> card (fst ` set (sort_map ps))"
    by (intro card_mono) auto
  then have "card (fst ` set (sort_map ps) - recursionStack u) < length ps + 2"
    using sort_map_keys [of ps] by linarith
  from visit_fuel [OF u(2) this] u(1) show False by blast
qed

lemma depends_edges: "depends m = {(x, y). y \<in> set (dependency_names m x)}"
  by (rule depends_def)

section \<open>Properties\<close>

text \<open>
  C9. When \<^verbatim>\<open>topologicalSort\<close> returns, its result is a build order: no name occurs twice,
  every direct dependency of a package stands before the package, and the names are exactly those
  reachable from the given packages along their dependencies.
\<close>

theorem topological_order:
  assumes "topologicalSort ps = Inr order"
  shows "distinct order
    \<and> (\<forall>i < length order. \<forall>d \<in> set (dependency_names (sort_map ps) (order ! i)). \<exists>j < i. order ! j = d)
    \<and> set order = {y. \<exists>p \<in> set ps. (rd_packageName p, y) \<in> {(x, y). y \<in> set (dependency_names (sort_map ps) x)}\<^sup>*}"
proof -
  note r = topologicalSort_result [OF assms]
  have down: "\<exists>j < i. order ! j = d" if "i < length order" "d \<in> set (dependency_names (sort_map ps) (order ! i))" for i d
    using sorted.edge_down [of ps i d] that by (simp add: assms)
  have closed: "y \<in> set order" if "x \<in> set order" "(x, y) \<in> {(x, y). y \<in> set (dependency_names (sort_map ps) x)}\<^sup>*" for x y
    using sorted.closed [of x ps y] that by (simp add: assms)
  show ?thesis
    using r down closed unfolding depends_edges by blast
qed

definition sort_example :: "ResolvedDependency list" where
  "sort_example = map (\<lambda>(n, ds). \<lparr>rd_packageName = n, resolvedVersion = default_version, rd_sourceRepository = '''',
       integrityHash = '''', rd_transitiveDependencyNames = ds\<rparr>)
     [(''app'', [''http'', ''json'']), (''http'', [''tcp'']), (''json'', [])]"

theorem topological_order_witness:
  "topologicalSort sort_example = Inr [''tcp'', ''http'', ''json'', ''app''] \<and> distinct [''tcp'', ''http'', ''json'', ''app'']"
proof -
  have "topologicalSort sort_example = Inr [''tcp'', ''http'', ''json'', ''app'']" by code_simp
  with topological_order [OF this] show ?thesis by blast
qed

text \<open>
  C18. \<^verbatim>\<open>topologicalSort\<close> raises exactly when the dependencies reachable from the given packages
  have a cycle, the package it names lies on one, and otherwise it returns: the depth of the recursion
  stays below the number of packages and two.
\<close>

theorem topological_cycle:
  "((\<exists>e. topologicalSort ps = Inl e) \<longleftrightarrow>
      (\<exists>p \<in> set ps. \<exists>y. (rd_packageName p, y) \<in> (depends (sort_map ps))\<^sup>* \<and> (y, y) \<in> (depends (sort_map ps))\<^sup>+))
   \<and> (\<forall>e. topologicalSort ps = Inl e \<longrightarrow> (\<exists>y. e = CircularDependency y \<and> (y, y) \<in> (depends (sort_map ps))\<^sup>+))"
proof -
  have err: "\<exists>p \<in> set ps. \<exists>y. e = CircularDependency y \<and> (rd_packageName p, y) \<in> (depends (sort_map ps))\<^sup>*
      \<and> (y, y) \<in> (depends (sort_map ps))\<^sup>+"
    if e: "topologicalSort ps = Inl e" for e
  proof -
    from e obtain y where y: "e = CircularDependency y" using sort_fuel [of ps] by (cases e) auto
    from e have "foldr_res (sort_visit ps) ps sort_start = Inl e" by (auto simp: topologicalSort_def bindr_eq_Inl)
    from sort_visit_error [OF this sort_start_inv] obtain q :: ResolvedDependency and u where
      u: "q \<in> set ps" "topologicalSortVisit (sort_map ps) (length ps + 2) (rd_packageName q) u = Inl e"
        "sort_inv (sort_map ps) u" "recursionStack u = recursionStack sort_start" by blast
    from u(4) have "\<forall>s \<in> recursionStack u. (s, rd_packageName q) \<in> (depends (sort_map ps))\<^sup>+"
      by (simp add: sort_start_def)
    from visit_circular [OF u(2) [unfolded y] u(3) this] u(1) y show ?thesis by blast
  qed
  moreover have "False" if ok: "topologicalSort ps = Inr order" and p: "p \<in> set ps"
      "(rd_packageName p, y) \<in> (depends (sort_map ps))\<^sup>*" "(y, y) \<in> (depends (sort_map ps))\<^sup>+" for order p y
  proof -
    have "rd_packageName p \<in> set order" using topologicalSort_result [OF ok] p(1) by auto
    then have "y \<in> set order" using sorted.closed [of "rd_packageName p" ps y] p(2) by (simp add: ok depends_edges)
    then show False using sorted.no_cycle [of y ps] p(3) by (simp add: ok depends_edges)
  qed
  ultimately show ?thesis by (metis sum.exhaust)
qed

theorem topological_cycle_witness:
  "\<exists>y. topologicalSort [\<lparr>rd_packageName = ''a'', resolvedVersion = default_version, rd_sourceRepository = '''',
       integrityHash = '''', rd_transitiveDependencyNames = [''a'']\<rparr>] = Inl (CircularDependency y)"
proof -
  let ?ps = "[\<lparr>rd_packageName = ''a'', resolvedVersion = default_version, rd_sourceRepository = '''',
       integrityHash = '''', rd_transitiveDependencyNames = [''a'']\<rparr>]"
  have "topologicalSort ?ps = Inl (CircularDependency ''a'')" by code_simp
  with topological_cycle [of ?ps] show ?thesis by blast
qed

section \<open>What resolution guarantees\<close>

lemma lift_number_Inr [simp]: "lift_number r = Inr x \<longleftrightarrow> r = Inr x"
  by (cases r) (simp_all add: lift_number_def)

lemma lift_number_fuel [simp]: "lift_number r \<noteq> Inl Resolve_Fuel"
  by (cases r) (simp_all add: lift_number_def)

text \<open>A resolved package: its version is the highest compatible one, if any is known.\<close>

definition chosen :: "registry \<Rightarrow> ResolvedDependency \<Rightarrow> bool" where
  "chosen reg p \<longleftrightarrow>
     (\<exists>c cs. parseConstraint c = Inr cs \<and>
        (let vs = fetchAvailableVersions reg (rd_packageName p) (rd_sourceRepository p) in
         if vs \<noteq> [] then findHighestCompatible vs cs = Inr (resolvedVersion p)
         else resolvedVersion p = constraintVersion (hd cs)))"

definition resolve_inv :: "registry \<Rightarrow> resolve_state \<Rightarrow> bool" where
  "resolve_inv reg st \<longleftrightarrow>
     distinct (map fst (resolvedMap st))
     \<and> (\<forall>(k, p) \<in> set (resolvedMap st). rd_packageName p = k \<and> chosen reg p)"

lemma select_version_chosen:
  assumes "select_version reg name c source cs = (Some v, ms)" and "parseConstraint c' = Inr cs"
  shows "chosen reg \<lparr>rd_packageName = name, resolvedVersion = v, rd_sourceRepository = source, integrityHash = h,
     rd_transitiveDependencyNames = ts\<rparr>"
  using assms by (auto simp: select_version_def chosen_def Let_def split: if_splits sum.splits)

lemma update_entries: "set (AList.update k v xs) \<subseteq> insert (k, v) (set xs)"
  by (induction xs) auto

lemma resolve_inv_update:
  assumes "resolve_inv reg st" and "chosen reg p" and "rd_packageName p = name"
  shows "resolve_inv reg (st\<lparr>resolvedMap := AList.update name p (resolvedMap st)\<rparr>)"
proof -
  have "distinct (map fst (AList.update name p (resolvedMap st)))"
    using assms(1) by (intro distinct_update) (simp add: resolve_inv_def)
  then show ?thesis
    using assms update_entries [of name p "resolvedMap st"] unfolding resolve_inv_def by fastforce
qed

text \<open>How a new package is resolved.\<close>

definition started :: "registry \<Rightarrow> string \<Rightarrow> string list \<Rightarrow> resolve_state \<Rightarrow> resolve_state" where
  "started reg name messages st =
     st\<lparr>visitedPackages := insert name (visitedPackages st), conflicts := conflicts st @ messages\<rparr>"

lemma resolve_new_Inr:
  assumes "resolve_new recurse reg name c source st = Inr st'"
  obtains (none) ms where "st' = started reg name ms st"
  | (some) cs v ms ds st3 where "parseConstraint c = Inr cs" "select_version reg name c source cs = (Some v, ms)"
      "ds = dependencies (requirements (fetchPackageManifest reg name v source))"
      "foldr_res recurse ds (started reg name ms st) = Inr st3"
      "st' = st3\<lparr>resolvedMap := AList.update name \<lparr>rd_packageName = name, resolvedVersion = v,
         rd_sourceRepository = source, integrityHash = '''', rd_transitiveDependencyNames = map packageName ds\<rparr>
         (resolvedMap st3)\<rparr>"
proof -
  from assms obtain cs where cs: "parseConstraint c = Inr cs" by (auto simp: resolve_new_def Let_def)
  obtain v ms where sel: "select_version reg name c source cs = (v, ms)" by fastforce
  show thesis
  proof (cases v)
    case None
    with assms cs sel have "st' = started reg name ms st" by (simp add: resolve_new_def started_def Let_def lift_number_def)
    then show thesis by (rule none)
  next
    case (Some w)
    with assms cs sel some show thesis
      by (simp add: resolve_new_def started_def Let_def lift_number_def) blast
  qed
qed

lemma resolve_new_fuel:
  assumes "resolve_new recurse reg name c source st = Inl Resolve_Fuel"
  shows "\<exists>v ms. foldr_res recurse (dependencies (requirements (fetchPackageManifest reg name v source)))
     (started reg name ms st) = Inl Resolve_Fuel"
proof (cases "parseConstraint c")
  case (Inl e)
  with assms show ?thesis by (simp add: resolve_new_def lift_number_def Let_def)
next
  case (Inr cs)
  obtain v ms where sel: "select_version reg name c source cs = (v, ms)" by fastforce
  with assms Inr obtain w where w: "v = Some w"
    by (cases v) (auto simp: resolve_new_def lift_number_def Let_def)
  have "foldr_res recurse (dependencies (requirements (fetchPackageManifest reg name w source)))
     (started reg name ms st) = Inl Resolve_Fuel"
    using assms Inr sel w by (simp add: resolve_new_def lift_number_def Let_def started_def bindr_eq_Inl)
  then show ?thesis by blast
qed

lemma resolve_visited_frame:
  "resolve_visited name c st = Inr st' \<Longrightarrow> resolvedMap st' = resolvedMap st \<and> visitedPackages st' = visitedPackages st"
  "resolve_visited name c st \<noteq> Inl Resolve_Fuel"
  by (auto simp: resolve_visited_def bindr_eq_Inl split: option.splits if_splits)

lemma resolveRecursive_inv:
  "resolveRecursive reg n name c source st = Inr st' \<Longrightarrow> resolve_inv reg st \<Longrightarrow> resolve_inv reg st'"
proof (induction n arbitrary: name c source st st')
  case (Suc n)
  show ?case
  proof (cases "name \<in> visitedPackages st")
    case True
    with Suc.prems resolve_visited_frame(1) show ?thesis by (force simp: resolve_inv_def)
  next
    case False
    with Suc.prems(1) have "resolve_new (\<lambda>d. resolveRecursive reg n (packageName d) (versionConstraint d) (sourceRepository d))
             reg name c source st = Inr st'" by simp
    then show ?thesis
    proof (cases rule: resolve_new_Inr)
      case (none ms)
      with Suc.prems(2) show ?thesis by (simp add: resolve_inv_def started_def)
    next
      case (some cs v ms ds st3)
      have "resolve_inv reg (started reg name ms st)" using Suc.prems(2) by (simp add: resolve_inv_def started_def)
      then have "resolve_inv reg st3"
        using foldr_res_invariant [OF some(4), of "resolve_inv reg"] Suc.IH by blast
      then show ?thesis
        unfolding some(5) by (rule resolve_inv_update) (use some in \<open>auto intro: select_version_chosen\<close>)
    qed
  qed
qed simp

lemma resolve_all_inv: "resolve_all reg n ds st = Inr st' \<Longrightarrow> resolve_inv reg st \<Longrightarrow> resolve_inv reg st'"
  unfolding resolve_all_def using foldr_res_invariant [of _ ds st st' "resolve_inv reg"] resolveRecursive_inv by blast

text \<open>A registry whose packages depend on a finite set of names only.\<close>

locale finite_registry =
  fixes reg :: registry and universe :: "string set"
  assumes universe_finite: "finite universe"
    and universe_closed: "d \<in> set (dependencies (requirements (fetchPackageManifest reg name v source))) \<Longrightarrow>
      packageName d \<in> universe"
begin

definition enough :: "nat \<Rightarrow> resolve_state \<Rightarrow> string \<Rightarrow> bool" where
  "enough n st name \<longleftrightarrow> card (universe - visitedPackages st) + (if name \<in> universe then 0 else 1) < n"

lemma visited_grows: "resolveRecursive reg n name c source st = Inr st' \<Longrightarrow> visitedPackages st \<subseteq> visitedPackages st'"
proof (induction n arbitrary: name c source st st')
  case (Suc n)
  let ?rec = "\<lambda>d. resolveRecursive reg n (packageName d) (versionConstraint d) (sourceRepository d)"
  have loop: "foldr_res ?rec ds u = Inr u' \<Longrightarrow> visitedPackages u \<subseteq> visitedPackages u'" for ds u u'
    using foldr_res_invariant [of ?rec ds u u' "\<lambda>w. visitedPackages u \<subseteq> visitedPackages w"] Suc.IH by blast
  show ?case
  proof (cases "name \<in> visitedPackages st")
    case True
    with Suc.prems resolve_visited_frame(1) show ?thesis by fastforce
  next
    case False
    with Suc.prems have "resolve_new ?rec reg name c source st = Inr st'" by simp
    then show ?thesis by (cases rule: resolve_new_Inr) (auto simp: started_def dest!: loop)
  qed
qed simp

lemma enough_fuel: "enough n st name \<Longrightarrow> resolveRecursive reg n name c source st \<noteq> Inl Resolve_Fuel"
proof (induction n arbitrary: name c source st)
  case (Suc n)
  let ?rec = "\<lambda>d. resolveRecursive reg n (packageName d) (versionConstraint d) (sourceRepository d)"
  show ?case
  proof (cases "name \<in> visitedPackages st")
    case True
    then show ?thesis using resolve_visited_frame(2) by simp
  next
    case False
    let ?visited = "insert name (visitedPackages st)"
    have dec: "card (universe - ?visited) < n" if "d \<in> universe" for d
    proof (cases "name \<in> universe")
      case True
      have "card ((universe - visitedPackages st) - {name}) < card (universe - visitedPackages st)"
        using True False universe_finite by (intro card_Diff1_less) auto
      moreover have "universe - ?visited = (universe - visitedPackages st) - {name}" by auto
      ultimately show ?thesis using Suc.prems by (simp add: enough_def)
    next
      case nu: False
      then have "universe - ?visited = universe - visitedPackages st" by auto
      then show ?thesis using Suc.prems nu by (simp add: enough_def)
    qed
    have loop: "\<forall>d \<in> set ds. packageName d \<in> universe \<Longrightarrow> ?visited \<subseteq> visitedPackages u \<Longrightarrow>
        foldr_res ?rec ds u \<noteq> Inl Resolve_Fuel" for ds u
    proof (induction ds arbitrary: u)
      case (Cons d ds)
      have "card (universe - visitedPackages u) \<le> card (universe - ?visited)"
        using Cons.prems(2) universe_finite by (intro card_mono) auto
      then have "enough n u (packageName d)" using dec [of "packageName d"] Cons.prems(1) by (simp add: enough_def)
      then have one: "?rec d u \<noteq> Inl Resolve_Fuel" by (rule Suc.IH)
      have "foldr_res ?rec ds w \<noteq> Inl Resolve_Fuel" if "?rec d u = Inr w" for w
        using Cons.IH [of w] Cons.prems visited_grows [OF that] by auto
      with one show ?case by (auto simp: bindr_eq_Inl)
    qed simp
    show ?thesis
    proof
      assume "resolveRecursive reg (Suc n) name c source st = Inl Resolve_Fuel"
      with False have "resolve_new ?rec reg name c source st = Inl Resolve_Fuel" by simp
      from resolve_new_fuel [OF this] obtain v ms where
        "foldr_res ?rec (dependencies (requirements (fetchPackageManifest reg name v source))) (started reg name ms st)
           = Inl Resolve_Fuel" by blast
      moreover have "?visited \<subseteq> visitedPackages (started reg name ms st)" by (simp add: started_def)
      ultimately show False using loop universe_closed by blast
    qed
  qed
qed (simp add: enough_def)

lemma resolve_all_fuel:
  "card universe + 1 < n \<Longrightarrow> resolve_all reg n ds st \<noteq> Inl Resolve_Fuel"
proof (induction ds arbitrary: st)
  case (Cons d ds)
  have "card (universe - visitedPackages st) \<le> card universe"
    using universe_finite by (intro card_mono) auto
  then have "enough n st (packageName d)" using Cons.prems by (simp add: enough_def)
  from enough_fuel [OF this] Cons show ?case by (auto simp: resolve_all_def bindr_eq_Inl)
qed (simp add: resolve_all_def)

end

interpretation source: finite_registry source_registry "{}"
  by unfold_locales (simp_all add: source_registry_def default_manifest_def)


definition resolve_example :: PackageManifest where
  "resolve_example = add_dependencies
     [default_dependency\<lparr>packageName := ''http'', versionConstraint := ''^1.2.0''\<rparr>,
      default_dependency\<lparr>packageName := ''http'', versionConstraint := ''>=1.3.0''\<rparr>] default_manifest"

lemma example_constraints:
  "parseConstraint ''^1.2.0'' = Inr [\<lparr>constraintOperator = Caret, constraintVersion = SemanticVersion 1 2 0 []\<rparr>]"
  "parseConstraint ''>=1.3.0'' = Inr [\<lparr>constraintOperator = GreaterThanOrEqual, constraintVersion = SemanticVersion 1 3 0 []\<rparr>]"
  "parseConstraint ''<2.0.0'' = Inr [\<lparr>constraintOperator = LessThan, constraintVersion = SemanticVersion 2 0 0 []\<rparr>]"
proof -
  have p: "parseConstraint (print_constraints [c]) = Inr [c]" if "no_comma c" for c
    using parse_pieces_print [of "[c]"] that by (simp add: parseConstraint_def)
  have "print_constraints [\<lparr>constraintOperator = Caret, constraintVersion = SemanticVersion 1 2 0 []\<rparr>] = ''^1.2.0''"
    "print_constraints [\<lparr>constraintOperator = GreaterThanOrEqual, constraintVersion = SemanticVersion 1 3 0 []\<rparr>] = ''>=1.3.0''"
    "print_constraints [\<lparr>constraintOperator = LessThan, constraintVersion = SemanticVersion 2 0 0 []\<rparr>] = ''<2.0.0''"
    by code_simp+
  then show "parseConstraint ''^1.2.0'' = Inr [\<lparr>constraintOperator = Caret, constraintVersion = SemanticVersion 1 2 0 []\<rparr>]"
    "parseConstraint ''>=1.3.0'' = Inr [\<lparr>constraintOperator = GreaterThanOrEqual, constraintVersion = SemanticVersion 1 3 0 []\<rparr>]"
    "parseConstraint ''<2.0.0'' = Inr [\<lparr>constraintOperator = LessThan, constraintVersion = SemanticVersion 2 0 0 []\<rparr>]"
    using p [of "\<lparr>constraintOperator = Caret, constraintVersion = SemanticVersion 1 2 0 []\<rparr>"]
      p [of "\<lparr>constraintOperator = GreaterThanOrEqual, constraintVersion = SemanticVersion 1 3 0 []\<rparr>"]
      p [of "\<lparr>constraintOperator = LessThan, constraintVersion = SemanticVersion 2 0 0 []\<rparr>"]
    by (simp_all add: no_comma_def)
qed

lemma source_select:
  "select_version source_registry name c source cs = (Some (constraintVersion (hd cs)), [])"
  "dependencies (requirements (fetchPackageManifest source_registry name v source)) = []"
  by (simp_all add: select_version_def source_registry_def default_manifest_def)

lemmas resolve_run =
  resolve_def resolve_all_def resolve_example_def add_dependencies_def default_manifest_def default_dependency_def
  empty_resolution_def resolve_new_def resolve_visited_def source_select [unfolded default_manifest_def]
  lift_number_def example_constraints numeral_2_eq_2


text \<open>
  The fallback ignores the operator of the constraint: with the registry of the source the
  constraint \<^verbatim>\<open><2.0.0\<close> is resolved to 2.0.0, which does not satisfy it, and no conflict is
  reported.
\<close>

lemma resolve_fallback_unsatisfied:
  "map_sum (\<lambda>_. ()) (\<lambda>r. (map resolvedVersion (resolvedPackages r), hasConflicts r))
     (resolve source_registry 2 (\<lambda>x. x)
        (add_dependencies [default_dependency\<lparr>packageName := ''json'', versionConstraint := ''<2.0.0''\<rparr>] default_manifest)
        False)
     = Inr ([SemanticVersion 2 0 0 []], False)
   \<and> map_sum (\<lambda>_. ()) (satisfies (SemanticVersion 2 0 0 [])) (parseConstraint ''<2.0.0'') = Inr False"
proof -
  have "satisfies (SemanticVersion 2 0 0 [])
      [\<lparr>constraintOperator = LessThan, constraintVersion = SemanticVersion 2 0 0 []\<rparr>] = False"
    by code_simp
  then show ?thesis by (simp add: resolve_run)
qed

end
