(* ===== verification/Mir.thy ===== *)
theory Mir
  imports Diagnostics "HOL-Library.AList"
begin

text \<open>
  The data of the middle intermediate representation: \<^verbatim>\<open>src/uranite/ir/mir.hpp\<close>.
  Identifiers are 32-bit words, so the two sentinels are the largest word. A
  \<^verbatim>\<open>double\<close> is its 64-bit pattern. A shared pointer to a semantic type is an address
  or null: no pass over this representation follows it. The control-flow graph is a list of
  shared pointers to blocks, null where a pass has removed the block. Hash sets are sets; the variable
  table is an association list in the order in which the hash map is visited.
\<close>

type_synonym MIRBlockIdentifier = uint32
type_synonym MIRVariableIdentifier = uint32
type_synonym MIRInstructionIdentifier = uint32
type_synonym double = "64 word"
type_synonym TypeSharedPointer = "nat option"

definition INVALID_BLOCK_IDENTIFIER :: MIRBlockIdentifier where
  "INVALID_BLOCK_IDENTIFIER = 0xFFFFFFFF"

definition INVALID_VARIABLE_IDENTIFIER :: MIRVariableIdentifier where
  "INVALID_VARIABLE_IDENTIFIER = 0xFFFFFFFF"

datatype (plugins only: code size) MIRInstructionKind =
    AllocateLocal | LoadVariable | StoreVariable | CopyValue | MoveValue | DropValue
  | AddInteger | SubtractInteger | MultiplyInteger | DivideInteger | ModuloInteger | NegateInteger | PowerInteger
  | AddFloat | SubtractFloat | MultiplyFloat | DivideFloat | NegateFloat | PowerFloat
  | BitwiseAnd | BitwiseOr | BitwiseXor | BitwiseNot | ShiftLeft | ShiftRight
  | CompareEqual | CompareNotEqual | CompareLessThan | CompareGreaterThan | CompareLessEqual | CompareGreaterEqual
  | LogicalAnd | LogicalOr | LogicalNot
  | TakeReference | DereferencePointer | ComputeFieldAddress | ComputeIndexAddress | HeapAllocate | HeapFree | AddressOf
  | CallFunction | CallVirtual | ReturnValue | BranchConditional | JumpUnconditional | SwitchBranch | InvokeFunction | Unreachable
  | ConstructObject | DestructObject | LoadVirtualTable
  | ConstantInteger | ConstantFloat | ConstantBoolean | ConstantString | ConstantChar | ConstantNone
  | CastType | InstanceOfCheck
  | PhiNode
  | ThrowException | LandingPad
  | DeferPush | DeferEmit
  | InlineAssembly
  | Yield
  | NoOperation

record MIRInstruction =
  instructionIdentifier :: MIRInstructionIdentifier
  instructionKind :: MIRInstructionKind
  destinationVariable :: MIRVariableIdentifier
  sourceOperands :: "MIRVariableIdentifier list"
  operandType :: TypeSharedPointer
  sourceLocation :: "Source option"
  integerConstantValue :: int64
  floatConstantValue :: double
  booleanConstantValue :: bool
  stringConstantValue :: string
  charConstantValue :: char
  calledFunctionQualifiedName :: string
  virtualTableEntryIndex :: int
  keywordArgumentKeys :: "string list"
  keywordArgumentValues :: "MIRVariableIdentifier list"
  trueBranchTarget :: MIRBlockIdentifier
  falseBranchTarget :: MIRBlockIdentifier
  switchBranchTargets :: "(int64 \<times> MIRBlockIdentifier) list"
  defaultSwitchTarget :: MIRBlockIdentifier
  fieldLayoutIndex :: int
  fieldAccessName :: string
  landingPadTarget :: MIRBlockIdentifier
  phiIncomingValues :: "(MIRBlockIdentifier \<times> MIRVariableIdentifier) list"
  assemblyTemplate :: string
  assemblyClobbers :: "string list"
  assemblyIsVolatile :: bool
  assemblyOutputVariables :: "MIRVariableIdentifier list"
  assemblyInputVariables :: "MIRVariableIdentifier list"
  assemblyOutputConstraints :: "string list"
  assemblyInputConstraints :: "string list"
  castTargetType :: TypeSharedPointer
  instanceCheckType :: TypeSharedPointer

definition new_MIRInstruction :: "MIRInstructionKind \<Rightarrow> MIRInstruction" where
  "new_MIRInstruction kind =
     \<lparr>instructionIdentifier = 0, instructionKind = kind, destinationVariable = INVALID_VARIABLE_IDENTIFIER,
      sourceOperands = [], operandType = None, sourceLocation = None, integerConstantValue = 0,
      floatConstantValue = 0, booleanConstantValue = False, stringConstantValue = '''', charConstantValue = NUL,
      calledFunctionQualifiedName = '''', virtualTableEntryIndex = - 1, keywordArgumentKeys = [],
      keywordArgumentValues = [], trueBranchTarget = INVALID_BLOCK_IDENTIFIER,
      falseBranchTarget = INVALID_BLOCK_IDENTIFIER, switchBranchTargets = [],
      defaultSwitchTarget = INVALID_BLOCK_IDENTIFIER, fieldLayoutIndex = 0, fieldAccessName = '''',
      landingPadTarget = INVALID_BLOCK_IDENTIFIER, phiIncomingValues = [], assemblyTemplate = '''',
      assemblyClobbers = [], assemblyIsVolatile = False, assemblyOutputVariables = [], assemblyInputVariables = [],
      assemblyOutputConstraints = [], assemblyInputConstraints = [], castTargetType = None,
      instanceCheckType = None\<rparr>"

record MIRBasicBlock =
  blockIdentifier :: MIRBlockIdentifier
  blockLabel :: string
  blockInstructions :: "MIRInstruction list"
  predecessorBlocks :: "MIRBlockIdentifier list"
  successorBlocks :: "MIRBlockIdentifier list"
  isTerminated :: bool
  liveVariablesAtEntry :: "MIRVariableIdentifier set"
  liveVariablesAtExit :: "MIRVariableIdentifier set"
  definedVariables :: "MIRVariableIdentifier set"
  usedVariables :: "MIRVariableIdentifier set"

definition new_MIRBasicBlock :: "MIRBlockIdentifier \<Rightarrow> MIRBasicBlock" where
  "new_MIRBasicBlock i =
     \<lparr>blockIdentifier = i, blockLabel = '''', blockInstructions = [], predecessorBlocks = [], successorBlocks = [],
      isTerminated = False, liveVariablesAtEntry = {}, liveVariablesAtExit = {}, definedVariables = {},
      usedVariables = {}\<rparr>"

record MIRVariableDescriptor =
  variableIdentifier :: MIRVariableIdentifier
  variableName :: string
  variableType :: TypeSharedPointer
  isMutableVariable :: bool
  isHeapAllocatedVariable :: bool
  isParameterVariable :: bool
  ownershipScopeDepth :: int

datatype (plugins only: code size) ConstantKind = Constant_Integer | Constant_Float | Constant_Boolean | Constant_String | Constant_Null

record MIRModuleConstant =
  constant_kind :: ConstantKind
  integerValue :: int64
  floatValue :: double
  booleanValue :: bool
  stringValue :: string

record MIRFunctionDefinition =
  functionName :: string
  mangledFunctionName :: string
  ownerClassQualifiedName :: string
  returnTypeDescriptor :: TypeSharedPointer
  functionSourceLocation :: "Source option"
  parameterVariableIdentifiers :: "MIRVariableIdentifier list"
  controlFlowBlocks :: "MIRBasicBlock option list"
  variableDescriptorTable :: "(MIRVariableIdentifier \<times> MIRVariableDescriptor) list"
  nextAvailableVariableIdentifier :: MIRVariableIdentifier
  entryBlockIdentifier :: MIRBlockIdentifier
  variadicParameterIndex :: int
  variadicElementType :: TypeSharedPointer
  keywordParameterIndex :: int
  keywordValueType :: TypeSharedPointer
  parameterDefaultValues :: "(int \<times> MIRModuleConstant) list"
  isStaticMethod :: bool
  isGeneratorFunction :: bool
  generatorYieldType :: TypeSharedPointer
  isAsyncFunction :: bool
  asyncInnerReturnType :: TypeSharedPointer

record TypeLayoutDescriptor =
  typeQualifiedName :: string
  typeSizeInBytes :: int
  typeAlignmentInBytes :: int
  fieldByteOffsets :: "int list"
  fieldNames :: "string list"
  fieldTypes :: "TypeSharedPointer list"
  hasVirtualTable :: bool
  virtualTableEntryCount :: int

record MIRGlobalVariable =
  globalVariableName :: string
  globalVariableType :: TypeSharedPointer
  initialValue :: MIRModuleConstant
  hasInitializer :: bool

record MIRExternFunction =
  externFunctionName :: string
  linkageName :: string
  externReturnType :: TypeSharedPointer
  parameterTypes :: "TypeSharedPointer list"
  isVariadic :: bool

record MIRModuleDefinition =
  moduleName :: string
  functionDefinitions :: "MIRFunctionDefinition option list"
  typeLayoutTable :: "(string \<times> TypeLayoutDescriptor) list"
  moduleConstants :: "(string \<times> MIRModuleConstant) list"
  globalVariables :: "(string \<times> MIRGlobalVariable) list"
  externFunctions :: "MIRExternFunction list"

section \<open>Building a function\<close>

definition new_MIRFunctionDefinition :: MIRFunctionDefinition where
  "new_MIRFunctionDefinition =
     \<lparr>functionName = '''', mangledFunctionName = '''', ownerClassQualifiedName = '''', returnTypeDescriptor = None,
      functionSourceLocation = None, parameterVariableIdentifiers = [], controlFlowBlocks = [],
      variableDescriptorTable = [], nextAvailableVariableIdentifier = 0, entryBlockIdentifier = 0,
      variadicParameterIndex = - 1, variadicElementType = None, keywordParameterIndex = - 1, keywordValueType = None,
      parameterDefaultValues = [], isStaticMethod = False, isGeneratorFunction = False, generatorYieldType = None,
      isAsyncFunction = False, asyncInnerReturnType = None\<rparr>"

definition allocateVariable ::
    "string \<Rightarrow> TypeSharedPointer \<Rightarrow> bool \<Rightarrow> MIRFunctionDefinition \<Rightarrow> MIRVariableIdentifier \<times> MIRFunctionDefinition" where
  "allocateVariable debugName vtype isMutable f =
     (let v = nextAvailableVariableIdentifier f;
          d = \<lparr>variableIdentifier = v, variableName = debugName, variableType = vtype, isMutableVariable = isMutable,
               isHeapAllocatedVariable = False, isParameterVariable = False, ownershipScopeDepth = 0\<rparr>
      in (v, f\<lparr>nextAvailableVariableIdentifier := v + 1,
               variableDescriptorTable := AList.update v d (variableDescriptorTable f)\<rparr>))"

definition createBasicBlock :: "string \<Rightarrow> MIRFunctionDefinition \<Rightarrow> MIRBasicBlock \<times> MIRFunctionDefinition" where
  "createBasicBlock labelPrefix f =
     (let i = word_of_nat (length (controlFlowBlocks f));
          b = (new_MIRBasicBlock i)\<lparr>blockLabel := labelPrefix @ ''.'' @ to_string (unat i)\<rparr>
      in (b, f\<lparr>controlFlowBlocks := controlFlowBlocks f @ [Some b]\<rparr>))"

end
