(* ===== verification/MirLiveness.thy ===== *)
theory MirLiveness
  imports Mir
begin

text \<open>
  The liveness analysis of the middle representation: \<^verbatim>\<open>src/uranite/ir/mir/analyzer.cpp\<close>. The
  class has no state; its three member functions change the edges and the four sets of the blocks. The
  loop of \<^verbatim>\<open>analyze\<close> need not end, so it is a partial function: \<open>None\<close> is a loop that runs
  forever. The specification is \<open>live_at\<close>: a variable is live at a point of the graph if a path from there
  reads it before it is assigned. On new annotations the analysis ends and computes just that;
  on annotations that an earlier run left behind it may compute more and may not end.
\<close>

section \<open>The analysis\<close>

type_synonym cfg = "MIRBasicBlock option list"

definition block_at :: "cfg \<Rightarrow> nat \<Rightarrow> MIRBasicBlock option" where
  "block_at c i = (if i < length c then c ! i else None)"

definition update_block :: "nat \<Rightarrow> (MIRBasicBlock \<Rightarrow> MIRBasicBlock) \<Rightarrow> cfg \<Rightarrow> cfg" where
  "update_block i f c = (case block_at c i of None \<Rightarrow> c | Some b \<Rightarrow> c[i := Some (f b)])"

definition local_use :: "MIRVariableIdentifier \<Rightarrow> MIRBasicBlock \<Rightarrow> MIRBasicBlock" where
  "local_use v b =
     (if v \<noteq> INVALID_VARIABLE_IDENTIFIER \<and> v \<notin> definedVariables b
      then b\<lparr>usedVariables := insert v (usedVariables b)\<rparr> else b)"

definition local_instruction :: "MIRInstruction \<Rightarrow> MIRBasicBlock \<Rightarrow> MIRBasicBlock" where
  "local_instruction ins b =
     (let b1 = fold local_use (sourceOperands ins) b;
          b2 = fold (\<lambda>phiEntry. local_use (snd phiEntry)) (phiIncomingValues ins) b1
      in if destinationVariable ins \<noteq> INVALID_VARIABLE_IDENTIFIER
         then b2\<lparr>definedVariables := insert (destinationVariable ins) (definedVariables b2)\<rparr> else b2)"

definition computeLocalSets :: "MIRBasicBlock \<Rightarrow> MIRBasicBlock" where
  "computeLocalSets b = fold local_instruction (blockInstructions b) (b\<lparr>definedVariables := {}, usedVariables := {}\<rparr>)"

text \<open>The targets for which the switch over the last instruction calls \<open>addEdge\<close>, in order.\<close>

definition edge_targets :: "MIRInstruction \<Rightarrow> MIRBlockIdentifier list" where
  "edge_targets ins =
     (case instructionKind ins of
        BranchConditional \<Rightarrow> [trueBranchTarget ins, falseBranchTarget ins]
      | JumpUnconditional \<Rightarrow> [trueBranchTarget ins]
      | SwitchBranch \<Rightarrow> map snd (switchBranchTargets ins) @ [defaultSwitchTarget ins]
      | InvokeFunction \<Rightarrow> [trueBranchTarget ins, landingPadTarget ins]
      | ThrowException \<Rightarrow> [landingPadTarget ins]
      | _ \<Rightarrow> [])"

definition addEdge :: "nat \<Rightarrow> MIRBlockIdentifier \<Rightarrow> cfg \<Rightarrow> cfg" where
  "addEdge i target c =
     (if target = INVALID_BLOCK_IDENTIFIER \<or> block_at c (unat target) = None then c
      else
        (case block_at c i of
           None \<Rightarrow> c
         | Some b \<Rightarrow>
             update_block (unat target) (\<lambda>t. t\<lparr>predecessorBlocks := predecessorBlocks t @ [blockIdentifier b]\<rparr>)
               (update_block i (\<lambda>b. b\<lparr>successorBlocks := successorBlocks b @ [target]\<rparr>) c)))"

definition block_edges :: "nat \<Rightarrow> cfg \<Rightarrow> cfg" where
  "block_edges i c =
     (case block_at c i of
        None \<Rightarrow> c
      | Some b \<Rightarrow>
          if blockInstructions b = [] then c
          else fold (addEdge i) (edge_targets (last (blockInstructions b))) c)"

definition clear_edges :: "MIRBasicBlock \<Rightarrow> MIRBasicBlock" where
  "clear_edges b = b\<lparr>predecessorBlocks := [], successorBlocks := []\<rparr>"

definition buildPredecessorSuccessorEdges :: "cfg \<Rightarrow> cfg" where
  "buildPredecessorSuccessorEdges c = fold block_edges [0..<length c] (map (map_option clear_edges) c)"

definition new_live_out :: "cfg \<Rightarrow> MIRBasicBlock \<Rightarrow> MIRVariableIdentifier set" where
  "new_live_out c b =
     \<Union> (set (map (\<lambda>s. case block_at c (unat s) of None \<Rightarrow> {} | Some t \<Rightarrow> liveVariablesAtEntry t) (successorBlocks b)))"

definition new_live_in :: "MIRVariableIdentifier set \<Rightarrow> MIRBasicBlock \<Rightarrow> MIRVariableIdentifier set" where
  "new_live_in out b = usedVariables b \<union> (out - definedVariables b)"

definition propagate_block :: "nat \<Rightarrow> bool \<times> cfg \<Rightarrow> bool \<times> cfg" where
  "propagate_block i s =
     (case block_at (snd s) i of
        None \<Rightarrow> s
      | Some b \<Rightarrow>
          let newLiveOut = new_live_out (snd s) b; newLiveIn = new_live_in newLiveOut b in
          if newLiveIn \<noteq> liveVariablesAtEntry b \<or> newLiveOut \<noteq> liveVariablesAtExit b
          then (True, (snd s)[i := Some (b\<lparr>liveVariablesAtEntry := newLiveIn, liveVariablesAtExit := newLiveOut\<rparr>)])
          else s)"

definition propagateBackward :: "cfg \<Rightarrow> bool \<times> cfg" where
  "propagateBackward c = fold propagate_block (rev [0..<length c]) (False, c)"

partial_function (option) liveness_loop :: "cfg \<Rightarrow> cfg option" where
  "liveness_loop c =
     (let s = propagateBackward c in if fst s then liveness_loop (snd s) else Some (snd s))"

definition local_sets :: "cfg \<Rightarrow> cfg" where
  "local_sets c = map (map_option computeLocalSets) (buildPredecessorSuccessorEdges c)"

definition analyze :: "MIRFunctionDefinition \<Rightarrow> MIRFunctionDefinition option" where
  "analyze f =
     map_option (\<lambda>c. f\<lparr>controlFlowBlocks := c\<rparr>) (liveness_loop (local_sets (controlFlowBlocks f)))"

section \<open>What the passes leave as it was\<close>

lemma block_at_list_update:
  "block_at (c[i := x]) j = (if i = j \<and> i < length c then x else block_at c j)"
  by (auto simp: block_at_def)

lemma length_update_block [simp]: "length (update_block i f c) = length c"
  by (auto simp: update_block_def split: option.split)

lemma block_at_update_block:
  "block_at (update_block i f c) j = (if i = j then map_option f (block_at c j) else block_at c j)"
  by (auto simp: update_block_def block_at_def split: option.split)

lemma block_at_map: "block_at (map (map_option f) c) i = map_option f (block_at c i)"
  by (auto simp: block_at_def)

lemma block_at_length: "block_at c i = Some b \<Longrightarrow> i < length c"
  by (auto simp: block_at_def split: if_splits)

text \<open>The annotations of a block and the rest of it.\<close>

definition bare :: "MIRBasicBlock \<Rightarrow> MIRBasicBlock" where
  "bare b = b\<lparr>liveVariablesAtEntry := {}, liveVariablesAtExit := {}\<rparr>"

definition entry_at :: "cfg \<Rightarrow> nat \<Rightarrow> MIRVariableIdentifier set" where
  "entry_at c i = (case block_at c i of None \<Rightarrow> {} | Some b \<Rightarrow> liveVariablesAtEntry b)"

definition exit_at :: "cfg \<Rightarrow> nat \<Rightarrow> MIRVariableIdentifier set" where
  "exit_at c i = (case block_at c i of None \<Rightarrow> {} | Some b \<Rightarrow> liveVariablesAtExit b)"

definition shape :: "cfg \<Rightarrow> cfg" where
  "shape c = map (map_option bare) c"

lemma bare_fields [simp]:
  "blockIdentifier (bare b) = blockIdentifier b" "blockInstructions (bare b) = blockInstructions b"
  "predecessorBlocks (bare b) = predecessorBlocks b" "successorBlocks (bare b) = successorBlocks b"
  "definedVariables (bare b) = definedVariables b" "usedVariables (bare b) = usedVariables b"
  "isTerminated (bare b) = isTerminated b" "blockLabel (bare b) = blockLabel b"
  by (simp_all add: bare_def)

lemma bare_eq:
  "bare b = bare b' \<Longrightarrow> blockInstructions b = blockInstructions b' \<and> successorBlocks b = successorBlocks b'
     \<and> definedVariables b = definedVariables b' \<and> usedVariables b = usedVariables b'
     \<and> blockIdentifier b = blockIdentifier b' \<and> predecessorBlocks b = predecessorBlocks b'
     \<and> isTerminated b = isTerminated b' \<and> blockLabel b = blockLabel b'"
  by (metis bare_fields)

lemma length_shape [simp]: "length (shape c) = length c"
  by (simp add: shape_def)

lemma shape_length: "shape c = shape d \<Longrightarrow> length c = length d"
  by (metis length_shape)

lemma shape_block_at:
  assumes "shape c = shape d" and "block_at c i = Some b"
  obtains b' where "block_at d i = Some b'" "bare b' = bare b"
proof -
  have "map_option bare (block_at c i) = map_option bare (block_at d i)"
    using assms(1) block_at_map [of bare] by (metis shape_def)
  with assms(2) that show thesis by (cases "block_at d i") auto
qed

lemma new_live_out_entry: "new_live_out c b = (\<Union>s \<in> set (successorBlocks b). entry_at c (unat s))"
  by (simp add: new_live_out_def entry_at_def)

section \<open>One step of the propagation\<close>

lemma propagate_block_cases:
  obtains (none) "propagate_block i (ch, c) = (ch, c)"
      "block_at c i = None \<or> (\<exists>b. block_at c i = Some b \<and> liveVariablesAtExit b = new_live_out c b
         \<and> liveVariablesAtEntry b = new_live_in (new_live_out c b) b)"
  | (some) b where "block_at c i = Some b"
      "new_live_in (new_live_out c b) b \<noteq> liveVariablesAtEntry b \<or> new_live_out c b \<noteq> liveVariablesAtExit b"
      "propagate_block i (ch, c) =
         (True, c[i := Some (b\<lparr>liveVariablesAtEntry := new_live_in (new_live_out c b) b,
                              liveVariablesAtExit := new_live_out c b\<rparr>)])"
proof (cases "block_at c i")
  case None
  then show ?thesis using none by (simp add: propagate_block_def)
next
  case (Some b)
  show ?thesis
  proof (cases "new_live_in (new_live_out c b) b \<noteq> liveVariablesAtEntry b \<or> new_live_out c b \<noteq> liveVariablesAtExit b")
    case True
    with Some show ?thesis using some by (simp add: propagate_block_def Let_def)
  next
    case False
    then have eq: "liveVariablesAtExit b = new_live_out c b" "liveVariablesAtEntry b = new_live_in (new_live_out c b) b"
      by auto
    with Some have "propagate_block i (ch, c) = (ch, c)"
      by (simp add: propagate_block_def Let_def flip: eq)
    with eq Some show ?thesis by (intro none) blast+
  qed
qed

lemma shape_set_annotations:
  assumes "block_at c i = Some b" and "bare b' = bare b"
  shows "shape (c[i := Some b']) = shape c"
proof -
  have "map (map_option bare) c ! i = Some (bare b)" and "i < length c"
    using assms(1) by (auto simp: block_at_def split: if_splits)
  with assms(2) show ?thesis by (metis list_update_id map_update option.simps(9) shape_def)
qed

lemma propagate_block_shape: "shape (snd (propagate_block i s)) = shape (snd s)"
proof -
  obtain ch c where s: "s = (ch, c)" by (cases s)
  show ?thesis
    unfolding s by (cases rule: propagate_block_cases [of i ch c]) (auto simp: bare_def shape_set_annotations)
qed

lemma propagate_fold_shape: "shape (snd (fold propagate_block is s)) = shape (snd s)"
  by (induction "is" arbitrary: s) (simp_all add: propagate_block_shape)

lemma entry_at_Some: "block_at c i = Some b \<Longrightarrow> entry_at c i = liveVariablesAtEntry b"
  by (simp add: entry_at_def)

lemma entry_at_set_annotations:
  assumes "block_at c i = Some b"
  shows "entry_at (c[i := Some (b\<lparr>liveVariablesAtEntry := x, liveVariablesAtExit := y\<rparr>)]) j
           = (if i = j then x else entry_at c j)"
    and "exit_at (c[i := Some (b\<lparr>liveVariablesAtEntry := x, liveVariablesAtExit := y\<rparr>)]) j
           = (if i = j then y else exit_at c j)"
  using assms block_at_length [OF assms] by (auto simp: entry_at_def exit_at_def block_at_list_update)

text \<open>
  The annotations only grow, or only shrink, when they start on the right side of the equations.
\<close>

definition inflating :: "cfg \<Rightarrow> bool" where
  "inflating c \<longleftrightarrow>
     (\<forall>i b. block_at c i = Some b \<longrightarrow>
        liveVariablesAtEntry b \<subseteq> new_live_in (new_live_out c b) b \<and> liveVariablesAtExit b \<subseteq> new_live_out c b)"

definition deflating :: "cfg \<Rightarrow> bool" where
  "deflating c \<longleftrightarrow>
     (\<forall>i b. block_at c i = Some b \<longrightarrow>
        new_live_in (new_live_out c b) b \<subseteq> liveVariablesAtEntry b \<and> new_live_out c b \<subseteq> liveVariablesAtExit b)"

lemma new_live_out_mono:
  "(\<And>s. entry_at c s \<subseteq> entry_at d s) \<Longrightarrow> new_live_out c b \<subseteq> new_live_out d b"
  by (auto simp: new_live_out_entry)

lemma new_live_in_mono: "X \<subseteq> Y \<Longrightarrow> new_live_in X b \<subseteq> new_live_in Y b"
  by (auto simp: new_live_in_def)

lemma new_live_bare [simp]:
  "new_live_out c (b\<lparr>liveVariablesAtEntry := x, liveVariablesAtExit := y\<rparr>) = new_live_out c b"
  "new_live_in z (b\<lparr>liveVariablesAtEntry := x, liveVariablesAtExit := y\<rparr>) = new_live_in z b"
  by (simp_all add: new_live_out_def new_live_in_def)

lemma inflating_block:
  assumes "inflating c"
  shows "inflating (snd (propagate_block i (ch, c)))"
proof (cases rule: propagate_block_cases [of i ch c])
  case (some b)
  let ?x = "new_live_in (new_live_out c b) b" and ?y = "new_live_out c b"
  let ?d = "c[i := Some (b\<lparr>liveVariablesAtEntry := ?x, liveVariablesAtExit := ?y\<rparr>)]"
  have old: "liveVariablesAtEntry b \<subseteq> ?x" "liveVariablesAtExit b \<subseteq> ?y"
    using assms some(1) by (auto simp: inflating_def)
  have grow: "new_live_out c b' \<subseteq> new_live_out ?d b'" for b'
    by (rule new_live_out_mono)
      (use old(1) entry_at_Some [OF some(1)] in \<open>auto simp: entry_at_set_annotations [OF some(1)]\<close>)
  have "inflating ?d"
    unfolding inflating_def
  proof (intro allI impI)
    fix j b'
    assume j: "block_at ?d j = Some b'"
    show "liveVariablesAtEntry b' \<subseteq> new_live_in (new_live_out ?d b') b' \<and> liveVariablesAtExit b' \<subseteq> new_live_out ?d b'"
    proof (cases "j = i")
      case True
      then have "b' = b\<lparr>liveVariablesAtEntry := ?x, liveVariablesAtExit := ?y\<rparr>"
        using j block_at_length [OF some(1)] by (simp add: block_at_list_update)
      then show ?thesis using grow [of b] new_live_in_mono [OF grow [of b]] by simp
    next
      case False
      then have "block_at c j = Some b'" using j by (simp add: block_at_list_update)
      then have "liveVariablesAtEntry b' \<subseteq> new_live_in (new_live_out c b') b'" "liveVariablesAtExit b' \<subseteq> new_live_out c b'"
        using assms by (auto simp: inflating_def)
      then show ?thesis using grow [of b'] new_live_in_mono [OF grow [of b'], of b'] by blast
    qed
  qed
  then show ?thesis by (simp add: some(3))
qed (use assms in simp)

lemma deflating_block:
  assumes "deflating c"
  shows "deflating (snd (propagate_block i (ch, c)))"
proof (cases rule: propagate_block_cases [of i ch c])
  case (some b)
  let ?x = "new_live_in (new_live_out c b) b" and ?y = "new_live_out c b"
  let ?d = "c[i := Some (b\<lparr>liveVariablesAtEntry := ?x, liveVariablesAtExit := ?y\<rparr>)]"
  have old: "?x \<subseteq> liveVariablesAtEntry b" "?y \<subseteq> liveVariablesAtExit b"
    using assms some(1) by (auto simp: deflating_def)
  have shrink: "new_live_out ?d b' \<subseteq> new_live_out c b'" for b'
    by (rule new_live_out_mono)
      (use old(1) entry_at_Some [OF some(1)] in \<open>auto simp: entry_at_set_annotations [OF some(1)] split: if_splits\<close>)
  have "deflating ?d"
    unfolding deflating_def
  proof (intro allI impI)
    fix j b'
    assume j: "block_at ?d j = Some b'"
    show "new_live_in (new_live_out ?d b') b' \<subseteq> liveVariablesAtEntry b' \<and> new_live_out ?d b' \<subseteq> liveVariablesAtExit b'"
    proof (cases "j = i")
      case True
      then have "b' = b\<lparr>liveVariablesAtEntry := ?x, liveVariablesAtExit := ?y\<rparr>"
        using j block_at_length [OF some(1)] by (simp add: block_at_list_update)
      then show ?thesis using shrink [of b] new_live_in_mono [OF shrink [of b]] by simp
    next
      case False
      then have "block_at c j = Some b'" using j by (simp add: block_at_list_update)
      then have "new_live_in (new_live_out c b') b' \<subseteq> liveVariablesAtEntry b'" "new_live_out c b' \<subseteq> liveVariablesAtExit b'"
        using assms by (auto simp: deflating_def)
      then show ?thesis using shrink [of b'] new_live_in_mono [OF shrink [of b'], of b'] by blast
    qed
  qed
  then show ?thesis by (simp add: some(3))
qed (use assms in simp)

text \<open>How much the annotations may still grow, and how much they may still shrink.\<close>

definition room :: "cfg \<Rightarrow> nat" where
  "room c = (\<Sum>i<length c. card (- entry_at c i) + card (- exit_at c i))"

definition mass :: "cfg \<Rightarrow> nat" where
  "mass c = (\<Sum>i<length c. card (entry_at c i) + card (exit_at c i))"

lemma sum_less_at:
  fixes f g :: "nat \<Rightarrow> nat"
  assumes "i < n" and "g i < f i" and "\<And>j. j \<noteq> i \<Longrightarrow> g j = f j"
  shows "(\<Sum>j<n. g j) < (\<Sum>j<n. f j)"
proof -
  have "(\<Sum>j \<in> {..<n} - {i}. g j) = (\<Sum>j \<in> {..<n} - {i}. f j)"
    by (rule sum.cong) (auto simp: assms(3))
  then show ?thesis
    using assms(1,2) sum.remove [of "{..<n}" i f] sum.remove [of "{..<n}" i g] by simp
qed

lemma card_pair_less:
  fixes X Y X' Y' :: "uint32 set"
  assumes "X \<subseteq> X'" "Y \<subseteq> Y'" "X \<noteq> X' \<or> Y \<noteq> Y'"
  shows "card X + card Y < card X' + card Y'"
proof (cases "X = X'")
  case True
  then have "Y \<subset> Y'" using assms by auto
  then have "card Y < card Y'" by (rule psubset_card_mono [OF finite])
  with True show ?thesis by simp
next
  case False
  then have "X \<subset> X'" using assms by auto
  then have "card X < card X'" by (rule psubset_card_mono [OF finite])
  moreover have "card Y \<le> card Y'" using assms(2) by (rule card_mono [OF finite])
  ultimately show ?thesis by simp
qed

lemma inflating_room:
  assumes "inflating c"
  shows "propagate_block i (ch, c) = (ch, c) \<or>
     (fst (propagate_block i (ch, c)) \<and> room (snd (propagate_block i (ch, c))) < room c)"
proof (cases rule: propagate_block_cases [of i ch c])
  case (some b)
  have i: "i < length c" using some(1) by (rule block_at_length)
  have "liveVariablesAtEntry b \<subseteq> new_live_in (new_live_out c b) b" "liveVariablesAtExit b \<subseteq> new_live_out c b"
    using assms some(1) by (auto simp: inflating_def)
  with some(1,2) have "card (- new_live_in (new_live_out c b) b) + card (- new_live_out c b)
      < card (- entry_at c i) + card (- exit_at c i)"
    by (intro card_pair_less) (auto simp: entry_at_def exit_at_def)
  then have "room (snd (propagate_block i (ch, c))) < room c"
    unfolding some(3) room_def snd_conv length_list_update
    by (intro sum_less_at [OF i]) (simp_all add: entry_at_set_annotations [OF some(1)])
  then show ?thesis by (simp add: some(3))
qed simp

lemma deflating_mass:
  assumes "deflating c"
  shows "propagate_block i (ch, c) = (ch, c) \<or>
     (fst (propagate_block i (ch, c)) \<and> mass (snd (propagate_block i (ch, c))) < mass c)"
proof (cases rule: propagate_block_cases [of i ch c])
  case (some b)
  have i: "i < length c" using some(1) by (rule block_at_length)
  have "new_live_in (new_live_out c b) b \<subseteq> liveVariablesAtEntry b" "new_live_out c b \<subseteq> liveVariablesAtExit b"
    using assms some(1) by (auto simp: deflating_def)
  with some(1,2) have "card (new_live_in (new_live_out c b) b) + card (new_live_out c b)
      < card (entry_at c i) + card (exit_at c i)"
    by (intro card_pair_less) (auto simp: entry_at_def exit_at_def)
  then have "mass (snd (propagate_block i (ch, c))) < mass c"
    unfolding some(3) mass_def snd_conv length_list_update
    by (intro sum_less_at [OF i]) (simp_all add: entry_at_set_annotations [OF some(1)])
  then show ?thesis by (simp add: some(3))
qed simp

section \<open>The loop\<close>

definition solved :: "cfg \<Rightarrow> bool" where
  "solved c \<longleftrightarrow>
     (\<forall>i b. block_at c i = Some b \<longrightarrow>
        liveVariablesAtExit b = new_live_out c b \<and> liveVariablesAtEntry b = new_live_in (new_live_out c b) b)"

lemma propagate_changed: "fst s \<Longrightarrow> fst (fold propagate_block is s)"
proof (induction "is" arbitrary: s)
  case (Cons i "is")
  obtain ch c where "s = (ch, c)" by (cases s)
  with Cons show ?case by (cases rule: propagate_block_cases [of i ch c]) auto
qed simp

lemma propagate_unchanged:
  assumes "\<not> fst (fold propagate_block is (False, c))"
  shows "fold propagate_block is (False, c) = (False, c)"
    and "i \<in> set is \<Longrightarrow> block_at c i = Some b \<Longrightarrow>
      liveVariablesAtExit b = new_live_out c b \<and> liveVariablesAtEntry b = new_live_in (new_live_out c b) b"
  using assms
proof (induction "is")
  case (Cons j "is")
  {
    case 1
    then show ?case
      by (cases rule: propagate_block_cases [of j False c]) (use Cons propagate_changed in auto)
  next
    case 2
    have eq: "propagate_block j (False, c) = (False, c)"
      by (cases rule: propagate_block_cases [of j False c]) (use 2(3) propagate_changed [of "(True, _)"] in auto)
    show ?case
    proof (cases "i = j")
      case True
      then show ?thesis
        by (cases rule: propagate_block_cases [of j False c]) (use 2 eq in auto)
    next
      case False
      then show ?thesis using 2 eq Cons.IH(2) by simp
    qed
  }
qed simp_all

lemma propagateBackward_unchanged:
  "\<not> fst (propagateBackward c) \<Longrightarrow> snd (propagateBackward c) = c \<and> solved c"
proof -
  assume "\<not> fst (propagateBackward c)"
  note un = propagate_unchanged [OF this [unfolded propagateBackward_def]]
  have "solved c"
    unfolding solved_def by (intro allI impI un(2)) (auto dest: block_at_length)
  with un(1) show "snd (propagateBackward c) = c \<and> solved c" by (simp add: propagateBackward_def)
qed

lemma propagateBackward_shape: "shape (snd (propagateBackward c)) = shape c"
  by (simp add: propagateBackward_def propagate_fold_shape)

lemma liveness_loop_returned:
  assumes "liveness_loop c = Some d"
  shows "shape d = shape c \<and> solved d"
  using assms
proof (rule liveness_loop.raw_induct [rotated])
  fix loop c d
  assume IH: "\<And>c d. loop c = Some d \<Longrightarrow> shape d = shape c \<and> solved d"
    and run: "(let s = propagateBackward c in if fst s then loop (snd s) else Some (snd s)) = Some d"
  show "shape d = shape c \<and> solved d"
  proof (cases "fst (propagateBackward c)")
    case True
    then have "loop (snd (propagateBackward c)) = Some d" using run by (simp add: Let_def)
    from IH [OF this] show ?thesis by (simp add: propagateBackward_shape)
  next
    case False
    with propagateBackward_unchanged [of c] run show ?thesis by (simp add: Let_def)
  qed
qed

lemma liveness_loop_returns:
  fixes m :: "cfg \<Rightarrow> nat"
  assumes step: "\<And>e. P e \<Longrightarrow> P (snd (propagateBackward e)) \<and>
      (fst (propagateBackward e) \<longrightarrow> m (snd (propagateBackward e)) < m e)"
    and start: "P c"
  shows "\<exists>d. liveness_loop c = Some d \<and> P d"
  using start
proof (induction "m c" arbitrary: c rule: less_induct)
  case less
  show ?case
  proof (cases "fst (propagateBackward c)")
    case True
    then obtain d where "liveness_loop (snd (propagateBackward c)) = Some d" "P d"
      using less.hyps step [OF less.prems] by blast
    with True show ?thesis by (subst liveness_loop.simps) (simp add: Let_def)
  next
    case False
    then show ?thesis using step [OF less.prems] by (subst liveness_loop.simps) (simp add: Let_def)
  qed
qed

lemma inflating_step:
  "inflating c \<Longrightarrow> inflating (snd (propagateBackward c)) \<and>
     (fst (propagateBackward c) \<longrightarrow> room (snd (propagateBackward c)) < room c)"
proof -
  have "inflating (snd s) \<Longrightarrow> inflating (snd (fold propagate_block is s))
     \<and> (fold propagate_block is s = s \<or> room (snd (fold propagate_block is s)) < room (snd s))" for s "is"
  proof (induction "is" arbitrary: s)
    case (Cons i "is")
    obtain ch c where s: "s = (ch, c)" by (cases s)
    have c: "inflating c" using Cons.prems by (simp add: s)
    define s1 where "s1 = propagate_block i s"
    have "s1 = s \<or> room (snd s1) < room (snd s)"
      using inflating_room [OF c, of i ch] by (auto simp: s1_def s)
    moreover have "inflating (snd (fold propagate_block is s1))"
      "fold propagate_block is s1 = s1 \<or> room (snd (fold propagate_block is s1)) < room (snd s1)"
      using Cons.IH [of s1] inflating_block [OF c, of i ch] by (simp_all add: s1_def s)
    ultimately show ?case unfolding fold_simps s1_def [symmetric] by (elim disjE) simp_all
  qed simp
  from this [of "(False, c)" "rev [0..<length c]"] show "inflating c \<Longrightarrow> ?thesis"
    unfolding propagateBackward_def by auto
qed

lemma deflating_step:
  "deflating c \<Longrightarrow> deflating (snd (propagateBackward c)) \<and>
     (fst (propagateBackward c) \<longrightarrow> mass (snd (propagateBackward c)) < mass c)"
proof -
  have "deflating (snd s) \<Longrightarrow> deflating (snd (fold propagate_block is s))
     \<and> (fold propagate_block is s = s \<or> mass (snd (fold propagate_block is s)) < mass (snd s))" for s "is"
  proof (induction "is" arbitrary: s)
    case (Cons i "is")
    obtain ch c where s: "s = (ch, c)" by (cases s)
    have c: "deflating c" using Cons.prems by (simp add: s)
    define s1 where "s1 = propagate_block i s"
    have "s1 = s \<or> mass (snd s1) < mass (snd s)"
      using deflating_mass [OF c, of i ch] by (auto simp: s1_def s)
    moreover have "deflating (snd (fold propagate_block is s1))"
      "fold propagate_block is s1 = s1 \<or> mass (snd (fold propagate_block is s1)) < mass (snd s1)"
      using Cons.IH [of s1] deflating_block [OF c, of i ch] by (simp_all add: s1_def s)
    ultimately show ?case unfolding fold_simps s1_def [symmetric] by (elim disjE) simp_all
  qed simp
  from this [of "(False, c)" "rev [0..<length c]"] show "deflating c \<Longrightarrow> ?thesis"
    unfolding propagateBackward_def by auto
qed

section \<open>What liveness means\<close>

definition uses :: "MIRInstruction \<Rightarrow> MIRVariableIdentifier set" where
  "uses ins = (set (sourceOperands ins) \<union> snd ` set (phiIncomingValues ins)) - {INVALID_VARIABLE_IDENTIFIER}"

inductive live_at :: "cfg \<Rightarrow> MIRVariableIdentifier \<Rightarrow> nat \<Rightarrow> nat \<Rightarrow> bool" for c v where
  live_use: "block_at c i = Some b \<Longrightarrow> k < length (blockInstructions b) \<Longrightarrow> v \<in> uses (blockInstructions b ! k)
     \<Longrightarrow> live_at c v i k"
| live_skip: "block_at c i = Some b \<Longrightarrow> k < length (blockInstructions b)
     \<Longrightarrow> v \<noteq> destinationVariable (blockInstructions b ! k) \<Longrightarrow> live_at c v i (Suc k) \<Longrightarrow> live_at c v i k"
| live_edge: "block_at c i = Some b \<Longrightarrow> s \<in> set (successorBlocks b) \<Longrightarrow> live_at c v (unat s) 0
     \<Longrightarrow> live_at c v i (length (blockInstructions b))"

text \<open>Whether straight-line code reads a variable before it assigns it, and what it assigns.\<close>

fun reads_first :: "MIRInstruction list \<Rightarrow> MIRVariableIdentifier \<Rightarrow> bool" where
  "reads_first [] v = False"
| "reads_first (ins # is) v = (v \<in> uses ins \<or> v \<noteq> destinationVariable ins \<and> reads_first is v)"

definition assigned :: "MIRInstruction list \<Rightarrow> MIRVariableIdentifier set" where
  "assigned is = destinationVariable ` set is - {INVALID_VARIABLE_IDENTIFIER}"

lemma uses_valid: "v \<in> uses ins \<Longrightarrow> v \<noteq> INVALID_VARIABLE_IDENTIFIER"
  by (simp add: uses_def)

lemma reads_first_valid: "reads_first is v \<Longrightarrow> v \<noteq> INVALID_VARIABLE_IDENTIFIER"
  by (induction "is") (auto dest: uses_valid)

lemma live_at_valid: "live_at c v i k \<Longrightarrow> v \<noteq> INVALID_VARIABLE_IDENTIFIER"
  by (induction rule: live_at.induct) (auto dest: uses_valid)

lemma live_at_up:
  assumes "block_at c i = Some b" and "k \<le> length (blockInstructions b)"
    and "reads_first (drop k (blockInstructions b)) v
      \<or> v \<notin> assigned (drop k (blockInstructions b)) \<and> (\<exists>s \<in> set (successorBlocks b). live_at c v (unat s) 0)"
  shows "live_at c v i k"
  using assms(2,3)
proof (induction k rule: inc_induct)
  case base
  then show ?case using assms(1) by (auto simp: live_edge)
next
  case (step k)
  let ?ins = "blockInstructions b ! k"
  have d: "drop k (blockInstructions b) = ?ins # drop (Suc k) (blockInstructions b)"
    using step(2) by (simp add: Cons_nth_drop_Suc)
  show ?case
  proof (cases "v \<in> uses ?ins")
    case True
    then show ?thesis using live_use [OF assms(1)] step(2) by blast
  next
    case False
    moreover from this step(4) have "v \<noteq> INVALID_VARIABLE_IDENTIFIER"
      by (auto dest: reads_first_valid live_at_valid)
    ultimately have "v \<noteq> destinationVariable ?ins" "live_at c v i (Suc k)"
      using step(3,4) unfolding d by (auto simp: assigned_def)
    then show ?thesis using live_skip [OF assms(1)] step(2) by blast
  qed
qed

lemma live_at_down:
  assumes "live_at c v i k" and "block_at c i = Some b"
  shows "reads_first (drop k (blockInstructions b)) v
      \<or> v \<notin> assigned (drop k (blockInstructions b)) \<and> (\<exists>s \<in> set (successorBlocks b). live_at c v (unat s) 0)"
  using assms
proof (induction arbitrary: b rule: live_at.induct)
  case (live_use i b' k)
  then have "drop k (blockInstructions b) = (blockInstructions b ! k) # drop (Suc k) (blockInstructions b)"
    by (simp add: Cons_nth_drop_Suc)
  with live_use show ?case by simp
next
  case (live_skip i b' k)
  then have d: "drop k (blockInstructions b) = (blockInstructions b ! k) # drop (Suc k) (blockInstructions b)"
    by (simp add: Cons_nth_drop_Suc)
  from live_skip show ?case unfolding d by (auto simp: assigned_def)
next
  case (live_edge i b' s)
  then show ?case by (auto simp: assigned_def)
qed

lemma live_at_iff:
  "block_at c i = Some b \<Longrightarrow> k \<le> length (blockInstructions b) \<Longrightarrow>
     live_at c v i k \<longleftrightarrow> reads_first (drop k (blockInstructions b)) v
      \<or> v \<notin> assigned (drop k (blockInstructions b)) \<and> (\<exists>s \<in> set (successorBlocks b). live_at c v (unat s) 0)"
  using live_at_up live_at_down by blast

section \<open>The local sets\<close>

lemma local_use_fold:
  "definedVariables (fold local_use vs b) = definedVariables b"
  "usedVariables (fold local_use vs b) =
     usedVariables b \<union> (set vs - {INVALID_VARIABLE_IDENTIFIER} - definedVariables b)"
  by (induction vs arbitrary: b) (auto simp: local_use_def)

lemma local_instruction_sets:
  "usedVariables (local_instruction ins b) = usedVariables b \<union> (uses ins - definedVariables b)"
  "definedVariables (local_instruction ins b) = definedVariables b \<union> assigned [ins]"
proof -
  have phis: "fold (\<lambda>e. local_use (snd e)) ps b1 = fold local_use (map snd ps) b1"
    for ps :: "(MIRBlockIdentifier \<times> MIRVariableIdentifier) list" and b1
    by (induction ps arbitrary: b1) simp_all
  show "usedVariables (local_instruction ins b) = usedVariables b \<union> (uses ins - definedVariables b)"
    "definedVariables (local_instruction ins b) = definedVariables b \<union> assigned [ins]"
    by (auto simp: local_instruction_def Let_def phis local_use_fold uses_def assigned_def)
qed

lemma computeLocalSets_fold:
  "usedVariables (fold local_instruction is b) = usedVariables b \<union> ({v. reads_first is v} - definedVariables b)"
  "definedVariables (fold local_instruction is b) = definedVariables b \<union> assigned is"
proof (induction "is" arbitrary: b)
  case (Cons ins "is")
  {
    case 1
    show ?case
      using Cons.IH(1) [of "local_instruction ins b"] by (auto simp: local_instruction_sets assigned_def dest: reads_first_valid)
  next
    case 2
    show ?case
      using Cons.IH(2) [of "local_instruction ins b"] by (auto simp: local_instruction_sets assigned_def)
  }
qed (auto simp: assigned_def)

lemma local_instruction_keeps:
  assumes "\<And>b x. g (b\<lparr>usedVariables := x\<rparr>) = g b" and "\<And>b x. g (b\<lparr>definedVariables := x\<rparr>) = g b"
  shows "g (fold local_instruction is b) = g b"
proof -
  have use: "g (fold local_use vs b) = g b" for vs b
    by (induction vs arbitrary: b) (simp_all add: local_use_def assms)
  have phi: "g (fold (\<lambda>e. local_use (snd e)) ps b) = g b"
    for ps :: "(MIRBlockIdentifier \<times> MIRVariableIdentifier) list" and b
    by (induction ps arbitrary: b) (simp_all add: local_use_def assms)
  have "g (local_instruction ins b) = g b" for ins b
    by (simp add: local_instruction_def Let_def assms use phi)
  then show ?thesis by (induction "is" arbitrary: b) simp_all
qed

lemma computeLocalSets_keeps:
  assumes "\<And>b x. g (b\<lparr>usedVariables := x\<rparr>) = g b" and "\<And>b x. g (b\<lparr>definedVariables := x\<rparr>) = g b"
  shows "g (computeLocalSets b) = g b"
  using local_instruction_keeps [of g, OF assms] by (simp add: computeLocalSets_def assms)

lemma computeLocalSets_fields [simp]:
  "blockInstructions (computeLocalSets b) = blockInstructions b"
  "successorBlocks (computeLocalSets b) = successorBlocks b"
  "predecessorBlocks (computeLocalSets b) = predecessorBlocks b"
  "blockIdentifier (computeLocalSets b) = blockIdentifier b"
  "isTerminated (computeLocalSets b) = isTerminated b"
  "blockLabel (computeLocalSets b) = blockLabel b"
  "liveVariablesAtEntry (computeLocalSets b) = liveVariablesAtEntry b"
  "liveVariablesAtExit (computeLocalSets b) = liveVariablesAtExit b"
  by (simp_all add: computeLocalSets_keeps)

lemma computeLocalSets_sets [simp]:
  "usedVariables (computeLocalSets b) = {v. reads_first (blockInstructions b) v}"
  "definedVariables (computeLocalSets b) = assigned (blockInstructions b)"
  by (simp_all add: computeLocalSets_def computeLocalSets_fold)

section \<open>The edges\<close>

lemma cfg_eqI: "length c = length d \<Longrightarrow> (\<And>i. i < length c \<Longrightarrow> block_at c i = block_at d i) \<Longrightarrow> c = d"
  by (rule nth_equalityI) (auto simp: block_at_def)

definition valid_target :: "cfg \<Rightarrow> MIRBlockIdentifier \<Rightarrow> bool" where
  "valid_target c t \<longleftrightarrow> t \<noteq> INVALID_BLOCK_IDENTIFIER \<and> block_at c (unat t) \<noteq> None"

text \<open>The successors that the last instruction of a block names, and the blocks that name a block.\<close>

definition targets :: "cfg \<Rightarrow> MIRBasicBlock \<Rightarrow> MIRBlockIdentifier list" where
  "targets c b =
     (if blockInstructions b = [] then []
      else filter (valid_target c) (edge_targets (last (blockInstructions b))))"

definition sources :: "cfg \<Rightarrow> nat \<Rightarrow> nat \<Rightarrow> MIRBlockIdentifier list" where
  "sources c j i =
     (case block_at c i of
        None \<Rightarrow> []
      | Some b \<Rightarrow> map (\<lambda>t. blockIdentifier b) (filter (\<lambda>t. unat t = j) (targets c b)))"

definition edged :: "cfg \<Rightarrow> (nat \<Rightarrow> MIRBlockIdentifier list) \<Rightarrow> (nat \<Rightarrow> MIRBlockIdentifier list) \<Rightarrow> cfg" where
  "edged c S P =
     map (\<lambda>i. map_option (\<lambda>b. b\<lparr>predecessorBlocks := P i, successorBlocks := S i\<rparr>) (block_at c i)) [0..<length c]"

lemma length_edged [simp]: "length (edged c S P) = length c"
  by (simp add: edged_def)

lemma block_at_edged:
  "block_at (edged c S P) i = map_option (\<lambda>b. b\<lparr>predecessorBlocks := P i, successorBlocks := S i\<rparr>) (block_at c i)"
  by (simp add: edged_def block_at_def)

lemma edged_cong:
  assumes "\<And>i b. block_at c i = Some b \<Longrightarrow> S i = S' i" and "\<And>i b. block_at c i = Some b \<Longrightarrow> P i = P' i"
  shows "edged c S P = edged c S' P'"
proof (rule cfg_eqI)
  fix i
  show "block_at (edged c S P) i = block_at (edged c S' P') i"
    using assms by (cases "block_at c i") (simp_all add: block_at_edged)
qed simp

lemma addEdge_edged:
  assumes "block_at c i = Some b"
  shows "addEdge i t (edged c S P) =
     (if valid_target c t
      then edged c (S(i := S i @ [t])) (P(unat t := P (unat t) @ [blockIdentifier b])) else edged c S P)"
proof (cases "valid_target c t")
  case True
  then have t: "t \<noteq> INVALID_BLOCK_IDENTIFIER" "block_at (edged c S P) (unat t) \<noteq> None"
    by (auto simp: valid_target_def block_at_edged)
  show ?thesis
  proof (rule cfg_eqI)
    show "length (addEdge i t (edged c S P)) = length (if valid_target c t
      then edged c (S(i := S i @ [t])) (P(unat t := P (unat t) @ [blockIdentifier b])) else edged c S P)"
      by (simp add: addEdge_def split: option.split)
    fix j
    show "block_at (addEdge i t (edged c S P)) j = block_at (if valid_target c t
      then edged c (S(i := S i @ [t])) (P(unat t := P (unat t) @ [blockIdentifier b])) else edged c S P) j"
      using True t assms
      by (cases "block_at c j") (auto simp: addEdge_def block_at_update_block block_at_edged)
  qed
next
  case False
  then show ?thesis by (auto simp: addEdge_def valid_target_def block_at_edged)
qed

lemma addEdge_fold:
  assumes "block_at c i = Some b"
  shows "fold (addEdge i) ts (edged c S P) =
     edged c (S(i := S i @ filter (valid_target c) ts))
       (\<lambda>j. P j @ map (\<lambda>t. blockIdentifier b) (filter (\<lambda>t. unat t = j) (filter (valid_target c) ts)))"
proof (induction ts arbitrary: S P)
  case Nil
  show ?case unfolding fold_simps by (rule edged_cong) simp_all
next
  case (Cons t ts)
  show ?case
  proof (cases "valid_target c t")
    case True
    show ?thesis
      by (simp add: addEdge_edged [OF assms] True Cons.IH, rule edged_cong) auto
  qed (simp add: addEdge_edged [OF assms] Cons.IH)
qed

lemma block_edges_edged:
  "block_edges i (edged c S P) =
     edged c (case block_at c i of None \<Rightarrow> S | Some b \<Rightarrow> S(i := S i @ targets c b)) (\<lambda>j. P j @ sources c j i)"
proof (cases "block_at c i")
  case None
  then show ?thesis by (simp add: block_edges_def block_at_edged sources_def)
next
  case (Some b)
  show ?thesis
  proof (cases "blockInstructions b = []")
    case True
    have "S(i := S i @ []) = S" by simp
    with True Some show ?thesis by (simp add: block_edges_def block_at_edged targets_def sources_def)
  next
    case False
    with Some show ?thesis
      by (simp add: block_edges_def block_at_edged addEdge_fold [OF Some] targets_def sources_def)
  qed
qed

lemma block_edges_fold:
  "distinct is \<Longrightarrow> fold block_edges is (edged c S P) =
     edged c (\<lambda>i. case block_at c i of None \<Rightarrow> S i | Some b \<Rightarrow> if i \<in> set is then S i @ targets c b else S i)
       (\<lambda>j. P j @ concat (map (sources c j) is))"
proof (induction "is" arbitrary: S P)
  case Nil
  show ?case unfolding fold_simps by (rule edged_cong) simp_all
next
  case (Cons i "is")
  then have "i \<notin> set is" "distinct is" by simp_all
  then show ?case
    by (simp add: block_edges_edged Cons.IH, intro edged_cong) (auto split: option.split)
qed

lemma edges_edged:
  "buildPredecessorSuccessorEdges c =
     edged c (\<lambda>i. case block_at c i of None \<Rightarrow> [] | Some b \<Rightarrow> targets c b)
       (\<lambda>j. concat (map (sources c j) [0..<length c]))"
proof -
  have "block_at (map (map_option clear_edges) c) i = block_at (edged c (\<lambda>_. []) (\<lambda>_. [])) i" for i
    by (cases "block_at c i") (simp_all add: block_at_map block_at_edged clear_edges_def)
  then have start: "map (map_option clear_edges) c = edged c (\<lambda>_. []) (\<lambda>_. [])"
    by (intro cfg_eqI) simp_all
  show ?thesis
    unfolding buildPredecessorSuccessorEdges_def start block_edges_fold [OF distinct_upt]
    by (rule edged_cong) (auto dest: block_at_length)
qed

lemma block_at_edges:
  "block_at (buildPredecessorSuccessorEdges c) i =
     map_option (\<lambda>b. b\<lparr>predecessorBlocks := concat (map (sources c i) [0..<length c]), successorBlocks := targets c b\<rparr>)
       (block_at c i)"
  by (cases "block_at c i") (simp_all add: edges_edged block_at_edged)

lemma length_local_sets [simp]: "length (local_sets c) = length c"
  by (simp add: local_sets_def edges_edged)

lemma block_at_local_sets:
  "block_at (local_sets c) i =
     map_option (\<lambda>b. computeLocalSets
         (b\<lparr>predecessorBlocks := concat (map (sources c i) [0..<length c]), successorBlocks := targets c b\<rparr>))
       (block_at c i)"
  by (cases "block_at c i") (simp_all add: local_sets_def block_at_map block_at_edges)

section \<open>The annotations and the specification\<close>

lemma live_at_shape_imp: "live_at c v i k \<Longrightarrow> shape c = shape d \<Longrightarrow> live_at d v i k"
proof (induction rule: live_at.induct)
  case (live_use i b k)
  from shape_block_at [OF live_use(4,1)] obtain b' where "block_at d i = Some b'" "bare b' = bare b" .
  with live_use bare_eq [of b' b] show ?case by (intro live_at.live_use [of d i b' k]) simp_all
next
  case (live_skip i b k)
  from shape_block_at [OF live_skip(6,1)] obtain b' where "block_at d i = Some b'" "bare b' = bare b" .
  with live_skip bare_eq [of b' b] show ?case by (intro live_at.live_skip [of d i b' k]) simp_all
next
  case (live_edge i b s)
  from shape_block_at [OF live_edge(5,1)] obtain b' where "block_at d i = Some b'" "bare b' = bare b" .
  with live_edge bare_eq [of b' b] live_at.live_edge [of d i b' s v] show ?case by auto
qed

lemma live_at_shape: "shape c = shape d \<Longrightarrow> live_at c v i k = live_at d v i k"
  using live_at_shape_imp by metis

definition local_ok :: "cfg \<Rightarrow> bool" where
  "local_ok c \<longleftrightarrow>
     (\<forall>i b. block_at c i = Some b \<longrightarrow> usedVariables b = {v. reads_first (blockInstructions b) v}
        \<and> definedVariables b = assigned (blockInstructions b))"

lemma local_ok_local_sets: "local_ok (local_sets c)"
  by (auto simp: local_ok_def block_at_local_sets)

lemma local_ok_shape: "local_ok c \<Longrightarrow> shape c = shape d \<Longrightarrow> local_ok d"
  unfolding local_ok_def
proof (intro allI impI)
  fix i b
  assume ok: "\<forall>i b. block_at c i = Some b \<longrightarrow> usedVariables b = {v. reads_first (blockInstructions b) v}
      \<and> definedVariables b = assigned (blockInstructions b)"
    and sh: "shape c = shape d" and b: "block_at d i = Some b"
  from shape_block_at [OF sh [symmetric] b] obtain b' where "block_at c i = Some b'" "bare b' = bare b" .
  with ok bare_eq [of b' b]
  show "usedVariables b = {v. reads_first (blockInstructions b) v} \<and> definedVariables b = assigned (blockInstructions b)"
    by metis
qed

lemma solved_sound:
  assumes "solved c" and "local_ok c" and "live_at c v i k" and "block_at c i = Some b"
  shows "reads_first (drop k (blockInstructions b)) v
      \<or> v \<notin> assigned (drop k (blockInstructions b)) \<and> v \<in> liveVariablesAtExit b"
  using assms(3,4)
proof (induction arbitrary: b rule: live_at.induct)
  case (live_use i b' k)
  then have "drop k (blockInstructions b) = (blockInstructions b ! k) # drop (Suc k) (blockInstructions b)"
    by (simp add: Cons_nth_drop_Suc)
  with live_use show ?case by simp
next
  case (live_skip i b' k)
  then have d: "drop k (blockInstructions b) = (blockInstructions b ! k) # drop (Suc k) (blockInstructions b)"
    by (simp add: Cons_nth_drop_Suc)
  from live_skip show ?case unfolding d by (auto simp: assigned_def)
next
  case (live_edge i b' s)
  from live_edge.hyps(3) obtain t where t: "block_at c (unat s) = Some t"
    by (cases rule: live_at.cases) auto
  from live_edge.IH [OF t] have "v \<in> new_live_in (liveVariablesAtExit t) t"
    using assms(2) t by (auto simp: new_live_in_def local_ok_def)
  then have "v \<in> entry_at c (unat s)"
    using assms(1) t by (auto simp: solved_def entry_at_def)
  then have "v \<in> new_live_out c b" using live_edge by (auto simp: new_live_out_entry)
  with live_edge assms(1) show ?case by (auto simp: solved_def assigned_def)
qed

lemma solved_sound_block:
  assumes "solved c" and "local_ok c" and "block_at c i = Some b"
  shows "live_at c v i 0 \<Longrightarrow> v \<in> liveVariablesAtEntry b"
    and "live_at c v i (length (blockInstructions b)) \<Longrightarrow> v \<in> liveVariablesAtExit b"
proof -
  assume "live_at c v i 0"
  from solved_sound [OF assms(1,2) this assms(3)] have "v \<in> new_live_in (liveVariablesAtExit b) b"
    using assms(2,3) by (auto simp: new_live_in_def local_ok_def)
  with assms(1,3) show "v \<in> liveVariablesAtEntry b" by (simp add: solved_def)
next
  assume "live_at c v i (length (blockInstructions b))"
  from solved_sound [OF assms(1,2) this assms(3)] show "v \<in> liveVariablesAtExit b" by simp
qed

text \<open>The annotations never claim more than the specification when they start below it.\<close>

definition below :: "cfg \<Rightarrow> bool" where
  "below c \<longleftrightarrow>
     (\<forall>i b. block_at c i = Some b \<longrightarrow> liveVariablesAtEntry b \<subseteq> {v. live_at c v i 0}
        \<and> liveVariablesAtExit b \<subseteq> {v. live_at c v i (length (blockInstructions b))})"

lemma below_block:
  assumes "below c" and "local_ok c"
  shows "below (snd (propagate_block i (ch, c)))"
proof (cases rule: propagate_block_cases [of i ch c])
  case (some b)
  let ?x = "new_live_in (new_live_out c b) b" and ?y = "new_live_out c b"
  let ?d = "c[i := Some (b\<lparr>liveVariablesAtEntry := ?x, liveVariablesAtExit := ?y\<rparr>)]"
  have sh: "shape ?d = shape c" by (rule shape_set_annotations [OF some(1)]) (simp add: bare_def)
  have entry: "entry_at c s \<subseteq> {v. live_at c v s 0}" for s
    using assms(1) by (auto simp: below_def entry_at_def split: option.splits)
  have y: "?y \<subseteq> {v. live_at c v i (length (blockInstructions b))}"
    using entry live_edge [OF some(1)] by (auto simp: new_live_out_entry)
  have x: "?x \<subseteq> {v. live_at c v i 0}"
  proof
    fix v assume v: "v \<in> ?x"
    have "reads_first (blockInstructions b) v
        \<or> v \<notin> assigned (blockInstructions b) \<and> (\<exists>s \<in> set (successorBlocks b). live_at c v (unat s) 0)"
      using v assms(2) some(1) subsetD [OF entry] unfolding new_live_in_def local_ok_def new_live_out_entry by blast
    then show "v \<in> {v. live_at c v i 0}" using live_at_up [OF some(1), of 0] by simp
  qed
  have "below ?d"
    unfolding below_def live_at_shape [OF sh]
  proof (intro allI impI)
    fix j b'
    assume "block_at ?d j = Some b'"
    then show "liveVariablesAtEntry b' \<subseteq> {v. live_at c v j 0}
        \<and> liveVariablesAtExit b' \<subseteq> {v. live_at c v j (length (blockInstructions b'))}"
      using x y assms(1) block_at_length [OF some(1)]
      by (cases "j = i") (auto simp: block_at_list_update below_def)
  qed
  then show ?thesis by (simp add: some(3))
qed (use assms in simp)

lemma below_step:
  assumes "below c" and "local_ok c"
  shows "below (snd (propagateBackward c))"
proof -
  have "below (snd s) \<Longrightarrow> local_ok (snd s) \<Longrightarrow> below (snd (fold propagate_block is s))" for s "is"
  proof (induction "is" arbitrary: s)
    case (Cons i "is")
    have "local_ok (snd (propagate_block i s))"
      using local_ok_shape [OF Cons.prems(2)] propagate_block_shape by metis
    with Cons below_block [of "snd s" i "fst s"] show ?case by simp
  qed simp
  from this [of "(False, c)"] assms show ?thesis by (simp add: propagateBackward_def)
qed

definition fresh_cfg :: "cfg \<Rightarrow> bool" where
  "fresh_cfg c \<longleftrightarrow> (\<forall>i b. block_at c i = Some b \<longrightarrow> liveVariablesAtEntry b = {} \<and> liveVariablesAtExit b = {})"

lemma fresh_loop:
  assumes "fresh_cfg c" and "local_ok c"
  shows "\<exists>d. liveness_loop c = Some d \<and> below d \<and> local_ok d"
proof -
  define P where "P = (\<lambda>e. inflating e \<and> below e \<and> local_ok e)"
  have "P c" using assms by (auto simp: P_def inflating_def below_def fresh_cfg_def)
  moreover have "P (snd (propagateBackward e)) \<and>
      (fst (propagateBackward e) \<longrightarrow> room (snd (propagateBackward e)) < room e)" if "P e" for e
    using that inflating_step [of e] below_step [of e] local_ok_shape [of e, OF _ propagateBackward_shape [symmetric]]
    by (simp add: P_def)
  ultimately have "\<exists>d. liveness_loop c = Some d \<and> P d" by (rule_tac liveness_loop_returns)
  then show ?thesis by (auto simp: P_def)
qed

section \<open>Properties\<close>

lemma analyze_returned:
  assumes "analyze f = Some g"
  shows "shape (controlFlowBlocks g) = shape (local_sets (controlFlowBlocks f))"
    and "solved (controlFlowBlocks g)" and "local_ok (controlFlowBlocks g)"
    and "g = f\<lparr>controlFlowBlocks := controlFlowBlocks g\<rparr>"
proof -
  from assms obtain d where d: "liveness_loop (local_sets (controlFlowBlocks f)) = Some d"
    and g: "g = f\<lparr>controlFlowBlocks := d\<rparr>"
    by (auto simp: analyze_def)
  from liveness_loop_returned [OF d] g
  show sh: "shape (controlFlowBlocks g) = shape (local_sets (controlFlowBlocks f))"
    and "solved (controlFlowBlocks g)" and "g = f\<lparr>controlFlowBlocks := controlFlowBlocks g\<rparr>"
    by simp_all
  show "local_ok (controlFlowBlocks g)"
    using local_ok_shape [OF local_ok_local_sets sh [symmetric]] .
qed

lemma analyze_block:
  assumes "analyze f = Some g" and "block_at (controlFlowBlocks g) i = Some b"
  obtains b0 where "block_at (controlFlowBlocks f) i = Some b0"
    "blockInstructions b = blockInstructions b0" "blockIdentifier b = blockIdentifier b0"
    "isTerminated b = isTerminated b0" "successorBlocks b = targets (controlFlowBlocks f) b0"
    "predecessorBlocks b = concat (map (sources (controlFlowBlocks f) i) [0..<length (controlFlowBlocks f)])"
proof -
  from shape_block_at [OF analyze_returned(1) [OF assms(1)] assms(2)] obtain b'
    where b': "block_at (local_sets (controlFlowBlocks f)) i = Some b'" "bare b' = bare b" .
  from b'(1) obtain b0 where b0: "block_at (controlFlowBlocks f) i = Some b0"
    and b1: "b' = computeLocalSets (b0\<lparr>predecessorBlocks := concat (map (sources (controlFlowBlocks f) i)
        [0..<length (controlFlowBlocks f)]), successorBlocks := targets (controlFlowBlocks f) b0\<rparr>)"
    by (auto simp: block_at_local_sets)
  show thesis by (rule that [OF b0]) (use bare_eq [OF b'(2)] in \<open>simp_all add: b1\<close>)
qed

lemma fresh_local_sets: "fresh_cfg c \<Longrightarrow> fresh_cfg (local_sets c)"
  by (auto simp: fresh_cfg_def block_at_local_sets)

text \<open>
  C5. On a function without earlier annotations the analysis ends, and a variable is in the set at the entry
  (at the exit) of a block exactly if a path from there reads it before it is assigned.
\<close>

theorem liveness_exact:
  assumes "fresh_cfg (controlFlowBlocks f)"
  shows "\<exists>g. analyze f = Some g \<and>
    (\<forall>i b. block_at (controlFlowBlocks g) i = Some b \<longrightarrow>
       liveVariablesAtEntry b = {v. live_at (controlFlowBlocks g) v i 0} \<and>
       liveVariablesAtExit b = {v. live_at (controlFlowBlocks g) v i (length (blockInstructions b))})"
proof -
  from fresh_loop [OF fresh_local_sets [OF assms] local_ok_local_sets] obtain d
    where d: "liveness_loop (local_sets (controlFlowBlocks f)) = Some d" and "below d" "local_ok d"
    by blast
  moreover from liveness_loop_returned [OF d] have "solved d" by simp
  ultimately have "\<forall>i b. block_at d i = Some b \<longrightarrow>
       liveVariablesAtEntry b = {v. live_at d v i 0} \<and>
       liveVariablesAtExit b = {v. live_at d v i (length (blockInstructions b))}"
    unfolding below_def using solved_sound_block [of d] by blast
  with d show ?thesis by (intro exI [of _ "f\<lparr>controlFlowBlocks := d\<rparr>"]) (simp add: analyze_def)
qed

text \<open>A loop: block 1 copies variable 0 to variable 1 and tests it, block 2 returns it.\<close>

definition make_instruction :: "MIRInstructionKind \<Rightarrow> MIRVariableIdentifier \<Rightarrow> MIRVariableIdentifier list \<Rightarrow> MIRInstruction" where
  "make_instruction kind d vs = (new_MIRInstruction kind)\<lparr>destinationVariable := d, sourceOperands := vs\<rparr>"

definition make_block :: "MIRBlockIdentifier \<Rightarrow> MIRInstruction list \<Rightarrow> MIRBasicBlock" where
  "make_block i is = (new_MIRBasicBlock i)\<lparr>blockInstructions := is\<rparr>"

definition jump_to :: "MIRBlockIdentifier \<Rightarrow> MIRInstruction" where
  "jump_to t = (new_MIRInstruction JumpUnconditional)\<lparr>trueBranchTarget := t\<rparr>"

definition branch_on :: "MIRVariableIdentifier \<Rightarrow> MIRBlockIdentifier \<Rightarrow> MIRBlockIdentifier \<Rightarrow> MIRInstruction" where
  "branch_on v t e = (make_instruction BranchConditional INVALID_VARIABLE_IDENTIFIER [v])\<lparr>trueBranchTarget := t,
     falseBranchTarget := e\<rparr>"

definition loop_example :: MIRFunctionDefinition where
  "loop_example = new_MIRFunctionDefinition\<lparr>controlFlowBlocks :=
     [Some (make_block 0 [make_instruction ConstantInteger 0 [], jump_to 1]),
      Some (make_block 1 [make_instruction CopyValue 1 [0], branch_on 1 1 2]),
      Some (make_block 2 [make_instruction ReturnValue INVALID_VARIABLE_IDENTIFIER [1]])]\<rparr>"

lemma block_at_Cons: "block_at (x # c) i = (case i of 0 \<Rightarrow> x | Suc j \<Rightarrow> block_at c j)"
  by (auto simp: block_at_def split: nat.split)

lemma block_at_Nil: "block_at [] i = None"
  by (simp add: block_at_def)

lemma fresh_cfg_simps:
  "fresh_cfg []"
  "fresh_cfg (x # c) \<longleftrightarrow> (case x of None \<Rightarrow> True | Some b \<Rightarrow> liveVariablesAtEntry b = {} \<and> liveVariablesAtExit b = {}) \<and> fresh_cfg c"
  by (auto simp: fresh_cfg_def block_at_Nil block_at_Cons split: nat.splits option.splits)

lemma fresh_make_block [simp]:
  "liveVariablesAtEntry (make_block i is) = {}" "liveVariablesAtExit (make_block i is) = {}"
  by (simp_all add: make_block_def new_MIRBasicBlock_def)

theorem liveness_exact_witness:
  "\<exists>g. analyze loop_example = Some g \<and>
    (\<forall>i b. block_at (controlFlowBlocks g) i = Some b \<longrightarrow>
       liveVariablesAtEntry b = {v. live_at (controlFlowBlocks g) v i 0} \<and>
       liveVariablesAtExit b = {v. live_at (controlFlowBlocks g) v i (length (blockInstructions b))})"
  by (rule liveness_exact) (simp add: loop_example_def fresh_cfg_simps)

text \<open>The loop with a bound on its rounds, to evaluate it on examples.\<close>

fun rounds :: "nat \<Rightarrow> cfg \<Rightarrow> cfg option" where
  "rounds 0 c = None"
| "rounds (Suc n) c =
     (let s = propagateBackward c in if fst s then rounds n (snd s) else Some (snd s))"

lemma rounds_loop: "rounds n c = Some d \<Longrightarrow> liveness_loop c = Some d"
proof (induction n arbitrary: c)
  case (Suc n)
  then show ?case by (subst liveness_loop.simps) (auto simp: Let_def split: if_splits)
qed simp

lemma loop_example_entries:
  "map_option (\<lambda>d. map (entry_at d) [0..<3]) (rounds 3 (local_sets (controlFlowBlocks loop_example)))
     = Some [{}, {0}, {1}]"
  by code_simp

text \<open>
  Whatever annotations are there before: if the analysis returns, its sets contain every variable that is live,
  so that nothing is taken for dead that is still read.
\<close>

lemma liveness_sound:
  assumes "analyze f = Some g" and "block_at (controlFlowBlocks g) i = Some b"
  shows "{v. live_at (controlFlowBlocks g) v i 0} \<subseteq> liveVariablesAtEntry b
    \<and> {v. live_at (controlFlowBlocks g) v i (length (blockInstructions b))} \<subseteq> liveVariablesAtExit b"
  using solved_sound_block [OF analyze_returned(2,3) [OF assms(1)] assms(2)] by auto

lemma analyze_loop_example:
  "analyze loop_example = Some (loop_example\<lparr>controlFlowBlocks :=
     the (rounds 3 (local_sets (controlFlowBlocks loop_example)))\<rparr>)"
proof -
  have "rounds 3 (local_sets (controlFlowBlocks loop_example)) \<noteq> None" by code_simp
  then obtain d where d: "rounds 3 (local_sets (controlFlowBlocks loop_example)) = Some d" by blast
  from rounds_loop [OF d] d show ?thesis by (simp add: analyze_def)
qed

lemma liveness_sound_example:
  "\<exists>g b. analyze loop_example = Some g \<and> block_at (controlFlowBlocks g) 1 = Some b \<and>
     {v. live_at (controlFlowBlocks g) v 1 0} \<subseteq> liveVariablesAtEntry b
     \<and> {v. live_at (controlFlowBlocks g) v 1 (length (blockInstructions b))} \<subseteq> liveVariablesAtExit b"
proof -
  let ?g = "loop_example\<lparr>controlFlowBlocks := the (rounds 3 (local_sets (controlFlowBlocks loop_example)))\<rparr>"
  have "block_at (controlFlowBlocks ?g) 1 \<noteq> None" by code_simp
  then obtain b where b: "block_at (controlFlowBlocks ?g) 1 = Some b" by blast
  from liveness_sound [OF analyze_loop_example b] analyze_loop_example b show ?thesis by blast
qed

text \<open>
  C22. The loop of the analysis ends when the annotations start below, or above, what the equations of the
  function demand; without earlier annotations they start below.
\<close>

theorem liveness_terminates:
  assumes "inflating (local_sets (controlFlowBlocks f)) \<or> deflating (local_sets (controlFlowBlocks f))"
  shows "analyze f \<noteq> None"
  using assms
proof
  assume "inflating (local_sets (controlFlowBlocks f))"
  from liveness_loop_returns [where P = inflating and m = room, OF inflating_step this]
  show ?thesis by (auto simp: analyze_def)
next
  assume "deflating (local_sets (controlFlowBlocks f))"
  from liveness_loop_returns [where P = deflating and m = mass, OF deflating_step this]
  show ?thesis by (auto simp: analyze_def)
qed

lemma fresh_inflating: "fresh_cfg c \<Longrightarrow> inflating c"
  by (auto simp: fresh_cfg_def inflating_def)

theorem liveness_terminates_witness: "analyze loop_example \<noteq> None"
  by (rule liveness_terminates, rule disjI1, rule fresh_inflating, rule fresh_local_sets)
    (simp add: loop_example_def fresh_cfg_simps)

text \<open>Three blocks that jump in a circle, with annotations about variable 5 and nothing that reads it.\<close>

definition circle :: "MIRVariableIdentifier set \<Rightarrow> MIRVariableIdentifier set \<Rightarrow> cfg" where
  "circle X Y =
     [Some ((make_block 0 [jump_to 2])\<lparr>liveVariablesAtEntry := X, liveVariablesAtExit := X\<rparr>),
      Some ((make_block 1 [jump_to 0])\<lparr>liveVariablesAtEntry := Y, liveVariablesAtExit := Y\<rparr>),
      Some ((make_block 2 [jump_to 1])\<lparr>liveVariablesAtEntry := X, liveVariablesAtExit := X\<rparr>)]"

lemma circle_turns:
  "propagateBackward (local_sets (circle {5} {})) = (True, local_sets (circle {} {5}))"
  "propagateBackward (local_sets (circle {} {5})) = (True, local_sets (circle {5} {}))"
  by code_simp+

lemma circle_diverges:
  assumes "liveness_loop c = Some d"
  shows "c \<noteq> local_sets (circle {5} {}) \<and> c \<noteq> local_sets (circle {} {5})"
  using assms
proof (rule liveness_loop.raw_induct [rotated])
  fix loop c d
  assume IH: "\<And>c d. loop c = Some d \<Longrightarrow> c \<noteq> local_sets (circle {5} {}) \<and> c \<noteq> local_sets (circle {} {5})"
    and run: "(let s = propagateBackward c in if fst s then loop (snd s) else Some (snd s)) = Some d"
  show "c \<noteq> local_sets (circle {5} {}) \<and> c \<noteq> local_sets (circle {} {5})"
    using run IH [of "local_sets (circle {5} {})" d] IH [of "local_sets (circle {} {5})" d]
    by (auto simp: Let_def circle_turns)
qed

text \<open>
  The annotations are never reset, and on left-over ones the analysis may not end: on a circle of three
  blocks, in which nothing is read, it moves the annotation of a variable around for ever.
\<close>

lemma stale_liveness_diverges:
  "analyze (new_MIRFunctionDefinition\<lparr>controlFlowBlocks := circle {5} {}\<rparr>) = None"
  using circle_diverges by (auto simp: analyze_def) (metis option.exhaust)

definition numbered :: "cfg \<Rightarrow> bool" where
  "numbered c \<longleftrightarrow> (\<forall>i b. block_at c i = Some b \<longrightarrow> unat (blockIdentifier b) = i)"

lemma count_list_concat: "count_list (concat xss) x = sum_list (map (\<lambda>xs. count_list xs x) xss)"
  by (induction xss) simp_all

lemma count_list_map_filter: "count_list (map f xs) y = length (filter (\<lambda>x. f x = y) xs)"
  by (induction xs) auto

lemma sum_list_single:
  "i < n \<Longrightarrow> (\<And>k. k \<noteq> i \<Longrightarrow> f k = 0) \<Longrightarrow> sum_list (map f [0..<n]) = (f i :: nat)"
  by (induction n) (auto simp: less_Suc_eq)

lemma sources_count:
  assumes "numbered c" and "block_at c i = Some b"
  shows "count_list (map unat (sources c j k)) i
    = (if k = i then length (filter (\<lambda>t. unat t = j) (targets c b)) else 0)"
proof (cases "block_at c k")
  case None
  with assms show ?thesis by (auto simp: sources_def)
next
  case (Some b')
  then have "unat (blockIdentifier b') = k" using assms(1) by (simp add: numbered_def)
  with Some assms(2) show ?thesis
    by (cases "k = i") (simp_all add: sources_def count_list_map_filter)
qed

text \<open>
  C23. After the analysis the edges are those of the last instructions, and the two edge lists describe the same
  graph: a block stands in the predecessors of another as often as that one in its successors.
\<close>

theorem liveness_edges:
  assumes "analyze f = Some g" and "numbered (controlFlowBlocks f)"
    and "block_at (controlFlowBlocks g) i = Some b" and "block_at (controlFlowBlocks g) j = Some d"
  shows "successorBlocks b = targets (controlFlowBlocks f) b
    \<and> count_list (map unat (predecessorBlocks d)) i = count_list (map unat (successorBlocks b)) j"
proof -
  let ?c = "controlFlowBlocks f"
  from analyze_block [OF assms(1,3)] obtain b0 where b0: "block_at ?c i = Some b0"
    and b: "blockInstructions b = blockInstructions b0" "successorBlocks b = targets ?c b0"
    by metis
  from analyze_block [OF assms(1,4)] obtain d0 where "block_at ?c j = Some d0"
    and d: "predecessorBlocks d = concat (map (sources ?c j) [0..<length ?c])"
    by metis
  have "count_list (map unat (predecessorBlocks d)) i
      = sum_list (map (\<lambda>k. count_list (map unat (sources ?c j k)) i) [0..<length ?c])"
    by (simp add: d map_concat count_list_concat comp_def)
  also have "\<dots> = count_list (map unat (sources ?c j i)) i"
    by (rule sum_list_single [OF block_at_length [OF b0]]) (simp add: sources_count [OF assms(2) b0])
  also have "\<dots> = count_list (map unat (successorBlocks b)) j"
    unfolding sources_count [OF assms(2) b0] b(2) by (simp add: count_list_map_filter)
  finally show ?thesis by (simp add: b targets_def)
qed

lemma numbered_simps:
  "numbered [x] \<longleftrightarrow> (\<forall>b. x = Some b \<longrightarrow> unat (blockIdentifier b) = 0)"
  "numbered [x, y] \<longleftrightarrow> (\<forall>b. x = Some b \<longrightarrow> unat (blockIdentifier b) = 0) \<and> (\<forall>b. y = Some b \<longrightarrow> unat (blockIdentifier b) = 1)"
  "numbered [x, y, z] \<longleftrightarrow> (\<forall>b. x = Some b \<longrightarrow> unat (blockIdentifier b) = 0)
     \<and> (\<forall>b. y = Some b \<longrightarrow> unat (blockIdentifier b) = 1) \<and> (\<forall>b. z = Some b \<longrightarrow> unat (blockIdentifier b) = 2)"
  by (auto simp: numbered_def block_at_def nth_Cons numeral_2_eq_2 less_Suc_eq split: nat.splits if_splits)

theorem liveness_edges_witness:
  "\<exists>g b d. analyze loop_example = Some g \<and> block_at (controlFlowBlocks g) 1 = Some b \<and>
     block_at (controlFlowBlocks g) 2 = Some d \<and>
     (successorBlocks b = targets (controlFlowBlocks loop_example) b
      \<and> count_list (map unat (predecessorBlocks d)) 1 = count_list (map unat (successorBlocks b)) 2)"
proof -
  let ?g = "loop_example\<lparr>controlFlowBlocks := the (rounds 3 (local_sets (controlFlowBlocks loop_example)))\<rparr>"
  have "block_at (controlFlowBlocks ?g) 1 \<noteq> None" "block_at (controlFlowBlocks ?g) 2 \<noteq> None" by code_simp+
  then obtain b d where b: "block_at (controlFlowBlocks ?g) 1 = Some b" and d: "block_at (controlFlowBlocks ?g) 2 = Some d"
    by blast
  have "numbered (controlFlowBlocks loop_example)"
    by (simp add: loop_example_def numbered_simps make_block_def new_MIRBasicBlock_def)
  from liveness_edges [OF analyze_loop_example this b d] analyze_loop_example b d show ?thesis by blast
qed

end
