(* ===== verification/MirOptimizer.thy ===== *)
theory MirOptimizer
  imports MirLiveness "HOL-Library.Signed_Division"
begin

text \<open>
  The optimiser of the middle representation: \<^verbatim>\<open>src/uranite/ir/mir/optimizer.cpp\<close>. Its object holds
  the two counters of the record \<open>MIROptimizer\<close>; each pass takes it with a function and
  gives both back with the flag that says whether something changed. A pass ends without a value when the host
  arithmetic of constant folding is undefined (\<open>UndefinedArithmetic\<close>) or when the loop of the liveness
  analysis runs forever (\<open>LivenessDiverges\<close>). The arithmetic on \<^verbatim>\<open>double\<close> is that of the
  host, given by \<open>float_ops\<close>; the order in which the hash map of the copies is visited is the argument \<open>order\<close>.
\<close>

unbundle bit_operations_syntax

datatype (plugins only: code size) optimizer_error = UndefinedArithmetic | LivenessDiverges

record MIROptimizer =
  totalRemovedInstructions :: int
  totalRemovedBlocks :: int

definition new_MIROptimizer :: MIROptimizer where
  "new_MIROptimizer = \<lparr>totalRemovedInstructions = 0, totalRemovedBlocks = 0\<rparr>"

definition removedInstructionCount :: "MIROptimizer \<Rightarrow> int" where
  "removedInstructionCount opt = totalRemovedInstructions opt"

definition removedBlockCount :: "MIROptimizer \<Rightarrow> int" where
  "removedBlockCount opt = totalRemovedBlocks opt"

definition remove_instruction :: "MIROptimizer \<Rightarrow> MIROptimizer" where
  "remove_instruction opt = opt\<lparr>totalRemovedInstructions := totalRemovedInstructions opt + 1\<rparr>"

definition remove_block :: "MIROptimizer \<Rightarrow> MIROptimizer" where
  "remove_block opt = opt\<lparr>totalRemovedBlocks := totalRemovedBlocks opt + 1\<rparr>"

section \<open>Unreachable blocks\<close>

text \<open>The stack of the search; its top is the head of the list.\<close>

definition push_successor ::
    "MIRBlockIdentifier \<Rightarrow> MIRBlockIdentifier set \<times> MIRBlockIdentifier list \<Rightarrow> MIRBlockIdentifier set \<times> MIRBlockIdentifier list" where
  "push_successor s st = (if s \<notin> fst st then (insert s (fst st), s # snd st) else st)"

lemma push_successor_measure:
  "2 * card (- fst (fold push_successor ss st)) + length (snd (fold push_successor ss st))
     \<le> 2 * card (- fst st) + length (snd st)"
proof (induction ss arbitrary: st)
  case (Cons s ss)
  have "2 * card (- fst (push_successor s st)) + length (snd (push_successor s st)) \<le> 2 * card (- fst st) + length (snd st)"
  proof (cases "s \<in> fst st")
    case False
    have "- fst st = insert s (- insert s (fst st))" using False by auto
    then have "card (- fst st) = Suc (card (- insert s (fst st)))"
      by (metis ComplD card_insert_disjoint finite insertI1)
    with False show ?thesis by (simp add: push_successor_def)
  qed (simp add: push_successor_def)
  with Cons.IH [of "push_successor s st"] show ?case by simp
qed simp

function reachable_loop :: "cfg \<Rightarrow> MIRBlockIdentifier list \<Rightarrow> MIRBlockIdentifier set \<Rightarrow> MIRBlockIdentifier set" where
  "reachable_loop c [] reachableBlocks = reachableBlocks"
| "reachable_loop c (x # worklist) reachableBlocks =
     (case block_at c (unat x) of
        None \<Rightarrow> reachable_loop c worklist reachableBlocks
      | Some b \<Rightarrow>
          let st = fold push_successor (successorBlocks b) (reachableBlocks, worklist)
          in reachable_loop c (snd st) (fst st))"
  by pat_completeness auto
termination
proof (relation "measure (\<lambda>(c, w, r). 2 * card (- r) + length w)", goal_cases)
  case (3 c x w r b st)
  then show ?case using push_successor_measure [of "successorBlocks b" "(r, w)"] by simp
qed simp_all

definition remove_predecessor :: "MIRBlockIdentifier \<Rightarrow> MIRBlockIdentifier \<Rightarrow> cfg \<Rightarrow> cfg" where
  "remove_predecessor i s c =
     update_block (unat s) (\<lambda>b. b\<lparr>predecessorBlocks := filter (\<lambda>p. p \<noteq> i) (predecessorBlocks b)\<rparr>) c"

definition remove_dead :: "MIRBlockIdentifier set \<Rightarrow> nat \<Rightarrow> bool \<times> MIROptimizer \<times> cfg \<Rightarrow> bool \<times> MIROptimizer \<times> cfg" where
  "remove_dead reachableBlocks k s =
     (case s of (changed, opt, c) \<Rightarrow>
        case block_at c k of
          None \<Rightarrow> s
        | Some b \<Rightarrow>
            if word_of_nat k \<in> reachableBlocks then s
            else (True, remove_block opt, (fold (remove_predecessor (word_of_nat k)) (successorBlocks b) c)[k := None]))"

definition eliminateUnreachableBlocks ::
    "MIROptimizer \<Rightarrow> MIRFunctionDefinition \<Rightarrow> bool \<times> MIROptimizer \<times> MIRFunctionDefinition" where
  "eliminateUnreachableBlocks opt f =
     (let c = controlFlowBlocks f; entry = entryBlockIdentifier f in
      if c = [] then (False, opt, f)
      else
        let (changed, opt', c') = fold (remove_dead (reachable_loop c [entry] {entry})) [0..<length c] (False, opt, c)
        in (changed, opt', f\<lparr>controlFlowBlocks := c'\<rparr>))"

section \<open>Constant folding\<close>

record float_ops =
  float_add :: "double \<Rightarrow> double \<Rightarrow> double"
  float_subtract :: "double \<Rightarrow> double \<Rightarrow> double"
  float_multiply :: "double \<Rightarrow> double \<Rightarrow> double"
  float_divide :: "double \<Rightarrow> double \<Rightarrow> double"

text \<open>Negating a \<^verbatim>\<open>double\<close> flips its sign bit; it equals zero if no other bit is set.\<close>

definition float_negate :: "double \<Rightarrow> double" where
  "float_negate x = x XOR 0x8000000000000000"

definition float_is_zero :: "double \<Rightarrow> bool" where
  "float_is_zero x \<longleftrightarrow> x AND 0x7FFFFFFFFFFFFFFF = 0"

record ConstantValue =
  constantKind :: MIRInstructionKind
  const_integerValue :: int64
  const_floatValue :: double
  const_booleanValue :: bool

type_synonym constants = "MIRVariableIdentifier \<rightharpoonup> ConstantValue"

definition integer_constant :: "int64 \<Rightarrow> ConstantValue" where
  "integer_constant x = \<lparr>constantKind = ConstantInteger, const_integerValue = x, const_floatValue = 0, const_booleanValue = False\<rparr>"

definition float_constant :: "double \<Rightarrow> ConstantValue" where
  "float_constant x = \<lparr>constantKind = ConstantFloat, const_integerValue = 0, const_floatValue = x, const_booleanValue = False\<rparr>"

definition boolean_constant :: "bool \<Rightarrow> ConstantValue" where
  "boolean_constant x = \<lparr>constantKind = ConstantBoolean, const_integerValue = 0, const_floatValue = 0, const_booleanValue = x\<rparr>"

definition constant_of :: "MIRInstructionKind \<Rightarrow> constants \<Rightarrow> MIRVariableIdentifier \<Rightarrow> ConstantValue option" where
  "constant_of kind m v =
     (case m v of None \<Rightarrow> None | Some x \<Rightarrow> if constantKind x = kind then Some x else None)"

text \<open>Signed host arithmetic: a result outside of the 64 bits has no meaning in C++.\<close>

definition host_int :: "int \<Rightarrow> optimizer_error + int64 option" where
  "host_int x = (if - (2 ^ 63) \<le> x \<and> x < 2 ^ 63 then Inr (Some (word_of_int x)) else Inl UndefinedArithmetic)"

definition fold_integer :: "MIRInstructionKind \<Rightarrow> int64 \<Rightarrow> int64 \<Rightarrow> optimizer_error + int64 option" where
  "fold_integer kind l r =
     (case kind of
        AddInteger \<Rightarrow> host_int (sint l + sint r)
      | SubtractInteger \<Rightarrow> host_int (sint l - sint r)
      | MultiplyInteger \<Rightarrow> host_int (sint l * sint r)
      | DivideInteger \<Rightarrow> if r \<noteq> 0 then host_int (sint l sdiv sint r) else Inr None
      | ModuloInteger \<Rightarrow>
          if r \<noteq> 0 then bindr (host_int (sint l sdiv sint r)) (\<lambda>_. host_int (sint l smod sint r)) else Inr None
      | BitwiseAnd \<Rightarrow> Inr (Some (l AND r))
      | BitwiseOr \<Rightarrow> Inr (Some (l OR r))
      | BitwiseXor \<Rightarrow> Inr (Some (l XOR r))
      | ShiftLeft \<Rightarrow>
          if 0 \<le> sint r \<and> sint r < 64 then
            if 0 \<le> sint l \<and> sint l * 2 ^ nat (sint r) < 2 ^ 64 then Inr (Some (push_bit (nat (sint r)) l))
            else Inl UndefinedArithmetic
          else Inr None
      | ShiftRight \<Rightarrow>
          if 0 \<le> sint r \<and> sint r < 64 then Inr (Some (signed_drop_bit (nat (sint r)) l)) else Inr None
      | _ \<Rightarrow> Inr None)"

definition fold_comparison :: "MIRInstructionKind \<Rightarrow> int64 \<Rightarrow> int64 \<Rightarrow> bool option" where
  "fold_comparison kind l r =
     (case kind of
        CompareEqual \<Rightarrow> Some (l = r)
      | CompareNotEqual \<Rightarrow> Some (l \<noteq> r)
      | CompareLessThan \<Rightarrow> Some (sint l < sint r)
      | CompareGreaterThan \<Rightarrow> Some (sint l > sint r)
      | CompareLessEqual \<Rightarrow> Some (sint l \<le> sint r)
      | CompareGreaterEqual \<Rightarrow> Some (sint l \<ge> sint r)
      | _ \<Rightarrow> None)"

definition fold_float :: "float_ops \<Rightarrow> MIRInstructionKind \<Rightarrow> double \<Rightarrow> double \<Rightarrow> double option" where
  "fold_float ops kind l r =
     (case kind of
        AddFloat \<Rightarrow> Some (float_add ops l r)
      | SubtractFloat \<Rightarrow> Some (float_subtract ops l r)
      | MultiplyFloat \<Rightarrow> Some (float_multiply ops l r)
      | DivideFloat \<Rightarrow> if \<not> float_is_zero r then Some (float_divide ops l r) else None
      | _ \<Rightarrow> None)"

text \<open>The instruction at hand with the constants known so far and the flag.\<close>

type_synonym fold_state = "bool \<times> constants \<times> MIRInstruction"

definition becomes_integer :: "int64 \<Rightarrow> fold_state \<Rightarrow> fold_state" where
  "becomes_integer x s =
     (case s of (changed, m, ins) \<Rightarrow>
        (True, m(destinationVariable ins \<mapsto> integer_constant x),
         ins\<lparr>instructionKind := ConstantInteger, integerConstantValue := x, sourceOperands := []\<rparr>))"

definition becomes_float :: "double \<Rightarrow> fold_state \<Rightarrow> fold_state" where
  "becomes_float x s =
     (case s of (changed, m, ins) \<Rightarrow>
        (True, m(destinationVariable ins \<mapsto> float_constant x),
         ins\<lparr>instructionKind := ConstantFloat, floatConstantValue := x, sourceOperands := []\<rparr>))"

definition becomes_boolean :: "bool \<Rightarrow> fold_state \<Rightarrow> fold_state" where
  "becomes_boolean x s =
     (case s of (changed, m, ins) \<Rightarrow>
        (True, m(destinationVariable ins \<mapsto> boolean_constant x),
         ins\<lparr>instructionKind := ConstantBoolean, booleanConstantValue := x, sourceOperands := []\<rparr>))"

definition record_constant :: "fold_state \<Rightarrow> fold_state" where
  "record_constant s =
     (case s of (changed, m, ins) \<Rightarrow>
        if destinationVariable ins = INVALID_VARIABLE_IDENTIFIER then s
        else if instructionKind ins = ConstantInteger then
          (changed, m(destinationVariable ins \<mapsto> integer_constant (integerConstantValue ins)), ins)
        else if instructionKind ins = ConstantFloat then
          (changed, m(destinationVariable ins \<mapsto> float_constant (floatConstantValue ins)), ins)
        else if instructionKind ins = ConstantBoolean then
          (changed, m(destinationVariable ins \<mapsto> boolean_constant (booleanConstantValue ins)), ins)
        else s)"

definition fold_binary_integer :: "MIRVariableIdentifier \<Rightarrow> MIRVariableIdentifier \<Rightarrow> fold_state \<Rightarrow> optimizer_error + fold_state" where
  "fold_binary_integer lop rop s =
     (case s of (changed, m, ins) \<Rightarrow>
        case (constant_of ConstantInteger m lop, constant_of ConstantInteger m rop) of
          (Some l, Some r) \<Rightarrow>
            if destinationVariable ins = INVALID_VARIABLE_IDENTIFIER then Inr s
            else bindr (fold_integer (instructionKind ins) (const_integerValue l) (const_integerValue r)) (\<lambda>folded.
              case folded of
                Some x \<Rightarrow> Inr (becomes_integer x s)
              | None \<Rightarrow>
                  (case fold_comparison (instructionKind ins) (const_integerValue l) (const_integerValue r) of
                     Some x \<Rightarrow> Inr (becomes_boolean x s)
                   | None \<Rightarrow> Inr s))
        | _ \<Rightarrow> Inr s)"

definition fold_binary_float :: "float_ops \<Rightarrow> MIRVariableIdentifier \<Rightarrow> MIRVariableIdentifier \<Rightarrow> fold_state \<Rightarrow> fold_state" where
  "fold_binary_float ops lop rop s =
     (case s of (changed, m, ins) \<Rightarrow>
        case (constant_of ConstantFloat m lop, constant_of ConstantFloat m rop) of
          (Some l, Some r) \<Rightarrow>
            if destinationVariable ins = INVALID_VARIABLE_IDENTIFIER then s
            else
              (case fold_float ops (instructionKind ins) (const_floatValue l) (const_floatValue r) of
                 Some x \<Rightarrow> becomes_float x s
               | None \<Rightarrow> s)
        | _ \<Rightarrow> s)"

definition fold_unary :: "fold_state \<Rightarrow> optimizer_error + fold_state" where
  "fold_unary s =
     (case s of (changed, m, ins) \<Rightarrow>
        case sourceOperands ins of
          [operand] \<Rightarrow>
            if destinationVariable ins = INVALID_VARIABLE_IDENTIFIER then Inr s
            else if instructionKind ins = NegateInteger then
              (case constant_of ConstantInteger m operand of
                 None \<Rightarrow> Inr s
               | Some x \<Rightarrow> bindr (host_int (- sint (const_integerValue x))) (\<lambda>folded.
                   case folded of Some y \<Rightarrow> Inr (becomes_integer y s) | None \<Rightarrow> Inr s))
            else if instructionKind ins = NegateFloat then
              (case constant_of ConstantFloat m operand of
                 None \<Rightarrow> Inr s
               | Some x \<Rightarrow> Inr (becomes_float (float_negate (const_floatValue x)) s))
            else if instructionKind ins = LogicalNot then
              (case constant_of ConstantBoolean m operand of
                 None \<Rightarrow> Inr s
               | Some x \<Rightarrow> Inr (becomes_boolean (\<not> const_booleanValue x) s))
            else Inr s
        | _ \<Rightarrow> Inr s)"

definition fold_instruction :: "float_ops \<Rightarrow> fold_state \<Rightarrow> optimizer_error + fold_state" where
  "fold_instruction ops s0 =
     (let s1 = record_constant s0 in
      bindr
        (case sourceOperands (snd (snd s1)) of
           [lop, rop] \<Rightarrow> bindr (fold_binary_integer lop rop s1) (\<lambda>s2. Inr (fold_binary_float ops lop rop s2))
         | _ \<Rightarrow> Inr s1)
        fold_unary)"

fun fold_instructions ::
    "float_ops \<Rightarrow> bool \<times> constants \<Rightarrow> MIRInstruction list \<Rightarrow> optimizer_error + (bool \<times> constants) \<times> MIRInstruction list" where
  "fold_instructions ops st [] = Inr (st, [])"
| "fold_instructions ops st (ins # is) =
     bindr (fold_instruction ops (fst st, snd st, ins)) (\<lambda>(changed, m, ins').
       bindr (fold_instructions ops (changed, m) is) (\<lambda>(st', is'). Inr (st', ins' # is')))"

fun fold_blocks :: "float_ops \<Rightarrow> bool \<times> constants \<Rightarrow> cfg \<Rightarrow> optimizer_error + (bool \<times> constants) \<times> cfg" where
  "fold_blocks ops st [] = Inr (st, [])"
| "fold_blocks ops st (None # c) = bindr (fold_blocks ops st c) (\<lambda>(st', c'). Inr (st', None # c'))"
| "fold_blocks ops st (Some b # c) =
     bindr (fold_instructions ops st (blockInstructions b)) (\<lambda>(st1, is).
       bindr (fold_blocks ops st1 c) (\<lambda>(st', c'). Inr (st', Some (b\<lparr>blockInstructions := is\<rparr>) # c')))"

definition foldConstants :: "float_ops \<Rightarrow> MIRFunctionDefinition \<Rightarrow> optimizer_error + bool \<times> MIRFunctionDefinition" where
  "foldConstants ops f =
     bindr (fold_blocks ops (False, Map.empty) (controlFlowBlocks f)) (\<lambda>((changed, m), c).
       Inr (changed, f\<lparr>controlFlowBlocks := c\<rparr>))"

section \<open>Copy propagation\<close>

type_synonym copy_map = "(MIRVariableIdentifier \<times> MIRVariableIdentifier) list"

definition record_copy :: "MIRInstruction \<Rightarrow> copy_map \<Rightarrow> copy_map" where
  "record_copy ins m =
     (if instructionKind ins = CopyValue \<and> destinationVariable ins \<noteq> INVALID_VARIABLE_IDENTIFIER
         \<and> length (sourceOperands ins) = 1 \<and> hd (sourceOperands ins) \<noteq> INVALID_VARIABLE_IDENTIFIER
      then AList.update (destinationVariable ins) (hd (sourceOperands ins)) m else m)"

definition instructions_of :: "cfg \<Rightarrow> MIRInstruction list" where
  "instructions_of c = concat (map (\<lambda>b. case b of None \<Rightarrow> [] | Some b \<Rightarrow> blockInstructions b) c)"

definition copy_map_of :: "cfg \<Rightarrow> copy_map" where
  "copy_map_of c = fold record_copy (instructions_of c) []"

function resolve_copy :: "copy_map \<Rightarrow> MIRVariableIdentifier set \<Rightarrow> MIRVariableIdentifier \<Rightarrow> MIRVariableIdentifier" where
  "resolve_copy m visited resolvedSource =
     (case map_of m resolvedSource of
        None \<Rightarrow> resolvedSource
      | Some nextSource \<Rightarrow>
          if resolvedSource \<in> visited then resolvedSource
          else resolve_copy m (insert resolvedSource visited) nextSource)"
  by pat_completeness auto
termination
proof (relation "measure (\<lambda>(m, visited, x). card (- visited))", goal_cases)
  case (2 m visited x nextSource)
  then have "- insert x visited \<subset> - visited" by auto
  then have "card (- insert x visited) < card (- visited)" by (rule psubset_card_mono [OF finite])
  then show ?case by simp
qed simp

declare resolve_copy.simps [simp del]

definition resolve_entry :: "MIRVariableIdentifier \<Rightarrow> copy_map \<Rightarrow> copy_map" where
  "resolve_entry x m =
     (case map_of m x of None \<Rightarrow> m | Some s \<Rightarrow> AList.update x (resolve_copy m {x} s) m)"

definition resolve_copies :: "(MIRVariableIdentifier list \<Rightarrow> MIRVariableIdentifier list) \<Rightarrow> copy_map \<Rightarrow> copy_map" where
  "resolve_copies order m = fold resolve_entry (order (map fst m)) m"

definition replaced :: "copy_map \<Rightarrow> MIRVariableIdentifier \<Rightarrow> MIRVariableIdentifier" where
  "replaced m v =
     (if v = INVALID_VARIABLE_IDENTIFIER then v else case map_of m v of None \<Rightarrow> v | Some s \<Rightarrow> s)"

definition replaces :: "copy_map \<Rightarrow> MIRVariableIdentifier \<Rightarrow> bool" where
  "replaces m v \<longleftrightarrow> v \<noteq> INVALID_VARIABLE_IDENTIFIER \<and> map_of m v \<noteq> None"

definition propagate_instruction :: "copy_map \<Rightarrow> MIRInstruction \<Rightarrow> MIRInstruction" where
  "propagate_instruction m ins =
     ins\<lparr>sourceOperands := map (replaced m) (sourceOperands ins),
         phiIncomingValues := map (map_prod id (replaced m)) (phiIncomingValues ins)\<rparr>"

definition propagates :: "copy_map \<Rightarrow> MIRInstruction \<Rightarrow> bool" where
  "propagates m ins \<longleftrightarrow>
     list_ex (replaces m) (sourceOperands ins) \<or> list_ex (replaces m) (map snd (phiIncomingValues ins))"

definition propagateCopies ::
    "(MIRVariableIdentifier list \<Rightarrow> MIRVariableIdentifier list) \<Rightarrow> MIRFunctionDefinition \<Rightarrow> bool \<times> MIRFunctionDefinition" where
  "propagateCopies order f =
     (let c = controlFlowBlocks f; m = copy_map_of c in
      if m = [] then (False, f)
      else
        let r = resolve_copies order m in
        (list_ex (propagates r) (instructions_of c),
         f\<lparr>controlFlowBlocks :=
             map (map_option (\<lambda>b. b\<lparr>blockInstructions := map (propagate_instruction r) (blockInstructions b)\<rparr>)) c\<rparr>))"

section \<open>Dead stores\<close>

definition address_result :: "MIRInstruction \<Rightarrow> bool" where
  "address_result ins \<longleftrightarrow>
     (instructionKind ins = ComputeFieldAddress \<or> instructionKind ins = ComputeIndexAddress)
     \<and> destinationVariable ins \<noteq> INVALID_VARIABLE_IDENTIFIER"

definition gepResultVariables :: "MIRInstruction list \<Rightarrow> MIRVariableIdentifier set" where
  "gepResultVariables is = destinationVariable ` set (filter address_result is)"

text \<open>The first variable in the table that has the name of a called function.\<close>

definition indirectCallTargetVariables ::
    "(MIRVariableIdentifier \<times> MIRVariableDescriptor) list \<Rightarrow> MIRInstruction list \<Rightarrow> MIRVariableIdentifier set" where
  "indirectCallTargetVariables table is =
     \<Union> (set (map (\<lambda>ins.
       if instructionKind ins = CallFunction \<and> calledFunctionQualifiedName ins \<noteq> '''' then
         (case List.find (\<lambda>entry. variableName (snd entry) = calledFunctionQualifiedName ins) table of
            None \<Rightarrow> {} | Some entry \<Rightarrow> {fst entry})
       else {}) is))"

definition is_dead_store :: "MIRVariableIdentifier set \<Rightarrow> MIRVariableIdentifier set \<Rightarrow> MIRInstruction \<Rightarrow> bool" where
  "is_dead_store kept neededAfter ins \<longleftrightarrow>
     instructionKind ins = StoreVariable \<and> destinationVariable ins \<noteq> INVALID_VARIABLE_IDENTIFIER
     \<and> destinationVariable ins \<notin> neededAfter \<and> destinationVariable ins \<notin> kept"

definition needed_before :: "MIRInstruction \<Rightarrow> MIRVariableIdentifier set \<Rightarrow> MIRVariableIdentifier set" where
  "needed_before ins neededAfter =
     (neededAfter - (if destinationVariable ins \<noteq> INVALID_VARIABLE_IDENTIFIER then {destinationVariable ins} else {}))
     \<union> (set (sourceOperands ins) - {INVALID_VARIABLE_IDENTIFIER})"

text \<open>The scan of a block from its last instruction to its first; \<open>surviving\<close> is in the order of the block.\<close>

definition scan_stores ::
    "MIRVariableIdentifier set \<Rightarrow> MIRInstruction list \<Rightarrow> MIROptimizer \<times> MIRVariableIdentifier set \<times> MIRInstruction list
      \<Rightarrow> MIROptimizer \<times> MIRVariableIdentifier set \<times> MIRInstruction list" where
  "scan_stores kept is s =
     foldr (\<lambda>ins (opt, neededAfter, surviving).
       (if is_dead_store kept neededAfter ins then remove_instruction opt else opt,
        needed_before ins neededAfter,
        if is_dead_store kept neededAfter ins then surviving else ins # surviving)) is s"

definition store_block ::
    "(MIRVariableIdentifier \<times> MIRVariableDescriptor) list \<Rightarrow> MIROptimizer \<Rightarrow> MIRBasicBlock \<Rightarrow> bool \<times> MIROptimizer \<times> MIRBasicBlock" where
  "store_block table opt b =
     (let is = blockInstructions b;
          kept = gepResultVariables is \<union> indirectCallTargetVariables table is;
          (opt', needed, surviving) = scan_stores kept is (opt, liveVariablesAtExit b, [])
      in if length surviving < length is then (True, opt', b\<lparr>blockInstructions := surviving\<rparr>) else (False, opt', b))"

fun store_blocks ::
    "(MIRVariableIdentifier \<times> MIRVariableDescriptor) list \<Rightarrow> MIROptimizer \<Rightarrow> cfg \<Rightarrow> bool \<times> MIROptimizer \<times> cfg" where
  "store_blocks table opt [] = (False, opt, [])"
| "store_blocks table opt (None # c) =
     (let (changed, opt', c') = store_blocks table opt c in (changed, opt', None # c'))"
| "store_blocks table opt (Some b # c) =
     (let (changed, opt1, b') = store_block table opt b; (changed', opt2, c') = store_blocks table opt1 c
      in (changed \<or> changed', opt2, Some b' # c'))"

definition run_liveness :: "MIRFunctionDefinition \<Rightarrow> optimizer_error + MIRFunctionDefinition" where
  "run_liveness f = (case analyze f of None \<Rightarrow> Inl LivenessDiverges | Some g \<Rightarrow> Inr g)"

definition eliminateDeadStores ::
    "MIROptimizer \<Rightarrow> MIRFunctionDefinition \<Rightarrow> optimizer_error + bool \<times> MIROptimizer \<times> MIRFunctionDefinition" where
  "eliminateDeadStores opt f =
     bindr (run_liveness f) (\<lambda>g.
       let (changed, opt', c) = store_blocks (variableDescriptorTable g) opt (controlFlowBlocks g)
       in Inr (changed, opt', g\<lparr>controlFlowBlocks := c\<rparr>))"

section \<open>Merging of blocks\<close>

definition merge_target :: "MIRBlockIdentifier \<Rightarrow> cfg \<Rightarrow> nat \<Rightarrow> (MIRBasicBlock \<times> MIRBlockIdentifier \<times> MIRBasicBlock) option" where
  "merge_target entry c k =
     (case block_at c k of
        None \<Rightarrow> None
      | Some b \<Rightarrow>
          if blockInstructions b = [] then None
          else
            let lastInstruction = last (blockInstructions b); target = trueBranchTarget lastInstruction in
            if instructionKind lastInstruction \<noteq> JumpUnconditional then None
            else if target = INVALID_BLOCK_IDENTIFIER then None
            else
              (case block_at c (unat target) of
                 None \<Rightarrow> None
               | Some t \<Rightarrow>
                   if length (predecessorBlocks t) \<noteq> 1 then None
                   else if target = entry then None
                   else if target = blockIdentifier b then None
                   else Some (b, target, t)))"

definition rename_block :: "MIRBlockIdentifier \<Rightarrow> MIRBlockIdentifier \<Rightarrow> MIRBlockIdentifier \<Rightarrow> MIRBlockIdentifier" where
  "rename_block old new x = (if x = old then new else x)"

definition retarget :: "MIRBlockIdentifier \<Rightarrow> MIRBlockIdentifier \<Rightarrow> MIRInstruction \<Rightarrow> MIRInstruction" where
  "retarget old new ins =
     ins\<lparr>trueBranchTarget := rename_block old new (trueBranchTarget ins),
         falseBranchTarget := rename_block old new (falseBranchTarget ins),
         defaultSwitchTarget := rename_block old new (defaultSwitchTarget ins),
         switchBranchTargets := map (map_prod id (rename_block old new)) (switchBranchTargets ins)\<rparr>"

definition rename_predecessor :: "MIRBlockIdentifier \<Rightarrow> MIRBlockIdentifier \<Rightarrow> MIRBlockIdentifier \<Rightarrow> cfg \<Rightarrow> cfg" where
  "rename_predecessor old new s c =
     update_block (unat s) (\<lambda>b. b\<lparr>predecessorBlocks := map (rename_block old new) (predecessorBlocks b)\<rparr>) c"

definition merge_into :: "nat \<Rightarrow> MIRBasicBlock \<Rightarrow> MIRBlockIdentifier \<Rightarrow> MIRBasicBlock \<Rightarrow> cfg \<Rightarrow> cfg" where
  "merge_into k b target t c =
     (let merged = b\<lparr>blockInstructions := butlast (blockInstructions b) @ blockInstructions t,
                     isTerminated := isTerminated t, successorBlocks := successorBlocks t\<rparr>;
          c1 = c[k := Some merged];
          c2 = fold (rename_predecessor target (blockIdentifier b)) (successorBlocks t) c1;
          c3 = update_block k (\<lambda>b'. b'\<lparr>blockInstructions := map (retarget target (blockIdentifier b)) (blockInstructions b')\<rparr>) c2
      in c3[unat target := None])"

definition block_count :: "cfg \<Rightarrow> nat" where
  "block_count c = length (filter (\<lambda>b. b \<noteq> None) c)"

lemma merge_target_Some:
  "merge_target entry c k = Some (b, target, t) \<longleftrightarrow>
     block_at c k = Some b \<and> blockInstructions b \<noteq> [] \<and> instructionKind (last (blockInstructions b)) = JumpUnconditional
     \<and> trueBranchTarget (last (blockInstructions b)) = target \<and> target \<noteq> INVALID_BLOCK_IDENTIFIER
     \<and> block_at c (unat target) = Some t \<and> length (predecessorBlocks t) = 1 \<and> target \<noteq> entry \<and> target \<noteq> blockIdentifier b"
  by (auto simp: merge_target_def Let_def split: option.splits if_splits)

lemma block_count_map:
  assumes "length d = length c" and "\<And>i. block_at d i = None \<longleftrightarrow> block_at c i = None"
  shows "block_count d = block_count c"
proof -
  have "map (\<lambda>b. b \<noteq> None) d = map (\<lambda>b. b \<noteq> None) c"
  proof (rule nth_equalityI)
    fix i
    assume "i < length (map (\<lambda>b. b \<noteq> None) d)"
    then show "map (\<lambda>b. b \<noteq> None) d ! i = map (\<lambda>b. b \<noteq> None) c ! i"
      using assms(1) assms(2) [of i] by (cases "d ! i"; cases "c ! i") (simp_all add: block_at_def)
  qed (simp add: assms(1))
  then have "length (filter (\<lambda>x. x) (map (\<lambda>b. b \<noteq> None) d)) = length (filter (\<lambda>x. x) (map (\<lambda>b. b \<noteq> None) c))"
    by simp
  then show ?thesis by (simp add: block_count_def filter_map comp_def)
qed

lemma block_count_remove:
  "block_at c k = Some b \<Longrightarrow> block_count (c[k := None]) < block_count c"
proof (induction c arbitrary: k)
  case (Cons x c)
  then show ?case by (cases k) (auto simp: block_count_def block_at_def split: if_splits)
qed (simp add: block_at_def)

lemma rename_predecessors_frame:
  "length (fold (rename_predecessor old new) ss c) = length c"
  "block_at (fold (rename_predecessor old new) ss c) i = None \<longleftrightarrow> block_at c i = None"
  by (induction ss arbitrary: c) (simp_all add: rename_predecessor_def block_at_update_block)

lemma merge_into_count:
  assumes "block_at c k = Some b" and "block_at c (unat target) = Some t"
  shows "block_count (merge_into k b target t c) < block_count c"
proof -
  define c3 where "c3 = update_block k (\<lambda>b'. b'\<lparr>blockInstructions := map (retarget target (blockIdentifier b)) (blockInstructions b')\<rparr>)
      (fold (rename_predecessor target (blockIdentifier b)) (successorBlocks t)
        (c[k := Some (b\<lparr>blockInstructions := butlast (blockInstructions b) @ blockInstructions t,
                     isTerminated := isTerminated t, successorBlocks := successorBlocks t\<rparr>)]))"
  have none: "block_at c3 i = None \<longleftrightarrow> block_at c i = None" for i
    using assms(1) by (auto simp: c3_def block_at_update_block rename_predecessors_frame block_at_list_update)
  have "length c3 = length c" by (simp add: c3_def rename_predecessors_frame)
  from block_count_map [OF this none] have "block_count c3 = block_count c" .
  moreover obtain t' where "block_at c3 (unat target) = Some t'"
    using none [of "unat target"] assms(2) by (cases "block_at c3 (unat target)") auto
  moreover have "merge_into k b target t c = c3[unat target := None]"
    by (simp add: merge_into_def c3_def Let_def)
  ultimately show ?thesis using block_count_remove [of c3 "unat target"] by simp
qed

function merge_loop ::
    "MIRBlockIdentifier \<Rightarrow> nat \<Rightarrow> bool \<times> MIROptimizer \<times> cfg \<Rightarrow> bool \<times> MIROptimizer \<times> cfg" where
  "merge_loop entry k (changed, opt, c) =
     (if k < length c then
        (case merge_target entry c k of
           None \<Rightarrow> merge_loop entry (Suc k) (changed, opt, c)
         | Some (b, target, t) \<Rightarrow> merge_loop entry k (True, remove_block opt, merge_into k b target t c))
      else (changed, opt, c))"
  by pat_completeness auto
termination
proof (relation "measures [\<lambda>(entry, k, changed, opt, c). block_count c, \<lambda>(entry, k, changed, opt, c). length c - k]", goal_cases)
  case (3 entry k changed opt c x b y target t)
  then have "merge_target entry c k = Some (b, target, t)" by simp
  then show ?case using merge_into_count by (auto simp: merge_target_Some)
qed auto

declare merge_loop.simps [simp del]

definition mergeLinearBlocks ::
    "MIROptimizer \<Rightarrow> MIRFunctionDefinition \<Rightarrow> optimizer_error + bool \<times> MIROptimizer \<times> MIRFunctionDefinition" where
  "mergeLinearBlocks opt f =
     bindr (run_liveness f) (\<lambda>g.
       let (changed, opt', c) = merge_loop (entryBlockIdentifier g) 0 (False, opt, controlFlowBlocks g)
       in Inr (changed, opt', g\<lparr>controlFlowBlocks := c\<rparr>))"

section \<open>All passes\<close>

type_synonym visit_order = "MIRVariableIdentifier list \<Rightarrow> MIRVariableIdentifier list"

definition optimize_once ::
    "float_ops \<Rightarrow> visit_order \<Rightarrow> MIROptimizer \<Rightarrow> MIRFunctionDefinition
      \<Rightarrow> optimizer_error + bool \<times> MIROptimizer \<times> MIRFunctionDefinition" where
  "optimize_once ops order opt f =
     (let (changed1, opt1, f1) = eliminateUnreachableBlocks opt f in
      bindr (foldConstants ops f1) (\<lambda>(changed2, f2).
        let (changed3, f3) = propagateCopies order f2 in
        bindr (eliminateDeadStores opt1 f3) (\<lambda>(changed4, opt4, f4).
          bindr (mergeLinearBlocks opt4 f4) (\<lambda>(changed5, opt5, f5).
            Inr (changed1 \<or> changed2 \<or> changed3 \<or> changed4 \<or> changed5, opt5, f5)))))"

text \<open>At most as many rounds as the first argument says, until a round changes nothing.\<close>

fun optimize_rounds ::
    "nat \<Rightarrow> float_ops \<Rightarrow> visit_order \<Rightarrow> MIROptimizer \<Rightarrow> MIRFunctionDefinition
      \<Rightarrow> optimizer_error + MIROptimizer \<times> MIRFunctionDefinition" where
  "optimize_rounds 0 ops order opt f = Inr (opt, f)"
| "optimize_rounds (Suc n) ops order opt f =
     bindr (optimize_once ops order opt f) (\<lambda>(changed, opt', f').
       if changed then optimize_rounds n ops order opt' f' else Inr (opt', f'))"

definition optimizeFunction ::
    "float_ops \<Rightarrow> visit_order \<Rightarrow> MIROptimizer \<Rightarrow> MIRFunctionDefinition \<Rightarrow> optimizer_error + MIROptimizer \<times> MIRFunctionDefinition" where
  "optimizeFunction = optimize_rounds 20"

fun optimize_functions ::
    "float_ops \<Rightarrow> visit_order \<Rightarrow> MIROptimizer \<Rightarrow> MIRFunctionDefinition option list
      \<Rightarrow> optimizer_error + MIROptimizer \<times> MIRFunctionDefinition option list" where
  "optimize_functions ops order opt [] = Inr (opt, [])"
| "optimize_functions ops order opt (None # fs) =
     bindr (optimize_functions ops order opt fs) (\<lambda>(opt', fs'). Inr (opt', None # fs'))"
| "optimize_functions ops order opt (Some f # fs) =
     bindr (optimizeFunction ops order opt f) (\<lambda>(opt1, f').
       bindr (optimize_functions ops order opt1 fs) (\<lambda>(opt', fs'). Inr (opt', Some f' # fs')))"

definition optimize_module ::
    "float_ops \<Rightarrow> visit_order \<Rightarrow> MIROptimizer \<Rightarrow> MIRModuleDefinition \<Rightarrow> optimizer_error + MIROptimizer \<times> MIRModuleDefinition" where
  "optimize_module ops order opt m =
     bindr (optimize_functions ops order opt (functionDefinitions m)) (\<lambda>(opt', fs).
       Inr (opt', m\<lparr>functionDefinitions := fs\<rparr>))"

end
