(* ===== verification/MirOptimizerLaws.thy ===== *)
theory MirOptimizerLaws
  imports MirOptimizer
begin

text \<open>
  What the passes of \<^verbatim>\<open>src/uranite/ir/mir/optimizer.cpp\<close> keep. The removal of blocks leaves
  exactly the reachable ones. Constant folding and copy propagation keep the set of assignments of values to variables that
  satisfy the equations of the instructions, which is what they have to keep for temporaries with one definition. A store is
  removed exactly if no path reads it. Merging keeps the instructions that are met on every path.
\<close>

section \<open>Reachable blocks\<close>

definition successor_edges :: "cfg \<Rightarrow> (MIRBlockIdentifier \<times> MIRBlockIdentifier) set" where
  "successor_edges c = {(x, y). \<exists>b. block_at c (unat x) = Some b \<and> y \<in> set (successorBlocks b)}"

definition reachable_from :: "cfg \<Rightarrow> MIRBlockIdentifier \<Rightarrow> MIRBlockIdentifier set" where
  "reachable_from c entry = (successor_edges c)\<^sup>* `` {entry}"

lemma push_successors:
  "fst (fold push_successor ss st) = fst st \<union> set ss"
  "set (snd (fold push_successor ss st)) = set (snd st) \<union> (set ss - fst st)"
  by (induction ss arbitrary: st) (auto simp: push_successor_def)

lemma reachable_loop_closed:
  assumes "\<And>x y. x \<in> r \<Longrightarrow> (x, y) \<in> successor_edges c \<Longrightarrow> x \<in> set w \<or> y \<in> r"
  shows "r \<subseteq> reachable_loop c w r
    \<and> (\<forall>x y. x \<in> reachable_loop c w r \<longrightarrow> (x, y) \<in> successor_edges c \<longrightarrow> y \<in> reachable_loop c w r)"
  using assms
proof (induction c w r rule: reachable_loop.induct)
  case (1 c r)
  then show ?case by auto
next
  case (2 c x w r)
  show ?case
  proof (cases "block_at c (unat x)")
    case None
    then have "(x, y) \<notin> successor_edges c" for y by (simp add: successor_edges_def)
    with 2 None show ?thesis by fastforce
  next
    case (Some b)
    define st where "st = fold push_successor (successorBlocks b) (r, w)"
    have st: "fst st = r \<union> set (successorBlocks b)" "set (snd st) = set w \<union> (set (successorBlocks b) - r)"
      by (simp_all add: st_def push_successors)
    have "u \<in> set (snd st) \<or> v \<in> fst st" if "u \<in> fst st" "(u, v) \<in> successor_edges c" for u v
    proof (cases "u = x")
      case True
      then show ?thesis using that(2) Some by (auto simp: successor_edges_def st)
    next
      case False
      then show ?thesis using that 2(3) [of u v] by (auto simp: st)
    qed
    from "2.IH"(2) [OF Some st_def this] show ?thesis
      using Some by (auto simp: st(1) simp flip: st_def)
  qed
qed

lemma reachable_loop_bound:
  assumes "set w \<subseteq> R" and "r \<subseteq> R" and "\<And>x y. x \<in> R \<Longrightarrow> (x, y) \<in> successor_edges c \<Longrightarrow> y \<in> R"
  shows "reachable_loop c w r \<subseteq> R"
  using assms
proof (induction c w r rule: reachable_loop.induct)
  case (2 c x w r)
  show ?case
  proof (cases "block_at c (unat x)")
    case None
    with 2 show ?thesis by simp
  next
    case (Some b)
    have "set (successorBlocks b) \<subseteq> R"
      using 2(3) "2.prems"(3) [of x] Some by (auto simp: successor_edges_def)
    with "2.IH"(2) [OF Some refl] 2(3-5) Some show ?thesis by (auto simp: push_successors)
  qed
qed simp

lemma reachable_loop_reachable: "reachable_loop c [entry] {entry} = reachable_from c entry"
proof
  let ?R = "reachable_loop c [entry] {entry}"
  have "entry \<in> ?R" and closed: "x \<in> ?R \<Longrightarrow> (x, y) \<in> successor_edges c \<Longrightarrow> y \<in> ?R" for x y
    using reachable_loop_closed [of "{entry}" c "[entry]"] by auto
  then show "reachable_from c entry \<subseteq> ?R"
    unfolding reachable_from_def by (auto elim: rtrancl_induct)
  show "?R \<subseteq> reachable_from c entry"
    by (rule reachable_loop_bound) (auto simp: reachable_from_def intro: rtrancl_into_rtrancl)
qed

text \<open>What one removal and all of them do to a block.\<close>

definition keep_predecessors :: "(MIRBlockIdentifier \<Rightarrow> bool) \<Rightarrow> MIRBasicBlock \<Rightarrow> MIRBasicBlock" where
  "keep_predecessors P b = b\<lparr>predecessorBlocks := filter P (predecessorBlocks b)\<rparr>"

lemma keep_predecessors_simps [simp]:
  "keep_predecessors P (keep_predecessors Q b) = keep_predecessors (\<lambda>x. Q x \<and> P x) b"
  "successorBlocks (keep_predecessors P b) = successorBlocks b"
  "blockInstructions (keep_predecessors P b) = blockInstructions b"
  by (simp_all add: keep_predecessors_def)

lemma keep_predecessors_cong:
  "(\<And>p. P p = Q p) \<Longrightarrow> keep_predecessors P b = keep_predecessors Q b"
  by presburger

lemma keep_all_predecessors: "keep_predecessors (\<lambda>x. True) b = b"
  by (simp add: keep_predecessors_def)

lemma remove_predecessor_fold:
  "length (fold (remove_predecessor x) ss c) = length c"
  "block_at (fold (remove_predecessor x) ss c) j =
     map_option (keep_predecessors (\<lambda>p. p = x \<longrightarrow> j \<notin> unat ` set ss)) (block_at c j)"
proof (induction ss arbitrary: c)
  case Nil
  { case 1 show ?case by simp next
    case 2 show ?case by (cases "block_at c j") (simp_all add: keep_all_predecessors) }
next
  case (Cons s ss)
  { case 1 show ?case using Cons.IH(1) by (simp add: remove_predecessor_def) next
    case 2
    have "block_at (remove_predecessor x s c) j = map_option (keep_predecessors (\<lambda>p. p = x \<longrightarrow> j \<noteq> unat s)) (block_at c j)"
    proof (cases "block_at c j")
      case (Some b)
      show ?thesis
      proof (cases "unat s = j")
        case True
        then show ?thesis
          by (auto simp: remove_predecessor_def block_at_update_block Some keep_predecessors_def intro!: filter_cong)
      next
        case False
        then show ?thesis
          by (simp add: remove_predecessor_def block_at_update_block Some keep_all_predecessors)
      qed
    qed (simp add: remove_predecessor_def block_at_update_block)
    with Cons.IH(2) [of "remove_predecessor x s c"] show ?case
      by (cases "block_at c j") (auto intro!: keep_predecessors_cong) }
qed

definition dead_at :: "MIRBlockIdentifier set \<Rightarrow> cfg \<Rightarrow> nat \<Rightarrow> bool" where
  "dead_at R c k \<longleftrightarrow> block_at c k \<noteq> None \<and> word_of_nat k \<notin> R"

definition after_removal :: "MIRBlockIdentifier set \<Rightarrow> cfg \<Rightarrow> nat \<Rightarrow> nat \<Rightarrow> MIRBasicBlock option" where
  "after_removal R c n j =
     (if j < n \<and> dead_at R c j then None
      else map_option (keep_predecessors (\<lambda>p. \<forall>k < n. dead_at R c k \<longrightarrow> p = word_of_nat k \<longrightarrow>
             (\<forall>b. block_at c k = Some b \<longrightarrow> j \<notin> unat ` set (successorBlocks b)))) (block_at c j))"

lemma remove_dead_fold:
  assumes "n \<le> length c" and "fold (remove_dead R) [0..<n] (False, opt, c) = (changed, opt', c')"
  shows "length c' = length c \<and> (\<forall>j. block_at c' j = after_removal R c n j)
    \<and> changed = (\<exists>k < n. dead_at R c k)
    \<and> totalRemovedBlocks opt' = totalRemovedBlocks opt + int (card {k. k < n \<and> dead_at R c k})
    \<and> totalRemovedInstructions opt' = totalRemovedInstructions opt"
  using assms
proof (induction n arbitrary: changed opt' c')
  case 0
  have "map_option (keep_predecessors (\<lambda>p. True)) x = x" for x
    by (cases x) (simp_all add: keep_all_predecessors)
  with 0 show ?case by (auto simp: after_removal_def)
next
  case (Suc n)
  obtain ch1 o1 c1 where one: "fold (remove_dead R) [0..<n] (False, opt, c) = (ch1, o1, c1)"
    by (cases "fold (remove_dead R) [0..<n] (False, opt, c)")
  from Suc.IH [OF _ one] Suc.prems(1) have IH: "length c1 = length c" "\<And>j. block_at c1 j = after_removal R c n j"
    "ch1 = (\<exists>k < n. dead_at R c k)"
    "totalRemovedBlocks o1 = totalRemovedBlocks opt + int (card {k. k < n \<and> dead_at R c k})"
    "totalRemovedInstructions o1 = totalRemovedInstructions opt"
    by auto
  have step: "remove_dead R n (ch1, o1, c1) = (changed, opt', c')" using Suc.prems(2) one by simp
  have set_less: "{k. k < Suc n \<and> dead_at R c k} = (if dead_at R c n then insert n else id) {k. k < n \<and> dead_at R c k}"
    by (auto simp: less_Suc_eq)
  have card_less: "card {k. k < Suc n \<and> dead_at R c k} = (if dead_at R c n then 1 else 0) + card {k. k < n \<and> dead_at R c k}"
    unfolding set_less by simp
  have ex_less: "(\<exists>k < Suc n. dead_at R c k) \<longleftrightarrow> (\<exists>k < n. dead_at R c k) \<or> dead_at R c n"
    by (auto simp: less_Suc_eq)
  show ?case
  proof (cases "dead_at R c n")
    case False
    then have "block_at c1 n = None \<or> word_of_nat n \<in> R"
      by (auto simp: IH(2) after_removal_def dead_at_def)
    then have "(changed, opt', c') = (ch1, o1, c1)"
      using step by (auto simp: remove_dead_def split: option.splits if_splits)
    moreover have "after_removal R c (Suc n) j = after_removal R c n j" for j
      using False by (auto simp: after_removal_def less_Suc_eq)
    ultimately show ?thesis unfolding card_less ex_less using IH False by simp
  next
    case True
    then obtain b where b: "block_at c n = Some b" by (auto simp: dead_at_def)
    then obtain b1 where b1: "block_at c1 n = Some b1" "successorBlocks b1 = successorBlocks b"
      by (auto simp: IH(2) after_removal_def)
    have res: "changed" "opt' = remove_block o1"
      "c' = (fold (remove_predecessor (word_of_nat n)) (successorBlocks b) c1)[n := None]"
      using step b1 True by (simp_all add: remove_dead_def dead_at_def)
    have n: "n < length c1" using b1(1) by (rule block_at_length)
    have "block_at c' j = after_removal R c (Suc n) j" for j
    proof (cases "j = n")
      case True
      then show ?thesis using n \<open>dead_at R c n\<close>
        by (simp add: res(3) block_at_list_update remove_predecessor_fold after_removal_def)
    next
      case False
      then have "block_at c' j =
          map_option (keep_predecessors (\<lambda>p. p = word_of_nat n \<longrightarrow> j \<notin> unat ` set (successorBlocks b))) (after_removal R c n j)"
        by (simp add: res(3) block_at_list_update remove_predecessor_fold IH(2))
      also have "\<dots> = after_removal R c (Suc n) j"
        using False True b by (cases "block_at c j") (auto simp: after_removal_def less_Suc_eq intro!: keep_predecessors_cong)
      finally show ?thesis .
    qed
    with res IH True show ?thesis
      unfolding card_less ex_less
      by (simp add: remove_predecessor_fold remove_block_def)
  qed
qed

text \<open>
  C21. Removing unreachable blocks leaves exactly the blocks that the entry reaches along the successor lists, takes only the
  removed blocks out of the predecessor lists of the others, changes nothing else, counts what it removes and says whether it
  removed anything.
\<close>

theorem unreachable_blocks_exact:
  "case eliminateUnreachableBlocks opt f of (changed, opt', g) \<Rightarrow>
     let c = controlFlowBlocks f; R = reachable_from c (entryBlockIdentifier f) in
     (\<forall>k. block_at (controlFlowBlocks g) k =
        (if word_of_nat k \<notin> R then None
         else map_option (\<lambda>b. b\<lparr>predecessorBlocks := filter (\<lambda>p. \<not> (\<exists>m d. block_at c m = Some d \<and> word_of_nat m \<notin> R
                \<and> p = word_of_nat m \<and> k \<in> unat ` set (successorBlocks d))) (predecessorBlocks b)\<rparr>) (block_at c k)))
     \<and> g = f\<lparr>controlFlowBlocks := controlFlowBlocks g\<rparr>
     \<and> changed = (\<exists>k. block_at c k \<noteq> None \<and> word_of_nat k \<notin> R)
     \<and> totalRemovedBlocks opt' = totalRemovedBlocks opt + int (card {k. block_at c k \<noteq> None \<and> word_of_nat k \<notin> R})
     \<and> totalRemovedInstructions opt' = totalRemovedInstructions opt"
proof (cases "controlFlowBlocks f = []")
  case True
  then show ?thesis by (auto simp: eliminateUnreachableBlocks_def Let_def block_at_Nil)
next
  case False
  define c where "c = controlFlowBlocks f"
  define R where "R = reachable_from c (entryBlockIdentifier f)"
  obtain changed opt' c' where run: "fold (remove_dead R) [0..<length c] (False, opt, c) = (changed, opt', c')"
    by (cases "fold (remove_dead R) [0..<length c] (False, opt, c)")
  have res: "eliminateUnreachableBlocks opt f = (changed, opt', f\<lparr>controlFlowBlocks := c'\<rparr>)"
    using False run unfolding eliminateUnreachableBlocks_def reachable_loop_reachable
    by (simp add: c_def R_def Let_def del: reachable_loop.simps)
  have dead: "dead_at R c k \<longleftrightarrow> k < length c \<and> dead_at R c k" for k
    by (auto simp: dead_at_def dest: block_at_length)
  have "{k. k < length c \<and> dead_at R c k} = {k. block_at c k \<noteq> None \<and> word_of_nat k \<notin> R}"
    "(\<exists>k < length c. dead_at R c k) = (\<exists>k. block_at c k \<noteq> None \<and> word_of_nat k \<notin> R)"
    using dead by (auto simp: dead_at_def)
  note counts = this
  have "block_at c' k = (if word_of_nat k \<notin> R then None
         else map_option (\<lambda>b. b\<lparr>predecessorBlocks := filter (\<lambda>p. \<not> (\<exists>m d. block_at c m = Some d \<and> word_of_nat m \<notin> R
                \<and> p = word_of_nat m \<and> k \<in> unat ` set (successorBlocks d))) (predecessorBlocks b)\<rparr>) (block_at c k))" for k
  proof -
    have at: "block_at c' k = after_removal R c (length c) k" using remove_dead_fold [OF order_refl run] by blast
    have pred: "(\<lambda>p. \<forall>m < length c. dead_at R c m \<longrightarrow> p = word_of_nat m \<longrightarrow>
             (\<forall>d. block_at c m = Some d \<longrightarrow> k \<notin> unat ` set (successorBlocks d))) =
        (\<lambda>p. \<not> (\<exists>m d. block_at c m = Some d \<and> word_of_nat m \<notin> R \<and> p = word_of_nat m \<and> k \<in> unat ` set (successorBlocks d)))"
      by (rule ext) (auto simp: dead_at_def dest: block_at_length)
    show ?thesis
      unfolding at after_removal_def pred keep_predecessors_def
      using block_at_length [of c k] by (cases "block_at c k") (simp_all add: dead_at_def)
  qed
  with remove_dead_fold [OF order_refl run] show ?thesis
    unfolding res prod.case Let_def c_def [symmetric] R_def [symmetric] counts by simp
qed

text \<open>
  The pass reads the successor lists, which only the liveness analysis fills: on the function with a loop, taken as it was built,
  it removes the reachable blocks 1 and 2; after the analysis it keeps all three.
\<close>

lemma unbuilt_edges_lose_blocks:
  "map (\<lambda>b. b = None) (controlFlowBlocks (snd (snd (eliminateUnreachableBlocks new_MIROptimizer loop_example)))) = [False, True, True]
   \<and> map_option (\<lambda>g. map (\<lambda>b. b = None) (controlFlowBlocks (snd (snd (eliminateUnreachableBlocks new_MIROptimizer g)))))
       (analyze loop_example) = Some [False, False, False]"
  unfolding analyze_loop_example by code_simp

section \<open>The equations of the instructions\<close>

text \<open>
  The values of the variables, and what an instruction with a destination demands of them. The integer operations are those of a
  machine with 64 bits that wraps around; the other kinds of instruction demand any relation \<open>other\<close> between
  the instruction without its operands, the values of its operands and the value of its destination.
\<close>

datatype (plugins only: code size) mir_value = Integer_Value int64 | Float_Value double | Boolean_Value bool | Other_Value nat

type_synonym valuation = "MIRVariableIdentifier \<Rightarrow> mir_value"

type_synonym demand = "MIRInstruction \<Rightarrow> mir_value list \<Rightarrow> (MIRBlockIdentifier \<times> mir_value) list \<Rightarrow> mir_value \<Rightarrow> bool"

definition machine_integer :: "MIRInstructionKind \<Rightarrow> int64 \<Rightarrow> int64 \<Rightarrow> mir_value option" where
  "machine_integer kind l r =
     (case kind of
        AddInteger \<Rightarrow> Some (Integer_Value (l + r))
      | SubtractInteger \<Rightarrow> Some (Integer_Value (l - r))
      | MultiplyInteger \<Rightarrow> Some (Integer_Value (l * r))
      | DivideInteger \<Rightarrow> if r \<noteq> 0 then Some (Integer_Value (word_of_int (sint l sdiv sint r))) else None
      | ModuloInteger \<Rightarrow> if r \<noteq> 0 then Some (Integer_Value (word_of_int (sint l smod sint r))) else None
      | BitwiseAnd \<Rightarrow> Some (Integer_Value (l AND r))
      | BitwiseOr \<Rightarrow> Some (Integer_Value (l OR r))
      | BitwiseXor \<Rightarrow> Some (Integer_Value (l XOR r))
      | ShiftLeft \<Rightarrow> if r < 64 then Some (Integer_Value (push_bit (unat r) l)) else None
      | ShiftRight \<Rightarrow> if r < 64 then Some (Integer_Value (signed_drop_bit (unat r) l)) else None
      | CompareEqual \<Rightarrow> Some (Boolean_Value (l = r))
      | CompareNotEqual \<Rightarrow> Some (Boolean_Value (l \<noteq> r))
      | CompareLessThan \<Rightarrow> Some (Boolean_Value (l <s r))
      | CompareGreaterThan \<Rightarrow> Some (Boolean_Value (r <s l))
      | CompareLessEqual \<Rightarrow> Some (Boolean_Value (l \<le>s r))
      | CompareGreaterEqual \<Rightarrow> Some (Boolean_Value (r \<le>s l))
      | _ \<Rightarrow> None)"

definition machine_float :: "float_ops \<Rightarrow> MIRInstructionKind \<Rightarrow> double \<Rightarrow> double \<Rightarrow> mir_value option" where
  "machine_float ops kind l r = map_option Float_Value (fold_float ops kind l r)"

text \<open>The value that the kind and the values of the operands determine, if they do.\<close>

definition determined :: "float_ops \<Rightarrow> MIRInstruction \<Rightarrow> mir_value list \<Rightarrow> mir_value option" where
  "determined ops ins vs =
     (case instructionKind ins of
        ConstantInteger \<Rightarrow> Some (Integer_Value (integerConstantValue ins))
      | ConstantFloat \<Rightarrow> Some (Float_Value (floatConstantValue ins))
      | ConstantBoolean \<Rightarrow> Some (Boolean_Value (booleanConstantValue ins))
      | _ \<Rightarrow>
        (case vs of
           [Integer_Value l, Integer_Value r] \<Rightarrow> machine_integer (instructionKind ins) l r
         | [Float_Value l, Float_Value r] \<Rightarrow> machine_float ops (instructionKind ins) l r
         | [v] \<Rightarrow>
             (case (instructionKind ins, v) of
                (NegateInteger, Integer_Value x) \<Rightarrow> Some (Integer_Value (- x))
              | (NegateFloat, Float_Value x) \<Rightarrow> Some (Float_Value (float_negate x))
              | (LogicalNot, Boolean_Value x) \<Rightarrow> Some (Boolean_Value (\<not> x))
              | (CopyValue, _) \<Rightarrow> Some v
              | _ \<Rightarrow> None)
         | _ \<Rightarrow> None))"

definition demands :: "demand \<Rightarrow> float_ops \<Rightarrow> valuation \<Rightarrow> MIRInstruction \<Rightarrow> bool" where
  "demands other ops \<rho> ins \<longleftrightarrow>
     destinationVariable ins = INVALID_VARIABLE_IDENTIFIER \<or>
     (case determined ops ins (map \<rho> (sourceOperands ins)) of
        Some v \<Rightarrow> \<rho> (destinationVariable ins) = v
      | None \<Rightarrow> other (ins\<lparr>sourceOperands := [], phiIncomingValues := []\<rparr>) (map \<rho> (sourceOperands ins))
          (map (map_prod id \<rho>) (phiIncomingValues ins)) (\<rho> (destinationVariable ins)))"

definition satisfies_cfg :: "demand \<Rightarrow> float_ops \<Rightarrow> valuation \<Rightarrow> cfg \<Rightarrow> bool" where
  "satisfies_cfg other ops \<rho> c \<longleftrightarrow> (\<forall>ins \<in> set (instructions_of c). demands other ops \<rho> ins)"

section \<open>Constant folding keeps the equations\<close>

lemma host_int_Some: "host_int x = Inr r \<longleftrightarrow> - (2 ^ 63) \<le> x \<and> x < 2 ^ 63 \<and> r = Some (word_of_int x)"
  by (auto simp: host_int_def)

lemma shift_amount:
  fixes r :: int64
  assumes "0 \<le> sint r" and "sint r < 64"
  shows "r < 64" and "nat (sint r) = unat r"
proof -
  have "uint r = sint r"
    using assms uint_sint [of r] by (simp add: take_bit_eq_mod)
  then show "r < 64" "nat (sint r) = unat r" using assms(2) by (simp_all add: word_less_def unat_eq_nat_uint)
qed

lemma fold_integer_machine:
  "fold_integer kind l r = Inr (Some x) \<Longrightarrow> machine_integer kind l r = Some (Integer_Value x)"
  by (cases kind) (auto simp: fold_integer_def machine_integer_def host_int_Some shift_amount split: if_splits)

lemma fold_comparison_machine:
  "fold_comparison kind l r = Some x \<Longrightarrow> machine_integer kind l r = Some (Boolean_Value x)"
  by (cases kind) (auto simp: fold_comparison_def machine_integer_def word_sless_alt word_sle_eq)

lemma fold_float_machine: "fold_float ops kind l r = Some x \<Longrightarrow> machine_float ops kind l r = Some (Float_Value x)"
  by (simp add: machine_float_def)

definition constant_value :: "ConstantValue \<Rightarrow> mir_value" where
  "constant_value x =
     (if constantKind x = ConstantInteger then Integer_Value (const_integerValue x)
      else if constantKind x = ConstantFloat then Float_Value (const_floatValue x)
      else Boolean_Value (const_booleanValue x))"

definition known :: "constants \<Rightarrow> valuation \<Rightarrow> bool" where
  "known m \<rho> \<longleftrightarrow>
     (\<forall>v x. m v = Some x \<longrightarrow> \<rho> v = constant_value x \<and> constantKind x \<in> {ConstantInteger, ConstantFloat, ConstantBoolean})"

lemma known_values:
  assumes "known m \<rho>"
  shows "constant_of ConstantInteger m v = Some x \<Longrightarrow> \<rho> v = Integer_Value (const_integerValue x)"
    and "constant_of ConstantFloat m v = Some x \<Longrightarrow> \<rho> v = Float_Value (const_floatValue x)"
    and "constant_of ConstantBoolean m v = Some x \<Longrightarrow> \<rho> v = Boolean_Value (const_booleanValue x)"
  using assms by (auto simp: known_def constant_of_def constant_value_def split: option.splits if_splits)

lemma constant_value_simps [simp]:
  "constant_value (integer_constant x) = Integer_Value x"
  "constant_value (float_constant y) = Float_Value y"
  "constant_value (boolean_constant b) = Boolean_Value b"
  by (simp_all add: constant_value_def integer_constant_def float_constant_def boolean_constant_def)

lemma known_update:
  "known m \<rho> \<Longrightarrow> \<rho> v = Integer_Value x \<Longrightarrow> known (m(v \<mapsto> integer_constant x)) \<rho>"
  "known m \<rho> \<Longrightarrow> \<rho> v = Float_Value y \<Longrightarrow> known (m(v \<mapsto> float_constant y)) \<rho>"
  "known m \<rho> \<Longrightarrow> \<rho> v = Boolean_Value b \<Longrightarrow> known (m(v \<mapsto> boolean_constant b)) \<rho>"
  unfolding known_def by (auto simp: integer_constant_def float_constant_def boolean_constant_def constant_value_def)

text \<open>One stage of the folding of an instruction.\<close>

definition keeps :: "demand \<Rightarrow> float_ops \<Rightarrow> valuation \<Rightarrow> fold_state \<Rightarrow> fold_state \<Rightarrow> bool" where
  "keeps other ops \<rho> s s' \<longleftrightarrow>
     (known (fst (snd s)) \<rho> \<longrightarrow>
        demands other ops \<rho> (snd (snd s')) = demands other ops \<rho> (snd (snd s))
        \<and> (demands other ops \<rho> (snd (snd s')) \<longrightarrow> known (fst (snd s')) \<rho>))
     \<and> destinationVariable (snd (snd s')) = destinationVariable (snd (snd s))"

lemma keeps_refl [simp]: "keeps other ops \<rho> s s"
  by (simp add: keeps_def)

lemma keeps_becomes:
  assumes "destinationVariable ins \<noteq> INVALID_VARIABLE_IDENTIFIER"
  shows "(known m \<rho> \<Longrightarrow> determined ops ins (map \<rho> (sourceOperands ins)) = Some (Integer_Value x))
      \<Longrightarrow> keeps other ops \<rho> (ch, m, ins) (becomes_integer x (ch, m, ins))"
    and "(known m \<rho> \<Longrightarrow> determined ops ins (map \<rho> (sourceOperands ins)) = Some (Float_Value y))
      \<Longrightarrow> keeps other ops \<rho> (ch, m, ins) (becomes_float y (ch, m, ins))"
    and "(known m \<rho> \<Longrightarrow> determined ops ins (map \<rho> (sourceOperands ins)) = Some (Boolean_Value b))
      \<Longrightarrow> keeps other ops \<rho> (ch, m, ins) (becomes_boolean b (ch, m, ins))"
  using assms
  by (simp_all add: keeps_def becomes_integer_def becomes_float_def becomes_boolean_def demands_def known_update,
      simp_all add: determined_def known_update)

lemma determined_binary:
  "instructionKind ins \<notin> {ConstantInteger, ConstantFloat, ConstantBoolean} \<Longrightarrow>
     determined ops ins [Integer_Value l, Integer_Value r] = machine_integer (instructionKind ins) l r"
  "instructionKind ins \<notin> {ConstantInteger, ConstantFloat, ConstantBoolean} \<Longrightarrow>
     determined ops ins [Float_Value x, Float_Value y] = machine_float ops (instructionKind ins) x y"
  by (cases "instructionKind ins"; simp add: determined_def)+

lemma machine_not_constant:
  "machine_integer kind l r = Some v \<Longrightarrow> kind \<notin> {ConstantInteger, ConstantFloat, ConstantBoolean}"
  "machine_float ops kind x y = Some v \<Longrightarrow> kind \<notin> {ConstantInteger, ConstantFloat, ConstantBoolean}"
  by (auto simp: machine_integer_def machine_float_def fold_float_def)

lemma constant_not_folded:
  assumes "kind \<in> {ConstantInteger, ConstantFloat, ConstantBoolean}"
  shows "fold_integer kind l r = Inr None" "fold_comparison kind l r = None" "fold_float ops kind x y = None"
  using assms by (auto simp: fold_integer_def fold_comparison_def fold_float_def)

lemma fold_binary_integer_keeps:
  assumes "fold_binary_integer lop rop (ch, m, ins) = Inr s'" and "sourceOperands ins = [lop, rop]"
  shows "keeps other ops \<rho> (ch, m, ins) s'"
proof (cases "constant_of ConstantInteger m lop = None \<or> constant_of ConstantInteger m rop = None
    \<or> destinationVariable ins = INVALID_VARIABLE_IDENTIFIER")
  case True
  then have "s' = (ch, m, ins)" using assms(1) by (auto simp: fold_binary_integer_def split: option.splits)
  then show ?thesis by simp
next
  case False
  then obtain l r where lr: "constant_of ConstantInteger m lop = Some l" "constant_of ConstantInteger m rop = Some r"
    and d: "destinationVariable ins \<noteq> INVALID_VARIABLE_IDENTIFIER" by auto
  have vals: "map \<rho> (sourceOperands ins) = [Integer_Value (const_integerValue l), Integer_Value (const_integerValue r)]"
    if "known m \<rho>"
    using known_values(1) [OF that] lr assms(2) by simp
  have det: "determined ops ins (map \<rho> (sourceOperands ins)) = Some v"
    if "known m \<rho>" "machine_integer (instructionKind ins) (const_integerValue l) (const_integerValue r) = Some v" for v
    unfolding vals [OF that(1)] determined_binary(1) [OF machine_not_constant(1) [OF that(2)]] by (rule that(2))
  from assms(1) lr d obtain folded where
    folded: "fold_integer (instructionKind ins) (const_integerValue l) (const_integerValue r) = Inr folded"
    and s': "s' = (case folded of Some x \<Rightarrow> becomes_integer x (ch, m, ins)
       | None \<Rightarrow> (case fold_comparison (instructionKind ins) (const_integerValue l) (const_integerValue r) of
            Some x \<Rightarrow> becomes_boolean x (ch, m, ins) | None \<Rightarrow> (ch, m, ins)))"
    by (auto simp: fold_binary_integer_def split: option.splits)
  show ?thesis
  proof (cases folded)
    case (Some x)
    with det [OF _ fold_integer_machine] folded show ?thesis
      unfolding s' by (simp add: keeps_becomes(1) [OF d])
  next
    case None
    with det [OF _ fold_comparison_machine] show ?thesis
      unfolding s' by (auto simp: keeps_becomes(3) [OF d] split: option.split)
  qed
qed

lemma fold_binary_float_keeps:
  assumes "sourceOperands ins = [lop, rop] \<or> instructionKind ins \<in> {ConstantInteger, ConstantFloat, ConstantBoolean}"
  shows "keeps other ops \<rho> (ch, m, ins) (fold_binary_float ops lop rop (ch, m, ins))"
proof (cases "constant_of ConstantFloat m lop = None \<or> constant_of ConstantFloat m rop = None
    \<or> destinationVariable ins = INVALID_VARIABLE_IDENTIFIER")
  case True
  then have "fold_binary_float ops lop rop (ch, m, ins) = (ch, m, ins)"
    by (auto simp: fold_binary_float_def split: option.splits)
  then show ?thesis by simp
next
  case False
  then obtain l r where lr: "constant_of ConstantFloat m lop = Some l" "constant_of ConstantFloat m rop = Some r"
    and d: "destinationVariable ins \<noteq> INVALID_VARIABLE_IDENTIFIER" by auto
  show ?thesis
  proof (cases "fold_float ops (instructionKind ins) (const_floatValue l) (const_floatValue r)")
    case None
    with lr d show ?thesis by (simp add: fold_binary_float_def)
  next
    case (Some x)
    note machine = fold_float_machine [OF Some]
    from assms machine_not_constant(2) [OF machine] have src: "sourceOperands ins = [lop, rop]" by blast
    have det: "determined ops ins (map \<rho> (sourceOperands ins)) = Some (Float_Value x)" if "known m \<rho>"
    proof -
      have "map \<rho> (sourceOperands ins) = [Float_Value (const_floatValue l), Float_Value (const_floatValue r)]"
        using known_values(2) [OF that] lr src by simp
      with machine show ?thesis using determined_binary(2) [OF machine_not_constant(2) [OF machine]] by simp
    qed
    have "fold_binary_float ops lop rop (ch, m, ins) = becomes_float x (ch, m, ins)"
      using lr d Some by (simp add: fold_binary_float_def)
    with keeps_becomes(2) [OF d det] show ?thesis by simp
  qed
qed

lemma determined_unary:
  "instructionKind ins = NegateInteger \<Longrightarrow> determined ops ins [Integer_Value x] = Some (Integer_Value (- x))"
  "instructionKind ins = NegateFloat \<Longrightarrow> determined ops ins [Float_Value y] = Some (Float_Value (float_negate y))"
  "instructionKind ins = LogicalNot \<Longrightarrow> determined ops ins [Boolean_Value b] = Some (Boolean_Value (\<not> b))"
  by (simp_all add: determined_def)

lemma fold_unary_keeps:
  assumes "fold_unary (ch, m, ins) = Inr s'"
  shows "keeps other ops \<rho> (ch, m, ins) s'"
proof (cases "s' = (ch, m, ins)")
  case False
  with assms obtain operand where src: "sourceOperands ins = [operand]"
    and d: "destinationVariable ins \<noteq> INVALID_VARIABLE_IDENTIFIER"
    by (auto simp: fold_unary_def split: list.splits if_splits)
  have vals: "map \<rho> (sourceOperands ins) = [\<rho> operand]" using src by simp
  consider (int) x where "instructionKind ins = NegateInteger" "constant_of ConstantInteger m operand = Some x"
      "s' = becomes_integer (- const_integerValue x) (ch, m, ins)"
    | (float) x where "instructionKind ins = NegateFloat" "constant_of ConstantFloat m operand = Some x"
      "s' = becomes_float (float_negate (const_floatValue x)) (ch, m, ins)"
    | (bool) x where "instructionKind ins = LogicalNot" "constant_of ConstantBoolean m operand = Some x"
      "s' = becomes_boolean (\<not> const_booleanValue x) (ch, m, ins)"
    using assms False src d
    by (auto simp: fold_unary_def host_int_Some split: if_splits option.splits)
  then show ?thesis
  proof cases
    case int
    show ?thesis unfolding int(3)
      by (rule keeps_becomes(1) [OF d]) (unfold vals, drule known_values(1) [OF _ int(2)], simp only: determined_unary(1) [OF int(1)])
  next
    case float
    show ?thesis unfolding float(3)
      by (rule keeps_becomes(2) [OF d]) (unfold vals, drule known_values(2) [OF _ float(2)], simp only: determined_unary(2) [OF float(1)])
  next
    case bool
    show ?thesis unfolding bool(3)
      by (rule keeps_becomes(3) [OF d]) (unfold vals, drule known_values(3) [OF _ bool(2)], simp only: determined_unary(3) [OF bool(1)])
  qed
qed simp

definition constant_kind :: "MIRInstruction \<Rightarrow> bool" where
  "constant_kind ins \<longleftrightarrow> instructionKind ins \<in> {ConstantInteger, ConstantFloat, ConstantBoolean}"

lemma becomes_constant:
  "constant_kind (snd (snd (becomes_integer x s)))" "sourceOperands (snd (snd (becomes_integer x s))) = []"
  "constant_kind (snd (snd (becomes_float y s)))" "sourceOperands (snd (snd (becomes_float y s))) = []"
  "constant_kind (snd (snd (becomes_boolean z s)))" "sourceOperands (snd (snd (becomes_boolean z s))) = []"
  "destinationVariable (snd (snd (becomes_integer x s))) = destinationVariable (snd (snd s))"
  "destinationVariable (snd (snd (becomes_float y s))) = destinationVariable (snd (snd s))"
  "destinationVariable (snd (snd (becomes_boolean z s))) = destinationVariable (snd (snd s))"
  by (cases s, simp add: becomes_integer_def becomes_float_def becomes_boolean_def constant_kind_def)+

lemma fold_binary_integer_cases:
  assumes "fold_binary_integer lop rop (ch, m, ins) = Inr s'"
  shows "s' = (ch, m, ins) \<or> destinationVariable ins \<noteq> INVALID_VARIABLE_IDENTIFIER
     \<and> ((\<exists>x. s' = becomes_integer x (ch, m, ins)) \<or> (\<exists>y. s' = becomes_boolean y (ch, m, ins)))"
proof (cases "constant_of ConstantInteger m lop = None \<or> constant_of ConstantInteger m rop = None
    \<or> destinationVariable ins = INVALID_VARIABLE_IDENTIFIER")
  case True
  then show ?thesis using assms by (auto simp: fold_binary_integer_def split: option.splits)
next
  case False
  then obtain l r where "constant_of ConstantInteger m lop = Some l" "constant_of ConstantInteger m rop = Some r"
    "destinationVariable ins \<noteq> INVALID_VARIABLE_IDENTIFIER" by auto
  with assms show ?thesis
    unfolding fold_binary_integer_def by (auto split: option.splits)
qed

lemma fold_binary_integer_constant:
  assumes "fold_binary_integer lop rop (ch, m, ins) = Inr (ch', m', ins')"
  shows "(ch', m', ins') = (ch, m, ins) \<or> constant_kind ins' \<and> sourceOperands ins' = []"
  using fold_binary_integer_cases [OF assms] becomes_constant(1,2,5,6) [of _ "(ch, m, ins)"] by (metis snd_conv)

lemma fold_binary_float_constant:
  "fold_binary_float ops lop rop (ch, m, ins) = (ch', m', ins') \<Longrightarrow>
     (ch', m', ins') = (ch, m, ins) \<or> constant_kind ins' \<and> sourceOperands ins' = []"
  by (auto simp: fold_binary_float_def becomes_float_def constant_kind_def split: option.splits if_splits)

lemma constant_stays:
  assumes "constant_kind ins"
  shows "fold_binary_integer lop rop (ch, m, ins) = Inr (ch, m, ins)"
    and "fold_binary_float ops lop rop (ch, m, ins) = (ch, m, ins)"
    and "fold_unary (ch, m, ins) = Inr (ch, m, ins)"
  using assms constant_not_folded [of "instructionKind ins"]
  by (auto simp: constant_kind_def fold_binary_integer_def fold_binary_float_def fold_unary_def split: option.split list.split)

lemma record_constant_same: "\<exists>m1. record_constant (ch, m, ins) = (ch, m1, ins)"
  by (simp add: record_constant_def)

lemma fold_instruction_constant:
  assumes "constant_kind ins"
  shows "fold_instruction ops (ch, m, ins) = Inr (record_constant (ch, m, ins))"
proof -
  obtain m1 where r: "record_constant (ch, m, ins) = (ch, m1, ins)"
    using record_constant_same by blast
  show ?thesis
    unfolding fold_instruction_def r Let_def
    by (auto simp: constant_stays [OF assms] split: list.split)
qed

lemma fold_instruction_keeps:
  assumes "fold_instruction ops (ch, m, ins) = Inr s'"
  shows "keeps other ops \<rho> (ch, m, ins) s'"
proof (cases "constant_kind ins")
  case True
  then have s': "s' = record_constant (ch, m, ins)" using assms fold_instruction_constant by simp
  show ?thesis
  proof (cases "destinationVariable ins = INVALID_VARIABLE_IDENTIFIER")
    case False
    with True show ?thesis
      unfolding s' keeps_def
      by (auto simp: constant_kind_def record_constant_def demands_def determined_def intro: known_update)
  qed (simp add: s' record_constant_def)
next
  case False
  then have r: "record_constant (ch, m, ins) = (ch, m, ins)"
    by (simp add: record_constant_def constant_kind_def)
  show ?thesis
  proof (cases "\<exists>lop rop. sourceOperands ins = [lop, rop]")
    case True
    then obtain lop rop where src: "sourceOperands ins = [lop, rop]" by blast
    from assms obtain s2 where s2: "fold_binary_integer lop rop (ch, m, ins) = Inr s2"
      and s': "fold_unary (fold_binary_float ops lop rop s2) = Inr s'"
      unfolding fold_instruction_def r Let_def by (auto simp: src)
    obtain ch2 m2 ins2 where e2: "s2 = (ch2, m2, ins2)" by (cases s2)
    obtain ch3 m3 ins3 where e3: "fold_binary_float ops lop rop s2 = (ch3, m3, ins3)" by (cases "fold_binary_float ops lop rop s2")
    have done3: "s' = (ch3, m3, ins3)" if "sourceOperands ins3 = [] \<or> sourceOperands ins3 = [lop, rop]"
      using s' that unfolding e3 by (auto simp: fold_unary_def)
    note k2 = fold_binary_integer_keeps [OF s2 src, of other ops \<rho>]
    from fold_binary_integer_constant [OF s2 [unfolded e2]] show ?thesis
    proof
      assume same: "(ch2, m2, ins2) = (ch, m, ins)"
      then have "sourceOperands ins3 = [] \<or> sourceOperands ins3 = [lop, rop]"
        using fold_binary_float_constant [OF e3 [unfolded e2]] src by auto
      from done3 [OF this] same show ?thesis
        using fold_binary_float_keeps [of ins lop rop other ops \<rho> ch m] src e3 e2 by simp
    next
      assume const: "constant_kind ins2 \<and> sourceOperands ins2 = []"
      then have "s' = s2" using s' constant_stays [of ins2] by (simp add: e2)
      with k2 show ?thesis by simp
    qed
  next
    case no2: False
    then have "fold_unary (ch, m, ins) = Inr s'"
      using assms unfolding fold_instruction_def r Let_def by (auto split: list.splits)
    then show ?thesis by (rule fold_unary_keeps)
  qed
qed

lemma fold_instructions_keep:
  assumes "fold_instructions ops (ch, m) is = Inr ((ch', m'), is')" and "known m \<rho>"
  shows "(\<forall>i \<in> set is'. demands other ops \<rho> i) = (\<forall>i \<in> set is. demands other ops \<rho> i)
    \<and> ((\<forall>i \<in> set is'. demands other ops \<rho> i) \<longrightarrow> known m' \<rho>)"
  using assms
proof (induction "is" arbitrary: ch m is')
  case (Cons ins "is")
  from Cons.prems(1) obtain ch1 m1 ins1 is1 where one: "fold_instruction ops (ch, m, ins) = Inr (ch1, m1, ins1)"
    and rest: "fold_instructions ops (ch1, m1) is = Inr ((ch', m'), is1)" and is': "is' = ins1 # is1"
    by auto
  from fold_instruction_keeps [OF one, of other \<rho>] Cons.prems(2)
  have k: "demands other ops \<rho> ins1 = demands other ops \<rho> ins" "demands other ops \<rho> ins1 \<Longrightarrow> known m1 \<rho>"
    by (simp_all add: keeps_def)
  show ?case
  proof (cases "demands other ops \<rho> ins1")
    case True
    from Cons.IH [OF rest k(2) [OF True]] k True show ?thesis by (simp add: is')
  next
    case False
    with k show ?thesis by (simp add: is')
  qed
qed simp

lemma instructions_of_simps [simp]:
  "instructions_of [] = []"
  "instructions_of (None # c) = instructions_of c"
  "instructions_of (Some b # c) = blockInstructions b @ instructions_of c"
  by (simp_all add: instructions_of_def)

lemma fold_blocks_keep:
  assumes "fold_blocks ops st c = Inr (st', c')" and "known (snd st) \<rho>"
  shows "satisfies_cfg other ops \<rho> c' = satisfies_cfg other ops \<rho> c
    \<and> (satisfies_cfg other ops \<rho> c' \<longrightarrow> known (snd st') \<rho>)"
  using assms
proof (induction ops st c arbitrary: c' rule: fold_blocks.induct)
  case (3 ops st b c)
  from "3.prems"(1) obtain st1 "is" c1 where "is": "fold_instructions ops st (blockInstructions b) = Inr (st1, is)"
    and rest: "fold_blocks ops st1 c = Inr (st', c1)" and c': "c' = Some (b\<lparr>blockInstructions := is\<rparr>) # c1"
    by auto
  have k: "(\<forall>i \<in> set is. demands other ops \<rho> i) = (\<forall>i \<in> set (blockInstructions b). demands other ops \<rho> i)"
    "(\<forall>i \<in> set is. demands other ops \<rho> i) \<Longrightarrow> known (snd st1) \<rho>"
    using fold_instructions_keep [of ops "fst st" "snd st" "blockInstructions b" "fst st1" "snd st1" "is" \<rho> other]
      "is" "3.prems"(2) by auto
  show ?case
  proof (cases "\<forall>i \<in> set is. demands other ops \<rho> i")
    case True
    from "3.IH" [OF rest k(2) [OF True]] k True show ?thesis by (auto simp: c' satisfies_cfg_def)
  next
    case False
    with k show ?thesis by (auto simp: c' satisfies_cfg_def)
  qed
qed (auto simp: satisfies_cfg_def)

text \<open>What else folding leaves as it was: it changes instructions in place, and only into constants.\<close>

definition folded_to :: "MIRInstruction \<Rightarrow> MIRInstruction \<Rightarrow> bool" where
  "folded_to ins ins' \<longleftrightarrow> ins' = ins \<or>
     constant_kind ins' \<and> sourceOperands ins' = [] \<and> destinationVariable ins' = destinationVariable ins
     \<and> destinationVariable ins \<noteq> INVALID_VARIABLE_IDENTIFIER \<and> length (sourceOperands ins) \<in> {1, 2}"

lemma fold_unary_cases:
  assumes "fold_unary (ch, m, ins) = Inr s'"
  shows "s' = (ch, m, ins) \<or> destinationVariable ins \<noteq> INVALID_VARIABLE_IDENTIFIER \<and> length (sourceOperands ins) = 1
     \<and> ((\<exists>x. s' = becomes_integer x (ch, m, ins)) \<or> (\<exists>x. s' = becomes_float x (ch, m, ins))
        \<or> (\<exists>x. s' = becomes_boolean x (ch, m, ins)))"
  using assms by (auto simp: fold_unary_def host_int_Some split: list.splits if_splits option.splits)

lemma fold_binary_float_cases:
  "fold_binary_float ops lop rop (ch, m, ins) = (ch, m, ins) \<or> destinationVariable ins \<noteq> INVALID_VARIABLE_IDENTIFIER
     \<and> (\<exists>x. fold_binary_float ops lop rop (ch, m, ins) = becomes_float x (ch, m, ins))"
  by (auto simp: fold_binary_float_def split: option.splits)

lemma fold_instruction_to:
  assumes "fold_instruction ops (ch, m, ins) = Inr (ch', m', ins')"
  shows "folded_to ins ins'"
proof -
  obtain m1 where r: "record_constant (ch, m, ins) = (ch, m1, ins)"
    using record_constant_same by blast
  have int: "folded_to ins (snd (snd s))" if "fold_binary_integer lop rop (ch, m1, ins) = Inr s" "sourceOperands ins = [lop, rop]"
    for lop rop s
    using fold_binary_integer_cases [OF that(1)] that(2) becomes_constant [of _ "(ch, m1, ins)"]
    by (auto simp: folded_to_def)
  have flt: "folded_to ins (snd (snd (fold_binary_float ops lop rop s)))" if "folded_to ins (snd (snd s))" "sourceOperands ins = [lop, rop]"
    for lop rop s
  proof -
    obtain ch2 m2 i where s: "s = (ch2, m2, i)" by (cases s)
    show ?thesis
      using fold_binary_float_cases [of ops lop rop ch2 m2 i] that becomes_constant(3,4,8) [of _ "(ch2, m2, i)"]
      unfolding s by (auto simp: folded_to_def)
  qed
  have un: "folded_to ins (snd (snd t))" if "fold_unary s = Inr t" "folded_to ins (snd (snd s))" for s t
  proof -
    obtain ch2 m2 i where s: "s = (ch2, m2, i)" by (cases s)
    show ?thesis
      using fold_unary_cases [OF that(1) [unfolded s]] that(2) becomes_constant [of _ "(ch2, m2, i)"]
      unfolding s by (elim disjE exE conjE) (auto simp: folded_to_def)
  qed
  have start: "folded_to ins (snd (snd (ch, m1, ins)))" by (simp add: folded_to_def)
  show ?thesis
  proof (cases "\<exists>lop rop. sourceOperands ins = [lop, rop]")
    case True
    then obtain lop rop where src: "sourceOperands ins = [lop, rop]" by blast
    from assms obtain s2 where "fold_binary_integer lop rop (ch, m1, ins) = Inr s2"
      and "fold_unary (fold_binary_float ops lop rop s2) = Inr (ch', m', ins')"
      unfolding fold_instruction_def r Let_def by (auto simp: src)
    from un [OF this(2) flt [OF int [OF this(1) src] src]] show ?thesis by simp
  next
    case False
    then have "fold_unary (ch, m1, ins) = Inr (ch', m', ins')"
      using assms unfolding fold_instruction_def r Let_def by (auto split: list.splits)
    from un [OF this start] show ?thesis by simp
  qed
qed

lemma fold_instructions_to:
  "fold_instructions ops st is = Inr (st', is') \<Longrightarrow> list_all2 folded_to is is'"
proof (induction ops st "is" arbitrary: is' rule: fold_instructions.induct)
  case (2 ops st ins "is")
  then obtain ch1 m1 ins1 is1 where one: "fold_instruction ops (fst st, snd st, ins) = Inr (ch1, m1, ins1)"
    and rest: "fold_instructions ops (ch1, m1) is = Inr (st', is1)" and is': "is' = ins1 # is1"
    by auto
  from "2.IH" [OF rest] fold_instruction_to [OF one] show ?case by (simp add: is')
qed simp

lemma fold_blocks_to:
  "fold_blocks ops st c = Inr (st', c') \<Longrightarrow> list_all2 folded_to (instructions_of c) (instructions_of c')"
  by (induction ops st c arbitrary: c' rule: fold_blocks.induct)
    (auto dest!: fold_instructions_to intro!: list_all2_appendI)

text \<open>
  C17. Constant folding keeps the equations of a function: the same assignments of values to variables satisfy them before and after,
  with integer operations that wrap around at 64 bits, the given operations on \<^verbatim>\<open>double\<close>, and
  whatever the other instructions demand. It changes only instructions with one or two operands and a destination, in place and into
  constants.
\<close>

theorem fold_constants_equations:
  assumes "foldConstants ops f = Inr (changed, g)"
  shows "satisfies_cfg other ops \<rho> (controlFlowBlocks g) = satisfies_cfg other ops \<rho> (controlFlowBlocks f)
    \<and> list_all2 folded_to (instructions_of (controlFlowBlocks f)) (instructions_of (controlFlowBlocks g))"
proof -
  from assms obtain m c where run: "fold_blocks ops (False, Map.empty) (controlFlowBlocks f) = Inr ((changed, m), c)"
    and g: "g = f\<lparr>controlFlowBlocks := c\<rparr>"
    by (auto simp: foldConstants_def)
  have "known (snd (False, Map.empty)) \<rho>" by (simp add: known_def)
  from fold_blocks_keep [OF run this] fold_blocks_to [OF run] show ?thesis by (simp add: g)
qed

definition some_float_ops :: float_ops where
  "some_float_ops = \<lparr>float_add = (\<lambda>x y. x), float_subtract = (\<lambda>x y. x), float_multiply = (\<lambda>x y. x), float_divide = (\<lambda>x y. x)\<rparr>"

definition constant_instruction :: "MIRVariableIdentifier \<Rightarrow> int64 \<Rightarrow> MIRInstruction" where
  "constant_instruction d x = (make_instruction ConstantInteger d [])\<lparr>integerConstantValue := x\<rparr>"

definition one_block :: "MIRInstruction list \<Rightarrow> MIRFunctionDefinition" where
  "one_block is = new_MIRFunctionDefinition\<lparr>controlFlowBlocks := [Some (make_block 0 is)]\<rparr>"

text \<open>\<open>2 + 3\<close>, negated, compared with \<open>0\<close>.\<close>

definition fold_example :: MIRFunctionDefinition where
  "fold_example = one_block
     [constant_instruction 0 2, constant_instruction 1 3, make_instruction AddInteger 2 [0, 1],
      make_instruction NegateInteger 3 [2], make_instruction CompareLessThan 4 [3, 0],
      make_instruction ReturnValue INVALID_VARIABLE_IDENTIFIER [4]]"

lemma fold_example_folded:
  "foldConstants some_float_ops fold_example = Inr (True, one_block
     [constant_instruction 0 2, constant_instruction 1 3, constant_instruction 2 5, constant_instruction 3 (- 5),
      (make_instruction ConstantBoolean 4 [])\<lparr>booleanConstantValue := True\<rparr>,
      make_instruction ReturnValue INVALID_VARIABLE_IDENTIFIER [4]])"
  by code_simp

theorem fold_constants_equations_witness:
  "\<exists>g. foldConstants some_float_ops fold_example = Inr (True, g) \<and>
     (satisfies_cfg (\<lambda>_ _ _ _. True) some_float_ops (\<lambda>v. Integer_Value 0) (controlFlowBlocks g)
        = satisfies_cfg (\<lambda>_ _ _ _. True) some_float_ops (\<lambda>v. Integer_Value 0) (controlFlowBlocks fold_example)
      \<and> list_all2 folded_to (instructions_of (controlFlowBlocks fold_example)) (instructions_of (controlFlowBlocks g)))"
  using fold_constants_equations [OF fold_example_folded] fold_example_folded by blast

text \<open>
  Folding computes with the signed arithmetic of the host and tests the divisor only against zero: the smallest integer
  divided by minus one, and the largest integer plus one, have no value in C++ and leave the pass undefined; a zero divisor does not.
\<close>

lemma fold_undefined_arithmetic:
  "foldConstants some_float_ops (one_block [constant_instruction 0 0x8000000000000000, constant_instruction 1 (- 1),
      make_instruction DivideInteger 2 [0, 1]]) = Inl UndefinedArithmetic
   \<and> foldConstants some_float_ops (one_block [constant_instruction 0 0x7FFFFFFFFFFFFFFF, constant_instruction 1 1,
      make_instruction AddInteger 2 [0, 1]]) = Inl UndefinedArithmetic
   \<and> foldConstants some_float_ops (one_block [constant_instruction 0 7, constant_instruction 1 0,
      make_instruction DivideInteger 2 [0, 1]])
     = Inr (False, one_block [constant_instruction 0 7, constant_instruction 1 0, make_instruction DivideInteger 2 [0, 1]])"
  by (intro conjI; code_simp)

section \<open>Copy propagation keeps the equations\<close>

lemma set_update_subset: "set (AList.update k v m) \<subseteq> insert (k, v) (set m)"
  by (induction m) auto

definition copies_from :: "MIRInstruction \<Rightarrow> MIRVariableIdentifier \<Rightarrow> MIRVariableIdentifier \<Rightarrow> bool" where
  "copies_from i x s \<longleftrightarrow> instructionKind i = CopyValue \<and> sourceOperands i = [s] \<and> destinationVariable i = x
     \<and> x \<noteq> INVALID_VARIABLE_IDENTIFIER"

lemma record_copy_entries:
  assumes "distinct (map fst m)"
  shows "distinct (map fst (record_copy i m))"
    and "(x, s) \<in> set (record_copy i m) \<Longrightarrow> (x, s) \<in> set m \<or> copies_from i x s"
  using assms set_update_subset [of "destinationVariable i" "hd (sourceOperands i)" m]
  by (auto simp: record_copy_def distinct_update length_Suc_conv copies_from_def split: if_splits)

lemma record_copies:
  assumes "distinct (map fst m)"
  shows "distinct (map fst (fold record_copy is m))"
    and "(x, s) \<in> set (fold record_copy is m) \<Longrightarrow> (x, s) \<in> set m \<or> (\<exists>i \<in> set is. copies_from i x s)"
  using assms
proof (induction "is" arbitrary: m)
  case (Cons i "is")
  { case 1 then show ?case using Cons.IH(1) record_copy_entries(1) by simp next
    case 2 then show ?case using Cons.IH(2) [of "record_copy i m"] record_copy_entries(2) [of m x s i]
        record_copy_entries(1) [of m i] by auto }
qed simp_all

lemma copy_map_entries:
  "distinct (map fst (copy_map_of c))"
  "(x, s) \<in> set (copy_map_of c) \<Longrightarrow> \<exists>i \<in> set (instructions_of c). copies_from i x s"
  using record_copies(1) [of "[]" "instructions_of c"] record_copies(2) [of "[]" x s "instructions_of c"]
  by (auto simp: copy_map_of_def)

lemma resolve_copy_end:
  "(x, resolve_copy m V x) \<in> (set m)\<^sup>* \<and> (map_of m (resolve_copy m V x) = None
     \<or> resolve_copy m V x \<in> V \<or> (resolve_copy m V x, resolve_copy m V x) \<in> (set m)\<^sup>+)"
proof (induction m V x rule: resolve_copy.induct)
  case (1 m V x)
  show ?case
  proof (cases "map_of m x = None \<or> x \<in> V")
    case True
    then show ?thesis by (subst (1 2 3 4 5) resolve_copy.simps) (auto split: option.split)
  next
    case False
    then obtain s where s: "map_of m x = Some s" and "x \<notin> V" by auto
    define y where "y = resolve_copy m (insert x V) s"
    have step: "(x, s) \<in> set m" using s by (rule map_of_SomeD)
    have eq: "resolve_copy m V x = y" using s \<open>x \<notin> V\<close> by (subst resolve_copy.simps) (simp add: y_def)
    from "1.IH" [OF s \<open>x \<notin> V\<close>] have y: "(s, y) \<in> (set m)\<^sup>*"
      "map_of m y = None \<or> y \<in> insert x V \<or> (y, y) \<in> (set m)\<^sup>+"
      by (simp_all add: y_def)
    have "(x, y) \<in> (set m)\<^sup>+" using step y(1) by (rule rtrancl_into_trancl2)
    then show ?thesis unfolding eq using y(2) by (auto dest: trancl_into_rtrancl)
  qed
qed

text \<open>The entries while the loop over the copies runs, with the copies of the program as \<open>G\<close>.\<close>

definition between :: "(MIRVariableIdentifier \<times> MIRVariableIdentifier) set \<Rightarrow> copy_map \<Rightarrow> bool" where
  "between G m \<longleftrightarrow> distinct (map fst m) \<and> fst ` set m = Domain G \<and> set m \<subseteq> G\<^sup>+"

lemma resolve_entry_between:
  assumes "between G m" and "acyclic G" and "k \<in> Domain G"
  shows "between G (resolve_entry k m) \<and> (\<exists>y. map_of (resolve_entry k m) k = Some y \<and> y \<notin> Domain G)
    \<and> (\<forall>j. j \<noteq> k \<longrightarrow> map_of (resolve_entry k m) j = map_of m j)"
proof -
  obtain s where s: "map_of m k = Some s"
    using assms(1,3) by (metis between_def map_of_eq_None_iff option.exhaust)
  define y where "y = resolve_copy m {k} s"
  have ks: "(k, s) \<in> G\<^sup>+" using assms(1) map_of_SomeD [OF s] by (auto simp: between_def)
  have sub: "(set m)\<^sup>* \<subseteq> G\<^sup>*" "(set m)\<^sup>+ \<subseteq> G\<^sup>+"
    using assms(1) rtrancl_mono [of "set m" "G\<^sup>+"] trancl_mono_subset [of "set m" "G\<^sup>+"] by (auto simp: between_def)
  have y: "(s, y) \<in> G\<^sup>*" "map_of m y = None \<or> y = k \<or> (y, y) \<in> G\<^sup>+"
    using resolve_copy_end [of s m "{k}"] sub by (auto simp: y_def)
  have ky: "(k, y) \<in> G\<^sup>+" using ks y(1) by (rule trancl_rtrancl_trancl)
  with y(2) assms(2) have "map_of m y = None" by (auto simp: acyclic_def)
  then have fin: "y \<notin> Domain G" using assms(1) by (auto simp: between_def map_of_eq_None_iff)
  have eq: "resolve_entry k m = AList.update k y m" by (simp add: resolve_entry_def s y_def)
  have k: "k \<in> fst ` set m" using s by (metis map_of_eq_None_iff option.distinct(1))
  have "between G (AList.update k y m)"
    using assms(1) ky k unfolding between_def
    by (auto simp: distinct_update dom_update dest: set_update_subset [THEN subsetD])
  with fin show ?thesis by (simp add: eq update_conv)
qed

lemma resolve_fold_between:
  assumes "between G m" and "acyclic G" and "set ks \<subseteq> Domain G"
  shows "between G (fold resolve_entry ks m)
    \<and> (\<forall>k. (k \<in> set ks \<or> (\<exists>y. map_of m k = Some y \<and> y \<notin> Domain G)) \<longrightarrow>
         (\<exists>y. map_of (fold resolve_entry ks m) k = Some y \<and> y \<notin> Domain G))"
  using assms(1,3)
proof (induction ks arbitrary: m)
  case (Cons k ks)
  from resolve_entry_between [OF Cons.prems(1) assms(2), of k] Cons.prems(2)
  have one: "between G (resolve_entry k m)" "\<exists>y. map_of (resolve_entry k m) k = Some y \<and> y \<notin> Domain G"
    "\<And>j. j \<noteq> k \<Longrightarrow> map_of (resolve_entry k m) j = map_of m j"
    by auto
  have IH: "between G (fold resolve_entry ks (resolve_entry k m))"
    "\<And>j. j \<in> set ks \<or> (\<exists>y. map_of (resolve_entry k m) j = Some y \<and> y \<notin> Domain G) \<Longrightarrow>
         \<exists>y. map_of (fold resolve_entry ks (resolve_entry k m)) j = Some y \<and> y \<notin> Domain G"
    using Cons.IH [OF one(1)] Cons.prems(2) by auto
  have "\<exists>y. map_of (fold resolve_entry ks (resolve_entry k m)) j = Some y \<and> y \<notin> Domain G"
    if "j \<in> set (k # ks) \<or> (\<exists>y. map_of m j = Some y \<and> y \<notin> Domain G)" for j
    by (rule IH(2)) (use that one(2,3) in \<open>cases "j = k"; auto\<close>)
  with IH(1) show ?case by simp
qed simp

lemma end_unique:
  assumes "(x, y) \<in> G\<^sup>*" "y \<notin> Domain G" "(x, z) \<in> G\<^sup>*" "z \<notin> Domain G" "single_valued G"
  shows "y = z"
  using assms
proof (induction rule: converse_rtrancl_induct)
  case base
  then show ?case by (auto elim: converse_rtranclE)
next
  case (step x w)
  have "x \<noteq> z" using step.hyps(1) step.prems(3) by auto
  then obtain w' where w': "(x, w') \<in> G" "(w', z) \<in> G\<^sup>*"
    using step.prems(2) by (blast elim: converse_rtranclE)
  with step.hyps(1) step.prems(4) have "w' = w" by (blast dest: single_valuedD)
  with w' step.IH step.prems show ?case by blast
qed

lemma distinct_single_valued: "distinct (map fst m) \<Longrightarrow> single_valued (set m)"
  by (intro single_valuedI) (metis map_of_is_SomeI option.inject)

text \<open>The result of the loop: the end of the chain of copies of each copied variable, in whatever order.\<close>

lemma resolve_copies_ends:
  assumes "distinct (map fst m)" and "acyclic (set m)" and "\<And>ks. set (order ks) = set ks"
  shows "fst ` set (resolve_copies order m) = Domain (set m)"
    and "map_of (resolve_copies order m) k = Some y \<Longrightarrow> (k, y) \<in> (set m)\<^sup>+ \<and> y \<notin> Domain (set m)"
    and "distinct (map fst (resolve_copies order m))"
proof -
  have start: "between (set m) m" using assms(1) by (auto simp: between_def Domain_fst)
  have keys: "set (order (map fst m)) = Domain (set m)" by (simp add: assms(3) Domain_fst)
  from resolve_fold_between [OF start assms(2), of "order (map fst m)"]
  have res: "between (set m) (resolve_copies order m)"
    "\<And>k. k \<in> Domain (set m) \<Longrightarrow> \<exists>y. map_of (resolve_copies order m) k = Some y \<and> y \<notin> Domain (set m)"
    unfolding resolve_copies_def keys by auto
  then show "fst ` set (resolve_copies order m) = Domain (set m)" "distinct (map fst (resolve_copies order m))"
    by (simp_all add: between_def)
  assume k: "map_of (resolve_copies order m) k = Some y"
  then have "(k, y) \<in> set (resolve_copies order m)" by (rule map_of_SomeD)
  with res(1) have "(k, y) \<in> (set m)\<^sup>+" "k \<in> Domain (set m)"
    unfolding between_def by (blast, metis fst_conv image_eqI)
  with res(2) [of k] k show "(k, y) \<in> (set m)\<^sup>+ \<and> y \<notin> Domain (set m)" by auto
qed

definition ends_of :: "copy_map \<Rightarrow> MIRVariableIdentifier \<Rightarrow> MIRVariableIdentifier \<Rightarrow> bool" where
  "ends_of m k y \<longleftrightarrow> (k, y) \<in> (set m)\<^sup>+ \<and> y \<notin> Domain (set m)"

lemma ends_of_unique:
  assumes "distinct (map fst m)" "ends_of m k y" "ends_of m k z"
  shows "y = z"
  using end_unique [of k y "set m" z] assms distinct_single_valued [OF assms(1)]
  by (auto simp: ends_of_def dest: trancl_into_rtrancl)

lemma resolve_copies_map:
  assumes "distinct (map fst m)" and "acyclic (set m)" and "\<And>ks. set (order ks) = set ks"
  shows "map_of (resolve_copies order m) k = (if k \<in> Domain (set m) then Some (THE y. ends_of m k y) else None)"
proof (cases "k \<in> Domain (set m)")
  case True
  with resolve_copies_ends(1) [OF assms] obtain y where y: "map_of (resolve_copies order m) k = Some y"
    by (metis map_of_eq_None_iff not_None_eq)
  with resolve_copies_ends(2) [OF assms y] have "ends_of m k y" by (simp add: ends_of_def)
  then have "(THE y. ends_of m k y) = y" using ends_of_unique [OF assms(1)] by (intro the_equality) blast+
  with True y show ?thesis by simp
next
  case False
  with resolve_copies_ends(1) [OF assms] show ?thesis by (simp add: map_of_eq_None_iff)
qed

lemma demands_propagate:
  assumes "\<And>v. \<rho> (replaced r v) = \<rho> v"
  shows "demands other ops \<rho> (propagate_instruction r i) = demands other ops \<rho> i"
proof -
  have srcs: "map \<rho> (map (replaced r) vs) = map \<rho> vs" for vs by (simp add: assms)
  have phis: "map (map_prod id \<rho>) (map (map_prod id (replaced r)) ps) = map (map_prod id \<rho>) ps"
    for ps :: "(MIRBlockIdentifier \<times> MIRVariableIdentifier) list" by (auto simp: assms)
  have kept: "instructionKind (propagate_instruction r i) = instructionKind i"
    "integerConstantValue (propagate_instruction r i) = integerConstantValue i"
    "floatConstantValue (propagate_instruction r i) = floatConstantValue i"
    "booleanConstantValue (propagate_instruction r i) = booleanConstantValue i"
    by (simp_all add: propagate_instruction_def)
  have det: "determined ops (propagate_instruction r i) vs = determined ops i vs" for vs
    unfolding determined_def kept ..
  have fields: "sourceOperands (propagate_instruction r i) = map (replaced r) (sourceOperands i)"
    "phiIncomingValues (propagate_instruction r i) = map (map_prod id (replaced r)) (phiIncomingValues i)"
    "destinationVariable (propagate_instruction r i) = destinationVariable i"
    "(propagate_instruction r i)\<lparr>sourceOperands := [], phiIncomingValues := []\<rparr> = i\<lparr>sourceOperands := [], phiIncomingValues := []\<rparr>"
    by (simp_all add: propagate_instruction_def)
  show ?thesis unfolding demands_def det fields srcs phis ..
qed

lemma instructions_of_map:
  "instructions_of (map (map_option (\<lambda>b. b\<lparr>blockInstructions := map h (blockInstructions b)\<rparr>)) c) = map h (instructions_of c)"
  by (induction c) (auto simp: instructions_of_def split: option.splits)

lemma copies_demand:
  "copies_from i x s \<Longrightarrow> demands other ops \<rho> i \<longleftrightarrow> \<rho> x = \<rho> s"
  by (cases "\<rho> s") (auto simp: copies_from_def demands_def determined_def)

lemma propagated_copies_demand:
  "copies_from i x s \<Longrightarrow> demands other ops \<rho> (propagate_instruction r i) \<longleftrightarrow> \<rho> x = \<rho> (replaced r s)"
  by (rule copies_demand) (simp add: copies_from_def propagate_instruction_def)


definition copy_example :: MIRFunctionDefinition where
  "copy_example = one_block
     [make_instruction CopyValue 1 [0], make_instruction CopyValue 2 [1],
      make_instruction ReturnValue INVALID_VARIABLE_IDENTIFIER [2]]"

lemma copy_example_copies: "copy_map_of (controlFlowBlocks copy_example) = [(1, 0), (2, 1)]"
  by code_simp

lemma copy_example_result:
  "propagateCopies rev copy_example = (True, one_block
     [make_instruction CopyValue 1 [0], make_instruction CopyValue 2 [0],
      make_instruction ReturnValue INVALID_VARIABLE_IDENTIFIER [0]])"
  by code_simp


text \<open>
  Copy propagation does not look at what happens between a copy and its use: if the source is stored to in between, the use reads the new
  value; and on a circle of copies the result depends on the order in which the hash map is visited, and the pass reports a change
  for ever.
\<close>

lemma propagate_copies_reassigned:
  "propagateCopies id (one_block [make_instruction CopyValue 1 [0], make_instruction StoreVariable 0 [2],
      make_instruction ReturnValue INVALID_VARIABLE_IDENTIFIER [1]])
    = (True, one_block [make_instruction CopyValue 1 [0], make_instruction StoreVariable 0 [2],
      make_instruction ReturnValue INVALID_VARIABLE_IDENTIFIER [0]])
   \<and> (let circle = one_block [make_instruction CopyValue 1 [0], make_instruction CopyValue 0 [1]] in
      propagateCopies id circle \<noteq> propagateCopies rev circle
      \<and> fst (propagateCopies id (snd (propagateCopies id circle))))"
  by code_simp

section \<open>Dead stores\<close>

definition no_phis :: "cfg \<Rightarrow> bool" where
  "no_phis c \<longleftrightarrow> (\<forall>i \<in> set (instructions_of c). phiIncomingValues i = [])"

text \<open>The positions at which a block loses a store, and the rest of the block.\<close>

definition kept_positions :: "MIRVariableIdentifier set \<Rightarrow> MIRInstruction list \<Rightarrow> MIRVariableIdentifier set \<Rightarrow> nat set" where
  "kept_positions kept is out =
     {k. k < length is \<and> \<not> (instructionKind (is ! k) = StoreVariable
        \<and> destinationVariable (is ! k) \<noteq> INVALID_VARIABLE_IDENTIFIER \<and> destinationVariable (is ! k) \<notin> kept
        \<and> \<not> reads_first (drop (Suc k) is) (destinationVariable (is ! k))
        \<and> (destinationVariable (is ! k) \<in> assigned (drop (Suc k) is) \<or> destinationVariable (is ! k) \<notin> out))}"

lemma scan_needed:
  assumes "\<forall>i \<in> set is. phiIncomingValues i = []"
  shows "fst (snd (scan_stores kept is (opt, out, [])))
    = {v. reads_first is v} \<union> (out - assigned is)"
  using assms
proof (induction "is")
  case (Cons i "is")
  obtain o1 n1 s1 where run: "scan_stores kept is (opt, out, []) = (o1, n1, s1)"
    by (cases "scan_stores kept is (opt, out, [])")
  have u: "uses i = set (sourceOperands i) - {INVALID_VARIABLE_IDENTIFIER}" using Cons.prems by (simp add: uses_def)
  have n1: "n1 = {v. reads_first is v} \<union> (out - assigned is)" using Cons run by simp
  have step: "fst (snd (scan_stores kept (i # is) (opt, out, []))) = needed_before i n1"
    using run by (simp add: scan_stores_def)
  have a: "assigned (i # is) = assigned is \<union> ({destinationVariable i} - {INVALID_VARIABLE_IDENTIFIER})"
    by (auto simp: assigned_def)
  have r: "reads_first is INVALID_VARIABLE_IDENTIFIER = False" using reads_first_valid by blast
  show ?case
    unfolding step needed_before_def n1 a reads_first.simps u [symmetric]
    by (cases "destinationVariable i = INVALID_VARIABLE_IDENTIFIER") (use r in auto)
qed (auto simp: scan_stores_def assigned_def)

lemma nths_Cons_shift: "nths (x # xs) A = (if 0 \<in> A then [x] else []) @ nths xs {k. Suc k \<in> A}"
  by (simp add: nths_Cons)

lemma scan_survivors:
  assumes "\<forall>i \<in> set is. phiIncomingValues i = []"
  shows "snd (snd (scan_stores kept is (opt, out, []))) = nths is (kept_positions kept is out)"
  using assms
proof (induction "is")
  case (Cons i "is")
  obtain o1 n1 s1 where run: "scan_stores kept is (opt, out, []) = (o1, n1, s1)"
    by (cases "scan_stores kept is (opt, out, [])")
  have n1: "n1 = {v. reads_first is v} \<union> (out - assigned is)" and s1: "s1 = nths is (kept_positions kept is out)"
    using Cons run scan_needed [of "is" kept opt out] by auto
  have shift: "{k. Suc k \<in> kept_positions kept (i # is) out} = kept_positions kept is out"
    by (auto simp: kept_positions_def)
  have zero: "0 \<in> kept_positions kept (i # is) out \<longleftrightarrow> \<not> is_dead_store kept n1 i"
    by (auto simp: kept_positions_def is_dead_store_def n1)
  show ?case
    using run by (simp add: nths_Cons_shift shift zero s1 scan_stores_def)
qed (simp add: scan_stores_def)

lemma scan_count:
  "totalRemovedInstructions (fst (scan_stores kept is (opt, out, [])))
     = totalRemovedInstructions opt + int (length is) - int (length (snd (snd (scan_stores kept is (opt, out, [])))))
   \<and> totalRemovedBlocks (fst (scan_stores kept is (opt, out, []))) = totalRemovedBlocks opt"
proof (induction "is")
  case (Cons i "is")
  obtain o1 n1 s1 where run: "scan_stores kept is (opt, out, []) = (o1, n1, s1)"
    by (cases "scan_stores kept is (opt, out, [])")
  with Cons show ?case by (simp add: scan_stores_def remove_instruction_def)
qed (simp add: scan_stores_def)

text \<open>The variables whose stores a block keeps whatever happens to them later.\<close>

definition kept_variables :: "MIRFunctionDefinition \<Rightarrow> MIRBasicBlock \<Rightarrow> MIRVariableIdentifier set" where
  "kept_variables f b =
     gepResultVariables (blockInstructions b) \<union> indirectCallTargetVariables (variableDescriptorTable f) (blockInstructions b)"

definition surviving :: "MIRFunctionDefinition \<Rightarrow> MIRBasicBlock \<Rightarrow> MIRInstruction list" where
  "surviving f b = nths (blockInstructions b) (kept_positions (kept_variables f b) (blockInstructions b) (liveVariablesAtExit b))"

lemma length_nths_le: "length (nths xs A) \<le> length xs"
proof -
  have "card {i. i < length xs \<and> i \<in> A} \<le> card {..<length xs}" by (rule card_mono) auto
  then show ?thesis by (simp add: length_nths)
qed

lemma nths_all: "length (nths xs A) = length xs \<Longrightarrow> nths xs A = xs"
proof (induction xs arbitrary: A)
  case (Cons x xs)
  then show ?case using length_nths_le [of xs "{j. Suc j \<in> A}"] by (auto simp: nths_Cons split: if_splits)
qed simp

lemma store_block_survivors:
  assumes "\<forall>i \<in> set (blockInstructions b). phiIncomingValues i = []"
    and "store_block (variableDescriptorTable f) opt b = (changed, opt', b')"
  shows "b' = b\<lparr>blockInstructions := surviving f b\<rparr> \<and> changed = (surviving f b \<noteq> blockInstructions b)
    \<and> totalRemovedInstructions opt' = totalRemovedInstructions opt
        + (int (length (blockInstructions b)) - int (length (surviving f b)))
    \<and> totalRemovedBlocks opt' = totalRemovedBlocks opt"
proof -
  obtain o1 n1 s1 where run: "scan_stores (kept_variables f b) (blockInstructions b) (opt, liveVariablesAtExit b, []) = (o1, n1, s1)"
    by (cases "scan_stores (kept_variables f b) (blockInstructions b) (opt, liveVariablesAtExit b, [])")
  have s1: "s1 = surviving f b"
    using scan_survivors [OF assms(1), of "kept_variables f b" opt "liveVariablesAtExit b"] run by (simp add: surviving_def)
  have b': "(changed, opt', b') = (if length s1 < length (blockInstructions b)
      then (True, o1, b\<lparr>blockInstructions := s1\<rparr>) else (False, o1, b))"
    using assms(2) run by (simp add: store_block_def kept_variables_def Let_def)
  have count: "totalRemovedInstructions o1 = totalRemovedInstructions opt
      + (int (length (blockInstructions b)) - int (length s1))" "totalRemovedBlocks o1 = totalRemovedBlocks opt"
    using scan_count [of "kept_variables f b" "blockInstructions b" opt "liveVariablesAtExit b"] run by simp_all
  show ?thesis
  proof (cases "length s1 < length (blockInstructions b)")
    case True
    with b' count s1 show ?thesis by auto
  next
    case False
    then have "length s1 = length (blockInstructions b)"
      using length_nths_le [of "blockInstructions b"] by (auto simp: s1 surviving_def intro: le_antisym)
    then have "s1 = blockInstructions b" unfolding s1 surviving_def by (rule nths_all)
    with b' count s1 show ?thesis by simp
  qed
qed

lemma store_blocks_survivors:
  assumes "no_phis c" and "store_blocks (variableDescriptorTable f) opt c = (changed, opt', c')"
  shows "c' = map (map_option (\<lambda>b. b\<lparr>blockInstructions := surviving f b\<rparr>)) c
    \<and> changed = (\<exists>b. Some b \<in> set c \<and> surviving f b \<noteq> blockInstructions b)
    \<and> totalRemovedInstructions opt' = totalRemovedInstructions opt
        + (int (length (instructions_of c)) - int (length (instructions_of c')))
    \<and> totalRemovedBlocks opt' = totalRemovedBlocks opt"
  using assms
proof (induction "variableDescriptorTable f" opt c arbitrary: changed opt' c' rule: store_blocks.induct)
  case (1 opt)
  then show ?case by simp
next
  case (2 opt c)
  then show ?case by (auto simp: no_phis_def split: prod.splits)
next
  case (3 opt b c)
  obtain ch1 o1 b1 where one: "store_block (variableDescriptorTable f) opt b = (ch1, o1, b1)"
    by (cases "store_block (variableDescriptorTable f) opt b")
  obtain ch2 o2 c2 where rest: "store_blocks (variableDescriptorTable f) o1 c = (ch2, o2, c2)"
    by (cases "store_blocks (variableDescriptorTable f) o1 c")
  from 3(3) one rest have res: "changed = (ch1 \<or> ch2)" "opt' = o2" "c' = Some b1 # c2" by auto
  have "no_phis c" "\<forall>i \<in> set (blockInstructions b). phiIncomingValues i = []" using 3(2) by (auto simp: no_phis_def)
  from "3.hyps" [OF one [symmetric] refl refl this(1) rest] store_block_survivors [OF this(2) one] show ?case
    by (auto simp: res)
qed

lemma in_instructions_of:
  "x \<in> set (instructions_of c) \<longleftrightarrow> (\<exists>i b. block_at c i = Some b \<and> x \<in> set (blockInstructions b))"
proof
  assume "x \<in> set (instructions_of c)"
  then obtain b where "Some b \<in> set c" "x \<in> set (blockInstructions b)"
    by (auto simp: instructions_of_def split: option.splits)
  then show "\<exists>i b. block_at c i = Some b \<and> x \<in> set (blockInstructions b)"
    by (metis block_at_def in_set_conv_nth)
next
  assume "\<exists>i b. block_at c i = Some b \<and> x \<in> set (blockInstructions b)"
  then obtain i b where "block_at c i = Some b" "x \<in> set (blockInstructions b)" by blast
  moreover from this(1) have "Some b \<in> set c"
    by (metis block_at_def nth_mem option.distinct(1))
  ultimately show "x \<in> set (instructions_of c)" by (force simp: instructions_of_def)
qed

lemma analyze_no_phis: "analyze f = Some h \<Longrightarrow> no_phis (controlFlowBlocks f) \<Longrightarrow> no_phis (controlFlowBlocks h)"
proof -
  assume h: "analyze f = Some h" and f: "no_phis (controlFlowBlocks f)"
  show "no_phis (controlFlowBlocks h)"
    unfolding no_phis_def
  proof
    fix x
    assume "x \<in> set (instructions_of (controlFlowBlocks h))"
    then obtain i b where b: "block_at (controlFlowBlocks h) i = Some b" "x \<in> set (blockInstructions b)"
      by (auto simp: in_instructions_of)
    from analyze_block [OF h b(1)] obtain b0 where "block_at (controlFlowBlocks f) i = Some b0"
      "blockInstructions b = blockInstructions b0" by metis
    with b(2) f show "phiIncomingValues x = []" by (auto simp: no_phis_def in_instructions_of)
  qed
qed

lemma eliminateDeadStores_survivors:
  assumes "analyze f = Some h" and "no_phis (controlFlowBlocks f)"
  shows "\<exists>opt'. eliminateDeadStores opt f = Inr (\<exists>b. Some b \<in> set (controlFlowBlocks h) \<and> surviving h b \<noteq> blockInstructions b, opt',
      h\<lparr>controlFlowBlocks := map (map_option (\<lambda>b. b\<lparr>blockInstructions := surviving h b\<rparr>)) (controlFlowBlocks h)\<rparr>)"
proof -
  obtain changed opt' c' where run: "store_blocks (variableDescriptorTable h) opt (controlFlowBlocks h) = (changed, opt', c')"
    by (cases "store_blocks (variableDescriptorTable h) opt (controlFlowBlocks h)")
  from store_blocks_survivors [OF analyze_no_phis [OF assms] run] assms(1) run show ?thesis
    by (simp add: eliminateDeadStores_def run_liveness_def)
qed

text \<open>A store that nothing reads later, to a variable that the block does not keep.\<close>

definition dead_store_at :: "MIRFunctionDefinition \<Rightarrow> nat \<Rightarrow> MIRBasicBlock \<Rightarrow> nat \<Rightarrow> bool" where
  "dead_store_at h i b k \<longleftrightarrow>
     instructionKind (blockInstructions b ! k) = StoreVariable
     \<and> destinationVariable (blockInstructions b ! k) \<noteq> INVALID_VARIABLE_IDENTIFIER
     \<and> destinationVariable (blockInstructions b ! k) \<notin> kept_variables h b
     \<and> \<not> live_at (controlFlowBlocks h) (destinationVariable (blockInstructions b ! k)) i (Suc k)"

lemma survivors_sound:
  assumes "analyze f = Some h" and "block_at (controlFlowBlocks h) i = Some b" and "k < length (blockInstructions b)"
    and "k \<notin> kept_positions (kept_variables h b) (blockInstructions b) (liveVariablesAtExit b)"
  shows "dead_store_at h i b k"
proof -
  let ?v = "destinationVariable (blockInstructions b ! k)"
  have "\<not> live_at (controlFlowBlocks h) ?v i (Suc k)"
  proof
    assume "live_at (controlFlowBlocks h) ?v i (Suc k)"
    from solved_sound [OF analyze_returned(2,3) [OF assms(1)] this assms(2)] assms(3,4) show False
      by (auto simp: kept_positions_def)
  qed
  with assms(3,4) show ?thesis by (auto simp: kept_positions_def dead_store_at_def)
qed

lemma survivors_exact:
  assumes "block_at (controlFlowBlocks h) i = Some b" and "k < length (blockInstructions b)"
    and exit: "liveVariablesAtExit b = {v. live_at (controlFlowBlocks h) v i (length (blockInstructions b))}"
    and "dead_store_at h i b k"
  shows "k \<notin> kept_positions (kept_variables h b) (blockInstructions b) (liveVariablesAtExit b)"
proof -
  let ?v = "destinationVariable (blockInstructions b ! k)" and ?c = "controlFlowBlocks h"
  have exit_iff: "v \<in> liveVariablesAtExit b \<longleftrightarrow> (\<exists>s \<in> set (successorBlocks b). live_at ?c v (unat s) 0)" for v
    using live_at_iff [OF assms(1) order_refl] by (simp add: exit assigned_def)
  have "\<not> live_at ?c ?v i (Suc k)" using assms(4) by (simp add: dead_store_at_def)
  then have "\<not> reads_first (drop (Suc k) (blockInstructions b)) ?v
      \<and> (?v \<in> assigned (drop (Suc k) (blockInstructions b)) \<or> ?v \<notin> liveVariablesAtExit b)"
    unfolding exit_iff using live_at_iff [OF assms(1), of "Suc k" ?v] assms(2) by auto
  with assms(4) show ?thesis by (auto simp: kept_positions_def dead_store_at_def)
qed


text \<open>Variable 1 is stored to twice and read once; the first store is dead.\<close>

definition store_example :: MIRFunctionDefinition where
  "store_example = one_block
     [make_instruction StoreVariable 1 [0], make_instruction StoreVariable 1 [2], make_instruction LoadVariable 3 [1],
      make_instruction ReturnValue INVALID_VARIABLE_IDENTIFIER [3]]"

lemma store_example_ok:
  "fresh_cfg (controlFlowBlocks store_example)" "no_phis (controlFlowBlocks store_example)"
  by (simp add: store_example_def one_block_def fresh_cfg_simps)
    (simp add: store_example_def one_block_def no_phis_def make_block_def make_instruction_def new_MIRInstruction_def)


text \<open>
  C24. With any annotations from earlier passes: whenever the removal of dead stores returns, each block keeps its other instructions in their
  order, and what it loses are stores that no path reads.
\<close>

theorem dead_stores_sound:
  assumes "no_phis (controlFlowBlocks f)" and "eliminateDeadStores opt f = Inr (changed, opt', g)"
    and "block_at (controlFlowBlocks g) i = Some b'"
  shows "\<exists>h b A. analyze f = Some h \<and> block_at (controlFlowBlocks h) i = Some b
    \<and> b' = b\<lparr>blockInstructions := nths (blockInstructions b) A\<rparr>
    \<and> (\<forall>k < length (blockInstructions b). k \<notin> A \<longrightarrow> dead_store_at h i b k)"
proof -
  from assms(2) obtain h where h: "analyze f = Some h"
    by (auto simp: eliminateDeadStores_def run_liveness_def split: option.splits)
  from eliminateDeadStores_survivors [OF h assms(1), of opt] assms(2)
  have "controlFlowBlocks g = map (map_option (\<lambda>b. b\<lparr>blockInstructions := surviving h b\<rparr>)) (controlFlowBlocks h)"
    by auto
  with assms(3) obtain b where b: "block_at (controlFlowBlocks h) i = Some b" and b': "b' = b\<lparr>blockInstructions := surviving h b\<rparr>"
    by (auto simp: block_at_map)
  from survivors_sound [OF h b] h b b' show ?thesis unfolding surviving_def by blast
qed

lemma rounds_analyze:
  assumes "rounds n (local_sets (controlFlowBlocks f)) = Some c"
  shows "analyze f = Some (f\<lparr>controlFlowBlocks := c\<rparr>)"
  using rounds_loop [OF assms] by (simp add: analyze_def)

theorem dead_stores_sound_witness:
  "\<exists>changed opt' g b' h b A. eliminateDeadStores new_MIROptimizer store_example = Inr (changed, opt', g)
    \<and> block_at (controlFlowBlocks g) 0 = Some b' \<and> length (blockInstructions b') = 3
    \<and> analyze store_example = Some h \<and> block_at (controlFlowBlocks h) 0 = Some b
    \<and> b' = b\<lparr>blockInstructions := nths (blockInstructions b) A\<rparr>
    \<and> (\<forall>k < length (blockInstructions b). k \<notin> A \<longrightarrow> dead_store_at h 0 b k)"
proof -
  define c where "c = the (rounds 3 (local_sets (controlFlowBlocks store_example)))"
  have "rounds 3 (local_sets (controlFlowBlocks store_example)) \<noteq> None" by code_simp
  then have "analyze store_example = Some (store_example\<lparr>controlFlowBlocks := c\<rparr>)"
    by (intro rounds_analyze) (auto simp: c_def)
  then have run: "eliminateDeadStores new_MIROptimizer store_example =
      (let (changed, opt', d) = store_blocks (variableDescriptorTable store_example) new_MIROptimizer c
       in Inr (changed, opt', store_example\<lparr>controlFlowBlocks := d\<rparr>))"
    by (simp add: eliminateDeadStores_def run_liveness_def)
  have "map_option (length \<circ> blockInstructions) (block_at (snd (snd
      (store_blocks (variableDescriptorTable store_example) new_MIROptimizer c))) 0) = Some 3"
    unfolding c_def by code_simp
  then obtain b' where b': "block_at (snd (snd (store_blocks (variableDescriptorTable store_example) new_MIROptimizer c))) 0 = Some b'"
    "length (blockInstructions b') = 3" by auto
  obtain changed opt' d where d: "store_blocks (variableDescriptorTable store_example) new_MIROptimizer c = (changed, opt', d)"
    by (cases "store_blocks (variableDescriptorTable store_example) new_MIROptimizer c")
  define g where "g = store_example\<lparr>controlFlowBlocks := d\<rparr>"
  have g: "eliminateDeadStores new_MIROptimizer store_example = Inr (changed, opt', g)"
    "block_at (controlFlowBlocks g) 0 = Some b'"
    using b' unfolding run d g_def by simp_all
  note g = this b'(2)
  from dead_stores_sound [OF store_example_ok(2) g(1,2)] g show ?thesis by blast
qed

end
