(* ===== verification/MirMergeLaws.thy ===== *)
theory MirMergeLaws
  imports MirOptimizerLaws
begin

text \<open>
  Why \<^verbatim>\<open>MIROptimizer::mergeLinearBlocks\<close> (\<^verbatim>\<open>src/uranite/ir/mir/optimizer.cpp\<close>) may merge a block
  into the one that jumps to it. The specification is \<open>runs\<close>: the finite sequences of instructions that are met on the
  paths from a point, unconditional jumps left out, each terminator with the number of the edge that is taken. The
  invariant of the loop is \<open>linked\<close>: the edge lists are those of the instructions and agree with each other.
\<close>

section \<open>Runs\<close>

text \<open>An instruction without the identifiers of the blocks it may go to.\<close>

definition payload :: "MIRInstruction \<Rightarrow> MIRInstruction" where
  "payload i =
     i\<lparr>trueBranchTarget := 0, falseBranchTarget := 0, defaultSwitchTarget := 0,
       switchBranchTargets := map (\<lambda>p. (fst p, 0)) (switchBranchTargets i)\<rparr>"

type_synonym label = "MIRInstruction \<times> nat option"

inductive runs :: "cfg \<Rightarrow> MIRInstruction list \<Rightarrow> MIRBlockIdentifier list \<Rightarrow> label list \<Rightarrow> bool" for c where
  runs_stop: "runs c is ss []"
| runs_step: "is \<noteq> [] \<Longrightarrow> runs c is ss w \<Longrightarrow> runs c (i # is) ss ((payload i, None) # w)"
| runs_jump: "instructionKind i = JumpUnconditional \<Longrightarrow> j < length ss \<Longrightarrow> block_at c (unat (ss ! j)) = Some b
    \<Longrightarrow> runs c (blockInstructions b) (successorBlocks b) w \<Longrightarrow> runs c [i] ss w"
| runs_branch: "instructionKind i \<noteq> JumpUnconditional \<Longrightarrow> j < length ss \<Longrightarrow> block_at c (unat (ss ! j)) = Some b
    \<Longrightarrow> runs c (blockInstructions b) (successorBlocks b) w \<Longrightarrow> runs c [i] ss ((payload i, Some j) # w)"
| runs_last: "instructionKind i \<noteq> JumpUnconditional \<Longrightarrow> runs c [i] [] [(payload i, None)]"

inductive_cases runs_Nil: "runs c [] ss w"
inductive_cases runs_Cons: "runs c (i # is) ss w"

definition terminator :: "MIRInstruction \<Rightarrow> bool" where
  "terminator i \<longleftrightarrow>
     instructionKind i \<in> {BranchConditional, JumpUnconditional, SwitchBranch, InvokeFunction, ThrowException}"

text \<open>Terminators stand only at the end of a block: this is what \<^verbatim>\<open>emitTerminator\<close> sees to.\<close>

definition well_terminated :: "cfg \<Rightarrow> bool" where
  "well_terminated c \<longleftrightarrow>
     (\<forall>i b. block_at c i = Some b \<longrightarrow> (\<forall>x \<in> set (butlast (blockInstructions b)). \<not> terminator x))"

definition dual_edges :: "cfg \<Rightarrow> bool" where
  "dual_edges c \<longleftrightarrow>
     (\<forall>i b j d. block_at c i = Some b \<longrightarrow> block_at c j = Some d \<longrightarrow>
        count_list (map unat (predecessorBlocks d)) i = count_list (map unat (successorBlocks b)) j)"

definition linked :: "cfg \<Rightarrow> bool" where
  "linked c \<longleftrightarrow> numbered c \<and> well_terminated c \<and> dual_edges c
     \<and> (\<forall>i b. block_at c i = Some b \<longrightarrow> successorBlocks b = targets c b)"

lemma edge_targets_terminator: "\<not> terminator i \<Longrightarrow> edge_targets i = []"
  by (cases "instructionKind i") (auto simp: terminator_def edge_targets_def)

lemma analyze_linked:
  assumes "analyze f = Some h" and "numbered (controlFlowBlocks f)" and "well_terminated (controlFlowBlocks f)"
  shows "linked (controlFlowBlocks h)"
proof -
  note origin = analyze_block [OF assms(1)]
  have none: "block_at (controlFlowBlocks h) i = None \<longleftrightarrow> block_at (controlFlowBlocks f) i = None" for i
  proof -
    have "map_option bare (block_at (controlFlowBlocks h) i) = map_option bare (block_at (local_sets (controlFlowBlocks f)) i)"
      using analyze_returned(1) [OF assms(1)] unfolding shape_def by (metis block_at_map)
    then show ?thesis
      by (cases "block_at (controlFlowBlocks h) i"; cases "block_at (controlFlowBlocks f) i")
        (simp_all add: block_at_local_sets)
  qed
  have "targets (controlFlowBlocks h) b = targets (controlFlowBlocks f) b" for b
    by (simp add: targets_def valid_target_def none cong: filter_cong)
  moreover have "numbered (controlFlowBlocks h)"
    using assms(2) unfolding numbered_def by (metis origin)
  moreover have "well_terminated (controlFlowBlocks h)"
    using assms(3) unfolding well_terminated_def by (metis origin)
  moreover have "dual_edges (controlFlowBlocks h)"
    using liveness_edges [OF assms(1,2)] unfolding dual_edges_def by blast
  moreover have "successorBlocks b = targets (controlFlowBlocks f) b" if "block_at (controlFlowBlocks h) i = Some b" for i b
    using liveness_edges [OF assms(1,2) that that] by blast
  ultimately show ?thesis by (auto simp: linked_def)
qed

section \<open>One merge\<close>

lemma length_1_count:
  assumes "length xs = 1" and "count_list xs a = 1" and "b \<noteq> a"
  shows "count_list xs b = 0"
  using assms by (cases xs) (auto split: if_splits)

lemma merge_edges:
  assumes "linked c" and "merge_target entry c k = Some (b, target, t)"
  shows "successorBlocks b = [target]" and "unat target \<noteq> k"
    and "block_at c i = Some x \<Longrightarrow> i \<noteq> k \<Longrightarrow> target \<notin> set (successorBlocks x)"
    and "unat (blockIdentifier b) = k"
proof -
  from assms(2) have m: "block_at c k = Some b" "blockInstructions b \<noteq> []"
    "instructionKind (last (blockInstructions b)) = JumpUnconditional"
    "trueBranchTarget (last (blockInstructions b)) = target" "target \<noteq> INVALID_BLOCK_IDENTIFIER"
    "block_at c (unat target) = Some t" "length (predecessorBlocks t) = 1" "target \<noteq> blockIdentifier b"
    by (auto simp: merge_target_Some)
  show id: "unat (blockIdentifier b) = k" using assms(1) m(1) by (simp add: linked_def numbered_def)
  have "targets c b = [target]" using m by (simp add: targets_def edge_targets_def valid_target_def)
  then show succ: "successorBlocks b = [target]" using assms(1) m(1) by (auto simp: linked_def)
  show "unat target \<noteq> k" using id m(8) by (metis word_unat_eq_iff)
  have dual: "count_list (map unat (predecessorBlocks t)) i = count_list (map unat (successorBlocks x)) (unat target)"
    if "block_at c i = Some x" for i x
    using assms(1) that m(6) by (auto simp: linked_def dual_edges_def)
  have "count_list (map unat (predecessorBlocks t)) k = 1" using dual [OF m(1)] by (simp add: succ)
  then show "target \<notin> set (successorBlocks x)" if "block_at c i = Some x" "i \<noteq> k"
    using length_1_count [of "map unat (predecessorBlocks t)" k i] dual [OF that(1)] that(2) m(7)
    by (metis (no_types, lifting) count_list_0_iff image_eqI length_map set_map)
qed

text \<open>What stands where after a merge.\<close>

lemma rename_predecessors_at:
  "block_at (fold (rename_predecessor old new) ss c) i =
     map_option (\<lambda>b. if i \<in> unat ` set ss then b\<lparr>predecessorBlocks := map (rename_block old new) (predecessorBlocks b)\<rparr> else b)
       (block_at c i)"
  if "old \<noteq> new"
proof (induction ss arbitrary: c)
  case (Cons s ss)
  have twice: "rename_block old new (rename_block old new x) = rename_block old new x" for x
    using that by (simp add: rename_block_def)
  then have "map (rename_block old new \<circ> rename_block old new) ps = map (rename_block old new) ps" for ps by simp
  with Cons show ?case
    by (cases "block_at c i") (auto simp: rename_predecessor_def block_at_update_block comp_def)
qed (simp add: option.map_ident)

lemma merge_into_at:
  assumes "merge_target entry c k = Some (b, target, t)" and "unat target \<noteq> k"
  shows "block_at (merge_into k b target t c) i =
    (if i = unat target then None
     else if i = k then
       Some (b\<lparr>blockInstructions := map (retarget target (blockIdentifier b)) (butlast (blockInstructions b) @ blockInstructions t),
               isTerminated := isTerminated t, successorBlocks := successorBlocks t,
               predecessorBlocks := (if k \<in> unat ` set (successorBlocks t)
                 then map (rename_block target (blockIdentifier b)) (predecessorBlocks b) else predecessorBlocks b)\<rparr>)
     else map_option (\<lambda>x. if i \<in> unat ` set (successorBlocks t)
            then x\<lparr>predecessorBlocks := map (rename_block target (blockIdentifier b)) (predecessorBlocks x)\<rparr> else x) (block_at c i))"
proof -
  have m: "block_at c k = Some b" "block_at c (unat target) = Some t" "target \<noteq> blockIdentifier b"
    using assms(1) by (auto simp: merge_target_Some)
  note len = block_at_length [OF m(1)] block_at_length [OF m(2)]
  show ?thesis
    using m len assms(2)
    by (auto simp: merge_into_def Let_def block_at_list_update block_at_update_block rename_predecessors_at rename_predecessors_frame)
qed

lemma retarget_fields [simp]:
  "instructionKind (retarget old new i) = instructionKind i"
  "payload (retarget old new i) = payload i"
  "terminator (retarget old new i) = terminator i"
  by (simp_all add: retarget_def payload_def terminator_def)

lemma retarget_edges:
  assumes "old \<notin> set (edge_targets i)"
  shows "edge_targets (retarget old new i) = edge_targets i"
proof -
  have "map (rename_block old new \<circ> snd) ps = map snd ps" if "old \<notin> snd ` set ps"
    for ps :: "(int64 \<times> MIRBlockIdentifier) list"
    using that by (induction ps) (auto simp: rename_block_def)
  with assms show ?thesis
    by (cases "instructionKind i") (auto simp: edge_targets_def retarget_def rename_block_def)
qed

lemma count_rename:
  assumes "unat new = k"
  shows "count_list (map unat (map (rename_block old new) ps)) i =
    (if i = k then count_list (map unat ps) k + (if unat old = k then 0 else count_list (map unat ps) (unat old))
     else if i = unat old then 0 else count_list (map unat ps) i)"
  using assms by (induction ps) (auto simp: rename_block_def word_unat_eq_iff)

lemma merge_linked:
  assumes "linked c" and m: "merge_target entry c k = Some (b, target, t)"
  shows "linked (merge_into k b target t c)"
proof -
  let ?d = "merge_into k b target t c"
  note edges = merge_edges [OF assms]
  note at = merge_into_at [OF m edges(2)]
  from m have mt: "block_at c k = Some b" "block_at c (unat target) = Some t"
    "instructionKind (last (blockInstructions b)) = JumpUnconditional" "blockInstructions b \<noteq> []"
    "target \<noteq> INVALID_BLOCK_IDENTIFIER"
    by (auto simp: merge_target_Some)
  have num: "numbered c" and wt: "well_terminated c" and dual: "dual_edges c"
    and succ: "\<And>i x. block_at c i = Some x \<Longrightarrow> successorBlocks x = targets c x"
    using assms(1) by (auto simp: linked_def)
  have t_succ: "target \<notin> set (successorBlocks t)" using edges(3) [OF mt(2)] edges(2) by simp
  have valid: "valid_target ?d s \<longleftrightarrow> valid_target c s \<and> s \<noteq> target" for s
    using mt(1,2) by (auto simp: valid_target_def at word_unat_eq_iff)
  have targets_same: "targets ?d x = targets c x" if "target \<notin> set (targets c x)" for x
  proof -
    have "filter (valid_target ?d) ts = filter (valid_target c) ts" if "target \<notin> set (filter (valid_target c) ts)" for ts
      using that by (induction ts) (auto simp: valid split: if_splits)
    with that show ?thesis by (auto simp: targets_def)
  qed
  define merged where "merged = map (retarget target (blockIdentifier b)) (butlast (blockInstructions b) @ blockInstructions t)"
  have mid: "\<not> terminator x" if "x \<in> set (butlast (blockInstructions b))" for x
    using wt mt(1) that by (auto simp: well_terminated_def)
  have merged_targets: "targets ?d (b\<lparr>blockInstructions := merged, isTerminated := q, successorBlocks := ss, predecessorBlocks := ps\<rparr>)
      = successorBlocks t" for q ss ps
  proof (cases "blockInstructions t = []")
    case True
    then have "successorBlocks t = []" using succ [OF mt(2)] by (simp add: targets_def)
    moreover have "edge_targets (last merged) = []" if "merged \<noteq> []"
    proof -
      have "last merged \<in> retarget target (blockIdentifier b) ` set (butlast (blockInstructions b))"
        using that True last_in_set [OF that] by (simp add: merged_def)
      then show ?thesis using mid by (auto intro: edge_targets_terminator)
    qed
    ultimately show ?thesis by (auto simp: targets_def)
  next
    case False
    then have last: "last merged = retarget target (blockIdentifier b) (last (blockInstructions t))" "merged \<noteq> []"
      by (simp_all add: merged_def last_map)
    have "valid_target c target" using mt(2,5) by (simp add: valid_target_def)
    then have no: "target \<notin> set (edge_targets (last (blockInstructions t)))"
      using t_succ succ [OF mt(2)] False by (auto simp: targets_def)
    have "targets ?d t = successorBlocks t" using targets_same [of t] t_succ succ [OF mt(2)] by simp
    then show ?thesis using last False by (simp add: targets_def retarget_edges [OF no])
  qed
  have blocks: "block_at ?d i = Some x \<Longrightarrow> i \<noteq> unat target \<and>
      (if i = k then successorBlocks x = successorBlocks t \<and> blockInstructions x = merged \<and> targets ?d x = successorBlocks t
         \<and> blockIdentifier x = blockIdentifier b
       else \<exists>y. block_at c i = Some y \<and> successorBlocks x = successorBlocks y \<and> blockInstructions x = blockInstructions y
         \<and> targets ?d x = targets ?d y \<and> blockIdentifier x = blockIdentifier y)" for i x
    unfolding at using merged_targets by (auto simp: merged_def targets_def split: if_splits)
  have "numbered ?d"
    unfolding numbered_def using blocks num mt(1) by (metis numbered_def)
  moreover have "well_terminated ?d"
    unfolding well_terminated_def
  proof (intro allI impI)
    fix i x
    assume x: "block_at ?d i = Some x"
    show "\<forall>y \<in> set (butlast (blockInstructions x)). \<not> terminator y"
    proof (cases "i = k")
      case True
      have "set (butlast merged) \<subseteq> retarget target (blockIdentifier b) `
          (set (butlast (blockInstructions b)) \<union> set (butlast (blockInstructions t)))"
        by (auto simp: merged_def butlast_append simp flip: map_butlast split: if_splits dest: in_set_butlastD)
      moreover have "\<not> terminator y" if "y \<in> set (butlast (blockInstructions t))" for y
        using wt mt(2) that by (auto simp: well_terminated_def)
      ultimately show ?thesis using blocks [OF x] True mid by auto
    next
      case False
      with blocks [OF x] wt show ?thesis by (auto simp: well_terminated_def)
    qed
  qed
  moreover have "successorBlocks x = targets ?d x" if x: "block_at ?d i = Some x" for i x
  proof (cases "i = k")
    case False
    then obtain y where y: "block_at c i = Some y" "successorBlocks x = successorBlocks y" "targets ?d x = targets ?d y"
      using blocks [OF x] by auto
    have "target \<notin> set (targets c y)" using edges(3) [OF y(1) False] succ [OF y(1)] by simp
    with y succ [OF y(1)] show ?thesis by (simp add: targets_same)
  qed (use blocks [OF x] in simp)
  moreover have "dual_edges ?d"
    unfolding dual_edges_def
  proof (intro allI impI)
    fix i x j d
    assume x: "block_at ?d i = Some x" and d: "block_at ?d j = Some d"
    then have ne: "i \<noteq> unat target" "j \<noteq> unat target" using blocks by blast+
    have "\<exists>d0. block_at c j = Some d0 \<and> predecessorBlocks d = (if j \<in> unat ` set (successorBlocks t)
         then map (rename_block target (blockIdentifier b)) (predecessorBlocks d0) else predecessorBlocks d0)"
    proof (cases "j = k")
      case True
      with d mt(1) ne(2) show ?thesis unfolding at by auto
    next
      case False
      with d ne(2) show ?thesis unfolding at by (cases "block_at c j") auto
    qed
    then obtain d0 where d0: "block_at c j = Some d0"
      "predecessorBlocks d = (if j \<in> unat ` set (successorBlocks t)
         then map (rename_block target (blockIdentifier b)) (predecessorBlocks d0) else predecessorBlocks d0)"
      by blast
    have from_t: "count_list (map unat (predecessorBlocks d0)) (unat target) = count_list (map unat (successorBlocks t)) j"
      using dual mt(2) d0(1) by (auto simp: dual_edges_def)
    have from_b: "count_list (map unat (predecessorBlocks d0)) k = 0"
      using dual mt(1) d0(1) edges(1) ne(2) by (auto simp: dual_edges_def)
    have zero: "j \<notin> unat ` set (successorBlocks t) \<Longrightarrow> count_list (map unat (successorBlocks t)) j = 0"
      by (simp add: count_list_0_iff)
    show "count_list (map unat (predecessorBlocks d)) i = count_list (map unat (successorBlocks x)) j"
    proof (cases "i = k")
      case True
      then have "successorBlocks x = successorBlocks t" using blocks [OF x] by simp
      with True from_t from_b zero edges(2) show ?thesis
        by (auto simp: d0(2) count_rename [OF edges(4)] simp del: map_map)
    next
      case False
      then obtain y where "block_at c i = Some y" "successorBlocks x = successorBlocks y" using blocks [OF x] by auto
      then have "count_list (map unat (predecessorBlocks d0)) i = count_list (map unat (successorBlocks x)) j"
        using dual d0(1) by (auto simp: dual_edges_def)
      with False ne show ?thesis by (auto simp: d0(2) count_rename [OF edges(4)] simp del: map_map)
    qed
  qed
  ultimately show ?thesis by (auto simp: linked_def)
qed

text \<open>
  Code before and after a merge: the same, or code that ends in the jump, and then the code of the target in place of the jump.
\<close>

definition spliced ::
    "MIRBlockIdentifier \<Rightarrow> MIRBasicBlock \<Rightarrow> MIRInstruction list \<Rightarrow> MIRBlockIdentifier list
      \<Rightarrow> MIRInstruction list \<Rightarrow> MIRBlockIdentifier list \<Rightarrow> bool" where
  "spliced target t is ss is' ss' \<longleftrightarrow>
     is \<noteq> [] \<and> ss = [target] \<and> instructionKind (last is) = JumpUnconditional
     \<and> (\<forall>x \<in> set (butlast is). instructionKind x \<noteq> JumpUnconditional)
     \<and> map payload is' = map payload (butlast is @ blockInstructions t) \<and> ss' = successorBlocks t"

definition unchanged ::
    "MIRBlockIdentifier \<Rightarrow> MIRInstruction list \<Rightarrow> MIRBlockIdentifier list \<Rightarrow> MIRInstruction list \<Rightarrow> MIRBlockIdentifier list \<Rightarrow> bool" where
  "unchanged target is ss is' ss' \<longleftrightarrow> map payload is' = map payload is \<and> ss' = ss \<and> target \<notin> set ss"

lemma payload_kind: "payload i = payload j \<Longrightarrow> instructionKind i = instructionKind j"
  by (metis (no_types, lifting) payload_def MIRInstruction.select_convs(2) MIRInstruction.surjective
      MIRInstruction.update_convs(16,17,18,19))

lemma merge_blocks_spliced:
  assumes "linked c" and m: "merge_target entry c k = Some (b, target, t)" and "i \<noteq> unat target"
  shows "block_at (merge_into k b target t c) i = None \<longleftrightarrow> block_at c i = None"
    and "block_at c i = Some x \<Longrightarrow> block_at (merge_into k b target t c) i = Some y \<Longrightarrow>
      unchanged target (blockInstructions x) (successorBlocks x) (blockInstructions y) (successorBlocks y)
      \<or> spliced target t (blockInstructions x) (successorBlocks x) (blockInstructions y) (successorBlocks y)"
proof -
  note edges = merge_edges [OF assms(1,2)]
  note at = merge_into_at [OF m edges(2)]
  from m have mt: "block_at c k = Some b" "blockInstructions b \<noteq> []"
    "instructionKind (last (blockInstructions b)) = JumpUnconditional"
    by (auto simp: merge_target_Some)
  show "block_at (merge_into k b target t c) i = None \<longleftrightarrow> block_at c i = None"
    using assms(3) mt(1) by (simp add: at)
  assume x: "block_at c i = Some x" and y: "block_at (merge_into k b target t c) i = Some y"
  show "unchanged target (blockInstructions x) (successorBlocks x) (blockInstructions y) (successorBlocks y)
      \<or> spliced target t (blockInstructions x) (successorBlocks x) (blockInstructions y) (successorBlocks y)"
  proof (cases "i = k")
    case True
    have "\<not> terminator x" if "x \<in> set (butlast (blockInstructions b))" for x
      using assms(1) mt(1) that by (auto simp: linked_def well_terminated_def)
    then have "instructionKind x \<noteq> JumpUnconditional" if "x \<in> set (butlast (blockInstructions b))" for x
      using that by (force simp: terminator_def)
    moreover have "map payload (blockInstructions y) = map payload (butlast (blockInstructions b) @ blockInstructions t)"
      "successorBlocks y = successorBlocks t"
      using y True assms(3) unfolding at by auto
    ultimately show ?thesis using True x mt edges(1) by (simp add: spliced_def)
  next
    case False
    with x y assms(3) edges(3) [OF x] show ?thesis by (auto simp: at unchanged_def split: if_splits)
  qed
qed

lemma merge_runs_forward:
  assumes link: "linked c" and m: "merge_target entry c k = Some (b, target, t)"
    and "runs c is ss w" and "unchanged target is ss is' ss' \<or> spliced target t is ss is' ss'"
  shows "runs (merge_into k b target t c) is' ss' w"
  using assms(3,4)
proof (induction arbitrary: is' ss' rule: runs.induct)
  case (runs_stop "is" ss)
  show ?case by (rule runs.runs_stop)
next
  case (runs_step "is" ss w i)
  from runs_step.prems show ?case
  proof
    assume "unchanged target (i # is) ss is' ss'"
    then obtain i' is2 where is': "is' = i' # is2" "payload i' = payload i" "unchanged target is ss is2 ss'"
      by (auto simp: unchanged_def map_eq_Cons_conv)
    then have "is2 \<noteq> []" using runs_step.hyps(1) by (auto simp: unchanged_def)
    from runs.runs_step [OF this runs_step.IH, of ss' i'] is' show ?thesis by simp
  next
    assume sp: "spliced target t (i # is) ss is' ss'"
    then obtain i' is2 where is': "is' = i' # is2" "payload i' = payload i" "spliced target t is ss is2 ss'"
      using runs_step.hyps(1) by (auto simp: spliced_def map_eq_Cons_conv)
    from runs_step.IH is'(3) have r: "runs (merge_into k b target t c) is2 ss' w" by blast
    show ?thesis
    proof (cases "is2 = []")
      case False
      from runs.runs_step [OF this r, of i'] is' show ?thesis by simp
    next
      case True
      with r have "w = []" by (auto elim: runs_Nil)
      have "blockInstructions t = []" using is'(3) True by (simp add: spliced_def)
      moreover have "block_at c (unat target) = Some t" using m by (auto simp: merge_target_Some)
      ultimately have "ss' = []" using is'(3) link by (auto simp: spliced_def linked_def targets_def)
      moreover have "instructionKind i' \<noteq> JumpUnconditional"
        using sp runs_step.hyps(1) payload_kind [OF is'(2)] by (simp add: spliced_def)
      ultimately show ?thesis using runs_last [of i'] is' True \<open>w = []\<close> by simp
    qed
  qed
next
  case (runs_jump i j ss d w)
  from runs_jump.prems show ?case
  proof
    assume un: "unchanged target [i] ss is' ss'"
    then obtain i' where is': "is' = [i']" "payload i' = payload i" "ss' = ss" by (auto simp: unchanged_def map_eq_Cons_conv)
    have "ss ! j \<noteq> target" using un runs_jump.hyps(2) by (auto simp: unchanged_def)
    then have ne: "unat (ss ! j) \<noteq> unat target" by (simp add: word_unat_eq_iff)
    obtain y where y: "block_at (merge_into k b target t c) (unat (ss ! j)) = Some y"
      using merge_blocks_spliced(1) [OF link m ne] runs_jump.hyps(3) by fastforce
    from runs_jump.IH [OF merge_blocks_spliced(2) [OF link m ne runs_jump.hyps(3) y]] y
    show ?thesis unfolding is'(1)
      by (intro runs.runs_jump [of i' j]) (use runs_jump.hyps(1,2) payload_kind [OF is'(2)] is'(3) in simp_all)
  next
    assume sp: "spliced target t [i] ss is' ss'"
    then have "d = t" using runs_jump.hyps(2,3) m by (auto simp: spliced_def merge_target_Some)
    moreover have "target \<notin> set (successorBlocks t)"
      using merge_edges [OF link m] m by (auto simp: merge_target_Some)
    ultimately show ?thesis using sp by (intro runs_jump.IH) (auto simp: spliced_def unchanged_def)
  qed
next
  case (runs_branch i j ss d w)
  then have un: "unchanged target [i] ss is' ss'" by (auto simp: spliced_def)
  then obtain i' where is': "is' = [i']" "payload i' = payload i" "ss' = ss" by (auto simp: unchanged_def map_eq_Cons_conv)
  have "ss ! j \<noteq> target" using un runs_branch.hyps(2) by (auto simp: unchanged_def)
  then have ne: "unat (ss ! j) \<noteq> unat target" by (simp add: word_unat_eq_iff)
  obtain y where y: "block_at (merge_into k b target t c) (unat (ss ! j)) = Some y"
    using merge_blocks_spliced(1) [OF link m ne] runs_branch.hyps(3) by fastforce
  from runs_branch.IH [OF merge_blocks_spliced(2) [OF link m ne runs_branch.hyps(3) y]] y
  show ?case unfolding is'(1) is'(2) [symmetric]
    by (intro runs.runs_branch [of i' j]) (use runs_branch.hyps(1,2) payload_kind [OF is'(2)] is'(3) in simp_all)
next
  case (runs_last i)
  then have un: "unchanged target [i] [] is' ss'" by (auto simp: spliced_def)
  then obtain i' where is': "is' = [i']" "payload i' = payload i" "ss' = []" by (auto simp: unchanged_def map_eq_Cons_conv)
  with runs.runs_last [of i'] runs_last.hyps payload_kind [OF is'(2)] show ?case by simp
qed

lemma spliced_Cons:
  assumes "spliced target t (i # is) ss is' ss'" and "is \<noteq> []"
  obtains i' is2 where "is' = i' # is2" "payload i' = payload i" "spliced target t is ss is2 ss'"
    "instructionKind i' \<noteq> JumpUnconditional"
proof -
  from assms obtain i' is2 where "is' = i' # is2" "payload i' = payload i" "spliced target t is ss is2 ss'"
    by (auto simp: spliced_def map_eq_Cons_conv)
  moreover from assms payload_kind [OF this(2)] have "instructionKind i' \<noteq> JumpUnconditional" by (simp add: spliced_def)
  ultimately show thesis by (rule that)
qed

lemma merge_runs_backward:
  assumes link: "linked c" and m: "merge_target entry c k = Some (b, target, t)"
    and "runs (merge_into k b target t c) is' ss' w"
  shows "(\<forall>is ss. unchanged target is ss is' ss' \<longrightarrow> runs c is ss w) \<and> (\<forall>is ss. spliced target t is ss is' ss' \<longrightarrow> runs c is ss w)"
proof -
  let ?d = "merge_into k b target t c"
  have t: "block_at c (unat target) = Some t" using m by (simp add: merge_target_Some)
  have t_succ: "target \<notin> set (successorBlocks t)" using merge_edges(2,3) [OF link m] t by blast
  have single: "runs c [i] ss w" if "\<And>is ss. unchanged target is ss is' ss' \<Longrightarrow> runs c is ss w" "spliced target t [i] ss is' ss'"
    for i ss is' ss' w
  proof -
    have "runs c (blockInstructions t) (successorBlocks t) w"
      by (rule that(1)) (use that(2) t_succ in \<open>auto simp: spliced_def unchanged_def\<close>)
    with t that(2) show ?thesis by (intro runs_jump [of i 0]) (auto simp: spliced_def)
  qed
  have into: "\<exists>x. block_at c (unat s) = Some x \<and> (unchanged target (blockInstructions x) (successorBlocks x) (blockInstructions y) (successorBlocks y)
      \<or> spliced target t (blockInstructions x) (successorBlocks x) (blockInstructions y) (successorBlocks y))"
    if "block_at ?d (unat s) = Some y" for s y
  proof -
    have "unat s \<noteq> unat target" using that merge_into_at [OF m merge_edges(2) [OF link m], of "unat s"] by auto
    from merge_blocks_spliced [OF link m this] that show ?thesis by (cases "block_at c (unat s)") auto
  qed
  from assms(3) show ?thesis
  proof (induction rule: runs.induct)
    case (runs_stop is' ss')
    show ?case by (auto intro: runs.runs_stop)
  next
    case (runs_step is' ss' w i')
    have un: "runs c is ss ((payload i', None) # w)" if un: "unchanged target is ss (i' # is') ss'" for "is" ss
    proof -
      from un obtain i is2 where "is": "is = i # is2" "payload i = payload i'" "unchanged target is2 ss is' ss'"
        by (auto simp: unchanged_def map_eq_Cons_conv Cons_eq_map_conv)
      then have "is2 \<noteq> []" using runs_step.hyps(1) by (auto simp: unchanged_def)
      from runs.runs_step [OF this, of c ss w i] runs_step.IH "is" show ?thesis by simp
    qed
    moreover have "runs c is ss ((payload i', None) # w)" if sp: "spliced target t is ss (i' # is') ss'" for "is" ss
    proof -
      obtain i is2 where "is": "is = i # is2" using sp by (cases "is") (auto simp: spliced_def)
      show ?thesis
      proof (cases "is2 = []")
        case True
        with sp "is" single [OF un] show ?thesis by simp
      next
        case False
        from spliced_Cons [OF sp [unfolded "is"] False] have "payload i' = payload i" "spliced target t is2 ss is' ss'" by auto
        with runs.runs_step [OF False, of c ss w i] runs_step.IH "is" show ?thesis by simp
      qed
    qed
    ultimately show ?case by blast
  next
    case (runs_jump i' j ss' y w)
    have un: "runs c is ss w" if un: "unchanged target is ss [i'] ss'" for "is" ss
    proof -
      from un obtain i where "is": "is = [i]" "payload i = payload i'" "ss = ss'" by (auto simp: unchanged_def Cons_eq_map_conv)
      from into [OF runs_jump.hyps(3)] runs_jump.IH obtain x where
        "block_at c (unat (ss' ! j)) = Some x" "runs c (blockInstructions x) (successorBlocks x) w" by blast
      with runs.runs_jump [of i j ss' c x w] runs_jump.hyps(1,2) payload_kind [OF "is"(2)] "is" show ?thesis by simp
    qed
    moreover have "runs c is ss w" if sp: "spliced target t is ss [i'] ss'" for "is" ss
    proof -
      obtain i is2 where "is": "is = i # is2" using sp by (cases "is") (auto simp: spliced_def)
      show ?thesis
      proof (cases "is2 = []")
        case True
        with sp "is" single [OF un] show ?thesis by simp
      next
        case False
        from spliced_Cons [OF sp [unfolded "is"] False] runs_jump.hyps(1) show ?thesis by auto
      qed
    qed
    ultimately show ?case by blast
  next
    case (runs_branch i' j ss' y w)
    have un: "runs c is ss ((payload i', Some j) # w)" if un: "unchanged target is ss [i'] ss'" for "is" ss
    proof -
      from un obtain i where "is": "is = [i]" "payload i = payload i'" "ss = ss'" by (auto simp: unchanged_def Cons_eq_map_conv)
      from into [OF runs_branch.hyps(3)] runs_branch.IH obtain x where
        "block_at c (unat (ss' ! j)) = Some x" "runs c (blockInstructions x) (successorBlocks x) w" by blast
      with runs.runs_branch [of i j ss' c x w] runs_branch.hyps(1,2) payload_kind [OF "is"(2)] "is" show ?thesis by simp
    qed
    moreover have "runs c is ss ((payload i', Some j) # w)" if sp: "spliced target t is ss [i'] ss'" for "is" ss
    proof -
      obtain i is2 where "is": "is = i # is2" using sp by (cases "is") (auto simp: spliced_def)
      show ?thesis
      proof (cases "is2 = []")
        case True
        with sp "is" single [OF un] show ?thesis by simp
      next
        case False
        from spliced_Cons [OF sp [unfolded "is"] False] have "spliced target t is2 ss [] ss'" by auto
        then have "blockInstructions t = []" "ss' = successorBlocks t" by (auto simp: spliced_def)
        with t link runs_branch.hyps(2) show ?thesis by (auto simp: linked_def targets_def)
      qed
    qed
    ultimately show ?case by blast
  next
    case (runs_last i')
    have un: "runs c is ss [(payload i', None)]" if un: "unchanged target is ss [i'] []" for "is" ss
    proof -
      from un obtain i where "is": "is = [i]" "payload i = payload i'" "ss = []" by (auto simp: unchanged_def Cons_eq_map_conv)
      with runs.runs_last [of i c] runs_last.hyps payload_kind [OF "is"(2)] show ?thesis by simp
    qed
    moreover have "runs c is ss [(payload i', None)]" if sp: "spliced target t is ss [i'] []" for "is" ss
    proof -
      obtain i is2 where "is": "is = i # is2" using sp by (cases "is") (auto simp: spliced_def)
      show ?thesis
      proof (cases "is2 = []")
        case True
        with sp "is" single [OF un] show ?thesis by simp
      next
        case False
        from spliced_Cons [OF sp [unfolded "is"] False] have "payload i' = payload i" by auto
        with runs.runs_step [OF False runs.runs_stop, of c i ss] "is" show ?thesis by simp
      qed
    qed
    ultimately show ?case by blast
  qed
qed

section \<open>The loop\<close>

definition cfg_runs :: "MIRBlockIdentifier \<Rightarrow> cfg \<Rightarrow> label list set" where
  "cfg_runs entry c =
     (case block_at c (unat entry) of
        None \<Rightarrow> {}
      | Some b \<Rightarrow> {w. runs c (blockInstructions b) (successorBlocks b) w})"

lemma merge_runs:
  assumes "linked c" and m: "merge_target entry c k = Some (b, target, t)"
  shows "cfg_runs entry (merge_into k b target t c) = cfg_runs entry c"
proof -
  have ne: "unat entry \<noteq> unat target" using m by (auto simp: merge_target_Some word_unat_eq_iff)
  note none = merge_blocks_spliced(1) [OF assms ne]
  show ?thesis
  proof (cases "block_at c (unat entry)")
    case (Some x)
    with none obtain y where y: "block_at (merge_into k b target t c) (unat entry) = Some y" by fastforce
    note rel = merge_blocks_spliced(2) [OF assms ne Some y]
    have "runs (merge_into k b target t c) (blockInstructions y) (successorBlocks y) w
        \<longleftrightarrow> runs c (blockInstructions x) (successorBlocks x) w" for w
      using merge_runs_forward [OF assms _ rel] merge_runs_backward [OF assms] rel by blast
    with Some y show ?thesis by (auto simp: cfg_runs_def)
  qed (use none in \<open>simp add: cfg_runs_def\<close>)
qed

lemma block_count_remove_one:
  "block_at c k = Some b \<Longrightarrow> block_count c = Suc (block_count (c[k := None]))"
proof (induction c arbitrary: k)
  case (Cons x c)
  then show ?case by (cases k) (auto simp: block_count_def block_at_def split: if_splits)
qed (simp add: block_at_def)

lemma merge_count:
  assumes "linked c" and m: "merge_target entry c k = Some (b, target, t)"
  shows "block_count c = Suc (block_count (merge_into k b target t c))"
proof -
  have t: "block_at c (unat target) = Some t" using m by (simp add: merge_target_Some)
  have "block_at (merge_into k b target t c) i = None \<longleftrightarrow> block_at (c[unat target := None]) i = None" for i
    using merge_blocks_spliced(1) [OF assms, of i] merge_into_at [OF m merge_edges(2) [OF assms], of i] block_at_length [OF t]
    by (cases "i = unat target") (simp_all add: block_at_list_update)
  moreover have "length (merge_into k b target t c) = length (c[unat target := None])"
    by (simp add: merge_into_def Let_def rename_predecessors_frame)
  ultimately have "block_count (merge_into k b target t c) = block_count (c[unat target := None])"
    by (intro block_count_map)
  with block_count_remove_one [OF t] show ?thesis by simp
qed

lemma merge_keeps_None:
  assumes link: "linked c" and m: "merge_target entry c k = Some (b, target, t)"
    and none: "merge_target entry c i = None" and "i \<noteq> k"
  shows "merge_target entry (merge_into k b target t c) i = None"
proof (rule ccontr)
  let ?d = "merge_into k b target t c"
  note at = merge_into_at [OF m merge_edges(2) [OF link m]]
  assume "merge_target entry ?d i \<noteq> None"
  then obtain x s u where "merge_target entry ?d i = Some (x, s, u)" by auto
  then have x: "block_at ?d i = Some x" "blockInstructions x \<noteq> []"
    "instructionKind (last (blockInstructions x)) = JumpUnconditional" "trueBranchTarget (last (blockInstructions x)) = s"
    "s \<noteq> INVALID_BLOCK_IDENTIFIER" "block_at ?d (unat s) = Some u" "length (predecessorBlocks u) = 1" "s \<noteq> entry"
    "s \<noteq> blockIdentifier x"
    by (simp_all add: merge_target_Some)
  have i: "i \<noteq> unat target" using x(1) by (auto simp: at)
  obtain x0 where x0: "block_at c i = Some x0" "blockInstructions x = blockInstructions x0" "blockIdentifier x = blockIdentifier x0"
    using x(1) i \<open>i \<noteq> k\<close> unfolding at by (cases "block_at c i") (auto split: if_splits)
  have s: "unat s \<noteq> unat target" using x(6) by (auto simp: at)
  obtain u0 where u0: "block_at c (unat s) = Some u0" "length (predecessorBlocks u0) = length (predecessorBlocks u)"
  proof (cases "unat s = k")
    case True
    have "block_at c k = Some b" using m by (simp add: merge_target_Some)
    with x(6) True s show ?thesis unfolding at by (intro that [of b]) auto
  next
    case False
    with x(6) s show ?thesis unfolding at by (cases "block_at c (unat s)") (auto intro: that split: if_splits)
  qed
  have "merge_target entry c i = Some (x0, s, u0)"
    unfolding merge_target_Some using x x0 u0 by simp
  with none show False by simp
qed

lemma merge_loop_result:
  assumes "merge_loop entry k (changed, opt, c) = (changed', opt', d)" and "linked c"
    and "\<forall>i < k. merge_target entry c i = None"
  shows "linked d \<and> cfg_runs entry d = cfg_runs entry c \<and> block_count d \<le> block_count c
    \<and> changed' = (changed \<or> block_count d < block_count c)
    \<and> totalRemovedBlocks opt' = totalRemovedBlocks opt + (int (block_count c) - int (block_count d))
    \<and> (\<forall>i. merge_target entry d i = None)"
  using assms
proof (induction entry k "(changed, opt, c)" arbitrary: changed opt c rule: merge_loop.induct)
  case (1 entry k changed opt c)
  show ?case
  proof (cases "k < length c")
    case False
    then have "merge_target entry c i = None" for i
      using "1.prems"(3) by (cases "i < k") (auto simp: merge_target_def block_at_def)
    moreover have "(changed, opt, c) = (changed', opt', d)"
      using "1.prems"(1) False by (simp add: merge_loop.simps)
    ultimately show ?thesis using "1.prems"(2) by auto
  next
    case True
    show ?thesis
    proof (cases "merge_target entry c k")
      case None
      with "1.prems"(1) True have "merge_loop entry (Suc k) (changed, opt, c) = (changed', opt', d)"
        by (simp add: merge_loop.simps [of entry k])
      from "1.hyps"(1) [OF True None this "1.prems"(2)] "1.prems"(3) None show ?thesis
        by (simp add: less_Suc_eq)
    next
      case (Some m)
      obtain b target t where m: "merge_target entry c k = Some (b, target, t)" using Some by (cases m) auto
      let ?c = "merge_into k b target t c"
      have run: "merge_loop entry k (True, remove_block opt, ?c) = (changed', opt', d)"
        using "1.prems"(1) True m by (simp add: merge_loop.simps [of entry k changed])
      have "\<forall>i < k. merge_target entry ?c i = None"
        using merge_keeps_None [OF "1.prems"(2) m] "1.prems"(3) by simp
      from "1.hyps"(2) [OF True m refl refl run merge_linked [OF "1.prems"(2) m] this]
        merge_runs [OF "1.prems"(2) m] merge_count [OF "1.prems"(2) m]
      show ?thesis by (auto simp: remove_block_def)
    qed
  qed
qed

text \<open>
  C7. Merging keeps the runs of a function: on a function with blocks numbered by their place and terminators only at their ends, the same
  sequences of instructions are met from the entry before and after, no block is left that could be merged, the counter
  counts the removed blocks, and the flag says whether there were any.
\<close>

theorem merge_blocks_runs:
  assumes "numbered (controlFlowBlocks f)" and "well_terminated (controlFlowBlocks f)"
    and "analyze f = Some h"
  shows "\<exists>changed opt' g. mergeLinearBlocks opt f = Inr (changed, opt', g)
    \<and> cfg_runs (entryBlockIdentifier f) (controlFlowBlocks g) = cfg_runs (entryBlockIdentifier f) (controlFlowBlocks h)
    \<and> linked (controlFlowBlocks g)
    \<and> (\<forall>i. merge_target (entryBlockIdentifier f) (controlFlowBlocks g) i = None)
    \<and> changed = (block_count (controlFlowBlocks g) < block_count (controlFlowBlocks h))
    \<and> totalRemovedBlocks opt' = totalRemovedBlocks opt
        + (int (block_count (controlFlowBlocks h)) - int (block_count (controlFlowBlocks g)))"
proof -
  have entry: "entryBlockIdentifier h = entryBlockIdentifier f" using analyze_returned(4) [OF assms(3)]
    by (metis MIRFunctionDefinition.select_convs(10) MIRFunctionDefinition.surjective MIRFunctionDefinition.update_convs(7))
  obtain changed opt' d where run: "merge_loop (entryBlockIdentifier h) 0 (False, opt, controlFlowBlocks h) = (changed, opt', d)"
    by (cases "merge_loop (entryBlockIdentifier h) 0 (False, opt, controlFlowBlocks h)")
  have "mergeLinearBlocks opt f = Inr (changed, opt', h\<lparr>controlFlowBlocks := d\<rparr>)"
    using run by (simp add: mergeLinearBlocks_def run_liveness_def assms(3))
  moreover from merge_loop_result [OF run analyze_linked [OF assms(3,1,2)]] entry
  have "linked d \<and> cfg_runs (entryBlockIdentifier f) d = cfg_runs (entryBlockIdentifier f) (controlFlowBlocks h)
    \<and> changed = (block_count d < block_count (controlFlowBlocks h))
    \<and> totalRemovedBlocks opt' = totalRemovedBlocks opt + (int (block_count (controlFlowBlocks h)) - int (block_count d))
    \<and> (\<forall>i. merge_target (entryBlockIdentifier f) d i = None)"
    by simp
  ultimately show ?thesis by (intro exI [of _ changed] exI [of _ opt'] exI [of _ "h\<lparr>controlFlowBlocks := d\<rparr>"]) simp
qed

text \<open>A chain of two blocks.\<close>

definition chain_example :: MIRFunctionDefinition where
  "chain_example = new_MIRFunctionDefinition\<lparr>controlFlowBlocks :=
     [Some (make_block 0 [make_instruction ConstantInteger 0 [], jump_to 1]),
      Some (make_block 1 [make_instruction ReturnValue INVALID_VARIABLE_IDENTIFIER [0]])]\<rparr>"

lemma chain_example_ok:
  "numbered (controlFlowBlocks chain_example)" "well_terminated (controlFlowBlocks chain_example)"
proof -
  show "numbered (controlFlowBlocks chain_example)"
    by (simp add: chain_example_def numbered_simps make_block_def new_MIRBasicBlock_def)
  show "well_terminated (controlFlowBlocks chain_example)"
    by (auto simp: well_terminated_def chain_example_def block_at_Cons block_at_Nil make_block_def terminator_def
        make_instruction_def new_MIRInstruction_def split: nat.splits)
qed

theorem merge_blocks_runs_witness:
  "\<exists>h changed opt' g. analyze chain_example = Some h \<and> mergeLinearBlocks new_MIROptimizer chain_example = Inr (changed, opt', g)
    \<and> cfg_runs (entryBlockIdentifier chain_example) (controlFlowBlocks g)
        = cfg_runs (entryBlockIdentifier chain_example) (controlFlowBlocks h)
    \<and> linked (controlFlowBlocks g)
    \<and> (\<forall>i. merge_target (entryBlockIdentifier chain_example) (controlFlowBlocks g) i = None)
    \<and> changed = (block_count (controlFlowBlocks g) < block_count (controlFlowBlocks h))
    \<and> totalRemovedBlocks opt' = totalRemovedBlocks new_MIROptimizer
        + (int (block_count (controlFlowBlocks h)) - int (block_count (controlFlowBlocks g)))"
proof -
  have "rounds 3 (local_sets (controlFlowBlocks chain_example)) \<noteq> None" by code_simp
  then obtain c where "rounds 3 (local_sets (controlFlowBlocks chain_example)) = Some c" by blast
  from rounds_analyze [OF this] merge_blocks_runs [OF chain_example_ok rounds_analyze [OF this], of new_MIROptimizer]
  show ?thesis by blast
qed

end
