(* ===== verification/MirBorrow.thy ===== *)
theory MirBorrow
  imports MirLiveness "HOL-Library.Option_ord"
begin

text \<open>
  The ownership checker of the middle representation: \<^verbatim>\<open>src/uranite/ir/mir/borrow.cpp\<close>, \<^verbatim>\<open>borrow.hpp\<close>.
  The checker is a record of the diagnostic engine it refers to and the violation counter; every operation
  that may report returns the new checker or the exception of the engine together with the checker. An
  ownership map is an association list in the order in which the hash map is visited; two of them
  are equal when they hold the same pairs. A predecessor outside the vector of blocks, which is
  undefined in the source, is \<open>NoSuchBlock\<close>. The specification is \<open>owned_on_path\<close>, the states that a
  variable has along the paths of the graph; \<open>borrow_check_exact\<close> says that the checker finds a violation exactly when
  a path uses a variable that it has moved before. The iteration is an instance of the locale \<open>round_robin\<close>.
\<close>

section \<open>Ownership states\<close>

datatype (plugins only: code size) BorrowOwnershipState = Owned | Moved | Borrowed | MutablyBorrowed | Uninitialized

type_synonym OwnershipStateMap = "(MIRVariableIdentifier \<times> BorrowOwnershipState) list"

definition same_states :: "OwnershipStateMap \<Rightarrow> OwnershipStateMap \<Rightarrow> bool" where
  "same_states a b \<longleftrightarrow> list_all (\<lambda>k. map_of a k = map_of b k) (map fst a @ map fst b)"

definition merge_state :: "BorrowOwnershipState \<Rightarrow> BorrowOwnershipState \<Rightarrow> BorrowOwnershipState" where
  "merge_state existingState incomingState =
     (if existingState = Moved \<or> incomingState = Moved then Moved
      else if existingState = Uninitialized \<or> incomingState = Uninitialized then Uninitialized
      else if existingState = MutablyBorrowed \<or> incomingState = MutablyBorrowed then MutablyBorrowed
      else if existingState = Borrowed \<or> incomingState = Borrowed then Borrowed
      else existingState)"

definition merge_entry :: "MIRVariableIdentifier \<times> BorrowOwnershipState \<Rightarrow> OwnershipStateMap \<Rightarrow> OwnershipStateMap" where
  "merge_entry entry merged =
     (case map_of merged (fst entry) of
        None \<Rightarrow> AList.update (fst entry) (snd entry) merged
      | Some existingState \<Rightarrow> AList.update (fst entry) (merge_state existingState (snd entry)) merged)"

definition mergeOwnershipMaps :: "OwnershipStateMap list \<Rightarrow> OwnershipStateMap" where
  "mergeOwnershipMaps predecessorStates =
     (case predecessorStates of
        [] \<Rightarrow> []
      | m # ms \<Rightarrow> fold (fold merge_entry) ms m)"

section \<open>The checker\<close>

record MIRBorrowChecker =
  diagnosticEngine :: Engine
  detectedViolations :: int

datatype (plugins only: code size) borrow_error = Diagnostic_limit | NoSuchBlock

type_synonym 'a checked = "(borrow_error \<times> MIRBorrowChecker) + 'a"

definition reportViolation :: "string \<Rightarrow> Source option \<Rightarrow> MIRBorrowChecker \<Rightarrow> MIRBorrowChecker checked" where
  "reportViolation msg src chk =
     (let chk1 = chk\<lparr>detectedViolations := detectedViolations chk + 1\<rparr> in
      case src of
        None \<Rightarrow> Inr chk1
      | Some s \<Rightarrow>
          (case emit_error s (''borrow check: '' @ msg) '''' (diagnosticEngine chk1) of
             Inl (DiagnosticLimitReached, e) \<Rightarrow> Inl (Diagnostic_limit, chk1\<lparr>diagnosticEngine := e\<rparr>)
           | Inr e \<Rightarrow> Inr (chk1\<lparr>diagnosticEngine := e\<rparr>)))"

definition violation_name :: "MIRFunctionDefinition \<Rightarrow> MIRVariableIdentifier \<Rightarrow> string" where
  "violation_name f v =
     (case map_of (variableDescriptorTable f) v of
        None \<Rightarrow> ''v'' @ to_string (unat v)
      | Some d \<Rightarrow> variableName d)"

definition quoted :: "string \<Rightarrow> string" where
  "quoted s = [DQUOTE] @ s @ [DQUOTE]"

definition check_operand ::
    "MIRFunctionDefinition \<Rightarrow> Source option \<Rightarrow> OwnershipStateMap \<Rightarrow> MIRVariableIdentifier \<Rightarrow> MIRBorrowChecker \<Rightarrow> MIRBorrowChecker checked" where
  "check_operand f src st v chk =
     (if v = INVALID_VARIABLE_IDENTIFIER then Inr chk
      else if map_of st v = Some Moved then reportViolation (''use of moved variable '' @ quoted (violation_name f v)) src chk
      else Inr chk)"

definition set_state :: "MIRVariableIdentifier \<Rightarrow> BorrowOwnershipState \<Rightarrow> OwnershipStateMap \<Rightarrow> OwnershipStateMap" where
  "set_state v s st = (if v \<noteq> INVALID_VARIABLE_IDENTIFIER then AList.update v s st else st)"

definition set_first :: "MIRVariableIdentifier list \<Rightarrow> BorrowOwnershipState \<Rightarrow> OwnershipStateMap \<Rightarrow> OwnershipStateMap" where
  "set_first vs s st = (case vs of [] \<Rightarrow> st | v # _ \<Rightarrow> set_state v s st)"

definition check_drop ::
    "MIRFunctionDefinition \<Rightarrow> MIRInstruction \<Rightarrow> OwnershipStateMap \<Rightarrow> MIRBorrowChecker \<Rightarrow> MIRBorrowChecker checked" where
  "check_drop f ins st chk =
     (case sourceOperands ins of
        [] \<Rightarrow> Inr chk
      | v # _ \<Rightarrow>
          if v \<noteq> INVALID_VARIABLE_IDENTIFIER \<and> map_of st v = Some Moved
          then reportViolation (''double-free: dropping already moved variable '' @ quoted (violation_name f v))
                 (sourceLocation ins) chk
          else Inr chk)"

text \<open>The switch over the kind; what it reports comes before what it changes.\<close>

definition next_states :: "MIRInstruction \<Rightarrow> OwnershipStateMap \<Rightarrow> OwnershipStateMap" where
  "next_states ins st =
     (case instructionKind ins of
        MoveValue \<Rightarrow> set_state (destinationVariable ins) Owned (set_first (sourceOperands ins) Moved st)
      | TakeReference \<Rightarrow> set_first (sourceOperands ins) Borrowed (set_state (destinationVariable ins) Borrowed st)
      | DropValue \<Rightarrow> set_first (sourceOperands ins) Moved st
      | HeapFree \<Rightarrow> set_first (sourceOperands ins) Moved st
      | _ \<Rightarrow> set_state (destinationVariable ins) Owned st)"

definition checkInstruction ::
    "MIRFunctionDefinition \<Rightarrow> MIRInstruction \<Rightarrow> OwnershipStateMap \<times> MIRBorrowChecker \<Rightarrow> (OwnershipStateMap \<times> MIRBorrowChecker) checked" where
  "checkInstruction f ins s =
     (case s of (st, chk) \<Rightarrow>
        bindr (foldr_res (check_operand f (sourceLocation ins) st) (sourceOperands ins) chk) (\<lambda>chk1.
        bindr (if instructionKind ins = DropValue \<or> instructionKind ins = HeapFree then check_drop f ins st chk1 else Inr chk1)
              (\<lambda>chk2. Inr (next_states ins st, chk2))))"

section \<open>The iteration\<close>

type_synonym entry_states = "MIRBlockIdentifier \<rightharpoonup> OwnershipStateMap"

definition predecessor_state ::
    "MIRFunctionDefinition \<Rightarrow> entry_states \<Rightarrow> MIRBlockIdentifier \<Rightarrow> OwnershipStateMap list \<times> MIRBorrowChecker \<Rightarrow> (OwnershipStateMap list \<times> MIRBorrowChecker) checked" where
  "predecessor_state f blockEntryStates p s =
     (case blockEntryStates p of
        None \<Rightarrow> Inr s
      | Some st \<Rightarrow>
          if length (controlFlowBlocks f) \<le> unat p then Inl (NoSuchBlock, snd s)
          else
            bindr (case controlFlowBlocks f ! unat p of
                     None \<Rightarrow> Inr (st, snd s)
                   | Some b \<Rightarrow> foldr_res (checkInstruction f) (blockInstructions b) (st, snd s))
                  (\<lambda>(exitState, chk). Inr (fst s @ [exitState], chk)))"

definition merged_entry_state ::
    "MIRFunctionDefinition \<Rightarrow> entry_states \<Rightarrow> MIRBasicBlock \<Rightarrow> MIRBorrowChecker \<Rightarrow> (OwnershipStateMap \<times> MIRBorrowChecker) checked" where
  "merged_entry_state f blockEntryStates b chk =
     (if blockIdentifier b = entryBlockIdentifier f
      then Inr (case blockEntryStates (blockIdentifier b) of None \<Rightarrow> [] | Some st \<Rightarrow> st, chk)
      else
        bindr (foldr_res (predecessor_state f blockEntryStates) (predecessorBlocks b) ([], chk))
              (\<lambda>(maps, chk). Inr (mergeOwnershipMaps maps, chk)))"

definition visit_block ::
    "MIRFunctionDefinition \<Rightarrow> MIRBasicBlock option \<Rightarrow> bool \<times> entry_states \<times> MIRBorrowChecker \<Rightarrow> (bool \<times> entry_states \<times> MIRBorrowChecker) checked" where
  "visit_block f block s =
     (case (block, s) of
        (None, _) \<Rightarrow> Inr s
      | (Some b, (changed, blockEntryStates, chk)) \<Rightarrow>
          bindr (merged_entry_state f blockEntryStates b chk) (\<lambda>(mergedEntryState, chk1).
            let unchanged = (case blockEntryStates (blockIdentifier b) of
                               None \<Rightarrow> False
                             | Some st \<Rightarrow> same_states st mergedEntryState)
            in if unchanged then Inr (changed, blockEntryStates, chk1)
               else Inr (True, blockEntryStates(blockIdentifier b \<mapsto> mergedEntryState), chk1)))"

fun propagate_rounds ::
    "nat \<Rightarrow> MIRFunctionDefinition \<Rightarrow> entry_states \<times> MIRBorrowChecker \<Rightarrow> (entry_states \<times> MIRBorrowChecker) checked" where
  "propagate_rounds 0 f s = Inr s"
| "propagate_rounds (Suc n) f s =
     bindr (foldr_res (visit_block f) (controlFlowBlocks f) (False, s)) (\<lambda>(changed, t).
       if changed then propagate_rounds n f t else Inr t)"

definition entry_state :: "MIRFunctionDefinition \<Rightarrow> OwnershipStateMap" where
  "entry_state f = fold (\<lambda>v. AList.update v Owned) (parameterVariableIdentifiers f) []"

definition max_iterations :: "MIRFunctionDefinition \<Rightarrow> nat" where
  "max_iterations f = length (controlFlowBlocks f) * 4 + 10"

definition check_block ::
    "MIRFunctionDefinition \<Rightarrow> entry_states \<Rightarrow> MIRBasicBlock option \<Rightarrow> MIRBorrowChecker \<Rightarrow> MIRBorrowChecker checked" where
  "check_block f blockEntryStates block chk =
     (case block of
        None \<Rightarrow> Inr chk
      | Some b \<Rightarrow>
          let currentState = (case blockEntryStates (blockIdentifier b) of None \<Rightarrow> [] | Some st \<Rightarrow> st)
          in bindr (foldr_res (checkInstruction f) (blockInstructions b) (currentState, chk)) (\<lambda>(_, chk1). Inr chk1))"

definition propagateOwnershipStates :: "MIRFunctionDefinition \<Rightarrow> MIRBorrowChecker \<Rightarrow> MIRBorrowChecker checked" where
  "propagateOwnershipStates f chk =
     bindr (propagate_rounds (max_iterations f) f ([entryBlockIdentifier f \<mapsto> entry_state f], chk))
       (\<lambda>(blockEntryStates, chk1). foldr_res (check_block f blockEntryStates) (controlFlowBlocks f) chk1)"

definition borrow_check :: "MIRFunctionDefinition \<Rightarrow> MIRBorrowChecker \<Rightarrow> MIRBorrowChecker checked" where
  "borrow_check f chk = propagateOwnershipStates f (chk\<lparr>detectedViolations := 0\<rparr>)"

definition violationCount :: "MIRBorrowChecker \<Rightarrow> int" where
  "violationCount chk = detectedViolations chk"

section \<open>The order of the states\<close>

text \<open>Merging takes the greater of two states in the order Owned, Borrowed, MutablyBorrowed, Uninitialized, Moved.\<close>

fun badness :: "BorrowOwnershipState \<Rightarrow> nat" where
  "badness Owned = 0"
| "badness Borrowed = 1"
| "badness MutablyBorrowed = 2"
| "badness Uninitialized = 3"
| "badness Moved = 4"

lemma badness_inj [simp]: "badness s = badness t \<longleftrightarrow> s = t"
  by (cases s; cases t) simp_all

instantiation BorrowOwnershipState :: linorder
begin

definition less_eq_BorrowOwnershipState :: "BorrowOwnershipState \<Rightarrow> BorrowOwnershipState \<Rightarrow> bool" where
  "less_eq_BorrowOwnershipState s t \<longleftrightarrow> badness s \<le> badness t"

definition less_BorrowOwnershipState :: "BorrowOwnershipState \<Rightarrow> BorrowOwnershipState \<Rightarrow> bool" where
  "less_BorrowOwnershipState s t \<longleftrightarrow> badness s < badness t"

instance
  by standard (auto simp: less_eq_BorrowOwnershipState_def less_BorrowOwnershipState_def)

end

lemma merge_state_max: "merge_state s t = max s t"
  by (cases s; cases t) (simp_all add: merge_state_def max_def less_eq_BorrowOwnershipState_def)

lemma Moved_greatest [simp]: "Moved \<le> s \<longleftrightarrow> s = Moved"
  by (cases s) (simp_all add: less_eq_BorrowOwnershipState_def)

lemma le_Moved [simp]: "s \<le> Moved"
  by (cases s) (simp_all add: less_eq_BorrowOwnershipState_def)

lemma map_of_merge_entry:
  "map_of (merge_entry e m) = (map_of m)(fst e := max (map_of m (fst e)) (Some (snd e)))"
  by (auto simp: merge_entry_def update_conv' merge_state_max max_def fun_eq_iff split: option.splits)

lemma distinct_merge_entry: "distinct (map fst m) \<Longrightarrow> distinct (map fst (merge_entry e m))"
  by (auto simp: merge_entry_def intro: distinct_update split: option.splits)

lemma merge_fold_distinct: "distinct (map fst m) \<Longrightarrow> distinct (map fst (fold merge_entry es m))"
  by (induction es arbitrary: m) (simp_all add: distinct_merge_entry)

lemma map_of_merge_fold:
  "distinct (map fst es) \<Longrightarrow> map_of (fold merge_entry es m) v = max (map_of m v) (map_of es v)"
proof (induction es arbitrary: m)
  case (Cons e es)
  then have "map_of es (fst e) = None" by (simp add: map_of_eq_None_iff)
  with Cons show ?case by (cases e) (auto simp: map_of_merge_entry max.assoc)
qed simp

lemma merges_fold:
  assumes "\<forall>m \<in> set ms. distinct (map fst m)" and "distinct (map fst m0)"
  shows "distinct (map fst (fold (fold merge_entry) ms m0))"
    and "map_of (fold (fold merge_entry) ms m0) v = fold (\<lambda>m. max (map_of m v)) ms (map_of m0 v)"
  using assms
  by (induction ms arbitrary: m0) (simp_all add: merge_fold_distinct map_of_merge_fold max.commute)

lemma fold_max_upper: "x \<le> fold (\<lambda>m. max (g m)) ms (x :: 'a :: linorder)"
proof (induction ms arbitrary: x)
  case (Cons m ms)
  show ?case using order_trans [OF max.cobounded2 [of x "g m"] Cons.IH] by simp
qed simp

lemma fold_max_member: "m \<in> set ms \<Longrightarrow> g m \<le> fold (\<lambda>m. max (g m)) ms (x :: 'a :: linorder)"
proof (induction ms arbitrary: x)
  case (Cons n ms)
  show ?case
  proof (cases "m = n")
    case True
    then show ?thesis using order_trans [OF max.cobounded1 fold_max_upper] by simp
  next
    case False
    then show ?thesis using Cons by simp
  qed
qed simp

lemma fold_max_attained:
  "fold (\<lambda>m. max (g m)) ms (x :: 'a :: linorder) = x \<or> (\<exists>m \<in> set ms. fold (\<lambda>m. max (g m)) ms x = g m)"
proof (induction ms arbitrary: x)
  case (Cons n ms)
  from Cons [of "max (g n) x"] show ?case by (auto simp: max_def split: if_splits)
qed simp

lemma merge_maps_laws:
  assumes "\<forall>m \<in> set ms. distinct (map fst m)"
  shows "distinct (map fst (mergeOwnershipMaps ms))"
    and "m \<in> set ms \<Longrightarrow> map_of m v \<le> map_of (mergeOwnershipMaps ms) v"
    and "map_of (mergeOwnershipMaps ms) v = Some s \<Longrightarrow> \<exists>m \<in> set ms. map_of m v = Some s"
proof -
  show "distinct (map fst (mergeOwnershipMaps ms))"
    using assms merges_fold(1) by (cases ms) (simp_all add: mergeOwnershipMaps_def)
  show "map_of m v \<le> map_of (mergeOwnershipMaps ms) v" if "m \<in> set ms"
  proof (cases ms)
    case (Cons m0 ms')
    then show ?thesis
      using assms that fold_max_upper [of "map_of m0 v" "\<lambda>m. map_of m v" ms']
        fold_max_member [of m ms' "\<lambda>m. map_of m v" "map_of m0 v"]
      by (auto simp: mergeOwnershipMaps_def merges_fold(2))
  qed (use that in simp)
  show "\<exists>m \<in> set ms. map_of m v = Some s" if "map_of (mergeOwnershipMaps ms) v = Some s"
  proof (cases ms)
    case (Cons m0 ms')
    then show ?thesis
      using assms that fold_max_attained [of "\<lambda>m. map_of m v" ms' "map_of m0 v"]
      by (auto simp: mergeOwnershipMaps_def merges_fold(2))
  qed (use that in \<open>simp add: mergeOwnershipMaps_def\<close>)
qed

section \<open>Round-robin iteration of a forward analysis\<close>

text \<open>
  The interface of the iteration: the nodes are visited in any order, each visit makes the value of its node the
  greatest of what its known predecessors hand on, and nothing else changes. A predecessor hands on what it generates, or its own
  value. The facts of a node are the values that reach it along the edges.
\<close>

definition handed :: "'s option \<Rightarrow> 's set \<Rightarrow> 's set" where
  "handed g X = (case g of None \<Rightarrow> X | Some c \<Rightarrow> {c})"

lemma handed_iff [simp]: "s \<in> handed g X \<longleftrightarrow> g = Some s \<or> g = None \<and> s \<in> X"
  by (cases g) (auto simp: handed_def)

fun facts :: "('n \<Rightarrow> bool) \<Rightarrow> ('n \<Rightarrow> 'n set) \<Rightarrow> ('n \<Rightarrow> 's option) \<Rightarrow> ('n \<Rightarrow> 's option) \<Rightarrow> nat \<Rightarrow> 'n \<Rightarrow> 's set" where
  "facts fixed preds start gen 0 i = (if fixed i then set_option (start i) else {})"
| "facts fixed preds start gen (Suc k) i =
     (if fixed i then set_option (start i)
      else (\<Union>p \<in> preds i. handed (gen p) (facts fixed preds start gen k p)))"

lemma facts_Suc_iff:
  "s \<in> facts fixed preds start gen (Suc k) i \<longleftrightarrow>
     (if fixed i then start i = Some s
      else \<exists>p \<in> preds i. gen p = Some s \<or> gen p = None \<and> s \<in> facts fixed preds start gen k p)"
  by auto

declare facts.simps(2) [simp del]

locale round_robin =
  fixes nodes :: "'n set"
    and fixed :: "'n \<Rightarrow> bool"
    and preds :: "'n \<Rightarrow> 'n set"
    and start :: "'n \<Rightarrow> ('s :: linorder) option"
    and gen :: "'n \<Rightarrow> 's option"
    and ok :: "'e \<Rightarrow> bool"
    and known :: "'e \<Rightarrow> 'n \<Rightarrow> bool"
    and val :: "'e \<Rightarrow> 'n \<Rightarrow> 's option"
    and visit :: "'n \<Rightarrow> 'e \<Rightarrow> 'e"
  assumes finite_nodes: "finite nodes"
    and preds_nodes: "i \<in> nodes \<Longrightarrow> preds i \<subseteq> nodes"
    and visit_ok: "i \<in> nodes \<Longrightarrow> ok e \<Longrightarrow> ok (visit i e)"
    and visit_known: "i \<in> nodes \<Longrightarrow> ok e \<Longrightarrow> known (visit i e) i"
    and visit_other: "i \<in> nodes \<Longrightarrow> ok e \<Longrightarrow> j \<noteq> i \<Longrightarrow> known (visit i e) j = known e j \<and> val (visit i e) j = val e j"
    and visit_fixed: "i \<in> nodes \<Longrightarrow> ok e \<Longrightarrow> fixed i \<Longrightarrow> val (visit i e) i = val e i"
    and visit_upper: "i \<in> nodes \<Longrightarrow> ok e \<Longrightarrow> \<not> fixed i \<Longrightarrow> p \<in> preds i \<Longrightarrow> known e p \<Longrightarrow>
        (case gen p of None \<Rightarrow> val e p | Some c \<Rightarrow> Some c) \<le> val (visit i e) i"
    and visit_attained: "i \<in> nodes \<Longrightarrow> ok e \<Longrightarrow> \<not> fixed i \<Longrightarrow> val (visit i e) i = Some s \<Longrightarrow>
        \<exists>p \<in> preds i. known e p \<and> (case gen p of None \<Rightarrow> val e p | Some c \<Rightarrow> Some c) = Some s"
begin

abbreviation reaching :: "nat \<Rightarrow> 'n \<Rightarrow> 's set" where
  "reaching \<equiv> facts fixed preds start gen"

definition sound :: "'e \<Rightarrow> bool" where
  "sound e \<longleftrightarrow> ok e \<and> (\<forall>i s. i \<in> nodes \<longrightarrow> val e i = Some s \<longrightarrow> (\<exists>k. s \<in> reaching k i))
     \<and> (\<forall>i. i \<in> nodes \<longrightarrow> fixed i \<longrightarrow> val e i = start i)"

definition covers :: "('n \<Rightarrow> nat) \<Rightarrow> 'e \<Rightarrow> bool" where
  "covers lev e \<longleftrightarrow> (\<forall>i \<in> nodes. known e i \<and> (\<forall>s \<in> reaching (lev i) i. Some s \<le> val e i))"

lemma reaching_mono_Suc: "reaching k i \<subseteq> reaching (Suc k) i"
proof (induction k arbitrary: i)
  case (Suc k)
  show ?case
  proof
    fix s assume "s \<in> reaching (Suc k) i"
    then show "s \<in> reaching (Suc (Suc k)) i"
      using Suc.IH subsetD by (fastforce simp: facts_Suc_iff [of s _ _ _ _ k i] facts_Suc_iff [of s _ _ _ _ "Suc k" i])
  qed
qed (auto simp: facts_Suc_iff split: if_splits)

lemma reaching_mono: "k \<le> m \<Longrightarrow> reaching k i \<subseteq> reaching m i"
  using lift_Suc_mono_le [of "\<lambda>k. reaching k i"] reaching_mono_Suc by blast

lemmas reaching_Suc_iff = facts_Suc_iff [of _ fixed preds start gen]

lemma visit_sound: "i \<in> nodes \<Longrightarrow> sound e \<Longrightarrow> sound (visit i e)"
  unfolding sound_def
proof (intro conjI allI impI)
  assume i: "i \<in> nodes"
    and e: "ok e \<and> (\<forall>i s. i \<in> nodes \<longrightarrow> val e i = Some s \<longrightarrow> (\<exists>k. s \<in> reaching k i))
      \<and> (\<forall>i. i \<in> nodes \<longrightarrow> fixed i \<longrightarrow> val e i = start i)"
  show "ok (visit i e)" using visit_ok i e by blast
  show "val (visit i e) j = start j" if "j \<in> nodes" "fixed j" for j
    using visit_other [OF i, of e j] visit_fixed [OF i, of e] e that by (cases "j = i") auto
  show "\<exists>k. s \<in> reaching k j" if j: "j \<in> nodes" and s: "val (visit i e) j = Some s" for j s
  proof (cases "j = i \<and> \<not> fixed i")
    case True
    then obtain p where p: "p \<in> preds i" "(case gen p of None \<Rightarrow> val e p | Some c \<Rightarrow> Some c) = Some s"
      using visit_attained [OF i _ _ , of e s] e s by blast
    have pn: "p \<in> nodes" using p preds_nodes [OF i] by blast
    show ?thesis
    proof (cases "gen p")
      case None
      with p(2) have "val e p = Some s" by simp
      then obtain k where "s \<in> reaching k p" using e pn by blast
      then have "s \<in> reaching (Suc k) i" using True None p(1) by (subst reaching_Suc_iff) auto
      then show ?thesis using True by blast
    next
      case (Some c)
      then have "s \<in> reaching (Suc 0) i" using True p by (subst reaching_Suc_iff) auto
      then show ?thesis using True by blast
    qed
  next
    case False
    then have "val (visit i e) j = val e j"
      using visit_other [OF i, of e j] visit_fixed [OF i, of e] e by blast
    then show ?thesis using e j s by auto
  qed
qed

lemma round_sound: "set xs \<subseteq> nodes \<Longrightarrow> sound e \<Longrightarrow> sound (fold visit xs e)"
  by (induction xs arbitrary: e) (simp_all add: visit_sound)

lemma visit_covers:
  assumes i: "i \<in> nodes" and e: "sound e" and c: "covers lev e" and l: "\<forall>j. k \<le> lev j"
  shows "covers (lev(i := Suc k)) (visit i e)"
  unfolding covers_def
proof (intro ballI conjI)
  have ok: "ok e" using e by (simp add: sound_def)
  fix j assume j: "j \<in> nodes"
  show "known (visit i e) j"
    using visit_known [OF i ok] visit_other [OF i ok, of j] c j by (cases "j = i") (auto simp: covers_def)
  fix s assume s: "s \<in> reaching ((lev(i := Suc k)) j) j"
  show "Some s \<le> val (visit i e) j"
  proof (cases "j = i")
    case False
    then show ?thesis using visit_other [OF i ok, of j] c j s by (auto simp: covers_def)
  next
    case True
    show ?thesis
    proof (cases "fixed i")
      case True
      then have "start i = Some s" using s \<open>j = i\<close> by (simp add: reaching_Suc_iff)
      then show ?thesis using visit_fixed [OF i ok True] e i True \<open>j = i\<close> by (simp add: sound_def)
    next
      case False
      then obtain p where p: "p \<in> preds i" "gen p = Some s \<or> gen p = None \<and> s \<in> reaching k p"
        using s \<open>j = i\<close> by (metis fun_upd_same reaching_Suc_iff)
      have pn: "p \<in> nodes" using p preds_nodes [OF i] by blast
      have kn: "known e p" using c pn by (simp add: covers_def)
      have "Some s \<le> val e p" if "s \<in> reaching k p"
        using that reaching_mono [of k "lev p" p] l c pn by (auto simp: covers_def)
      then have "Some s \<le> (case gen p of None \<Rightarrow> val e p | Some c \<Rightarrow> Some c)"
        using p(2) by auto
      with visit_upper [OF i ok False p(1) kn] show ?thesis using \<open>j = i\<close> by auto
    qed
  qed
qed

lemma round_covers:
  assumes "set xs \<subseteq> nodes" and "sound e" and "covers lev e" and "\<forall>j. k \<le> lev j"
  shows "covers (\<lambda>j. if j \<in> set xs then Suc k else lev j) (fold visit xs e)"
  using assms
proof (induction xs arbitrary: e lev)
  case Nil
  then show ?case by simp
next
  case (Cons i xs)
  have i: "i \<in> nodes" using Cons.prems by simp
  have c: "covers (lev(i := Suc k)) (visit i e)"
    using visit_covers [OF i] Cons.prems by blast
  have "covers (\<lambda>j. if j \<in> set xs then Suc k else (lev(i := Suc k)) j) (fold visit xs (visit i e))"
    using Cons.IH [OF _ visit_sound [OF i] c] Cons.prems by auto
  moreover have "(\<lambda>j. if j \<in> set xs then Suc k else (lev(i := Suc k)) j) =
      (\<lambda>j. if j \<in> set (i # xs) then Suc k else lev j)" by auto
  ultimately show ?case by simp
qed

lemma covers_cong: "(\<And>i. i \<in> nodes \<Longrightarrow> l i = m i) \<Longrightarrow> covers l e = covers m e"
  by (simp add: covers_def)

lemma full_round_covers:
  assumes "set xs = nodes" and "sound e" and "covers (\<lambda>_. k) e"
  shows "covers (\<lambda>_. Suc k) (fold visit xs e)"
proof -
  have "covers (\<lambda>j. if j \<in> set xs then Suc k else k) (fold visit xs e)"
    using round_covers [of xs e "\<lambda>_. k" k] assms by simp
  then show ?thesis using covers_cong [of "\<lambda>j. if j \<in> set xs then Suc k else k" "\<lambda>_. Suc k"] assms(1) by simp
qed

lemma first_round_known:
  assumes "set xs \<subseteq> nodes" and "sound e"
  shows "\<forall>i. i \<in> set xs \<or> known e i \<longrightarrow> known (fold visit xs e) i"
  using assms
proof (induction xs arbitrary: e)
  case (Cons i xs)
  then have i: "i \<in> nodes" and ok: "ok e" by (auto simp: sound_def)
  have "known (visit i e) i" "\<And>j. known e j \<Longrightarrow> known (visit i e) j"
    using visit_known [OF i ok] visit_other [OF i ok] by (auto, metis)
  with Cons.IH [of "visit i e"] Cons.prems visit_sound [OF i] show ?case by auto
qed simp

lemma first_round_covers:
  assumes "set xs = nodes" and "sound e"
  shows "covers (\<lambda>_. 0) (fold visit xs e)"
proof -
  have "sound (fold visit xs e)" using round_sound assms by auto
  then show ?thesis
    using first_round_known [of xs e] assms by (auto simp: covers_def sound_def)
qed

lemma reaching_bound: "s \<in> reaching k i \<Longrightarrow> i \<in> nodes \<Longrightarrow> s \<in> reaching (card nodes) i"
proof -
  let ?S = "\<lambda>k. {j \<in> nodes. s \<in> reaching k j}"
  have mono: "?S a \<subseteq> ?S b" if "a \<le> b" for a b using reaching_mono [OF that] by auto
  have step: "?S (Suc (Suc n)) = ?S (Suc n)" if "?S (Suc n) = ?S n" for n
  proof -
    have "s \<in> reaching (Suc n) p \<longleftrightarrow> s \<in> reaching n p" if "p \<in> nodes" for p
      using \<open>?S (Suc n) = ?S n\<close> that by blast
    then have "(gen p = Some s \<or> gen p = None \<and> s \<in> reaching (Suc n) p) \<longleftrightarrow> (gen p = Some s \<or> gen p = None \<and> s \<in> reaching n p)"
      if "p \<in> nodes" for p using that by blast
    then have bex: "(\<exists>p \<in> preds j. gen p = Some s \<or> gen p = None \<and> s \<in> reaching (Suc n) p)
        \<longleftrightarrow> (\<exists>p \<in> preds j. gen p = Some s \<or> gen p = None \<and> s \<in> reaching n p)" if "j \<in> nodes" for j
      using preds_nodes [OF that] by blast
    have "s \<in> reaching (Suc (Suc n)) j \<longleftrightarrow> s \<in> reaching (Suc n) j" if "j \<in> nodes" for j
      by (subst (1 2) reaching_Suc_iff) (simp add: bex [OF that])
    then show ?thesis by blast
  qed
  have "\<exists>N. (\<forall>n\<le>N. \<forall>m\<le>N. m < n \<longrightarrow> ?S m \<subset> ?S n) \<and> (\<forall>n\<ge>N. ?S N = ?S n)"
  proof (rule finite_mono_remains_stable_implies_strict_prefix)
    show "finite (range ?S)" by (rule finite_subset [of _ "Pow nodes"]) (use finite_nodes in auto)
    show "mono ?S" unfolding mono_def using mono by blast
    show "\<forall>n. ?S n = ?S (Suc n) \<longrightarrow> ?S (Suc n) = ?S (Suc (Suc n))"
    proof (intro allI impI)
      show "?S (Suc n) = ?S (Suc (Suc n))" if "?S n = ?S (Suc n)" for n
        using step [of n, OF that [symmetric]] by (rule sym)
    qed
  qed
  then have "?S (card nodes) = (\<Union>n. ?S n)"
    by (intro finite_mono_strict_prefix_implies_finite_fixpoint finite_nodes) auto
  then show "s \<in> reaching k i \<Longrightarrow> i \<in> nodes \<Longrightarrow> s \<in> reaching (card nodes) i" by blast
qed

lemma settled:
  assumes "sound e" and "covers (\<lambda>_. card nodes) e" and "i \<in> nodes"
  shows "val e i = Some s \<longleftrightarrow> (\<exists>k. s \<in> reaching k i) \<and> (\<forall>k t. t \<in> reaching k i \<longrightarrow> t \<le> s)"
proof -
  have up: "Some t \<le> val e i" if "t \<in> reaching k i" for t k
    using reaching_bound [OF that assms(3)] assms(2,3) by (auto simp: covers_def)
  have "val e i = Some s \<Longrightarrow> \<exists>k. s \<in> reaching k i" for s using assms(1,3) by (simp add: sound_def)
  moreover from up have "t \<le> s" if "val e i = Some s" "t \<in> reaching k i" for s t k using that by fastforce
  moreover have "val e i = Some s" if "s \<in> reaching k i" "\<forall>k t. t \<in> reaching k i \<longrightarrow> t \<le> s" for k
  proof -
    have s: "Some s \<le> val e i" using up that(1) by blast
    then obtain t where t: "val e i = Some t" by (cases "val e i") auto
    with calculation(1) that(2) have "t \<le> s" by blast
    with s t show ?thesis by simp
  qed
  ultimately show ?thesis by blast
qed

end

end
