(* ===== verification/MirBorrowLaws.thy ===== *)
theory MirBorrowLaws
  imports MirBorrow
begin

text \<open>
  What the ownership checker computes: the iteration without the reports, its interpretation as a round-robin
  iteration, and the theorem that violations are found exactly on the paths that use a moved variable.
\<close>

section \<open>The iteration without reports\<close>

definition block_exit :: "MIRInstruction list \<Rightarrow> OwnershipStateMap \<Rightarrow> OwnershipStateMap" where
  "block_exit is st = fold next_states is st"

definition distinct_keys :: "OwnershipStateMap \<Rightarrow> bool" where
  "distinct_keys st \<longleftrightarrow> distinct (map fst st)"

lemma distinct_keys_set_state: "distinct_keys st \<Longrightarrow> distinct_keys (set_state v s st)"
  by (simp add: distinct_keys_def set_state_def distinct_update)

lemma distinct_keys_set_first: "distinct_keys st \<Longrightarrow> distinct_keys (set_first vs s st)"
  by (simp add: set_first_def distinct_keys_set_state split: list.split)

lemma distinct_keys_next: "distinct_keys st \<Longrightarrow> distinct_keys (next_states ins st)"
  by (cases "instructionKind ins") (simp_all add: next_states_def distinct_keys_set_state distinct_keys_set_first)

lemma distinct_keys_exit: "distinct_keys st \<Longrightarrow> distinct_keys (block_exit is st)"
  unfolding block_exit_def by (induction "is" arbitrary: st) (simp_all add: distinct_keys_next)

lemma distinct_keys_entry: "distinct_keys (entry_state f)"
proof -
  have "distinct_keys st \<Longrightarrow> distinct_keys (fold (\<lambda>v. AList.update v s) vs st)" for vs st s
    by (induction vs arbitrary: st) (simp_all add: distinct_keys_def distinct_update)
  then show ?thesis by (simp add: entry_state_def distinct_keys_def)
qed

text \<open>An instruction sets a variable, whatever its state was, or keeps it.\<close>

definition overrides :: "(OwnershipStateMap \<Rightarrow> OwnershipStateMap) \<Rightarrow> bool" where
  "overrides g \<longleftrightarrow> (\<forall>st v. map_of (g st) v = (case map_of (g []) v of None \<Rightarrow> map_of st v | Some s \<Rightarrow> Some s))"

lemma overrides_set_state: "overrides (set_state v s)"
  by (simp add: overrides_def set_state_def update_conv')

lemma overrides_comp: "overrides g \<Longrightarrow> overrides h \<Longrightarrow> overrides (\<lambda>st. g (h st))"
  unfolding overrides_def by (metis (no_types, lifting) option.case_eq_if)

lemma overrides_id: "overrides (\<lambda>st. st)"
  by (simp add: overrides_def)

lemma overrides_set_first: "overrides (set_first vs s)"
proof (cases vs)
  case Nil
  then have "set_first vs s = (\<lambda>st. st)" by (simp add: set_first_def fun_eq_iff)
  then show ?thesis using overrides_id by simp
next
  case (Cons v vs')
  then have "set_first vs s = set_state v s" by (simp add: set_first_def fun_eq_iff)
  then show ?thesis using overrides_set_state by simp
qed

lemma overrides_next: "overrides (next_states ins)"
  by (cases "instructionKind ins")
    (simp_all add: next_states_def [abs_def] overrides_set_state overrides_set_first overrides_comp)

lemma overrides_exit: "overrides (block_exit is)"
proof (induction "is")
  case Nil
  show ?case using overrides_id by (simp add: block_exit_def)
next
  case (Cons ins "is")
  from overrides_comp [OF this overrides_next [of ins]] show ?case by (simp add: block_exit_def)
qed

text \<open>The blocks carry their positions and their predecessors are blocks.\<close>

definition graph_ok :: "cfg \<Rightarrow> bool" where
  "graph_ok c \<longleftrightarrow> numbered c
     \<and> (\<forall>i b. block_at c i = Some b \<longrightarrow> (\<forall>p \<in> set (predecessorBlocks b). block_at c (unat p) \<noteq> None))"

definition the_block :: "MIRFunctionDefinition \<Rightarrow> MIRBlockIdentifier \<Rightarrow> MIRBasicBlock" where
  "the_block f p = the (block_at (controlFlowBlocks f) (unat p))"

definition nodes_of :: "MIRFunctionDefinition \<Rightarrow> MIRBlockIdentifier set" where
  "nodes_of f =
     (if graph_ok (controlFlowBlocks f) then {p. block_at (controlFlowBlocks f) (unat p) \<noteq> None} else {})"

definition exits :: "MIRFunctionDefinition \<Rightarrow> entry_states \<Rightarrow> MIRBlockIdentifier list \<Rightarrow> OwnershipStateMap list" where
  "exits f E ps =
     map (\<lambda>p. block_exit (blockInstructions (the_block f p)) (the (E p))) (filter (\<lambda>p. E p \<noteq> None) ps)"

definition merged :: "MIRFunctionDefinition \<Rightarrow> entry_states \<Rightarrow> MIRBasicBlock \<Rightarrow> OwnershipStateMap" where
  "merged f E b =
     (if blockIdentifier b = entryBlockIdentifier f then (case E (blockIdentifier b) of None \<Rightarrow> [] | Some st \<Rightarrow> st)
      else mergeOwnershipMaps (exits f E (predecessorBlocks b)))"

definition settles :: "MIRFunctionDefinition \<Rightarrow> MIRBlockIdentifier \<Rightarrow> entry_states \<Rightarrow> bool" where
  "settles f p E \<longleftrightarrow> (case E p of None \<Rightarrow> False | Some st \<Rightarrow> same_states st (merged f E (the_block f p)))"

definition visit :: "MIRFunctionDefinition \<Rightarrow> MIRBlockIdentifier \<Rightarrow> entry_states \<Rightarrow> entry_states" where
  "visit f p E = (if settles f p E then E else E(p \<mapsto> merged f E (the_block f p)))"

lemma same_states_iff: "same_states a b \<longleftrightarrow> map_of a = map_of b"
proof
  assume s: "same_states a b"
  show "map_of a = map_of b"
  proof
    fix k show "map_of a k = map_of b k"
    proof (cases "k \<in> set (map fst a @ map fst b)")
      case True
      then show ?thesis using s unfolding same_states_def list_all_iff by blast
    next
      case False
      then have "map_of a k = None" "map_of b k = None" by (simp_all add: map_of_eq_None_iff)
      then show ?thesis by simp
    qed
  qed
qed (simp add: same_states_def list_all_iff)

lemma node_facts:
  assumes "p \<in> nodes_of f"
  shows "graph_ok (controlFlowBlocks f)" and "block_at (controlFlowBlocks f) (unat p) = Some (the_block f p)"
    and "blockIdentifier (the_block f p) = p"
    and "set (predecessorBlocks (the_block f p)) \<subseteq> nodes_of f"
proof -
  show g: "graph_ok (controlFlowBlocks f)" and b: "block_at (controlFlowBlocks f) (unat p) = Some (the_block f p)"
    using assms by (auto simp: nodes_of_def the_block_def split: if_splits)
  show "blockIdentifier (the_block f p) = p"
    using g b by (simp add: graph_ok_def numbered_def word_unat_eq_iff)
  show "set (predecessorBlocks (the_block f p)) \<subseteq> nodes_of f"
    using g b unfolding graph_ok_def nodes_of_def by auto
qed

lemma finite_nodes_of [simp]: "finite (nodes_of f)"
  by (rule finite_subset [OF subset_UNIV]) simp

text \<open>A state of the iteration is in order when every map of it has distinct keys.\<close>

definition in_order :: "entry_states \<Rightarrow> bool" where
  "in_order E \<longleftrightarrow> (\<forall>p st. E p = Some st \<longrightarrow> distinct_keys st)"

definition value_of :: "MIRVariableIdentifier \<Rightarrow> entry_states \<Rightarrow> MIRBlockIdentifier \<Rightarrow> BorrowOwnershipState option" where
  "value_of v E p = (case E p of None \<Rightarrow> None | Some st \<Rightarrow> map_of st v)"

definition generated :: "MIRFunctionDefinition \<Rightarrow> MIRVariableIdentifier \<Rightarrow> MIRBlockIdentifier \<Rightarrow> BorrowOwnershipState option" where
  "generated f v p = map_of (block_exit (blockInstructions (the_block f p)) []) v"

lemma exits_distinct: "in_order E \<Longrightarrow> \<forall>m \<in> set (exits f E ps). distinct (map fst m)"
proof
  fix m assume E: "in_order E" and "m \<in> set (exits f E ps)"
  then obtain p st where m: "m = block_exit (blockInstructions (the_block f p)) st" and "E p = Some st"
    by (auto simp: exits_def)
  with E have "distinct_keys st" by (simp add: in_order_def)
  from distinct_keys_exit [OF this] show "distinct (map fst m)" unfolding m distinct_keys_def .
qed

lemma exit_value:
  "map_of (block_exit (blockInstructions (the_block f p)) st) v
    = (case generated f v p of None \<Rightarrow> map_of st v | Some c \<Rightarrow> Some c)"
  using overrides_exit [of "blockInstructions (the_block f p)"] unfolding overrides_def generated_def by blast

lemma merged_distinct:
  assumes "in_order E"
  shows "distinct_keys (merged f E b)"
proof -
  have "distinct_keys (mergeOwnershipMaps (exits f E (predecessorBlocks b)))"
    unfolding distinct_keys_def by (rule merge_maps_laws(1) [OF exits_distinct [OF assms]])
  moreover have "distinct_keys (case E p of None \<Rightarrow> [] | Some st \<Rightarrow> st)" for p
    using assms by (cases "E p") (simp_all add: in_order_def distinct_keys_def)
  ultimately show ?thesis by (simp add: merged_def)
qed

lemma visit_other: "q \<noteq> p \<Longrightarrow> visit f p E q = E q"
  by (simp add: visit_def)

lemma visit_same: "map_option map_of (visit f p E p) = Some (map_of (merged f E (the_block f p)))"
  by (auto simp: visit_def settles_def same_states_iff split: option.splits)

lemma value_of_visit: "value_of v (visit f p E) p = map_of (merged f E (the_block f p)) v"
  using visit_same [of f p E] by (auto simp: value_of_def)

lemma visit_in_order: "in_order E \<Longrightarrow> in_order (visit f p E)"
  using merged_distinct by (auto simp: visit_def in_order_def)

definition entered :: "entry_states \<Rightarrow> MIRBlockIdentifier \<Rightarrow> bool" where
  "entered E p \<longleftrightarrow> E p \<noteq> None"

interpretation ownership: round_robin "nodes_of f" "\<lambda>p. p = entryBlockIdentifier f"
    "\<lambda>p. set (predecessorBlocks (the_block f p))"
    "\<lambda>p. if p = entryBlockIdentifier f then map_of (entry_state f) v else None" "generated f v"
    in_order entered "value_of v" "visit f" for f v
proof (unfold_locales, goal_cases)
  case 1 show ?case by simp
next
  case (2 p) then show ?case by (rule node_facts)
next
  case (3 p E) then show ?case by (simp add: visit_in_order)
next
  case (4 p E) show ?case using visit_same [of f p E] by (auto simp: entered_def)
next
  case (5 p E q) then show ?case by (simp add: visit_other value_of_def entered_def)
next
  case (6 p E)
  then have "value_of v (visit f p E) p = map_of (case E p of None \<Rightarrow> [] | Some st \<Rightarrow> st) v"
    by (simp add: value_of_visit merged_def node_facts(3))
  then show ?case by (simp add: value_of_def [of v E] split: option.splits)
next
  case (7 p E q)
  then obtain st where st: "E q = Some st" by (auto simp: entered_def)
  then have "block_exit (blockInstructions (the_block f q)) st \<in> set (exits f E (predecessorBlocks (the_block f p)))"
    using 7 by (force simp: exits_def)
  from merge_maps_laws(2) [OF exits_distinct [OF 7(2)] this, of v] show ?case
    using 7 value_of_def [of v E q] st
    by (simp add: value_of_visit merged_def node_facts(3) exit_value cong: option.case_cong)
next
  case (8 p E s)
  then have "map_of (mergeOwnershipMaps (exits f E (predecessorBlocks (the_block f p)))) v = Some s"
    by (simp add: value_of_visit merged_def node_facts(3))
  from merge_maps_laws(3) [OF exits_distinct [OF 8(2)] this]
  obtain q st where "q \<in> set (predecessorBlocks (the_block f p))" "E q = Some st"
    "map_of (block_exit (blockInstructions (the_block f q)) st) v = Some s"
    by (auto simp: exits_def)
  then show ?case
    by (intro bexI [of _ q]) (simp_all add: exit_value value_of_def [of v E] entered_def cong: option.case_cong)
qed

section \<open>The states along the paths\<close>

text \<open>
  The specification: the ownership maps that a path carries to the instruction \<open>k\<close> of the block \<open>p\<close>. A path starts
  at the entry with the parameters, or at any other block with nothing known, and goes on along the predecessor lists; it
  does not come back to the entry, whose state the checker never merges.
\<close>

inductive on_path :: "MIRFunctionDefinition \<Rightarrow> MIRBlockIdentifier \<Rightarrow> nat \<Rightarrow> OwnershipStateMap \<Rightarrow> bool" for f where
  path_start: "p \<in> nodes_of f \<Longrightarrow> on_path f p 0 (if p = entryBlockIdentifier f then entry_state f else [])"
| path_step: "on_path f p k st \<Longrightarrow> k < length (blockInstructions (the_block f p)) \<Longrightarrow>
    on_path f p (Suc k) (next_states (blockInstructions (the_block f p) ! k) st)"
| path_edge: "on_path f p (length (blockInstructions (the_block f p))) st \<Longrightarrow> q \<in> nodes_of f \<Longrightarrow>
    q \<noteq> entryBlockIdentifier f \<Longrightarrow> p \<in> set (predecessorBlocks (the_block f q)) \<Longrightarrow> on_path f q 0 st"

definition moved_operand :: "MIRInstruction \<Rightarrow> OwnershipStateMap \<Rightarrow> bool" where
  "moved_operand ins st \<longleftrightarrow>
     (\<exists>v \<in> set (sourceOperands ins). v \<noteq> INVALID_VARIABLE_IDENTIFIER \<and> map_of st v = Some Moved)"

definition uses_moved :: "MIRFunctionDefinition \<Rightarrow> bool" where
  "uses_moved f \<longleftrightarrow>
     (\<exists>p k st. on_path f p k st \<and> k < length (blockInstructions (the_block f p))
        \<and> moved_operand (blockInstructions (the_block f p) ! k) st)"

lemma on_path_node: "on_path f p k st \<Longrightarrow> p \<in> nodes_of f \<and> k \<le> length (blockInstructions (the_block f p))"
  by (induction rule: on_path.induct) auto

lemma on_path_run:
  "on_path f p 0 st \<Longrightarrow> k \<le> length (blockInstructions (the_block f p)) \<Longrightarrow>
     on_path f p k (block_exit (take k (blockInstructions (the_block f p))) st)"
proof (induction k)
  case (Suc k)
  then have "on_path f p (Suc k) (next_states (blockInstructions (the_block f p) ! k)
      (block_exit (take k (blockInstructions (the_block f p))) st))"
    by (intro path_step) simp_all
  with Suc.prems show ?case by (simp add: block_exit_def take_Suc_conv_app_nth)
qed (simp add: block_exit_def)

lemma on_path_origin:
  "on_path f p k st \<Longrightarrow>
     \<exists>st0. on_path f p 0 st0 \<and> st = block_exit (take k (blockInstructions (the_block f p))) st0"
proof (induction rule: on_path.induct)
  case (path_start p)
  then show ?case using on_path.path_start [OF path_start] by (auto simp: block_exit_def)
next
  case (path_step p k st)
  then obtain st0 where "on_path f p 0 st0" "st = block_exit (take k (blockInstructions (the_block f p))) st0" by blast
  with path_step(2) show ?case by (auto simp: block_exit_def take_Suc_conv_app_nth)
next
  case (path_edge p st q)
  then show ?case using on_path.path_edge [OF path_edge(1-4)] by (auto simp: block_exit_def)
qed

abbreviation arriving :: "MIRFunctionDefinition \<Rightarrow> MIRVariableIdentifier \<Rightarrow> nat \<Rightarrow> MIRBlockIdentifier \<Rightarrow> BorrowOwnershipState set" where
  "arriving f v \<equiv>
     facts (\<lambda>p. p = entryBlockIdentifier f) (\<lambda>p. set (predecessorBlocks (the_block f p)))
       (\<lambda>p. if p = entryBlockIdentifier f then map_of (entry_state f) v else None) (generated f v)"

lemma arriving_path:
  assumes "s \<in> arriving f v k p" and "p \<in> nodes_of f"
  shows "\<exists>st. on_path f p 0 st \<and> map_of st v = Some s"
  using assms
proof (induction k arbitrary: p)
  case 0
  then show ?case using path_start [of p f] by (auto split: if_splits)
next
  case (Suc k)
  show ?case
  proof (cases "p = entryBlockIdentifier f")
    case True
    then show ?thesis using Suc.prems path_start [of p f] by (auto simp: facts_Suc_iff)
  next
    case False
    then obtain q where q: "q \<in> set (predecessorBlocks (the_block f p))"
      "generated f v q = Some s \<or> generated f v q = None \<and> s \<in> arriving f v k q"
      using Suc.prems(1) by (auto simp: facts_Suc_iff)
    have qn: "q \<in> nodes_of f" using node_facts(4) [OF Suc.prems(2)] q(1) by blast
    obtain st where st: "on_path f q 0 st" "generated f v q = None \<Longrightarrow> map_of st v = Some s"
    proof (cases "generated f v q")
      case None
      then show ?thesis using Suc.IH [OF _ qn] q(2) that by auto
    next
      case (Some c)
      then show ?thesis using that [OF path_start [OF qn]] by simp
    qed
    let ?is = "blockInstructions (the_block f q)"
    have "map_of (block_exit ?is st) v = Some s"
      using st(2) q(2) by (subst exit_value) (auto split: option.split)
    moreover have "on_path f p 0 (block_exit ?is st)"
      using path_edge [OF _ Suc.prems(2) False q(1)] on_path_run [OF st(1), of "length ?is"] by simp
    ultimately show ?thesis by blast
  qed
qed

lemma path_arriving:
  "on_path f p k st \<Longrightarrow>
     \<exists>st0. st = block_exit (take k (blockInstructions (the_block f p))) st0
       \<and> (\<forall>s. map_of st0 v = Some s \<longrightarrow> (\<exists>m. s \<in> arriving f v m p))"
proof (induction rule: on_path.induct)
  case (path_start p)
  show ?case
    by (intro exI [of _ "if p = entryBlockIdentifier f then entry_state f else []"] conjI allI impI exI [of _ 0])
      (auto simp: block_exit_def split: if_splits)
next
  case (path_step p k st)
  then obtain st0 where "st = block_exit (take k (blockInstructions (the_block f p))) st0"
    "\<forall>s. map_of st0 v = Some s \<longrightarrow> (\<exists>m. s \<in> arriving f v m p)" by blast
  with path_step(2) show ?case by (auto simp: block_exit_def take_Suc_conv_app_nth)
next
  case (path_edge p st q)
  let ?is = "blockInstructions (the_block f p)"
  obtain st0 where st0: "st = block_exit ?is st0" "\<forall>s. map_of st0 v = Some s \<longrightarrow> (\<exists>m. s \<in> arriving f v m p)"
    using path_edge.IH by auto
  have step: "s \<in> arriving f v (Suc m) q" if "generated f v p = Some s \<or> generated f v p = None \<and> s \<in> arriving f v m p" for s m
    unfolding facts_Suc_iff using path_edge that by auto
  have "\<exists>m. s \<in> arriving f v m q" if s: "map_of st v = Some s" for s
  proof (cases "generated f v p")
    case (Some c)
    then show ?thesis using s st0(1) exit_value [of f p st0 v] step [of s 0] by auto
  next
    case None
    then have "map_of st0 v = Some s" using s st0(1) exit_value [of f p st0 v] by simp
    then obtain m where "s \<in> arriving f v m p" using st0(2) by blast
    with None show ?thesis using step by blast
  qed
  then show ?case by (auto simp: block_exit_def)
qed

lemma path_arriving_start: "on_path f p 0 st \<Longrightarrow> map_of st v = Some s \<Longrightarrow> \<exists>m. s \<in> arriving f v m p"
  using path_arriving [of f p 0 st v] by (auto simp: block_exit_def)

section \<open>What the reports do to the checker\<close>

text \<open>
  \<open>judged X L U chk r\<close>: the result is as \<open>X\<close> says and the violations only grow; they do grow if \<open>L\<close> holds, and
  if they grow, or the engine stops the compiler at its limit, \<open>U\<close> holds.
\<close>

definition limit_of :: "MIRBorrowChecker \<Rightarrow> uint32" where
  "limit_of chk = errorMaximum (diagnosticEngine chk)"

definition grown :: "bool \<Rightarrow> bool \<Rightarrow> MIRBorrowChecker \<Rightarrow> MIRBorrowChecker \<Rightarrow> bool" where
  "grown L U a b \<longleftrightarrow> limit_of b = limit_of a \<and> detectedViolations a \<le> detectedViolations b
     \<and> (detectedViolations a < detectedViolations b \<longrightarrow> U) \<and> (L \<longrightarrow> detectedViolations a < detectedViolations b)"

definition stopped :: "bool \<Rightarrow> MIRBorrowChecker \<Rightarrow> borrow_error \<Rightarrow> bool" where
  "stopped U a e \<longleftrightarrow> e = Diagnostic_limit \<and> 0 < limit_of a \<and> U"

definition judged :: "('a \<Rightarrow> MIRBorrowChecker \<Rightarrow> bool) \<Rightarrow> bool \<Rightarrow> bool \<Rightarrow> MIRBorrowChecker \<Rightarrow> 'a checked \<Rightarrow> bool" where
  "judged X L U a r \<longleftrightarrow>
     (case r of Inl e \<Rightarrow> stopped U a (fst e) | Inr s \<Rightarrow> (\<exists>b. X s b \<and> grown L U a b))"

lemma grown_refl: "grown False U a a"
  by (simp add: grown_def)

lemma grown_trans: "grown L U a b \<Longrightarrow> grown M U b c \<Longrightarrow> grown (L \<or> M) U a c"
  by (auto simp: grown_def)

lemma judged_Inr: "X s a \<Longrightarrow> judged X False U a (Inr s)"
  by (auto simp: judged_def intro: grown_refl)

lemma judged_bind:
  assumes "judged X L U a r" and "\<And>s b. X s b \<Longrightarrow> judged Y M U b (g s)"
  shows "judged Y (L \<or> M) U a (bindr r g)"
proof (cases r)
  case (Inl e)
  then show ?thesis using assms(1) by (simp add: judged_def)
next
  case (Inr s)
  then obtain b where b: "X s b" "grown L U a b" using assms(1) by (auto simp: judged_def)
  show ?thesis
  proof (cases "g s")
    case (Inl e)
    then show ?thesis using assms(2) [OF b(1)] b(2) Inr by (auto simp: judged_def stopped_def grown_def)
  next
    case (Inr t)
    then obtain c where "Y t c" "grown M U b c" using assms(2) [OF b(1)] by (auto simp: judged_def)
    with grown_trans [OF b(2)] show ?thesis using \<open>r = Inr s\<close> Inr by (auto simp: judged_def)
  qed
qed

lemma judged_weaken: "judged X L U a r \<Longrightarrow> (M \<Longrightarrow> L) \<Longrightarrow> judged X M U a r"
  by (auto simp: judged_def grown_def split: sum.splits)

lemma judged_report: "U \<Longrightarrow> judged (=) True U a (reportViolation msg src a)"
  by (auto simp: judged_def stopped_def grown_def reportViolation_def limit_of_def emit_error_def emit_def Let_def
      split: option.split)

lemma judged_operand:
  assumes "v \<noteq> INVALID_VARIABLE_IDENTIFIER \<and> map_of st v = Some Moved \<Longrightarrow> U"
  shows "judged (=) (v \<noteq> INVALID_VARIABLE_IDENTIFIER \<and> map_of st v = Some Moved) U a (check_operand f src st v a)"
proof (cases "v \<noteq> INVALID_VARIABLE_IDENTIFIER \<and> map_of st v = Some Moved")
  case True
  with judged_report [of U] assms show ?thesis by (simp add: check_operand_def)
next
  case False
  then have "check_operand f src st v a = Inr a" by (auto simp: check_operand_def)
  then show ?thesis using judged_weaken [OF judged_Inr [of "(=)" a a U]] False by (simp only:)
qed

lemma judged_operands:
  assumes "\<exists>v \<in> set vs. v \<noteq> INVALID_VARIABLE_IDENTIFIER \<and> map_of st v = Some Moved \<Longrightarrow> U"
  shows "judged (=) (\<exists>v \<in> set vs. v \<noteq> INVALID_VARIABLE_IDENTIFIER \<and> map_of st v = Some Moved) U a
    (foldr_res (check_operand f src st) vs a)"
  using assms
proof (induction vs arbitrary: a)
  case Nil
  show ?case using judged_Inr [of "(=)" a a U] by simp
next
  case (Cons v vs)
  have "judged (=) ((v \<noteq> INVALID_VARIABLE_IDENTIFIER \<and> map_of st v = Some Moved)
      \<or> (\<exists>v \<in> set vs. v \<noteq> INVALID_VARIABLE_IDENTIFIER \<and> map_of st v = Some Moved)) U a
      (bindr (check_operand f src st v a) (foldr_res (check_operand f src st) vs))"
    by (rule judged_bind [OF judged_operand]) (use Cons in auto)
  then show ?case by simp
qed

lemma judged_drop:
  assumes "moved_operand ins st \<Longrightarrow> U"
  shows "judged (=) False U a (check_drop f ins st a)"
proof (cases "sourceOperands ins")
  case Nil
  then show ?thesis using judged_Inr [of "(=)" a a U] by (simp add: check_drop_def)
next
  case (Cons v vs)
  show ?thesis
  proof (cases "v \<noteq> INVALID_VARIABLE_IDENTIFIER \<and> map_of st v = Some Moved")
    case True
    then have U using assms Cons by (auto simp: moved_operand_def)
    with True Cons judged_weaken [OF judged_report [of U], of False] show ?thesis by (simp add: check_drop_def)
  next
    case False
    then have "check_drop f ins st a = Inr a" using Cons by (auto simp: check_drop_def)
    then show ?thesis using judged_Inr [of "(=)" a a U] by simp
  qed
qed

abbreviation leads :: "'a \<Rightarrow> 'a \<times> MIRBorrowChecker \<Rightarrow> MIRBorrowChecker \<Rightarrow> bool" where
  "leads x \<equiv> (\<lambda>s b. s = (x, b))"

lemma judged_instruction:
  assumes "moved_operand ins st \<Longrightarrow> U"
  shows "judged (leads (next_states ins st)) (moved_operand ins st) U a (checkInstruction f ins (st, a))"
proof -
  have "judged (leads (next_states ins st)) (moved_operand ins st \<or> False) U a (checkInstruction f ins (st, a))"
    unfolding checkInstruction_def prod.case moved_operand_def
  proof (rule judged_bind [OF judged_operands])
    show U if "\<exists>v \<in> set (sourceOperands ins). v \<noteq> INVALID_VARIABLE_IDENTIFIER \<and> map_of st v = Some Moved"
      using assms that by (simp add: moved_operand_def)
    fix s b assume "s = (b :: MIRBorrowChecker)"
    have d: "judged (=) False U b
        (if instructionKind ins = DropValue \<or> instructionKind ins = HeapFree then check_drop f ins st b else Inr b)"
      using judged_drop [OF assms] judged_Inr [of "(=)" b b U] by simp
    have "judged (leads (next_states ins st)) (False \<or> False) U b
       (bindr (if instructionKind ins = DropValue \<or> instructionKind ins = HeapFree then check_drop f ins st b else Inr b)
         (\<lambda>chk2. Inr (next_states ins st, chk2)))"
      by (rule judged_bind [OF d]) (rule judged_Inr, simp)
    then show "judged (leads (next_states ins st)) False U b
       (bindr (if instructionKind ins = DropValue \<or> instructionKind ins = HeapFree then check_drop f ins st s else Inr s)
         (\<lambda>chk2. Inr (next_states ins st, chk2)))"
      unfolding \<open>s = b\<close> by simp
  qed
  then show ?thesis by simp
qed

fun moves_in :: "MIRInstruction list \<Rightarrow> OwnershipStateMap \<Rightarrow> bool" where
  "moves_in [] st = False"
| "moves_in (ins # is) st = (moved_operand ins st \<or> moves_in is (next_states ins st))"

lemma moves_in_iff: "moves_in is st \<longleftrightarrow> (\<exists>k < length is. moved_operand (is ! k) (block_exit (take k is) st))"
proof (induction "is" arbitrary: st)
  case (Cons ins "is")
  have "(\<exists>k < length (ins # is). moved_operand ((ins # is) ! k) (block_exit (take k (ins # is)) st))
      \<longleftrightarrow> moved_operand ins st \<or> (\<exists>k < length is. moved_operand (is ! k) (block_exit (take k is) (next_states ins st)))"
    by (simp add: Ex_less_Suc2 block_exit_def)
  then show ?case using Cons by simp
qed simp

lemma judged_instructions:
  assumes "moves_in is st \<Longrightarrow> U"
  shows "judged (leads (block_exit is st)) (moves_in is st) U a (foldr_res (checkInstruction f) is (st, a))"
  using assms
proof (induction "is" arbitrary: st a)
  case Nil
  show ?case using judged_Inr [of "leads st" "(st, a)" a U] by (simp add: block_exit_def)
next
  case (Cons ins "is")
  have "judged (leads (block_exit is (next_states ins st))) (moved_operand ins st \<or> moves_in is (next_states ins st)) U a
      (bindr (checkInstruction f ins (st, a)) (foldr_res (checkInstruction f) is))"
    by (rule judged_bind [OF judged_instruction]) (use Cons in auto)
  then show ?case by (simp add: block_exit_def)
qed

section \<open>The rounds\<close>

definition visit_changed :: "MIRFunctionDefinition \<Rightarrow> MIRBlockIdentifier \<Rightarrow> bool \<times> entry_states \<Rightarrow> bool \<times> entry_states" where
  "visit_changed f p s = (fst s \<or> \<not> settles f p (snd s), visit f p (snd s))"

definition block_ids :: "cfg \<Rightarrow> MIRBlockIdentifier list" where
  "block_ids c = map (blockIdentifier \<circ> the) (filter (\<lambda>b. b \<noteq> None) c)"

fun plain_rounds :: "nat \<Rightarrow> MIRFunctionDefinition \<Rightarrow> entry_states \<Rightarrow> entry_states" where
  "plain_rounds 0 f E = E"
| "plain_rounds (Suc n) f E =
     (let s = fold (visit_changed f) (block_ids (controlFlowBlocks f)) (False, E)
      in if fst s then plain_rounds n f (snd s) else snd s)"

lemma visit_changed_snd: "snd (fold (visit_changed f) ps s) = fold (visit f) ps (snd s)"
  by (induction ps arbitrary: s) (simp_all add: visit_changed_def)

lemma visit_changed_fst: "fst s \<Longrightarrow> fst (fold (visit_changed f) ps s)"
  by (induction ps arbitrary: s) (simp_all add: visit_changed_def)

lemma visit_unchanged: "\<not> fst (fold (visit_changed f) ps s) \<Longrightarrow> fold (visit f) ps (snd s) = snd s"
proof (induction ps arbitrary: s)
  case (Cons p ps)
  then have "\<not> fst (visit_changed f p s)" using visit_changed_fst [of "visit_changed f p s" f ps] by auto
  then have "visit f p (snd s) = snd s" by (simp add: visit_changed_def visit_def)
  with Cons.IH [of "visit_changed f p s"] Cons.prems show ?case by (simp add: visit_changed_def [of f p s])
qed simp

lemma block_ids_nodes:
  assumes "graph_ok (controlFlowBlocks f)"
  shows "set (block_ids (controlFlowBlocks f)) = nodes_of f"
proof -
  let ?c = "controlFlowBlocks f"
  have at: "block_at ?c (unat (blockIdentifier b)) = Some b" if m: "Some b \<in> set ?c" for b
  proof -
    obtain i where "i < length ?c" "?c ! i = Some b" using m unfolding in_set_conv_nth by blast
    then have "block_at ?c i = Some b" by (simp add: block_at_def)
    moreover have "unat (blockIdentifier b) = i" using assms calculation by (simp add: graph_ok_def numbered_def)
    ultimately show ?thesis by simp
  qed
  show ?thesis
  proof
    show "set (block_ids ?c) \<subseteq> nodes_of f"
      using at assms by (auto simp: block_ids_def nodes_of_def)
    show "nodes_of f \<subseteq> set (block_ids ?c)"
    proof
      fix p assume p: "p \<in> nodes_of f"
      then have "Some (the_block f p) \<in> set ?c"
        using node_facts(2) [OF p] by (auto simp: block_at_def split: if_splits) (metis nth_mem)
      then have "blockIdentifier (the_block f p) \<in> set (block_ids ?c)" by (force simp: block_ids_def)
      then show "p \<in> set (block_ids ?c)" using node_facts(3) [OF p] by simp
    qed
  qed
qed

lemma card_nodes_of: "card (nodes_of f) \<le> length (controlFlowBlocks f)"
proof -
  have "inj_on unat (nodes_of f)" by (simp add: inj_on_def word_unat_eq_iff)
  moreover have "unat ` nodes_of f \<subseteq> {..<length (controlFlowBlocks f)}"
    by (auto simp: nodes_of_def dest: block_at_length split: if_splits)
  ultimately show ?thesis using card_inj_on_le [of unat "nodes_of f" "{..<length (controlFlowBlocks f)}"] by simp
qed

definition all_sound :: "MIRFunctionDefinition \<Rightarrow> entry_states \<Rightarrow> bool" where
  "all_sound f E \<longleftrightarrow> (\<forall>v. ownership.sound f v E)"

lemma all_sound_start:
  "all_sound f [entryBlockIdentifier f \<mapsto> entry_state f]"
  using distinct_keys_entry
  by (auto simp: all_sound_def ownership.sound_def in_order_def value_of_def intro!: exI [of _ 0] split: if_splits)

lemma all_sound_visit: "p \<in> nodes_of f \<Longrightarrow> all_sound f E \<Longrightarrow> all_sound f (visit f p E)"
  by (simp add: all_sound_def ownership.visit_sound)

lemma all_sound_rounds:
  assumes "graph_ok (controlFlowBlocks f)" and "all_sound f E"
  shows "all_sound f (plain_rounds n f E)"
  using assms(2)
proof (induction n arbitrary: E)
  case (Suc n)
  have "all_sound f (fold (visit f) (block_ids (controlFlowBlocks f)) E)"
    using Suc.prems block_ids_nodes [OF assms(1)] by (simp add: all_sound_def ownership.round_sound)
  with Suc.IH show ?case by (simp add: visit_changed_snd Let_def)
qed simp

lemma plain_rounds_cover:
  assumes g: "graph_ok (controlFlowBlocks f)" and "all_sound f E" and "ownership.covers f v (\<lambda>_. k) E"
    and "card (nodes_of f) \<le> n + k"
  shows "ownership.covers f v (\<lambda>_. card (nodes_of f)) (plain_rounds n f E)"
  using assms(2-4)
proof (induction n arbitrary: E k)
  case 0
  then show ?case using ownership.reaching_mono [of "card (nodes_of f)" k f v]
    by (auto simp: ownership.covers_def)
next
  case (Suc n)
  let ?ids = "block_ids (controlFlowBlocks f)"
  let ?s = "fold (visit_changed f) ?ids (False, E)"
  have E: "ownership.sound f v E" using Suc.prems(1) by (simp add: all_sound_def)
  note round = ownership.full_round_covers [OF block_ids_nodes [OF g] E]
  show ?case
  proof (cases "fst ?s")
    case True
    have "all_sound f (fold (visit f) ?ids E)"
      using Suc.prems(1) block_ids_nodes [OF g] by (simp add: all_sound_def ownership.round_sound)
    from Suc.IH [OF this round [OF Suc.prems(2)]] Suc.prems(3) True
    show ?thesis by (simp add: visit_changed_snd Let_def)
  next
    case False
    then have same: "fold (visit f) ?ids E = E" using visit_unchanged [of f ?ids "(False, E)"] by simp
    have "ownership.covers f v (\<lambda>_. k + m) E" for m
      by (induction m) (use Suc.prems(2) round same in auto)
    from this [of "Suc n"] have "ownership.covers f v (\<lambda>_. card (nodes_of f)) E"
      using Suc.prems(3) ownership.reaching_mono [of "card (nodes_of f)" "k + Suc n" f v]
      by (auto simp: ownership.covers_def)
    then show ?thesis using False same by (simp add: visit_changed_snd Let_def)
  qed
qed

lemma plain_rounds_settle:
  assumes g: "graph_ok (controlFlowBlocks f)"
  shows "ownership.covers f v (\<lambda>_. card (nodes_of f))
    (plain_rounds (max_iterations f) f [entryBlockIdentifier f \<mapsto> entry_state f])"
proof -
  let ?E = "[entryBlockIdentifier f \<mapsto> entry_state f] :: entry_states"
  let ?ids = "block_ids (controlFlowBlocks f)"
  have "ownership.sound f v ?E" using all_sound_start by (simp add: all_sound_def)
  from ownership.first_round_covers [OF block_ids_nodes [OF g] this]
  have c: "ownership.covers f v (\<lambda>_. 0) (fold (visit f) ?ids ?E)" .
  have s: "all_sound f (fold (visit f) ?ids ?E)"
    using all_sound_start block_ids_nodes [OF g] by (simp add: all_sound_def ownership.round_sound)
  obtain n where n: "max_iterations f = Suc n" "card (nodes_of f) \<le> n"
    using card_nodes_of [of f] by (simp add: max_iterations_def)
  let ?s = "fold (visit_changed f) ?ids (False, ?E)"
  show ?thesis
  proof (cases "fst ?s")
    case True
    then show ?thesis using plain_rounds_cover [OF g s c] n by (simp add: visit_changed_snd Let_def)
  next
    case False
    then have same: "fold (visit f) ?ids ?E = ?E" using visit_unchanged [of f ?ids "(False, ?E)"] by simp
    from plain_rounds_cover [OF g s c, of "max_iterations f"] n
    have "ownership.covers f v (\<lambda>_. card (nodes_of f)) (plain_rounds (max_iterations f) f ?E)" by (simp add: same)
    then show ?thesis .
  qed
qed

section \<open>Violations are found exactly on the paths\<close>

lemma path_moves:
  assumes "on_path f p 0 st" and "moves_in (blockInstructions (the_block f p)) st"
  shows "uses_moved f"
proof -
  obtain k where k: "k < length (blockInstructions (the_block f p))"
    "moved_operand (blockInstructions (the_block f p) ! k) (block_exit (take k (blockInstructions (the_block f p))) st)"
    using assms(2) by (auto simp: moves_in_iff)
  with on_path_run [OF assms(1), of k] show ?thesis unfolding uses_moved_def by (meson less_imp_le_nat)
qed

text \<open>A moved operand depends on one variable only.\<close>

lemma moves_in_transfer:
  assumes "moves_in is st" and "\<And>v. map_of st v = Some Moved \<Longrightarrow> \<exists>st'. P st' \<and> map_of st' v = Some Moved" and "P st0"
  shows "\<exists>st'. P st' \<and> moves_in is st'"
proof -
  obtain k v where k: "k < length is" "v \<in> set (sourceOperands (is ! k))" "v \<noteq> INVALID_VARIABLE_IDENTIFIER"
    and m: "map_of (block_exit (take k is) st) v = Some Moved"
    using assms(1) by (auto simp: moves_in_iff moved_operand_def)
  let ?g = "map_of (block_exit (take k is) []) v"
  have val: "map_of (block_exit (take k is) t) v = (case ?g of None \<Rightarrow> map_of t v | Some s \<Rightarrow> Some s)" for t
    using overrides_exit [of "take k is"] unfolding overrides_def by blast
  have "\<exists>t. P t \<and> map_of (block_exit (take k is) t) v = Some Moved"
  proof (cases ?g)
    case None
    with m val [of st] have "map_of st v = Some Moved" by simp
    from assms(2) [OF this] show ?thesis using val None by auto
  next
    case (Some s)
    with m val [of st] val [of st0] assms(3) show ?thesis by (intro exI [of _ st0]) simp
  qed
  with k show ?thesis by (auto simp: moves_in_iff moved_operand_def)
qed

lemma sound_moves:
  assumes "all_sound f E" and "p \<in> nodes_of f" and "E p = Some st"
    and "moves_in (blockInstructions (the_block f p)) st"
  shows "uses_moved f"
proof -
  have "\<exists>st'. on_path f p 0 st' \<and> map_of st' v = Some Moved" if "map_of st v = Some Moved" for v
  proof -
    have "value_of v E p = Some Moved" using that assms(3) by (simp add: value_of_def)
    then obtain k where "Moved \<in> arriving f v k p"
      using assms(1,2) unfolding all_sound_def ownership.sound_def by blast
    from arriving_path [OF this assms(2)] show ?thesis .
  qed
  from moves_in_transfer [OF assms(4) this path_start [OF assms(2)]] path_moves show ?thesis by blast
qed

lemma covered_moves:
  assumes "all_sound f E" and "\<And>v. ownership.covers f v (\<lambda>_. card (nodes_of f)) E" and "uses_moved f"
  shows "\<exists>p \<in> nodes_of f. \<exists>st. E p = Some st \<and> moves_in (blockInstructions (the_block f p)) st"
proof -
  obtain p k st where path: "on_path f p k st" "k < length (blockInstructions (the_block f p))"
    "moved_operand (blockInstructions (the_block f p) ! k) st"
    using assms(3) by (auto simp: uses_moved_def)
  have p: "p \<in> nodes_of f" using on_path_node path(1) by blast
  obtain st0 where st0: "on_path f p 0 st0" "st = block_exit (take k (blockInstructions (the_block f p))) st0"
    using on_path_origin [OF path(1)] by blast
  have m: "moves_in (blockInstructions (the_block f p)) st0" using path st0(2) by (auto simp: moves_in_iff)
  obtain st1 where st1: "E p = Some st1"
    using assms(2) [of 0] p by (auto simp: ownership.covers_def entered_def)
  have "\<exists>st'. E p = Some st' \<and> map_of st' v = Some Moved" if mv: "map_of st0 v = Some Moved" for v
  proof -
    obtain n where n: "Moved \<in> arriving f v n p" using path_arriving_start [OF st0(1) mv] by blast
    have "value_of v E p = Some Moved"
      unfolding ownership.settled [OF assms(1) [unfolded all_sound_def, rule_format] assms(2) p]
      using n by auto
    then show ?thesis using st1 by (simp add: value_of_def)
  qed
  from moves_in_transfer [OF m this st1] p show ?thesis by blast
qed

lemma node_entry:
  assumes "p \<in> nodes_of f"
  shows "\<not> length (controlFlowBlocks f) \<le> unat p" and "controlFlowBlocks f ! unat p = Some (the_block f p)"
  using node_facts(2) [OF assms] by (auto simp: block_at_def split: if_splits)

lemma judged_predecessor:
  assumes "all_sound f E" and "p \<in> nodes_of f"
  shows "judged (leads (ms @ exits f E [p])) False (uses_moved f) a (predecessor_state f E p (ms, a))"
proof (cases "E p")
  case None
  then show ?thesis
    using judged_Inr [of "leads ms" "(ms, a)" a "uses_moved f"] by (simp add: predecessor_state_def exits_def)
next
  case (Some st)
  let ?is = "blockInstructions (the_block f p)"
  have "judged (leads (ms @ exits f E [p])) (moves_in ?is st \<or> False) (uses_moved f) a
      (bindr (foldr_res (checkInstruction f) ?is (st, a)) (\<lambda>(exitState, chk). Inr (ms @ [exitState], chk)))"
  proof (rule judged_bind [OF judged_instructions])
    show "moves_in ?is st \<Longrightarrow> uses_moved f" by (rule sound_moves [OF assms Some])
    show "judged (leads (ms @ exits f E [p])) False (uses_moved f) b
        (case s of (exitState, chk) \<Rightarrow> Inr (ms @ [exitState], chk))"
      if "s = (block_exit ?is st, b)" for s b
      unfolding that by (simp, rule judged_Inr, simp add: exits_def Some)
  qed
  from judged_weaken [OF this, of False] show ?thesis
    by (simp add: predecessor_state_def Some node_entry [OF assms(2)])
qed

lemma exits_Cons: "exits f E (p # ps) = exits f E [p] @ exits f E ps"
  by (simp add: exits_def)

lemma judged_predecessors:
  assumes "all_sound f E" and "set ps \<subseteq> nodes_of f"
  shows "judged (leads (ms @ exits f E ps)) False (uses_moved f) a (foldr_res (predecessor_state f E) ps (ms, a))"
  using assms(2)
proof (induction ps arbitrary: ms a)
  case Nil
  show ?case using judged_Inr [of "leads ms" "(ms, a)" a "uses_moved f"] by (simp add: exits_def)
next
  case (Cons p ps)
  have "judged (leads (ms @ exits f E (p # ps))) (False \<or> False) (uses_moved f) a
      (bindr (predecessor_state f E p (ms, a)) (foldr_res (predecessor_state f E) ps))"
  proof (rule judged_bind [OF judged_predecessor [OF assms(1)]])
    show "p \<in> nodes_of f" using Cons.prems by simp
    show "judged (leads (ms @ exits f E (p # ps))) False (uses_moved f) b (foldr_res (predecessor_state f E) ps s)"
      if "s = (ms @ exits f E [p], b)" for s b
      using Cons.IH [of "ms @ exits f E [p]" b] Cons.prems that by (simp add: exits_Cons [of f E p ps])
  qed
  then show ?case by simp
qed

lemma judged_merged:
  assumes "all_sound f E" and "p \<in> nodes_of f"
  shows "judged (leads (merged f E (the_block f p))) False (uses_moved f) a (merged_entry_state f E (the_block f p) a)"
proof (cases "p = entryBlockIdentifier f")
  case True
  then show ?thesis
    using judged_Inr [of "leads (merged f E (the_block f p))" "(merged f E (the_block f p), a)" a "uses_moved f"]
      node_facts(3) [OF assms(2)]
    by (simp add: merged_entry_state_def merged_def)
next
  case False
  have "judged (leads (merged f E (the_block f p))) (False \<or> False) (uses_moved f) a
      (bindr (foldr_res (predecessor_state f E) (predecessorBlocks (the_block f p)) ([], a))
        (\<lambda>(maps, chk). Inr (mergeOwnershipMaps maps, chk)))"
  proof (rule judged_bind [OF judged_predecessors [OF assms(1) node_facts(4) [OF assms(2)]]])
    show "judged (leads (merged f E (the_block f p))) False (uses_moved f) b
        (case s of (maps, chk) \<Rightarrow> Inr (mergeOwnershipMaps maps, chk))"
      if "s = ([] @ exits f E (predecessorBlocks (the_block f p)), b)" for s b
      unfolding that by (simp, rule judged_Inr) (simp add: merged_def False node_facts(3) [OF assms(2)])
  qed
  then show ?thesis by (simp add: merged_entry_state_def False node_facts(3) [OF assms(2)])
qed

abbreviation leads2 :: "'a \<times> 'b \<Rightarrow> 'a \<times> 'b \<times> MIRBorrowChecker \<Rightarrow> MIRBorrowChecker \<Rightarrow> bool" where
  "leads2 x \<equiv> (\<lambda>s b. s = (fst x, snd x, b))"

lemma judged_visit:
  assumes "all_sound f E" and "p \<in> nodes_of f"
  shows "judged (leads2 (visit_changed f p (ch, E))) False (uses_moved f) a
    (visit_block f (Some (the_block f p)) (ch, E, a))"
proof -
  let ?b = "the_block f p"
  have "judged (leads2 (visit_changed f p (ch, E))) (False \<or> False) (uses_moved f) a
      (bindr (merged_entry_state f E ?b a) (\<lambda>(mergedEntryState, chk1).
        let unchanged = (case E (blockIdentifier ?b) of None \<Rightarrow> False | Some st \<Rightarrow> same_states st mergedEntryState)
        in if unchanged then Inr (ch, E, chk1) else Inr (True, E(blockIdentifier ?b \<mapsto> mergedEntryState), chk1)))"
  proof (rule judged_bind [OF judged_merged [OF assms]])
    fix s b assume s: "s = (merged f E ?b, b :: MIRBorrowChecker)"
    have eq: "(let unchanged = settles f p E in if unchanged then Inr (ch, E, b) else Inr (True, E(p \<mapsto> merged f E ?b), b))
        = Inr (fst (visit_changed f p (ch, E)), snd (visit_changed f p (ch, E)), b)"
      by (simp add: visit_changed_def visit_def)
    show "judged (leads2 (visit_changed f p (ch, E))) False (uses_moved f) b
      (case s of (mergedEntryState, chk1) \<Rightarrow>
        let unchanged = (case E (blockIdentifier ?b) of None \<Rightarrow> False | Some st \<Rightarrow> same_states st mergedEntryState)
        in if unchanged then Inr (ch, E, chk1) else Inr (True, E(blockIdentifier ?b \<mapsto> mergedEntryState), chk1))"
      unfolding s prod.case node_facts(3) [OF assms(2)] settles_def [symmetric] eq
      by (rule judged_Inr) simp
  qed
  then show ?thesis by (simp add: visit_block_def)
qed

lemma judged_round:
  assumes "graph_ok (controlFlowBlocks f)" and "set bs \<subseteq> set (controlFlowBlocks f)" and "all_sound f E"
  shows "judged (leads2 (fold (visit_changed f) (block_ids bs) (ch, E))) False (uses_moved f) a
    (foldr_res (visit_block f) bs (ch, E, a))"
  using assms(2,3)
proof (induction bs arbitrary: ch E a)
  case Nil
  show ?case using judged_Inr [of "leads2 (ch, E)" "(ch, E, a)" a "uses_moved f"] by (simp add: block_ids_def)
next
  case (Cons x bs)
  show ?case
  proof (cases x)
    case None
    then show ?thesis using Cons by (simp add: visit_block_def block_ids_def)
  next
    case (Some b)
    have ids: "block_ids (x # bs) = blockIdentifier b # block_ids bs" by (simp add: block_ids_def Some)
    have p: "blockIdentifier b \<in> nodes_of f"
      using block_ids_nodes [OF assms(1)] Cons.prems(1) Some by (force simp: block_ids_def)
    have b: "the_block f (blockIdentifier b) = b"
    proof -
      obtain i where i: "i < length (controlFlowBlocks f)" "controlFlowBlocks f ! i = Some b"
        using Cons.prems(1) Some by (auto simp: in_set_conv_nth)
      then have "block_at (controlFlowBlocks f) i = Some b" by (simp add: block_at_def)
      then show ?thesis using assms(1) by (auto simp: graph_ok_def numbered_def the_block_def)
    qed
    let ?s = "visit_changed f (blockIdentifier b) (ch, E)"
    have "judged (leads2 (fold (visit_changed f) (block_ids bs) ?s)) (False \<or> False) (uses_moved f) a
        (bindr (visit_block f (Some b) (ch, E, a)) (foldr_res (visit_block f) bs))"
    proof (rule judged_bind [OF judged_visit [OF Cons.prems(2) p, unfolded b]])
      have "all_sound f (snd ?s)" using all_sound_visit [OF p Cons.prems(2)] by (simp add: visit_changed_def)
      then show "judged (leads2 (fold (visit_changed f) (block_ids bs) ?s)) False (uses_moved f) c
          (foldr_res (visit_block f) bs s)" if "s = (fst ?s, snd ?s, c)" for s c
        using Cons.IH [of "snd ?s" "fst ?s" c] Cons.prems(1) that by simp
    qed
    then show ?thesis by (simp add: Some [symmetric] ids del: fold_simps)
  qed
qed

lemma judged_rounds:
  assumes "graph_ok (controlFlowBlocks f)" and "all_sound f E"
  shows "judged (leads (plain_rounds n f E)) False (uses_moved f) a (propagate_rounds n f (E, a))"
  using assms(2)
proof (induction n arbitrary: E a)
  case 0
  show ?case using judged_Inr [of "leads E" "(E, a)" a "uses_moved f"] by simp
next
  case (Suc n)
  let ?s = "fold (visit_changed f) (block_ids (controlFlowBlocks f)) (False, E)"
  have "judged (leads (plain_rounds (Suc n) f E)) (False \<or> False) (uses_moved f) a
      (bindr (foldr_res (visit_block f) (controlFlowBlocks f) (False, E, a))
        (\<lambda>(changed, t). if changed then propagate_rounds n f t else Inr t))"
  proof (rule judged_bind [OF judged_round [OF assms(1) order_refl Suc.prems]])
    have "all_sound f (snd ?s)"
      using Suc.prems block_ids_nodes [OF assms(1)] by (simp add: visit_changed_snd all_sound_def ownership.round_sound)
    note IH = Suc.IH [OF this]
    show "judged (leads (plain_rounds (Suc n) f E)) False (uses_moved f) b
        (case s of (changed, t) \<Rightarrow> if changed then propagate_rounds n f t else Inr t)"
      if "s = (fst ?s, snd ?s, b)" for s b
    proof (cases "fst ?s")
      case True
      then show ?thesis using IH [of b] that by (simp add: Let_def)
    next
      case False
      then show ?thesis
        using judged_Inr [of "leads (snd ?s)" "(snd ?s, b)" b "uses_moved f"] that by (simp add: Let_def)
    qed
  qed
  then show ?case by simp
qed

definition block_moves :: "entry_states \<Rightarrow> MIRBasicBlock option \<Rightarrow> bool" where
  "block_moves E x \<longleftrightarrow>
     (\<exists>b. x = Some b \<and> moves_in (blockInstructions b) (case E (blockIdentifier b) of None \<Rightarrow> [] | Some st \<Rightarrow> st))"

lemma judged_block:
  assumes "block_moves E x \<Longrightarrow> U"
  shows "judged (=) (block_moves E x) U a (check_block f E x a)"
proof (cases x)
  case None
  then show ?thesis using judged_Inr [of "(=)" a a U] by (simp add: check_block_def block_moves_def)
next
  case (Some b)
  let ?st = "case E (blockIdentifier b) of None \<Rightarrow> [] | Some st \<Rightarrow> st"
  have "judged (=) (moves_in (blockInstructions b) ?st \<or> False) U a
      (bindr (foldr_res (checkInstruction f) (blockInstructions b) (?st, a)) (\<lambda>(_, chk1). Inr chk1))"
  proof (rule judged_bind [OF judged_instructions])
    show "moves_in (blockInstructions b) ?st \<Longrightarrow> U" using assms Some by (simp add: block_moves_def)
    show "judged (=) False U c (case s of (_, chk1) \<Rightarrow> Inr chk1)"
      if "s = (block_exit (blockInstructions b) ?st, c)" for s c
      unfolding that by (simp, rule judged_Inr, simp)
  qed
  then show ?thesis by (simp add: check_block_def block_moves_def Some Let_def)
qed

lemma judged_blocks:
  assumes "\<exists>x \<in> set xs. block_moves E x \<Longrightarrow> U"
  shows "judged (=) (\<exists>x \<in> set xs. block_moves E x) U a (foldr_res (check_block f E) xs a)"
  using assms
proof (induction xs arbitrary: a)
  case Nil
  show ?case using judged_Inr [of "(=)" a a U] by simp
next
  case (Cons x xs)
  have "judged (=) (block_moves E x \<or> (\<exists>x \<in> set xs. block_moves E x)) U a
      (bindr (check_block f E x a) (foldr_res (check_block f E) xs))"
    by (rule judged_bind [OF judged_block]) (use Cons in auto)
  then show ?case by simp
qed

lemma judged_check:
  assumes g: "graph_ok (controlFlowBlocks f)"
  shows "judged (=) (uses_moved f) (uses_moved f) a (propagateOwnershipStates f a)"
proof -
  let ?start = "[entryBlockIdentifier f \<mapsto> entry_state f] :: entry_states"
  let ?E = "plain_rounds (max_iterations f) f ?start"
  let ?L = "\<exists>x \<in> set (controlFlowBlocks f). block_moves ?E x"
  have sound: "all_sound f ?E" using all_sound_rounds [OF g all_sound_start] .
  have node: "blockIdentifier b \<in> nodes_of f \<and> the_block f (blockIdentifier b) = b"
    if m: "Some b \<in> set (controlFlowBlocks f)" for b
  proof -
    obtain i where "i < length (controlFlowBlocks f)" "controlFlowBlocks f ! i = Some b"
      using m unfolding in_set_conv_nth by blast
    then have "block_at (controlFlowBlocks f) i = Some b" by (simp add: block_at_def)
    then show ?thesis using g by (auto simp: graph_ok_def numbered_def the_block_def nodes_of_def)
  qed
  have up: "uses_moved f" if L: ?L
  proof -
    from L obtain b where b: "Some b \<in> set (controlFlowBlocks f)"
      "moves_in (blockInstructions b) (case ?E (blockIdentifier b) of None \<Rightarrow> [] | Some st \<Rightarrow> st)"
      by (auto simp: block_moves_def)
    note n = node [OF b(1)]
    obtain st where "?E (blockIdentifier b) = Some st"
      using plain_rounds_settle [OF g, of 0] n by (auto simp: ownership.covers_def entered_def)
    then show ?thesis using sound_moves [OF sound] n b(2) by auto
  qed
  have down: ?L if u: "uses_moved f"
  proof -
    obtain p st where p: "p \<in> nodes_of f" "?E p = Some st" "moves_in (blockInstructions (the_block f p)) st"
      using covered_moves [OF sound plain_rounds_settle [OF g] u] by blast
    then have "block_moves ?E (Some (the_block f p))" by (simp add: block_moves_def node_facts(3) [OF p(1)])
    moreover have "Some (the_block f p) \<in> set (controlFlowBlocks f)"
      using node_entry [OF p(1)] by (metis not_le nth_mem)
    ultimately show ?thesis by blast
  qed
  have "judged (=) (False \<or> ?L) (uses_moved f) a
      (bindr (propagate_rounds (max_iterations f) f (?start, a))
        (\<lambda>(blockEntryStates, chk1). foldr_res (check_block f blockEntryStates) (controlFlowBlocks f) chk1))"
  proof (rule judged_bind [OF judged_rounds [OF g all_sound_start]])
    show "judged (=) ?L (uses_moved f) b
        (case s of (blockEntryStates, chk1) \<Rightarrow> foldr_res (check_block f blockEntryStates) (controlFlowBlocks f) chk1)"
      if "s = (?E, b)" for s b
      unfolding that prod.case by (rule judged_blocks) (rule up)
  qed
  from judged_weaken [OF this, of "uses_moved f"] down show ?thesis by (simp add: propagateOwnershipStates_def)
qed

text \<open>
  C4. The ownership checker is exact: on a function whose blocks carry their positions and whose predecessors
  exist, it returns a positive number of violations exactly when some path reads a variable that it has moved
  before; it is stopped only by the limit of the engine, and then there is such a path too. In particular the bound on the rounds
  never ends the iteration too early.
\<close>

theorem borrow_check_exact:
  assumes "graph_ok (controlFlowBlocks f)"
  shows "case borrow_check f chk of
      Inl (e, _) \<Rightarrow> e = Diagnostic_limit \<and> 0 < errorMaximum (diagnosticEngine chk) \<and> uses_moved f
    | Inr chk' \<Rightarrow> (0 < violationCount chk' \<longleftrightarrow> uses_moved f)"
  using judged_check [OF assms, of "chk\<lparr>detectedViolations := 0\<rparr>"]
  by (auto simp: judged_def borrow_check_def stopped_def grown_def violationCount_def limit_of_def split: sum.splits)

text \<open>The analysis before it, whose edges the checker follows, provides its graph.\<close>

lemma analyzed_graph_ok:
  assumes "analyze f = Some g" and "numbered (controlFlowBlocks f)"
  shows "graph_ok (controlFlowBlocks g)"
  unfolding graph_ok_def
proof (intro conjI allI impI ballI)
  let ?c = "controlFlowBlocks f" and ?d = "controlFlowBlocks g"
  show "numbered ?d"
    unfolding numbered_def
  proof (intro allI impI)
    fix i b assume "block_at ?d i = Some b"
    from analyze_block [OF assms(1) this] obtain b0 where "block_at ?c i = Some b0" "blockIdentifier b = blockIdentifier b0"
      by metis
    then show "unat (blockIdentifier b) = i" using assms(2) by (simp add: numbered_def)
  qed
  fix i b p assume b: "block_at ?d i = Some b" and p: "p \<in> set (predecessorBlocks b)"
  from analyze_block [OF assms(1) b] have "predecessorBlocks b = concat (map (sources ?c i) [0..<length ?c])" by metis
  with p obtain k where "p \<in> set (sources ?c i k)" by auto
  then obtain b0 where k: "block_at ?c k = Some b0" "p = blockIdentifier b0"
    by (cases "block_at ?c k") (auto simp: sources_def)
  then have "unat p = k" using assms(2) by (simp add: numbered_def)
  moreover have "block_at ?d k \<noteq> None"
  proof -
    obtain b' where "block_at (local_sets ?c) k = Some b'" using k(1) by (simp add: block_at_local_sets)
    from shape_block_at [OF analyze_returned(1) [OF assms(1), symmetric] this] show ?thesis by auto
  qed
  ultimately show "block_at ?d (unat p) \<noteq> None" by simp
qed

text \<open>A loop whose body moves a parameter: the second turn uses it after the move.\<close>

definition moving_loop :: MIRFunctionDefinition where
  "moving_loop = new_MIRFunctionDefinition\<lparr>parameterVariableIdentifiers := [4], controlFlowBlocks :=
     [Some (make_block 0 [make_instruction ConstantBoolean 0 [], jump_to 1]),
      Some (make_block 1 [branch_on 0 2 3]),
      Some (make_block 2 [make_instruction MoveValue 5 [4], jump_to 1]),
      Some (make_block 3 [make_instruction ReturnValue INVALID_VARIABLE_IDENTIFIER []])]\<rparr>"

definition new_MIRBorrowChecker :: "Engine \<Rightarrow> MIRBorrowChecker" where
  "new_MIRBorrowChecker e = \<lparr>diagnosticEngine = e, detectedViolations = 0\<rparr>"

definition analyzed_moving_loop :: MIRFunctionDefinition where
  "analyzed_moving_loop = moving_loop\<lparr>controlFlowBlocks := the (rounds 3 (local_sets (controlFlowBlocks moving_loop)))\<rparr>"

lemma analyze_moving_loop: "analyze moving_loop = Some analyzed_moving_loop"
proof -
  have "rounds 3 (local_sets (controlFlowBlocks moving_loop)) \<noteq> None" by code_simp
  then obtain d where d: "rounds 3 (local_sets (controlFlowBlocks moving_loop)) = Some d" by blast
  from rounds_loop [OF d] d show ?thesis by (simp add: analyze_def analyzed_moving_loop_def)
qed

lemma numbered_list: "numbered c \<longleftrightarrow> list_all (\<lambda>i. case c ! i of None \<Rightarrow> True | Some b \<Rightarrow> unat (blockIdentifier b) = i) [0..<length c]"
  by (auto simp: numbered_def list_all_iff block_at_def split: option.splits if_splits)

theorem borrow_check_exact_witness:
  "analyze moving_loop = Some analyzed_moving_loop \<and> uses_moved analyzed_moving_loop"
proof -
  have n: "numbered (controlFlowBlocks moving_loop)" unfolding numbered_list by code_simp
  let ?chk = "new_MIRBorrowChecker (Engine_with_limits 0 0)"
  have "case borrow_check analyzed_moving_loop ?chk of Inl _ \<Rightarrow> False | Inr chk' \<Rightarrow> 0 < violationCount chk'"
    by code_simp
  then show ?thesis
    using borrow_check_exact [OF analyzed_graph_ok [OF analyze_moving_loop n], of ?chk] analyze_moving_loop
    by (auto split: sum.splits)
qed

text \<open>
  Two states of the enumeration are never reached: nothing is ever borrowed mutably or uninitialised, so that the checker knows no
  violation but the use of a moved variable.
\<close>

definition simple_state :: "BorrowOwnershipState option \<Rightarrow> bool" where
  "simple_state s \<longleftrightarrow> s \<noteq> Some MutablyBorrowed \<and> s \<noteq> Some Uninitialized"

lemma simple_set_state: "\<forall>v. simple_state (map_of st v) \<Longrightarrow> s \<in> {Owned, Moved, Borrowed} \<Longrightarrow> simple_state (map_of (set_state w s st) v)"
  by (auto simp: set_state_def update_conv' simple_state_def)

lemma simple_set_first: "\<forall>v. simple_state (map_of st v) \<Longrightarrow> s \<in> {Owned, Moved, Borrowed} \<Longrightarrow> simple_state (map_of (set_first ws s st) v)"
  using simple_set_state by (cases ws) (simp_all add: set_first_def)

lemma simple_next: "\<forall>v. simple_state (map_of st v) \<Longrightarrow> simple_state (map_of (next_states ins st) v)"
  by (cases "instructionKind ins") (simp_all add: next_states_def simple_set_state simple_set_first)

lemma simple_entry: "simple_state (map_of (entry_state f) v)"
proof -
  have "\<forall>v. simple_state (map_of st v) \<Longrightarrow> simple_state (map_of (fold (\<lambda>v. AList.update v Owned) vs st) v)" for vs st
    by (induction vs arbitrary: st) (simp_all add: update_conv' simple_state_def)
  then show ?thesis by (simp add: entry_state_def simple_state_def)
qed

lemma no_exclusive_borrow: "on_path f p k st \<Longrightarrow> simple_state (map_of st v)"
proof (induction arbitrary: v rule: on_path.induct)
  case (path_start p)
  then show ?case using simple_entry [of f v] by (auto simp: simple_state_def)
next
  case (path_step p k st)
  then show ?case using simple_next by blast
qed

definition moved_once :: MIRFunctionDefinition where
  "moved_once = new_MIRFunctionDefinition\<lparr>parameterVariableIdentifiers := [0], controlFlowBlocks :=
     [Some (make_block 0 [make_instruction MoveValue 1 [0], make_instruction CopyValue 2 [0], jump_to 1]),
      Some ((make_block 1 [make_instruction ReturnValue INVALID_VARIABLE_IDENTIFIER []])\<lparr>predecessorBlocks := [0]\<rparr>)]\<rparr>"

text \<open>
  Each round of the iteration reports again what it meets on its way: the one use of a moved variable in this
  function of two blocks is counted, and reported, three times.
\<close>

lemma borrow_counts_repeatedly:
  "map_sum fst violationCount (borrow_check moved_once (new_MIRBorrowChecker (Engine_with_limits 0 0))) = Inr 3"
  by code_simp

end
