(* ===== verification/TypeRef.thy ===== *)
theory TypeRef
  imports Diagnostics "HOL-Library.AList"
begin

text \<open>
  The types of the semantic analyser: \<^verbatim>\<open>semantic/typeref.hpp\<close> and the names of \<^verbatim>\<open>semantic/qualnames.hpp\<close>
  they are told apart by. The shared pointers to types may be circular, so the types live in a heap: a
  \<open>type_pointer\<close> is an address or null, and the subclass of an object is its \<open>details\<close>. A null or dangling
  pointer that is followed, a cast to the wrong subclass and a recursion that does not end are the result \<open>None\<close>. Of a declaration
  of the syntax tree the types read the name and the named parents; its address tells declarations apart.
\<close>

section \<open>Qualified names\<close>

definition qual_Object :: string where "qual_Object = ''uranite.language.object.Object''"
definition qual_Boolean :: string where "qual_Boolean = ''uranite.language.boolean.Boolean''"
definition qual_Void :: string where "qual_Void = ''uranite.language.void.Void''"
definition qual_PrimBool :: string where "qual_PrimBool = ''uranite.builtin.bool''"
definition qual_PrimChar :: string where "qual_PrimChar = ''uranite.builtin.char''"
definition qual_PrimString :: string where "qual_PrimString = ''uranite.builtin.str''"
definition qual_PrimVoid :: string where "qual_PrimVoid = ''uranite.builtin.void''"
definition qual_PrimError :: string where "qual_PrimError = ''uranite.builtin.error''"
definition primitives_Package :: string where "primitives_Package = ''uranite.builtin''"

definition integerOopQualified :: "string list" where
  "integerOopQualified =
     [''uranite.language.int.Int'', ''uranite.language.i8.I8'', ''uranite.language.i16.I16'', ''uranite.language.i32.I32'',
      ''uranite.language.i64.I64'', ''uranite.language.integer.Integer'', ''uranite.language.long.Long'',
      ''uranite.language.byte.Byte'', ''uranite.language.uint.UInt'', ''uranite.language.u8.U8'',
      ''uranite.language.u16.U16'', ''uranite.language.u32.U32'', ''uranite.language.u64.U64'']"

definition floatOopQualified :: "string list" where
  "floatOopQualified =
     [''uranite.language.float.Float'', ''uranite.language.f32.F32'', ''uranite.language.f64.F64'',
      ''uranite.language.double.Double'']"

definition isIntegerOop :: "string \<Rightarrow> bool" where
  "isIntegerOop qualified \<longleftrightarrow> qualified \<in> set integerOopQualified"

definition isFloatOop :: "string \<Rightarrow> bool" where
  "isFloatOop qualified \<longleftrightarrow> qualified \<in> set floatOopQualified"

section \<open>Types\<close>

datatype (plugins only: code size) Type_Kind =
    Kind_Array | Kind_Bool | Kind_Callable | Kind_Char | Kind_Class | Kind_Enum | Kind_Error | Kind_Float
  | Kind_Function | Kind_Future | Kind_Generator | Kind_GenericParameter | Kind_Integer | Kind_Interface
  | Kind_Meta | Kind_None | Kind_Optional | Kind_Pointer | Kind_Reference | Kind_String | Kind_Struct | Kind_Trait
  | Kind_Tuple | Kind_Union | Kind_Unresolved | Kind_Void

type_synonym type_pointer = "nat option"

datatype (plugins only: code size) AccessModifier = Access_Default | Access_Private | Access_Protect | Access_Public

text \<open>A parent in the declaration of an interface: the two kinds of nodes that are looked up, and the others.\<close>

datatype (plugins only: code size) parent_node = SimpleTypeNode string | GenericTypeNode string | OtherTypeNode

record ast_declaration =
  declaration_address :: nat
  declaration_name :: string
  declaration_parents :: "parent_node list"

record FieldInfo =
  field_access :: AccessModifier
  field_index :: int
  field_isInitialized :: bool
  field_isReadonly :: bool
  field_isStatic :: bool
  field_name :: string
  field_type :: type_pointer

record MethodInfo =
  method_access :: AccessModifier
  interfaceTableIndex :: int
  method_isFinal :: bool
  method_isOverride :: bool
  method_isProperty :: bool
  method_isStatic :: bool
  method_isVirtual :: bool
  method_name :: string
  method_type :: type_pointer
  virtualTableIndex :: int

record FunctionType =
  exceptionTypes :: "type_pointer list"
  function_isVariadic :: bool
  function_variadicParameterIndex :: int
  function_keywordParameterIndex :: int
  function_variadicElementType :: type_pointer
  function_keywordValueType :: type_pointer
  keywordOnlyParamNames :: "string list"
  keywordOnlyParamTypes :: "type_pointer list"
  requiredParameterCount :: nat
  genericParameterNames :: "string list"
  parameterNames :: "string list"
  function_parameterTypes :: "type_pointer list"
  function_returnType :: type_pointer

record ClassType =
  class_astDeclaration :: "ast_declaration option"
  class_alignment :: int
  class_baseClass :: type_pointer
  class_fields :: "FieldInfo list"
  class_genericParameters :: "type_pointer list"
  implementsDroper :: bool
  class_interfaces :: "type_pointer list"
  class_isAbstract :: bool
  class_isFinal :: bool
  class_isReadonly :: bool
  class_methods :: "MethodInfo list"
  class_objectSize :: int
  class_typeSubstitutions :: "(string \<times> type_pointer) list"
  virtualTable :: "nat list"

record StructType =
  struct_alignment :: int
  struct_astDeclaration :: "ast_declaration option"
  struct_fields :: "FieldInfo list"
  struct_genericParameters :: "type_pointer list"
  struct_methods :: "MethodInfo list"
  struct_objectSize :: int
  struct_typeSubstitutions :: "(string \<times> type_pointer) list"

record EnumVariantInfo =
  associatedTypes :: "type_pointer list"
  discriminant :: int
  variant_methods :: "MethodInfo list"
  variant_name :: string

record EnumType =
  enum_astDeclaration :: "ast_declaration option"
  backedType :: type_pointer
  enum_baseClass :: type_pointer
  enum_genericParameters :: "type_pointer list"
  enum_interfaces :: "type_pointer list"
  enum_methods :: "MethodInfo list"
  enum_typeSubstitutions :: "(string \<times> type_pointer) list"
  variants :: "EnumVariantInfo list"

record InterfaceType =
  interface_astDeclaration :: "ast_declaration option"
  interface_genericParameters :: "type_pointer list"
  interface_methods :: "MethodInfo list"
  methodsPopulating :: bool
  inheritanceResolved :: bool
  methodOrder :: "string list"
  parentInterfaces :: "type_pointer list"
  interface_typeSubstitutions :: "(string \<times> type_pointer) list"

record TraitType =
  trait_astDeclaration :: "ast_declaration option"
  trait_fields :: "FieldInfo list"
  trait_genericParameters :: "type_pointer list"
  trait_methods :: "MethodInfo list"

datatype (plugins only: code size) type_details =
    PlainType
  | IntegerType (bitWidth: int) (isSigned: bool)
  | FloatType (float_bitWidth: int)
  | ArrayType (elementType: type_pointer) (array_size: int)
  | TupleType (tuple_elements: "type_pointer list")
  | Function_details (function_of: FunctionType)
  | OptionalType (optional_inner: type_pointer)
  | PointerType (pointer_inner: type_pointer) (pointer_isMutable: bool)
  | ReferenceType (reference_inner: type_pointer) (reference_isMutable: bool)
  | Class_details (class_of: ClassType)
  | Struct_details (struct_of: StructType)
  | Enum_details (enum_of: EnumType)
  | Interface_details (interface_of: InterfaceType)
  | Trait_details (trait_of: TraitType)
  | UnionType (union_types: "type_pointer list")
  | GenericParameterType (constraints: "type_pointer list")
  | MetaType (meta_inner: type_pointer)
  | CallableType (callable_parameterTypes: "type_pointer list") (callable_returnType: type_pointer)
  | FutureType (future_inner: type_pointer)
  | GeneratorType (yieldType: type_pointer)

record Type =
  type_kind :: Type_Kind
  type_name :: string
  type_package :: string
  type_qualified :: string
  details :: type_details

type_synonym type_heap = "Type list"

definition deref :: "type_heap \<Rightarrow> type_pointer \<Rightarrow> Type option" where
  "deref h p = (case p of None \<Rightarrow> None | Some a \<Rightarrow> if a < length h then Some (h ! a) else None)"

definition new_Type :: "Type_Kind \<Rightarrow> string \<Rightarrow> string \<Rightarrow> string \<Rightarrow> type_details \<Rightarrow> Type" where
  "new_Type k n p q d =
     \<lparr>type_kind = k, type_name = n, type_package = p, type_qualified = (if q = '''' then n else q), details = d\<rparr>"

definition Type_equals :: "Type \<Rightarrow> Type \<Rightarrow> bool" where
  "Type_equals this other =
     (if type_kind this \<noteq> type_kind other then False
      else if type_qualified this \<noteq> '''' \<and> type_qualified other \<noteq> '''' then type_qualified this = type_qualified other
      else if type_package this \<noteq> '''' \<and> type_package other \<noteq> ''''
      then type_package this = type_package other \<and> type_name this = type_name other
      else type_name this = type_name other)"

definition isBool :: "Type \<Rightarrow> bool" where
  "isBool t \<longleftrightarrow> type_kind t = Kind_Bool \<or> type_qualified t = qual_Boolean"

definition isError :: "Type \<Rightarrow> bool" where
  "isError t \<longleftrightarrow> type_kind t = Kind_Error"

definition isFloatingPoint :: "Type \<Rightarrow> bool" where
  "isFloatingPoint t \<longleftrightarrow> type_kind t = Kind_Float \<or> isFloatOop (type_qualified t)"

definition isIntegral :: "Type \<Rightarrow> bool" where
  "isIntegral t \<longleftrightarrow> type_kind t = Kind_Integer \<or> isIntegerOop (type_qualified t)"

definition isNumeric :: "Type \<Rightarrow> bool" where
  "isNumeric t \<longleftrightarrow> isIntegral t \<or> isFloatingPoint t"

definition isPrimitive :: "Type \<Rightarrow> bool" where
  "isPrimitive t \<longleftrightarrow>
     type_kind t = Kind_Void \<or> type_kind t = Kind_Bool \<or> type_kind t = Kind_Integer \<or> type_kind t = Kind_Float
     \<or> type_kind t = Kind_Char \<or> type_kind t = Kind_String"

definition isVoid :: "Type \<Rightarrow> bool" where
  "isVoid t \<longleftrightarrow> type_kind t = Kind_Void \<or> type_qualified t = qual_Void \<or> type_qualified t = qual_PrimVoid"

definition isNone :: "Type \<Rightarrow> bool" where
  "isNone t \<longleftrightarrow> type_kind t = Kind_None"

section \<open>Loops over pointers that may have no result\<close>

fun map_opt :: "('a \<Rightarrow> 'b option) \<Rightarrow> 'a list \<Rightarrow> 'b list option" where
  "map_opt f [] = Some []"
| "map_opt f (x # xs) = Option.bind (f x) (\<lambda>y. Option.bind (map_opt f xs) (\<lambda>ys. Some (y # ys)))"

text \<open>A loop that stops at the first element that fails, and one that stops at the first that succeeds.\<close>

fun all_opt :: "('a \<Rightarrow> bool option) \<Rightarrow> 'a list \<Rightarrow> bool option" where
  "all_opt f [] = Some True"
| "all_opt f (x # xs) = Option.bind (f x) (\<lambda>b. if b then all_opt f xs else Some False)"

fun any_opt :: "('a \<Rightarrow> bool option) \<Rightarrow> 'a list \<Rightarrow> bool option" where
  "any_opt f [] = Some False"
| "any_opt f (x # xs) = Option.bind (f x) (\<lambda>b. if b then Some True else any_opt f xs)"

fun separated :: "string \<Rightarrow> string list \<Rightarrow> string" where
  "separated sep [] = ''''"
| "separated sep [s] = s"
| "separated sep (s # t # ss) = s @ sep @ separated sep (t # ss)"

section \<open>Printing\<close>

text \<open>\<^verbatim>\<open>std::to_string\<close> and \<^verbatim>\<open>fmt\<close> of a signed number.\<close>

definition signed_string :: "int \<Rightarrow> string" where
  "signed_string n = (if n < 0 then ''-'' @ to_string (nat (- n)) else to_string (nat n))"

fun Type_toString :: "nat \<Rightarrow> type_heap \<Rightarrow> type_pointer \<Rightarrow> string option" where
  "Type_toString 0 h p = None"
| "Type_toString (Suc n) h p =
     Option.bind (deref h p) (\<lambda>t.
       case details t of
         ArrayType element sz \<Rightarrow>
           Option.bind (Type_toString n h element) (\<lambda>s.
             Some (if 0 \<le> sz then ''[ '' @ s @ ''; '' @ signed_string sz @ '' ]'' else ''[ '' @ s @ '' ]''))
       | TupleType elements \<Rightarrow>
           Option.bind (map_opt (Type_toString n h) elements) (\<lambda>ss. Some (''( '' @ separated '', '' ss @ '' )''))
       | Function_details f \<Rightarrow>
           Option.bind (map_opt (Type_toString n h) (function_parameterTypes f)) (\<lambda>ss.
           Option.bind (Type_toString n h (function_returnType f)) (\<lambda>r.
             Some (''function( '' @ separated '','' ss
                   @ (if function_isVariadic f then (if function_parameterTypes f = [] then '''' else '','') @ ''...'' else '''')
                   @ '' ) -> '' @ r)))
       | OptionalType inner \<Rightarrow> Option.bind (Type_toString n h inner) (\<lambda>s. Some (''?'' @ s))
       | PointerType inner isMutable \<Rightarrow>
           Option.bind (Type_toString n h inner) (\<lambda>s. Some ((if isMutable then ''*mut '' else ''*'') @ s))
       | ReferenceType inner isMutable \<Rightarrow>
           Option.bind (Type_toString n h inner) (\<lambda>s. Some ((if isMutable then ''&mut '' else ''&'') @ s))
       | _ \<Rightarrow> Some (type_name t))"

section \<open>Constructors\<close>

definition allocate_type :: "Type \<Rightarrow> type_heap \<Rightarrow> type_pointer \<times> type_heap" where
  "allocate_type t h = (Some (length h), h @ [t])"

definition new_IntegerType :: "int \<Rightarrow> bool \<Rightarrow> Type" where
  "new_IntegerType w signed_int =
     new_Type Kind_Integer ((if signed_int then ''i'' else ''u'') @ signed_string w) '''' '''' (IntegerType w signed_int)"

definition new_FloatType :: "int \<Rightarrow> Type" where
  "new_FloatType w = new_Type Kind_Float (''f'' @ signed_string w) '''' '''' (FloatType w)"

definition new_ArrayType :: "type_pointer \<Rightarrow> int \<Rightarrow> Type" where
  "new_ArrayType element sz = new_Type Kind_Array '''' '''' '''' (ArrayType element sz)"

definition new_TupleType :: "type_pointer list \<Rightarrow> Type" where
  "new_TupleType elements = new_Type Kind_Tuple '''' '''' '''' (TupleType elements)"

definition new_FunctionType :: "type_pointer list \<Rightarrow> type_pointer \<Rightarrow> bool \<Rightarrow> Type" where
  "new_FunctionType parameters returnType isVariadic =
     new_Type Kind_Function '''' '''' ''''
       (Function_details
         \<lparr>exceptionTypes = [], function_isVariadic = isVariadic, function_variadicParameterIndex = - 1,
          function_keywordParameterIndex = - 1, function_variadicElementType = None, function_keywordValueType = None,
          keywordOnlyParamNames = [], keywordOnlyParamTypes = [], requiredParameterCount = length parameters,
          genericParameterNames = [], parameterNames = [], function_parameterTypes = parameters,
          function_returnType = returnType\<rparr>)"

definition new_OptionalType :: "type_heap \<Rightarrow> type_pointer \<Rightarrow> Type option" where
  "new_OptionalType h inner =
     Option.bind (deref h inner) (\<lambda>i.
       Some (new_Type Kind_Optional (''Optional<'' @ type_name i @ ''>'') '''' '''' (OptionalType inner)))"

definition new_PointerType :: "type_pointer \<Rightarrow> bool \<Rightarrow> Type" where
  "new_PointerType inner isMutable = new_Type Kind_Pointer '''' '''' '''' (PointerType inner isMutable)"

definition new_ReferenceType :: "type_pointer \<Rightarrow> bool \<Rightarrow> Type" where
  "new_ReferenceType inner isMutable = new_Type Kind_Reference '''' '''' '''' (ReferenceType inner isMutable)"

definition new_ClassType :: "string \<Rightarrow> Type" where
  "new_ClassType n =
     new_Type Kind_Class n '''' ''''
       (Class_details
         \<lparr>class_astDeclaration = None, class_alignment = 8, class_baseClass = None, class_fields = [],
          class_genericParameters = [], implementsDroper = False, class_interfaces = [], class_isAbstract = False,
          class_isFinal = False, class_isReadonly = False, class_methods = [], class_objectSize = 0,
          class_typeSubstitutions = [], virtualTable = []\<rparr>)"

definition new_StructType :: "string \<Rightarrow> Type" where
  "new_StructType n =
     new_Type Kind_Struct n '''' ''''
       (Struct_details
         \<lparr>struct_alignment = 8, struct_astDeclaration = None, struct_fields = [], struct_genericParameters = [],
          struct_methods = [], struct_objectSize = 0, struct_typeSubstitutions = []\<rparr>)"

definition new_EnumType :: "string \<Rightarrow> Type" where
  "new_EnumType n =
     new_Type Kind_Enum n '''' ''''
       (Enum_details
         \<lparr>enum_astDeclaration = None, backedType = None, enum_baseClass = None, enum_genericParameters = [],
          enum_interfaces = [], enum_methods = [], enum_typeSubstitutions = [], variants = []\<rparr>)"

definition new_InterfaceType :: "string \<Rightarrow> Type" where
  "new_InterfaceType n =
     new_Type Kind_Interface n '''' ''''
       (Interface_details
         \<lparr>interface_astDeclaration = None, interface_genericParameters = [], interface_methods = [],
          methodsPopulating = False, inheritanceResolved = False, methodOrder = [], parentInterfaces = [],
          interface_typeSubstitutions = []\<rparr>)"

definition new_TraitType :: "string \<Rightarrow> Type" where
  "new_TraitType n =
     new_Type Kind_Trait n '''' ''''
       (Trait_details
         \<lparr>trait_astDeclaration = None, trait_fields = [], trait_genericParameters = [], trait_methods = []\<rparr>)"

text \<open>The constructors of unions and callables set the name after the base class has set the qualified name.\<close>

definition new_UnionType :: "nat \<Rightarrow> type_heap \<Rightarrow> type_pointer list \<Rightarrow> Type option" where
  "new_UnionType n h types =
     Option.bind (map_opt (Type_toString n h) types) (\<lambda>ss.
       Some ((new_Type Kind_Union '''' '''' '''' (UnionType types))\<lparr>type_name := ''Union<'' @ separated '','' ss @ ''>''\<rparr>))"

definition new_GenericParameterType :: "string \<Rightarrow> Type" where
  "new_GenericParameterType n = new_Type Kind_GenericParameter n '''' '''' (GenericParameterType [])"

definition new_MetaType :: "type_heap \<Rightarrow> type_pointer \<Rightarrow> Type option" where
  "new_MetaType h inner =
     Option.bind (deref h inner) (\<lambda>i.
       Some (new_Type Kind_Meta (''Meta<'' @ type_name i @ ''>'') '''' '''' (MetaType inner)))"

definition new_CallableType :: "nat \<Rightarrow> type_heap \<Rightarrow> type_pointer \<Rightarrow> type_pointer list \<Rightarrow> Type option" where
  "new_CallableType n h returnType parameters =
     Option.bind (map_opt (Type_toString n h) parameters) (\<lambda>ss.
     Option.bind (Type_toString n h returnType) (\<lambda>r.
       Some ((new_Type Kind_Callable ''Callable'' '''' '''' (CallableType parameters returnType))
               \<lparr>type_name := ''Callable<'' @ r @ '',<'' @ separated '','' ss @ ''>>''\<rparr>)))"

definition new_FutureType :: "type_heap \<Rightarrow> type_pointer \<Rightarrow> Type option" where
  "new_FutureType h inner =
     Option.bind (deref h inner) (\<lambda>i.
       Some (new_Type Kind_Future (''Future<'' @ type_name i @ ''>'') '''' '''' (FutureType inner)))"

definition new_GeneratorType :: "type_heap \<Rightarrow> type_pointer \<Rightarrow> Type option" where
  "new_GeneratorType h inner =
     Option.bind (deref h inner) (\<lambda>i.
       Some (new_Type Kind_Generator (''Generator<'' @ type_name i @ ''>'') '''' '''' (GeneratorType inner)))"

section \<open>Members\<close>

text \<open>The member searches of classes, structs, enumerations, interfaces and traits are the same loop.\<close>

definition findField :: "FieldInfo list \<Rightarrow> string \<Rightarrow> nat option" where
  "findField fs n = (case filter (\<lambda>i. field_name (fs ! i) = n) [0..<length fs] of [] \<Rightarrow> None | i # _ \<Rightarrow> Some i)"

definition findAllMethods :: "MethodInfo list \<Rightarrow> string \<Rightarrow> nat list" where
  "findAllMethods methods n = filter (\<lambda>i. method_name (methods ! i) = n) [0..<length methods]"

definition findMethod :: "MethodInfo list \<Rightarrow> string \<Rightarrow> nat option" where
  "findMethod methods n = (case findAllMethods methods n of [] \<Rightarrow> None | i # _ \<Rightarrow> Some i)"

definition findVariant :: "EnumVariantInfo list \<Rightarrow> string \<Rightarrow> nat option" where
  "findVariant vs n = (case filter (\<lambda>i. variant_name (vs ! i) = n) [0..<length vs] of [] \<Rightarrow> None | i # _ \<Rightarrow> Some i)"

text \<open>\<^verbatim>\<open>extendsInterface\<close> of an interface and \<^verbatim>\<open>implementsInterface\<close> of a class.\<close>

fun extendsInterface :: "nat \<Rightarrow> type_heap \<Rightarrow> type_pointer list \<Rightarrow> string \<Rightarrow> bool option" where
  "extendsInterface 0 h parents q = None"
| "extendsInterface (Suc n) h parents q =
     any_opt (\<lambda>p. Option.bind (deref h p) (\<lambda>t.
       if type_qualified t = q \<or> starts_with q (type_qualified t) then Some True
       else if type_kind t = Kind_Interface then
         (case details t of Interface_details i \<Rightarrow> extendsInterface n h (parentInterfaces i) q | _ \<Rightarrow> None)
       else Some False)) parents"

fun implementsInterface :: "nat \<Rightarrow> type_heap \<Rightarrow> ClassType \<Rightarrow> string \<Rightarrow> bool option" where
  "implementsInterface 0 h c q = None"
| "implementsInterface (Suc n) h c q =
     Option.bind (extendsInterface (Suc n) h (class_interfaces c) q) (\<lambda>found.
       if found then Some True
       else
         (case class_baseClass c of
            None \<Rightarrow> Some False
          | Some a \<Rightarrow>
              Option.bind (deref h (Some a)) (\<lambda>t.
                if type_kind t = Kind_Class then
                  (case details t of Class_details b \<Rightarrow> implementsInterface n h b q | _ \<Rightarrow> None)
                else Some False)))"

definition containsType :: "type_heap \<Rightarrow> type_pointer list \<Rightarrow> type_pointer \<Rightarrow> bool option" where
  "containsType h types p =
     any_opt (\<lambda>m. Option.bind (deref h m) (\<lambda>member. Option.bind (deref h p) (\<lambda>t.
       if type_qualified member \<noteq> '''' \<and> type_qualified t \<noteq> '''' then Some (type_qualified member = type_qualified t)
       else Some (type_name member = type_name t \<and> type_kind member = type_kind t)))) types"

end
