(* ===== verification/TypeRegistry.thy ===== *)
theory TypeRegistry
  imports TypeRef
begin

text \<open>
  The type registry: \<^verbatim>\<open>semantic/typeref.cpp\<close>. It is a record of the primitive types and three maps,
  and its operations that make a type return the new heap. Assignability is a chain of tests, each of which returns an answer or
  lets the next one decide; every test is a definition here, in the order of the source. The recursive calls carry fuel. A work list of
  pointers is a list with the end of the vector first.
\<close>

section \<open>The registry\<close>

record Registry =
  booleanType :: type_pointer
  charType :: type_pointer
  errorType :: type_pointer
  float32Type :: type_pointer
  float64Type :: type_pointer
  integer16Type :: type_pointer
  integer32Type :: type_pointer
  integer64Type :: type_pointer
  integer8Type :: type_pointer
  objectType :: type_pointer
  primitivesTypes :: "(string \<times> nat) list"
  stringType :: type_pointer
  unsigned16Type :: type_pointer
  unsigned32Type :: type_pointer
  unsigned64Type :: type_pointer
  unsigned8Type :: type_pointer
  typeAliases :: "(string \<times> string) list"
  userTypesType :: "(string \<times> type_pointer) list"
  voidType :: type_pointer

definition primitive_Type :: "Type \<Rightarrow> string \<Rightarrow> Type" where
  "primitive_Type t n = t\<lparr>type_package := primitives_Package, type_qualified := ''uranite.builtin.'' @ n\<rparr>"

definition registry_types :: "Type list" where
  "registry_types =
     [new_Type Kind_Bool ''bool'' ''uranite.builtin'' qual_PrimBool PlainType,
      new_Type Kind_Char ''char'' ''uranite.builtin'' qual_PrimChar PlainType,
      new_Type Kind_Error ''<error>'' ''uranite.builtin'' qual_PrimError PlainType,
      primitive_Type (new_FloatType 32) ''f32'',
      primitive_Type (new_FloatType 64) ''f64'',
      primitive_Type (new_IntegerType 16 True) ''i16'',
      primitive_Type (new_IntegerType 32 True) ''i32'',
      primitive_Type (new_IntegerType 64 True) ''i64'',
      primitive_Type (new_IntegerType 8 True) ''i8'',
      (new_ClassType ''Object'')\<lparr>type_package := ''uranite.language.object'', type_qualified := qual_Object\<rparr>,
      new_Type Kind_String ''str'' ''uranite.builtin'' qual_PrimString PlainType,
      primitive_Type (new_IntegerType 16 False) ''u16'',
      primitive_Type (new_IntegerType 32 False) ''u32'',
      primitive_Type (new_IntegerType 64 False) ''u64'',
      primitive_Type (new_IntegerType 8 False) ''u8'',
      new_Type Kind_Void ''void'' ''uranite.builtin'' qual_PrimVoid PlainType]"

definition new_Registry :: "type_heap \<Rightarrow> Registry \<times> type_heap" where
  "new_Registry h =
     (let b = length h in
      (\<lparr>booleanType = Some b, charType = Some (b + 1), errorType = Some (b + 2), float32Type = Some (b + 3),
        float64Type = Some (b + 4), integer16Type = Some (b + 5), integer32Type = Some (b + 6),
        integer64Type = Some (b + 7), integer8Type = Some (b + 8), objectType = Some (b + 9),
        primitivesTypes =
          [(''Boolean'', b), (''Byte'', b + 14), (''Char'', b + 1), (''Double'', b + 4), (''F32'', b + 3),
           (''F64'', b + 4), (''Float'', b + 4), (''I16'', b + 5), (''I32'', b + 6), (''I64'', b + 7), (''I8'', b + 8),
           (''Int'', b + 7), (''Integer'', b + 6), (''Long'', b + 7), (''NoneType'', b + 15), (''String'', b + 10),
           (''U16'', b + 11), (''U32'', b + 12), (''U64'', b + 13), (''U8'', b + 14), (''UInt'', b + 13),
           (''Void'', b + 15)],
        stringType = Some (b + 10), unsigned16Type = Some (b + 11), unsigned32Type = Some (b + 12),
        unsigned64Type = Some (b + 13), unsigned8Type = Some (b + 14), typeAliases = [],
        userTypesType = [(''Object'', Some (b + 9))], voidType = Some (b + 15)\<rparr>,
       h @ registry_types))"

definition lookupPrimitive :: "Registry \<Rightarrow> string \<Rightarrow> type_pointer" where
  "lookupPrimitive r n = map_of (primitivesTypes r) n"

definition lookupType :: "Registry \<Rightarrow> string \<Rightarrow> type_pointer" where
  "lookupType r n =
     (case map_of (userTypesType r) n of
        Some p \<Rightarrow> p
      | None \<Rightarrow>
          (case Option.bind (map_of (typeAliases r) n) (map_of (userTypesType r)) of
             Some p \<Rightarrow> p
           | None \<Rightarrow> lookupPrimitive r n))"

definition registerType :: "type_heap \<Rightarrow> string \<Rightarrow> type_pointer \<Rightarrow> Registry \<Rightarrow> Registry option" where
  "registerType h n p r =
     Option.bind (deref h p) (\<lambda>t.
       let r1 = r\<lparr>userTypesType := AList.update n p (userTypesType r)\<rparr> in
       Some (if type_qualified t \<noteq> '''' \<and> type_qualified t \<noteq> n
             then r1\<lparr>userTypesType := AList.update (type_qualified t) p (userTypesType r1),
                     typeAliases := AList.update n (type_qualified t) (typeAliases r1)\<rparr>
             else r1))"

definition unregisterType :: "string \<Rightarrow> Registry \<Rightarrow> Registry" where
  "unregisterType n r = r\<lparr>userTypesType := AList.delete n (userTypesType r)\<rparr>"

definition registerAlias :: "string \<Rightarrow> string \<Rightarrow> Registry \<Rightarrow> Registry" where
  "registerAlias shortName qualifiedName r = r\<lparr>typeAliases := AList.update shortName qualifiedName (typeAliases r)\<rparr>"

definition resolveAlias :: "Registry \<Rightarrow> string \<Rightarrow> string" where
  "resolveAlias r n = (case map_of (typeAliases r) n of Some q \<Rightarrow> q | None \<Rightarrow> n)"

definition typeNames :: "Registry \<Rightarrow> string list" where
  "typeNames r = map fst (primitivesTypes r) @ map fst (userTypesType r)"

definition makeArray :: "type_pointer \<Rightarrow> int \<Rightarrow> type_heap \<Rightarrow> type_pointer \<times> type_heap" where
  "makeArray element sz h = allocate_type (new_ArrayType element sz) h"

definition makeCallable :: "nat \<Rightarrow> type_pointer \<Rightarrow> type_pointer list \<Rightarrow> type_heap \<Rightarrow> (type_pointer \<times> type_heap) option" where
  "makeCallable n returnType ps h = Option.bind (new_CallableType n h returnType ps) (\<lambda>t. Some (allocate_type t h))"

definition makeFunction :: "type_pointer list \<Rightarrow> type_pointer \<Rightarrow> bool \<Rightarrow> type_heap \<Rightarrow> type_pointer \<times> type_heap" where
  "makeFunction ps returnType isVariadic h = allocate_type (new_FunctionType ps returnType isVariadic) h"

definition makeFuture :: "type_pointer \<Rightarrow> type_heap \<Rightarrow> (type_pointer \<times> type_heap) option" where
  "makeFuture inner h = Option.bind (new_FutureType h inner) (\<lambda>t. Some (allocate_type t h))"

definition makeGenerator :: "type_pointer \<Rightarrow> type_heap \<Rightarrow> (type_pointer \<times> type_heap) option" where
  "makeGenerator yielded h = Option.bind (new_GeneratorType h yielded) (\<lambda>t. Some (allocate_type t h))"

definition makeMeta :: "type_pointer \<Rightarrow> type_heap \<Rightarrow> (type_pointer \<times> type_heap) option" where
  "makeMeta inner h = Option.bind (new_MetaType h inner) (\<lambda>t. Some (allocate_type t h))"

definition makeOptional :: "type_pointer \<Rightarrow> type_heap \<Rightarrow> (type_pointer \<times> type_heap) option" where
  "makeOptional inner h = Option.bind (new_OptionalType h inner) (\<lambda>t. Some (allocate_type t h))"

definition makePointer :: "type_pointer \<Rightarrow> bool \<Rightarrow> type_heap \<Rightarrow> type_pointer \<times> type_heap" where
  "makePointer inner mutableT h = allocate_type (new_PointerType inner mutableT) h"

definition makeReference :: "type_pointer \<Rightarrow> bool \<Rightarrow> type_heap \<Rightarrow> type_pointer \<times> type_heap" where
  "makeReference inner mutableT h = allocate_type (new_ReferenceType inner mutableT) h"

definition makeTuple :: "type_pointer list \<Rightarrow> type_heap \<Rightarrow> type_pointer \<times> type_heap" where
  "makeTuple elements h = allocate_type (new_TupleType elements) h"

definition makeUnion :: "nat \<Rightarrow> type_pointer list \<Rightarrow> type_heap \<Rightarrow> (type_pointer \<times> type_heap) option" where
  "makeUnion n types h = Option.bind (new_UnionType n h types) (\<lambda>t. Some (allocate_type t h))"

section \<open>Casts\<close>

definition class_cast :: "Type \<Rightarrow> ClassType option" where
  "class_cast t = (case details t of Class_details c \<Rightarrow> Some c | _ \<Rightarrow> None)"

definition interface_cast :: "Type \<Rightarrow> InterfaceType option" where
  "interface_cast t = (case details t of Interface_details i \<Rightarrow> Some i | _ \<Rightarrow> None)"

definition typeIdentityMatch :: "Type \<Rightarrow> Type \<Rightarrow> bool" where
  "typeIdentityMatch left right =
     (if type_qualified left \<noteq> '''' \<and> type_qualified right \<noteq> '''' then type_qualified left = type_qualified right
      else type_name left = type_name right)"

definition same_declaration :: "ast_declaration option \<Rightarrow> ast_declaration option \<Rightarrow> bool" where
  "same_declaration a b =
     (case (a, b) of (Some x, Some y) \<Rightarrow> declaration_address x = declaration_address y | _ \<Rightarrow> False)"

section \<open>The tests of assignability\<close>

datatype (plugins only: code size) verdict = Return bool | Go_on

definition and_then :: "verdict option \<Rightarrow> verdict option \<Rightarrow> verdict option" where
  "and_then a b = Option.bind a (\<lambda>v. case v of Return x \<Rightarrow> Some (Return x) | Go_on \<Rightarrow> b)"

definition when_true :: "bool option \<Rightarrow> verdict option" where
  "when_true r = Option.bind r (\<lambda>b. Some (if b then Return True else Go_on))"

definition answer :: "bool option \<Rightarrow> verdict option" where
  "answer r = Option.bind r (\<lambda>b. Some (Return b))"

abbreviation both_kinds :: "Type_Kind \<Rightarrow> Type \<Rightarrow> Type_Kind \<Rightarrow> Type \<Rightarrow> bool" where
  "both_kinds k t l s \<equiv> type_kind t = k \<and> type_kind s = l"

definition test_identity :: "Type \<Rightarrow> Type \<Rightarrow> verdict option" where
  "test_identity target source =
     (if isError target \<or> isError source then Some (Return True)
      else if Type_equals target source then Some (Return True)
      else if isVoid target \<and> isVoid source then Some (Return True)
      else if type_kind target = Kind_Class \<and> (type_qualified target = qual_Object \<or> type_name target = ''Object'')
      then Some (Return True)
      else Some Go_on)"

type_synonym recursion = "type_pointer \<Rightarrow> type_pointer \<Rightarrow> bool option"

definition checkGenericCompatibility :: "recursion \<Rightarrow> ClassType \<Rightarrow> ClassType \<Rightarrow> bool option" where
  "checkGenericCompatibility rec targetCls sourceCls =
     (if class_genericParameters targetCls \<noteq> [] \<and> class_genericParameters sourceCls \<noteq> [] then
        if length (class_genericParameters targetCls) \<noteq> length (class_genericParameters sourceCls) then Some False
        else all_opt (\<lambda>(a, b). rec a b) (zip (class_genericParameters targetCls) (class_genericParameters sourceCls))
      else if class_typeSubstitutions targetCls \<noteq> [] \<and> class_typeSubstitutions sourceCls \<noteq> [] then
        all_opt (\<lambda>(k, a). case map_of (class_typeSubstitutions sourceCls) k of None \<Rightarrow> Some False | Some b \<Rightarrow> rec a b)
          (class_typeSubstitutions targetCls)
      else Some True)"

definition same_template :: "Type \<Rightarrow> ClassType \<Rightarrow> Type \<Rightarrow> ClassType \<Rightarrow> bool" where
  "same_template target tc source sc \<longleftrightarrow>
     type_qualified target \<noteq> '''' \<and> type_qualified source \<noteq> '''' \<and> type_qualified target = type_qualified source
     \<or> (case (class_astDeclaration tc, class_astDeclaration sc) of
          (Some a, Some b) \<Rightarrow> declaration_name a = declaration_name b | _ \<Rightarrow> False)
     \<or> (case class_astDeclaration tc of Some a \<Rightarrow> declaration_name a = type_name source | None \<Rightarrow> False)
     \<or> (case class_astDeclaration sc of Some b \<Rightarrow> declaration_name b = type_name target | None \<Rightarrow> False)"

definition test_generics :: "recursion \<Rightarrow> Type \<Rightarrow> Type \<Rightarrow> verdict option" where
  "test_generics rec target source =
     (if both_kinds Kind_Class target Kind_Class source then
        Option.bind (class_cast target) (\<lambda>tc. Option.bind (class_cast source) (\<lambda>sc.
          if same_template target tc source sc then answer (checkGenericCompatibility rec tc sc) else Some Go_on))
      else Some Go_on)"

text \<open>The parents that the declaration of an interface names, looked up when the interface lists none.\<close>

definition named_parents :: "Registry \<Rightarrow> ast_declaration option \<Rightarrow> type_pointer list" where
  "named_parents r d =
     (case d of
        None \<Rightarrow> []
      | Some a \<Rightarrow>
          filter (\<lambda>p. p \<noteq> None)
            (map (\<lambda>node. case node of SimpleTypeNode n \<Rightarrow> lookupType r n | GenericTypeNode n \<Rightarrow> lookupType r n | OtherTypeNode \<Rightarrow> None)
              (declaration_parents a)))"

definition interface_parents :: "Registry option \<Rightarrow> InterfaceType \<Rightarrow> type_pointer list" where
  "interface_parents r i =
     (case r of
        None \<Rightarrow> parentInterfaces i
      | Some reg \<Rightarrow> if parentInterfaces i = [] then named_parents reg (interface_astDeclaration i) else parentInterfaces i)"

lemma checked_less:
  "a \<notin> set checked \<Longrightarrow> a < (n :: nat) \<Longrightarrow> card ({..<n} - insert a (set checked)) < card ({..<n} - set checked)"
  by (rule psubset_card_mono) auto

text \<open>
  The loop over \<^verbatim>\<open>typesToCheck\<close>. One of its three copies does not look the parents up; there the registry is
  left out.
\<close>

function interface_search ::
    "Registry option \<Rightarrow> type_heap \<Rightarrow> Type \<Rightarrow> ast_declaration option \<Rightarrow> type_pointer list \<Rightarrow> nat list \<Rightarrow> bool option" where
  "interface_search r h goal decl [] checked = Some False"
| "interface_search r h goal decl (None # work) checked = interface_search r h goal decl work checked"
| "interface_search r h goal decl (Some a # work) checked =
     (if a \<in> set checked then interface_search r h goal decl work checked
      else if length h \<le> a then None
      else if typeIdentityMatch (h ! a) goal then Some True
      else if type_kind (h ! a) = Kind_Interface then
        (case interface_cast (h ! a) of
           None \<Rightarrow> None
         | Some i \<Rightarrow>
             if same_declaration (interface_astDeclaration i) decl then Some True
             else interface_search r h goal decl (rev (interface_parents r i) @ work) (a # checked))
      else interface_search r h goal decl work (a # checked))"
  by pat_completeness auto

termination
  by (relation "measures [\<lambda>(r, h, goal, decl, work, checked). card ({..<length h} - set checked),
        \<lambda>(r, h, goal, decl, work, checked). length work]")
    (auto simp: checked_less not_le simp del: card_Diff_insert)

text \<open>The interfaces a class lists, and those of the class registered under the name of its declaration.\<close>

definition listed_interfaces :: "Registry \<Rightarrow> type_heap \<Rightarrow> ClassType \<Rightarrow> type_pointer list option" where
  "listed_interfaces r h c =
     (case class_astDeclaration c of
        None \<Rightarrow> Some (class_interfaces c)
      | Some d \<Rightarrow>
          (case lookupType r (declaration_name d) of
             None \<Rightarrow> Some (class_interfaces c)
           | Some a \<Rightarrow>
               Option.bind (deref h (Some a)) (\<lambda>t.
                 if type_kind t = Kind_Class
                 then Option.bind (class_cast t) (\<lambda>b. Some (class_interfaces c @ class_interfaces b))
                 else Some (class_interfaces c))))"

definition direct_interface :: "type_heap \<Rightarrow> Type \<Rightarrow> ast_declaration option \<Rightarrow> type_pointer \<Rightarrow> bool option" where
  "direct_interface h goal decl p =
     Option.bind (deref h p) (\<lambda>t.
       if typeIdentityMatch t goal then Some True
       else if type_kind t = Kind_Interface then
         Option.bind (interface_cast t) (\<lambda>i. Some (same_declaration (interface_astDeclaration i) decl))
       else Some False)"

fun base_interfaces :: "nat \<Rightarrow> type_heap \<Rightarrow> Type \<Rightarrow> ast_declaration option \<Rightarrow> type_pointer \<Rightarrow> bool option" where
  "base_interfaces n h goal decl None = Some False"
| "base_interfaces 0 h goal decl (Some a) = None"
| "base_interfaces (Suc n) h goal decl (Some a) =
     Option.bind (deref h (Some a)) (\<lambda>t.
       if type_kind t = Kind_Class then
         Option.bind (class_cast t) (\<lambda>b.
         Option.bind (any_opt (direct_interface h goal decl) (class_interfaces b)) (\<lambda>found.
           if found then Some True else base_interfaces n h goal decl (class_baseClass b)))
       else Some False)"

definition test_class_to_interface :: "Registry \<Rightarrow> type_heap \<Rightarrow> Type \<Rightarrow> Type \<Rightarrow> verdict option" where
  "test_class_to_interface r h target source =
     (if both_kinds Kind_Interface target Kind_Class source then
        Option.bind (class_cast source) (\<lambda>sc. Option.bind (interface_cast target) (\<lambda>ti.
        Option.bind (listed_interfaces r h sc) (\<lambda>types.
          and_then (when_true (interface_search (Some r) h target (interface_astDeclaration ti) (rev types) []))
                   (when_true (base_interfaces (Suc (length h)) h target (interface_astDeclaration ti) (class_baseClass sc))))))
      else Some Go_on)"

definition test_interface_to_class :: "Registry \<Rightarrow> type_heap \<Rightarrow> Type \<Rightarrow> Type \<Rightarrow> verdict option" where
  "test_interface_to_class r h target source =
     (if both_kinds Kind_Class target Kind_Interface source then
        Option.bind (class_cast target) (\<lambda>tc. Option.bind (interface_cast source) (\<lambda>si.
        Option.bind (listed_interfaces r h tc) (\<lambda>types.
          when_true (interface_search None h source (interface_astDeclaration si) (rev types) []))))
      else Some Go_on)"

definition test_interfaces :: "Registry \<Rightarrow> type_heap \<Rightarrow> Type \<Rightarrow> Type \<Rightarrow> verdict option" where
  "test_interfaces r h target source =
     (if both_kinds Kind_Interface target Kind_Interface source then
        Option.bind (interface_cast target) (\<lambda>ti. Option.bind (interface_cast source) (\<lambda>si.
          if same_declaration (interface_astDeclaration si) (interface_astDeclaration ti) then Some (Return True)
          else when_true (interface_search (Some r) h target (interface_astDeclaration ti)
                 (rev (interface_parents (Some r) si)) [])))
      else Some Go_on)"

text \<open>A non-null pointer whose type matches.\<close>

definition matches :: "type_heap \<Rightarrow> Type \<Rightarrow> type_pointer \<Rightarrow> bool option" where
  "matches h goal p =
     (case p of None \<Rightarrow> Some False | Some a \<Rightarrow> Option.bind (deref h (Some a)) (\<lambda>t. Some (typeIdentityMatch t goal)))"

definition test_direct_base :: "Registry \<Rightarrow> type_heap \<Rightarrow> Type \<Rightarrow> Type \<Rightarrow> verdict option" where
  "test_direct_base r h target source =
     (if both_kinds Kind_Class target Kind_Class source then
        Option.bind (class_cast source) (\<lambda>sc.
          and_then (when_true (matches h target (class_baseClass sc)))
            (case class_astDeclaration sc of
               None \<Rightarrow> Some Go_on
             | Some d \<Rightarrow>
                 (case lookupType r (declaration_name d) of
                    None \<Rightarrow> Some Go_on
                  | Some a \<Rightarrow>
                      Option.bind (deref h (Some a)) (\<lambda>t.
                        if type_kind t = Kind_Class
                        then Option.bind (class_cast t) (\<lambda>b. when_true (matches h target (class_baseClass b)))
                        else Some Go_on))))
      else Some Go_on)"

definition test_numbers :: "Type \<Rightarrow> Type \<Rightarrow> verdict option" where
  "test_numbers target source =
     (let targetIsIntOop = isIntegerOop (type_qualified target); sourceIsIntOop = isIntegerOop (type_qualified source);
          targetIsFloatOop = isFloatOop (type_qualified target); sourceIsFloatOop = isFloatOop (type_qualified source);
          classes = both_kinds Kind_Class target Kind_Class source
      in if both_kinds Kind_Integer target Kind_Integer source then Some (Return True)
      else if classes \<and> (targetIsIntOop \<and> sourceIsIntOop \<or> targetIsFloatOop \<and> sourceIsFloatOop
                        \<or> targetIsFloatOop \<and> sourceIsIntOop) then Some (Return True)
      else if isIntegral target \<and> isIntegral source then Some (Return True)
      else if isFloatingPoint target \<and> isIntegral source then Some (Return True)
      else if isFloatingPoint target \<and> isFloatingPoint source then Some (Return True)
      else if isIntegral target \<and> isFloatingPoint source then Some (Return True)
      else if classes \<and> targetIsIntOop \<and> sourceIsFloatOop then Some (Return True)
      else if both_kinds Kind_Float target Kind_Float source \<and>
          (case (details target, details source) of (FloatType a, FloatType b) \<Rightarrow> b \<le> a | _ \<Rightarrow> False) then Some (Return True)
      else if both_kinds Kind_Float target Kind_Integer source then Some (Return True)
      else if type_kind target = Kind_GenericParameter \<or> type_kind source = Kind_GenericParameter then Some (Return True)
      else Some Go_on)"

definition test_optional :: "recursion \<Rightarrow> type_pointer \<Rightarrow> Type \<Rightarrow> type_pointer \<Rightarrow> Type \<Rightarrow> verdict option" where
  "test_optional rec t target s source =
     (if type_kind target = Kind_Optional then
        if isVoid source \<or> isNone source then Some (Return True)
        else
          (case details target of
             OptionalType ti \<Rightarrow>
               if type_kind source = Kind_Optional then
                 (case details source of OptionalType si \<Rightarrow> answer (rec ti si) | _ \<Rightarrow> None)
               else answer (rec ti s)
           | _ \<Rightarrow> None)
      else if type_kind source = Kind_Optional then
        (case details source of OptionalType si \<Rightarrow> answer (rec t si) | _ \<Rightarrow> None)
      else if type_kind target = Kind_Reference then
        (case details target of ReferenceType ti _ \<Rightarrow> answer (rec ti s) | _ \<Rightarrow> None)
      else Some Go_on)"

fun base_chain :: "nat \<Rightarrow> type_heap \<Rightarrow> Type \<Rightarrow> type_pointer \<Rightarrow> bool option" where
  "base_chain n h goal None = Some False"
| "base_chain 0 h goal (Some a) = None"
| "base_chain (Suc n) h goal (Some a) =
     Option.bind (deref h (Some a)) (\<lambda>t.
       if typeIdentityMatch t goal then Some True
       else if type_kind t = Kind_Class then Option.bind (class_cast t) (\<lambda>b. base_chain n h goal (class_baseClass b))
       else Some False)"

definition test_bases :: "type_heap \<Rightarrow> Type \<Rightarrow> Type \<Rightarrow> verdict option" where
  "test_bases h target source =
     (if both_kinds Kind_Class target Kind_Class source then
        Option.bind (class_cast source) (\<lambda>sc.
          and_then (when_true (base_chain (Suc (length h)) h target (class_baseClass sc)))
                   (when_true (any_opt (matches h target) (class_interfaces sc))))
      else Some Go_on)"

definition oopToPrimitiveMap :: "(string \<times> string) list" where
  "oopToPrimitiveMap =
     [(''Boolean'', ''bool''), (''String'', ''str''), (''Char'', ''char''), (''Byte'', ''u8''), (''Integer'', ''i32''),
      (''Long'', ''i64''), (''Double'', ''f64''), (''I8'', ''i8''), (''I16'', ''i16''), (''I32'', ''i32''), (''I64'', ''i64''),
      (''U8'', ''u8''), (''U16'', ''u16''), (''U32'', ''u32''), (''U64'', ''u64''), (''F32'', ''f32''), (''F64'', ''f64''),
      (''Int'', ''i64''), (''UInt'', ''u64''), (''Float'', ''f64'')]"

definition primitiveToOopMap :: "(string \<times> string) list" where
  "primitiveToOopMap =
     [(''bool'', ''Boolean''), (''str'', ''String''), (''char'', ''Char''), (''i8'', ''I8''), (''i16'', ''I16''),
      (''i32'', ''I32''), (''i64'', ''I64''), (''u8'', ''U8''), (''u16'', ''U16''), (''u32'', ''U32''), (''u64'', ''U64''),
      (''f32'', ''F32''), (''f64'', ''F64'')]"

definition test_wrappers :: "Type \<Rightarrow> Type \<Rightarrow> verdict option" where
  "test_wrappers target source =
     (if isPrimitive target \<and> type_kind source = Kind_Class
         \<and> map_of oopToPrimitiveMap (type_name source) = Some (type_name target) then Some (Return True)
      else if isPrimitive source \<and> type_kind target = Kind_Class
         \<and> (map_of primitiveToOopMap (type_name source) = Some (type_name target)
            \<or> map_of oopToPrimitiveMap (type_name target) = Some (type_name source)
            \<or> type_kind source = Kind_Integer \<and> isIntegerOop (type_qualified target)
            \<or> type_kind source = Kind_Float \<and> isFloatOop (type_qualified target)) then Some (Return True)
      else Some Go_on)"

definition test_meta :: "recursion \<Rightarrow> Type \<Rightarrow> Type \<Rightarrow> verdict option" where
  "test_meta rec target source =
     (if both_kinds Kind_Meta target Kind_Meta source then
        (case (details target, details source) of (MetaType ti, MetaType si) \<Rightarrow> answer (rec ti si) | _ \<Rightarrow> None)
      else if both_kinds Kind_Future target Kind_Future source then
        (case (details target, details source) of (FutureType ti, FutureType si) \<Rightarrow> answer (rec ti si) | _ \<Rightarrow> None)
      else Some Go_on)"

definition test_union :: "recursion \<Rightarrow> type_pointer \<Rightarrow> Type \<Rightarrow> type_pointer \<Rightarrow> Type \<Rightarrow> verdict option" where
  "test_union rec t target s source =
     and_then
       (if type_kind target = Kind_Union then
          (case details target of UnionType ms \<Rightarrow> when_true (any_opt (\<lambda>m. rec m s) ms) | _ \<Rightarrow> None)
        else Some Go_on)
       (if type_kind source = Kind_Union then
          (case details source of UnionType ms \<Rightarrow> when_true (all_opt (\<lambda>m. rec t m) ms) | _ \<Rightarrow> None)
        else Some Go_on)"

definition signature_assignable ::
    "recursion \<Rightarrow> type_pointer list \<Rightarrow> type_pointer \<Rightarrow> type_pointer list \<Rightarrow> type_pointer \<Rightarrow> bool option" where
  "signature_assignable rec tps tr sps sr =
     (if length tps \<noteq> length sps then Some False
      else Option.bind (all_opt (\<lambda>(a, b). rec a b) (zip tps sps)) (\<lambda>b. if b then rec tr sr else Some False))"

definition test_callable :: "recursion \<Rightarrow> Type \<Rightarrow> Type \<Rightarrow> verdict option" where
  "test_callable rec target source =
     (if both_kinds Kind_Callable target Kind_Function source then
        (case (details target, details source) of
           (CallableType tps tr, Function_details f) \<Rightarrow>
             answer (signature_assignable rec tps tr (function_parameterTypes f) (function_returnType f))
         | _ \<Rightarrow> None)
      else if both_kinds Kind_Function target Kind_Callable source then
        (case (details target, details source) of
           (Function_details f, CallableType sps sr) \<Rightarrow>
             answer (signature_assignable rec (function_parameterTypes f) (function_returnType f) sps sr)
         | _ \<Rightarrow> None)
      else if both_kinds Kind_Callable target Kind_Callable source then
        (case (details target, details source) of
           (CallableType tps tr, CallableType sps sr) \<Rightarrow> answer (signature_assignable rec tps tr sps sr)
         | _ \<Rightarrow> None)
      else Some Go_on)"

definition all_tests ::
    "recursion \<Rightarrow> Registry \<Rightarrow> type_heap \<Rightarrow> type_pointer \<Rightarrow> Type \<Rightarrow> type_pointer \<Rightarrow> Type \<Rightarrow> verdict option" where
  "all_tests rec r h t target s source =
     foldr and_then
       [test_identity target source, test_generics rec target source, test_class_to_interface r h target source,
        test_interface_to_class r h target source, test_interfaces r h target source, test_direct_base r h target source,
        test_numbers target source, test_optional rec t target s source, test_bases h target source,
        test_wrappers target source, test_meta rec target source, test_union rec t target s source,
        test_callable rec target source]
       (Some (Return False))"

definition verdict_value :: "verdict option \<Rightarrow> bool option" where
  "verdict_value v = Option.bind v (\<lambda>x. case x of Return b \<Rightarrow> Some b | Go_on \<Rightarrow> Some False)"

fun isAssignable :: "nat \<Rightarrow> Registry \<Rightarrow> type_heap \<Rightarrow> type_pointer \<Rightarrow> type_pointer \<Rightarrow> bool option" where
  "isAssignable 0 r h t s = None"
| "isAssignable (Suc n) r h t s =
     (if t = None \<or> s = None then Some False
      else
        Option.bind (deref h t) (\<lambda>target. Option.bind (deref h s) (\<lambda>source.
          verdict_value (all_tests (isAssignable n r h) r h t target s source))))"

fun isComparable :: "nat \<Rightarrow> Registry \<Rightarrow> type_heap \<Rightarrow> type_pointer \<Rightarrow> type_pointer \<Rightarrow> bool option" where
  "isComparable 0 r h x y = None"
| "isComparable (Suc n) r h x y =
     (if x = None \<or> y = None then Some False
      else
        Option.bind (deref h x) (\<lambda>a. Option.bind (deref h y) (\<lambda>b.
          if isError a \<or> isError b then Some True
          else if type_kind a = Kind_Reference then
            (case details a of ReferenceType i _ \<Rightarrow> isComparable n r h i y | _ \<Rightarrow> None)
          else if type_kind b = Kind_Reference then
            (case details b of ReferenceType i _ \<Rightarrow> isComparable n r h x i | _ \<Rightarrow> None)
          else if isNumeric a \<and> isNumeric b then Some True
          else if Type_equals a b then Some True
          else if type_kind a = Kind_Optional \<and> (isVoid b \<or> isNone b) then Some True
          else if type_kind b = Kind_Optional \<and> (isVoid a \<or> isNone a) then Some True
          else if isNone a \<or> isNone b then Some True
          else if type_kind a = Kind_Optional then
            (case details a of OptionalType i \<Rightarrow> isComparable n r h i y | _ \<Rightarrow> None)
          else if type_kind b = Kind_Optional then
            (case details b of OptionalType i \<Rightarrow> isComparable n r h x i | _ \<Rightarrow> None)
          else if both_kinds Kind_Meta a Kind_Meta b then Some True
          else
            Option.bind (isAssignable n r h x y) (\<lambda>c.
              if c then Some True else isAssignable n r h y x))))"

end
