(* ===== verification/Scope.thy ===== *)
theory Scope
  imports TypeRegistry
begin

text \<open>
  Symbols and scopes of the analyser: \<^verbatim>\<open>semantic/symbol.hpp\<close>, \<^verbatim>\<open>semantic/scope.cpp\<close>, \<^verbatim>\<open>scope.hpp\<close> and the members of
  \<^verbatim>\<open>analyzer.cpp\<close> that work on the current scope. Symbols and scopes are held by shared pointers: both live in
  lists, and a pointer is a position. The parent of a scope is given to its constructor and never
  set again, so it is older; the recursions to the parent stop where that fails. The
  specification is an environment, the list of the frames from the current scope outwards.
\<close>

section \<open>Symbols\<close>

record Ownership =
  own_borrowCount :: int
  own_hasMutableBorrow :: bool
  own_isBorrowed :: bool
  own_isMoved :: bool
  own_isOwned :: bool

definition default_Ownership :: Ownership where
  "default_Ownership =
     \<lparr>own_borrowCount = 0, own_hasMutableBorrow = False, own_isBorrowed = False, own_isMoved = False, own_isOwned = True\<rparr>"

datatype (plugins only: code size) Symbol_Kind =
  Symbol_EnumVariant | Symbol_Field | Symbol_Function | Symbol_Module | Symbol_Parameter | Symbol_Type | Symbol_Variable

record Symbol =
  symbol_access :: AccessModifier
  symbol_isInitialized :: bool
  symbol_isMutable :: bool
  symbol_kind :: Symbol_Kind
  symbol_name :: string
  symbol_ownership :: Ownership
  symbol_source :: "Source option"
  symbol_typeref :: type_pointer

definition new_Symbol :: "string \<Rightarrow> Symbol_Kind \<Rightarrow> Source option \<Rightarrow> type_pointer \<Rightarrow> Symbol" where
  "new_Symbol n k src t =
     \<lparr>symbol_access = Access_Default, symbol_isInitialized = False, symbol_isMutable = False, symbol_kind = k,
      symbol_name = n, symbol_ownership = default_Ownership, symbol_source = src, symbol_typeref = t\<rparr>"

section \<open>Scopes\<close>

datatype (plugins only: code size) Scope_Kind =
  Scope_Block | Scope_Class | Scope_Function | Scope_Global | Scope_Loop | Scope_Module | Scope_Switch | Scope_Unsafe

record Scope =
  scope_kind :: Scope_Kind
  parentT :: "nat option"
  scope_classType :: type_pointer
  scope_returnType :: type_pointer
  symbolsT :: "(string \<times> nat list) list"

definition new_Scope :: "Scope_Kind \<Rightarrow> nat option \<Rightarrow> Scope" where
  "new_Scope k p = \<lparr>scope_kind = k, parentT = p, scope_classType = None, scope_returnType = None, symbolsT = []\<rparr>"

text \<open>The kinds that are not overloaded.\<close>

definition single_kind :: "Symbol \<Rightarrow> bool" where
  "single_kind s \<longleftrightarrow>
     symbol_kind s = Symbol_Field \<or> symbol_kind s = Symbol_Variable \<or> symbol_kind s = Symbol_Parameter
     \<or> symbol_kind s = Symbol_Type \<or> symbol_kind s = Symbol_EnumVariant \<or> symbol_kind s = Symbol_Module"

definition same_line :: "Symbol \<Rightarrow> Symbol \<Rightarrow> bool" where
  "same_line e s =
     (case (symbol_source e, symbol_source s) of
        (Some a, Some b) \<Rightarrow> filename a = filename b \<and> loc_line (location a) = loc_line (location b)
      | _ \<Rightarrow> False)"

definition cross_module :: "Symbol \<Rightarrow> Symbol \<Rightarrow> bool" where
  "cross_module e s =
     (case (symbol_source e, symbol_source s) of (Some a, Some b) \<Rightarrow> filename a \<noteq> filename b | _ \<Rightarrow> False)"

definition same_parameter :: "nat \<Rightarrow> type_heap \<Rightarrow> type_pointer \<times> type_pointer \<Rightarrow> bool option" where
  "same_parameter n h ps =
     Option.bind (Type_toString n h (fst ps)) (\<lambda>a. Option.bind (Type_toString n h (snd ps)) (\<lambda>b. Some (a = b)))"

text \<open>Two symbols that both have a function type with the same printed parameters.\<close>

definition same_signature :: "nat \<Rightarrow> type_heap \<Rightarrow> Symbol \<Rightarrow> Symbol \<Rightarrow> bool option" where
  "same_signature n h e s =
     (if symbol_typeref e = None \<or> symbol_typeref s = None then Some False
      else
        Option.bind (deref h (symbol_typeref e)) (\<lambda>te. Option.bind (deref h (symbol_typeref s)) (\<lambda>ts.
          if type_kind te = Kind_Function \<and> type_kind ts = Kind_Function then
            (case (details te, details ts) of
               (Function_details f, Function_details g) \<Rightarrow>
                 if length (function_parameterTypes g) = length (function_parameterTypes f)
                 then all_opt (same_parameter n h) (zip (function_parameterTypes g) (function_parameterTypes f))
                 else Some False
             | _ \<Rightarrow> None)
          else Some False)))"

text \<open>The loop over the symbols that already have the name: the result of \<^verbatim>\<open>define\<close> and the new overload set.\<close>

fun overload_loop ::
    "nat \<Rightarrow> type_heap \<Rightarrow> Symbol list \<Rightarrow> nat \<Rightarrow> Symbol \<Rightarrow> nat list \<Rightarrow> (bool \<times> nat list) option" where
  "overload_loop n h symbols p s [] = Some (True, [p])"
| "overload_loop n h symbols p s (e # es) =
     (if length symbols \<le> e then None
      else if same_line (symbols ! e) s then Some (True, p # es)
      else
        Option.bind (same_signature n h (symbols ! e) s) (\<lambda>same.
          if same then Some (cross_module (symbols ! e) s, e # es)
          else Option.bind (overload_loop n h symbols p s es) (\<lambda>(b, rest). Some (b, e # rest))))"

definition overloads :: "nat \<Rightarrow> type_heap \<Rightarrow> Symbol list \<Rightarrow> nat \<Rightarrow> nat list option \<Rightarrow> (bool \<times> nat list) option" where
  "overloads n h symbols p existing =
     (if length symbols \<le> p then None
      else
        (case existing of
           None \<Rightarrow> Some (True, [p])
         | Some es \<Rightarrow>
             if single_kind (symbols ! p) then Some (False, es)
             else overload_loop n h symbols p (symbols ! p) es))"

definition define_symbol :: "nat \<Rightarrow> type_heap \<Rightarrow> Symbol list \<Rightarrow> string \<Rightarrow> nat \<Rightarrow> Scope \<Rightarrow> (bool \<times> Scope) option" where
  "define_symbol n h symbols name p scope =
     Option.bind (overloads n h symbols p (map_of (symbolsT scope) name)) (\<lambda>(b, es).
       Some (b, scope\<lparr>symbolsT := AList.update name es (symbolsT scope)\<rparr>))"

text \<open>The recursion of the searches: the answer of the scope, else the one of its parent, else the last resort.\<close>

function ascend :: "(Scope \<Rightarrow> 'a option) \<Rightarrow> 'a \<Rightarrow> Scope list \<Rightarrow> nat \<Rightarrow> 'a" where
  "ascend f last_resort scopes i =
     (case f (scopes ! i) of
        Some x \<Rightarrow> x
      | None \<Rightarrow>
          (case parentT (scopes ! i) of
             None \<Rightarrow> last_resort
           | Some j \<Rightarrow> if j < i then ascend f last_resort scopes j else last_resort))"
  by pat_completeness auto
termination by (relation "measure (\<lambda>(f, d, scopes, i). i)") auto

declare ascend.simps [simp del]

definition lookupLocal :: "string \<Rightarrow> Scope \<Rightarrow> nat option" where
  "lookupLocal n s = (case map_of (symbolsT s) n of Some (p # _) \<Rightarrow> Some p | _ \<Rightarrow> None)"

definition lookupAllLocal :: "string \<Rightarrow> Scope \<Rightarrow> nat list" where
  "lookupAllLocal n s = (case map_of (symbolsT s) n of Some ps \<Rightarrow> ps | None \<Rightarrow> [])"

definition lookup :: "Scope list \<Rightarrow> nat \<Rightarrow> string \<Rightarrow> nat option" where
  "lookup scopes i n = ascend (\<lambda>s. map_option Some (lookupLocal n s)) None scopes i"

definition lookupAll :: "Scope list \<Rightarrow> nat \<Rightarrow> string \<Rightarrow> nat list" where
  "lookupAll scopes i n = ascend (\<lambda>s. map_of (symbolsT s) n) [] scopes i"

definition inside :: "Scope_Kind set \<Rightarrow> Scope list \<Rightarrow> nat \<Rightarrow> bool" where
  "inside ks scopes i = ascend (\<lambda>s. if scope_kind s \<in> ks then Some True else None) False scopes i"

definition isInsideClass :: "Scope list \<Rightarrow> nat \<Rightarrow> bool" where
  "isInsideClass = inside {Scope_Class}"

definition isInsideFunction :: "Scope list \<Rightarrow> nat \<Rightarrow> bool" where
  "isInsideFunction = inside {Scope_Function}"

definition isInsideLoop :: "Scope list \<Rightarrow> nat \<Rightarrow> bool" where
  "isInsideLoop = inside {Scope_Loop, Scope_Switch}"

definition isInsideUnsafe :: "Scope list \<Rightarrow> nat \<Rightarrow> bool" where
  "isInsideUnsafe = inside {Scope_Unsafe}"

section \<open>The current scope of the analyser\<close>

record Analyzer =
  scopes :: "Scope list"
  currentScope :: nat
  analyzer_diagnostic :: Engine

definition new_Analyzer :: "Engine \<Rightarrow> Analyzer" where
  "new_Analyzer e = \<lparr>scopes = [new_Scope Scope_Global None], currentScope = 0, analyzer_diagnostic = e\<rparr>"

definition pushScope :: "Scope_Kind \<Rightarrow> Analyzer \<Rightarrow> Analyzer" where
  "pushScope k a = a\<lparr>scopes := scopes a @ [new_Scope k (Some (currentScope a))], currentScope := length (scopes a)\<rparr>"

definition popScope :: "Analyzer \<Rightarrow> Analyzer" where
  "popScope a = (case parentT (scopes a ! currentScope a) of None \<Rightarrow> a | Some j \<Rightarrow> a\<lparr>currentScope := j\<rparr>)"

text \<open>\<^verbatim>\<open>this->currentScope->define( name, symbol )\<close>.\<close>

definition define_here :: "nat \<Rightarrow> type_heap \<Rightarrow> Symbol list \<Rightarrow> string \<times> nat \<Rightarrow> Analyzer \<Rightarrow> Analyzer option" where
  "define_here n h symbols d a =
     Option.bind (define_symbol n h symbols (fst d) (snd d) (scopes a ! currentScope a)) (\<lambda>(_, s).
       Some (a\<lparr>scopes := (scopes a)[currentScope a := s]\<rparr>))"

definition analyzer_error :: "Source \<Rightarrow> string \<Rightarrow> Analyzer \<Rightarrow> (diagnostic_exception \<times> Analyzer) + Analyzer" where
  "analyzer_error src msg a =
     map_sum (\<lambda>(x, e). (x, a\<lparr>analyzer_diagnostic := e\<rparr>)) (\<lambda>e. a\<lparr>analyzer_diagnostic := e\<rparr>)
       (emit_error src msg '''' (analyzer_diagnostic a))"

definition validateAccessControl ::
    "Symbol option \<Rightarrow> Source \<Rightarrow> Analyzer \<Rightarrow> (diagnostic_exception \<times> Analyzer) + Analyzer" where
  "validateAccessControl symbol src a =
     (case symbol of
        None \<Rightarrow> Inr a
      | Some s \<Rightarrow>
          let report = (\<lambda>what. if isInsideClass (scopes a) (currentScope a) then Inr a
                else analyzer_error src (''cannot access '' @ what @ '' member '' @ [DQUOTE] @ symbol_name s @ [DQUOTE]) a)
          in if symbol_kind s \<noteq> Symbol_Field then Inr a
             else (case symbol_access s of
                     Access_Private \<Rightarrow> report ''private''
                   | Access_Protect \<Rightarrow> report ''protect''
                   | _ \<Rightarrow> Inr a))"

text \<open>
  The loop of \<^verbatim>\<open>validateClassHierarchy\<close> goes on while there is a base class that is not equal to the class. Its
  value says whether it ends with the report of a cycle; \<open>None\<close> is a loop that does not end.
\<close>

definition base_of :: "type_heap \<Rightarrow> type_pointer \<Rightarrow> Type option" where
  "base_of h p = Option.bind (deref h p) (\<lambda>t. if type_kind t = Kind_Class then Some t else None)"

definition base_pointer :: "Type \<Rightarrow> type_pointer" where
  "base_pointer t = (case class_cast t of Some c \<Rightarrow> class_baseClass c | None \<Rightarrow> None)"

partial_function (option) hierarchy_loop :: "type_heap \<Rightarrow> Type \<Rightarrow> type_pointer \<Rightarrow> bool option" where
  "hierarchy_loop h c p =
     (case base_of h p of
        None \<Rightarrow> Some False
      | Some t \<Rightarrow> if Type_equals t c then Some True else hierarchy_loop h c (base_pointer t))"

definition validateClassHierarchy ::
    "type_heap \<Rightarrow> Type \<Rightarrow> Source \<Rightarrow> Analyzer \<Rightarrow> ((diagnostic_exception \<times> Analyzer) + Analyzer) option" where
  "validateClassHierarchy h c src a =
     Option.bind (hierarchy_loop h c (base_pointer c)) (\<lambda>circular.
       Some (if circular
             then analyzer_error src (''circular inheritance detected for class '' @ [DQUOTE] @ type_name c @ [DQUOTE]) a
             else Inr a))"

end
