(* ===== verification/TypeLaws.thy ===== *)
theory TypeLaws
  imports TypeRegistry
begin

text \<open>
  What assignability means: the search through the interfaces is exact, more fuel never changes an answer, on a heap whose
  component pointers go down in some rank every question is answered, numbers convert into one
  another in every direction, and types built from others are told apart by their names only.
\<close>

section \<open>More fuel\<close>

text \<open>An optional result that is at least as defined as another.\<close>

definition refines :: "'a option \<Rightarrow> 'a option \<Rightarrow> bool" where
  "refines a b \<longleftrightarrow> (\<forall>x. a = Some x \<longrightarrow> b = Some x)"

named_theorems refines_intros \<open>what keeps the order of definedness\<close>

lemma refines_refl [refines_intros, simp]: "refines a a"
  by (simp add: refines_def)

lemma refines_bind [refines_intros]:
  "refines a b \<Longrightarrow> (\<And>x. refines (f x) (g x)) \<Longrightarrow> refines (Option.bind a f) (Option.bind b g)"
  by (cases a) (auto simp: refines_def)

lemma refines_if [refines_intros]:
  "(c \<Longrightarrow> refines a b) \<Longrightarrow> (\<not> c \<Longrightarrow> refines a' b') \<Longrightarrow> refines (if c then a else a') (if c then b else b')"
  by simp

lemma refines_all_opt [refines_intros]: "(\<And>x. refines (f x) (g x)) \<Longrightarrow> refines (all_opt f xs) (all_opt g xs)"
  by (induction xs) (simp_all add: refines_bind)

lemma refines_any_opt [refines_intros]: "(\<And>x. refines (f x) (g x)) \<Longrightarrow> refines (any_opt f xs) (any_opt g xs)"
  by (induction xs) (simp_all add: refines_bind)

lemma refines_and_then [refines_intros]: "refines a b \<Longrightarrow> refines c d \<Longrightarrow> refines (and_then a c) (and_then b d)"
  unfolding and_then_def by (intro refines_bind) (auto split: verdict.split)

lemma refines_when_true [refines_intros]: "refines a b \<Longrightarrow> refines (when_true a) (when_true b)"
  unfolding when_true_def by (intro refines_intros)

lemma refines_answer [refines_intros]: "refines a b \<Longrightarrow> refines (answer a) (answer b)"
  unfolding answer_def by (intro refines_intros)

lemma refines_option_case [refines_intros]:
  "refines a b \<Longrightarrow> (\<And>x. refines (f x) (g x)) \<Longrightarrow> refines (case_option a f z) (case_option b g z)"
  by (cases z) simp_all

lemma refines_pair_case [refines_intros]: "(\<And>x y. refines (f x y) (g x y)) \<Longrightarrow> refines (case_prod f z) (case_prod g z)"
  by (cases z) simp

lemma refines_generics:
  assumes "\<And>a b. refines (rec a b) (rec' a b)"
  shows "refines (test_generics rec t s) (test_generics rec' t s)"
  unfolding test_generics_def checkGenericCompatibility_def
  by (intro refines_intros assms)

lemma refines_optional:
  assumes "\<And>a b. refines (rec a b) (rec' a b)"
  shows "refines (test_optional rec p t q s) (test_optional rec' p t q s)"
  unfolding test_optional_def
  by (auto intro!: refines_intros assms split: type_details.split)

lemma refines_meta:
  assumes "\<And>a b. refines (rec a b) (rec' a b)"
  shows "refines (test_meta rec t s) (test_meta rec' t s)"
  unfolding test_meta_def
  by (auto intro!: refines_intros assms split: type_details.split)

lemma refines_union:
  assumes "\<And>a b. refines (rec a b) (rec' a b)"
  shows "refines (test_union rec p t q s) (test_union rec' p t q s)"
  unfolding test_union_def
  by (intro refines_intros) (auto intro!: refines_intros assms split: type_details.split)

lemma refines_signature:
  assumes "\<And>a b. refines (rec a b) (rec' a b)"
  shows "refines (signature_assignable rec ps p qs q) (signature_assignable rec' ps p qs q)"
  unfolding signature_assignable_def by (intro refines_intros assms)

lemma refines_callable:
  assumes "\<And>a b. refines (rec a b) (rec' a b)"
  shows "refines (test_callable rec t s) (test_callable rec' t s)"
  unfolding test_callable_def
  by (auto intro!: refines_intros refines_signature assms split: type_details.split)

lemma refines_all_tests:
  assumes "\<And>a b. refines (rec a b) (rec' a b)"
  shows "refines (all_tests rec r h p t q s) (all_tests rec' r h p t q s)"
  unfolding all_tests_def foldr.simps comp_def id_apply
  by (intro refines_and_then refines_generics refines_optional refines_meta refines_union refines_callable assms
      refines_refl)

lemma isAssignable_Suc_refines: "refines (isAssignable n r h t s) (isAssignable (Suc n) r h t s)"
proof (induction n arbitrary: t s)
  case (Suc n)
  show ?case
    by (subst (1 2) isAssignable.simps(2)) (unfold verdict_value_def, intro refines_intros refines_all_tests Suc.IH)
qed (simp add: refines_def)

lemma isAssignable_more_fuel:
  assumes "n \<le> m" and "isAssignable n r h t s = Some b"
  shows "isAssignable m r h t s = Some b"
  using assms
proof (induction m rule: dec_induct)
  case (step m)
  then show ?case using isAssignable_Suc_refines [of m r h t s] by (simp add: refines_def)
qed simp

section \<open>The search through the interfaces\<close>

definition valid_pointer :: "type_heap \<Rightarrow> type_pointer \<Rightarrow> bool" where
  "valid_pointer h p \<longleftrightarrow> (case p of None \<Rightarrow> True | Some a \<Rightarrow> a < length h)"

lemma valid_pointer_iff: "valid_pointer h p \<longleftrightarrow> (\<forall>a. p = Some a \<longrightarrow> a < length h)"
  by (cases p) (simp_all add: valid_pointer_def)

definition parent_edge :: "Registry option \<Rightarrow> type_heap \<Rightarrow> (nat \<times> nat) set" where
  "parent_edge r h =
     {(a, b). a < length h \<and> type_kind (h ! a) = Kind_Interface
        \<and> (\<exists>i. interface_cast (h ! a) = Some i \<and> Some b \<in> set (interface_parents r i))}"

definition meets :: "type_heap \<Rightarrow> Type \<Rightarrow> ast_declaration option \<Rightarrow> nat \<Rightarrow> bool" where
  "meets h goal decl a \<longleftrightarrow>
     typeIdentityMatch (h ! a) goal
     \<or> type_kind (h ! a) = Kind_Interface
       \<and> (\<exists>i. interface_cast (h ! a) = Some i \<and> same_declaration (interface_astDeclaration i) decl)"

definition interfaces_ok :: "Registry option \<Rightarrow> type_heap \<Rightarrow> bool" where
  "interfaces_ok r h \<longleftrightarrow>
     (\<forall>a < length h. type_kind (h ! a) = Kind_Interface \<longrightarrow>
        (\<exists>i. interface_cast (h ! a) = Some i \<and> list_all (valid_pointer h) (interface_parents r i)))"

definition explored :: "Registry option \<Rightarrow> type_heap \<Rightarrow> Type \<Rightarrow> ast_declaration option \<Rightarrow> type_pointer list \<Rightarrow> nat list \<Rightarrow> bool" where
  "explored r h goal decl work checked \<longleftrightarrow>
     (\<forall>c \<in> set checked. \<not> meets h goal decl c
        \<and> (\<forall>b. (c, b) \<in> parent_edge r h \<longrightarrow> b \<in> set checked \<or> Some b \<in> set work))"

definition goal_found :: "Registry option \<Rightarrow> type_heap \<Rightarrow> Type \<Rightarrow> ast_declaration option \<Rightarrow> type_pointer list \<Rightarrow> bool" where
  "goal_found r h goal decl work \<longleftrightarrow>
     (\<exists>w x. Some w \<in> set work \<and> (w, x) \<in> (parent_edge r h)\<^sup>* \<and> meets h goal decl x)"

lemma explored_leaves:
  assumes "explored r h goal decl work checked" and "(c, x) \<in> (parent_edge r h)\<^sup>*"
    and "c \<in> set checked" and "meets h goal decl x"
  shows "goal_found r h goal decl work"
  using assms(2,3)
proof (induction rule: converse_rtrancl_induct)
  case base
  then show ?case using assms(1,4) by (auto simp: explored_def)
next
  case (step c d)
  then consider "d \<in> set checked" | "Some d \<in> set work" using assms(1) by (auto simp: explored_def)
  then show ?case
  proof cases
    case 1
    then show ?thesis using step.IH by blast
  next
    case 2
    then show ?thesis using step.hyps(2) assms(4) unfolding goal_found_def by blast
  qed
qed

lemma goal_found_Cons:
  "goal_found r h goal decl (p # work) \<longleftrightarrow>
     (\<exists>a x. p = Some a \<and> (a, x) \<in> (parent_edge r h)\<^sup>* \<and> meets h goal decl x) \<or> goal_found r h goal decl work"
  by (auto simp: goal_found_def)

lemma goal_found_append: "goal_found r h goal decl (ps @ work) \<longleftrightarrow> goal_found r h goal decl ps \<or> goal_found r h goal decl work"
  by (auto simp: goal_found_def)

lemma goal_found_parents:
  assumes "a < length h" and "\<not> meets h goal decl a"
  shows "(\<exists>x. (a, x) \<in> (parent_edge r h)\<^sup>* \<and> meets h goal decl x) \<longleftrightarrow>
    (\<exists>i. type_kind (h ! a) = Kind_Interface \<and> interface_cast (h ! a) = Some i
       \<and> goal_found r h goal decl (rev (interface_parents r i)))" (is "?L \<longleftrightarrow> ?R")
proof
  assume ?L
  then obtain x where x: "(a, x) \<in> (parent_edge r h)\<^sup>*" "meets h goal decl x" by blast
  then obtain b where b: "(a, b) \<in> parent_edge r h" "(b, x) \<in> (parent_edge r h)\<^sup>*"
    using assms(2) by (metis converse_rtranclE)
  then show ?R using x(2) by (auto simp: parent_edge_def goal_found_def)
next
  assume ?R
  then obtain i w x where i: "type_kind (h ! a) = Kind_Interface" "interface_cast (h ! a) = Some i"
    "Some w \<in> set (interface_parents r i)" "(w, x) \<in> (parent_edge r h)\<^sup>*" "meets h goal decl x"
    by (auto simp: goal_found_def)
  then have "(a, w) \<in> parent_edge r h" using assms(1) by (simp add: parent_edge_def)
  from this i(4) have "(a, x) \<in> (parent_edge r h)\<^sup>*" by (rule converse_rtrancl_into_rtrancl)
  then show ?L using i(5) by blast
qed

lemma search_exact:
  assumes "interfaces_ok r h" and "list_all (valid_pointer h) work" and "explored r h goal decl work checked"
  shows "interface_search r h goal decl work checked = Some (goal_found r h goal decl work)"
  using assms
proof (induction r h goal decl work checked rule: interface_search.induct)
  case (1 r h goal decl checked)
  then show ?case by (simp add: goal_found_def)
next
  case (2 r h goal decl work checked)
  then show ?case by (auto simp: explored_def goal_found_Cons)
next
  case (3 r h goal decl a work checked)
  have len: "a < length h" and work: "list_all (valid_pointer h) work"
    using "3.prems"(2) by (simp_all, simp add: valid_pointer_iff)
  show ?case
  proof (cases "a \<in> set checked")
    case True
    have ex: "explored r h goal decl work checked" using "3.prems"(3) True unfolding explored_def by auto
    have "goal_found r h goal decl (Some a # work) = goal_found r h goal decl work"
      using explored_leaves [OF ex _ True] by (auto simp: goal_found_Cons)
    with "3.IH"(1) [OF True "3.prems"(1) work ex] True show ?thesis by simp
  next
    case new: False
    show ?thesis
    proof (cases "meets h goal decl a")
      case True
      have "goal_found r h goal decl (Some a # work)" using True unfolding goal_found_Cons by blast
      moreover have "interface_search r h goal decl (Some a # work) checked = Some True"
        using True new len by (auto simp: meets_def)
      ultimately show ?thesis by simp
    next
      case False
      note miss = False
      then have no: "\<not> typeIdentityMatch (h ! a) goal" by (simp add: meets_def)
      show ?thesis
      proof (cases "type_kind (h ! a) = Kind_Interface")
        case True
        then obtain i where i: "interface_cast (h ! a) = Some i" "list_all (valid_pointer h) (interface_parents r i)"
          using "3.prems"(1) len by (auto simp: interfaces_ok_def)
        have nd: "\<not> same_declaration (interface_astDeclaration i) decl" using miss True i(1) by (simp add: meets_def)
        have ex: "explored r h goal decl (rev (interface_parents r i) @ work) (a # checked)"
          using "3.prems"(3) miss i(1) by (auto simp: explored_def parent_edge_def)
        have "interface_search r h goal decl (Some a # work) checked
            = interface_search r h goal decl (rev (interface_parents r i) @ work) (a # checked)"
          using new len no True i(1) nd by simp
        also have "\<dots> = Some (goal_found r h goal decl (rev (interface_parents r i) @ work))"
          using "3.IH"(2) [OF new _ no True i(1) nd "3.prems"(1) _ ex] len work i(2) by simp
        also have "goal_found r h goal decl (rev (interface_parents r i) @ work) = goal_found r h goal decl (Some a # work)"
          using goal_found_parents [OF len miss, of r] True i(1) by (auto simp: goal_found_append goal_found_Cons)
        finally show ?thesis .
      next
        case False
        have ex: "explored r h goal decl work (a # checked)"
          using "3.prems"(3) miss False by (auto simp: explored_def parent_edge_def)
        have "goal_found r h goal decl (Some a # work) = goal_found r h goal decl work"
          using goal_found_parents [OF len miss, of r] False by (auto simp: goal_found_Cons)
        with "3.IH"(3) [OF new _ no False "3.prems"(1) work ex] len new no False show ?thesis by simp
      qed
    qed
  qed
qed

section \<open>Well-formed heaps\<close>

text \<open>The pointers that the recursion follows.\<close>

fun parts :: "type_details \<Rightarrow> type_pointer list" where
  "parts (OptionalType p) = [p]"
| "parts (ReferenceType p m) = [p]"
| "parts (Class_details c) = class_genericParameters c @ map snd (class_typeSubstitutions c)"
| "parts (MetaType p) = [p]"
| "parts (FutureType p) = [p]"
| "parts (UnionType ps) = ps"
| "parts (CallableType ps p) = p # ps"
| "parts (Function_details f) = function_returnType f # function_parameterTypes f"
| "parts d = []"

fun kind_matches :: "Type_Kind \<Rightarrow> type_details \<Rightarrow> bool" where
  "kind_matches Kind_Optional d = (case d of OptionalType _ \<Rightarrow> True | _ \<Rightarrow> False)"
| "kind_matches Kind_Reference d = (case d of ReferenceType _ _ \<Rightarrow> True | _ \<Rightarrow> False)"
| "kind_matches Kind_Class d = (case d of Class_details _ \<Rightarrow> True | _ \<Rightarrow> False)"
| "kind_matches Kind_Interface d = (case d of Interface_details _ \<Rightarrow> True | _ \<Rightarrow> False)"
| "kind_matches Kind_Meta d = (case d of MetaType _ \<Rightarrow> True | _ \<Rightarrow> False)"
| "kind_matches Kind_Future d = (case d of FutureType _ \<Rightarrow> True | _ \<Rightarrow> False)"
| "kind_matches Kind_Union d = (case d of UnionType _ \<Rightarrow> True | _ \<Rightarrow> False)"
| "kind_matches Kind_Callable d = (case d of CallableType _ _ \<Rightarrow> True | _ \<Rightarrow> False)"
| "kind_matches Kind_Function d = (case d of Function_details _ \<Rightarrow> True | _ \<Rightarrow> False)"
| "kind_matches k d = True"

definition goes_down :: "(nat \<Rightarrow> nat) \<Rightarrow> type_heap \<Rightarrow> nat \<Rightarrow> type_pointer \<Rightarrow> bool" where
  "goes_down rank h a p \<longleftrightarrow> (case p of None \<Rightarrow> False | Some b \<Rightarrow> b < length h \<and> rank b < rank a)"

definition type_ok :: "(nat \<Rightarrow> nat) \<Rightarrow> type_heap \<Rightarrow> nat \<Rightarrow> bool" where
  "type_ok rank h a \<longleftrightarrow>
     kind_matches (type_kind (h ! a)) (details (h ! a))
     \<and> list_all (goes_down rank h a) (parts (details (h ! a)))
     \<and> (case details (h ! a) of
          Class_details c \<Rightarrow>
            (class_baseClass c = None \<or> goes_down rank h a (class_baseClass c))
            \<and> list_all (\<lambda>p. p \<noteq> None \<and> valid_pointer h p) (class_interfaces c)
        | Interface_details i \<Rightarrow> list_all (valid_pointer h) (parentInterfaces i)
        | _ \<Rightarrow> True)"

definition registry_ok :: "Registry \<Rightarrow> type_heap \<Rightarrow> bool" where
  "registry_ok r h \<longleftrightarrow>
     list_all (\<lambda>p. snd p < length h) (primitivesTypes r)
     \<and> list_all (\<lambda>p. valid_pointer h (snd p)) (userTypesType r)"

definition heap_ok :: "(nat \<Rightarrow> nat) \<Rightarrow> Registry \<Rightarrow> type_heap \<Rightarrow> bool" where
  "heap_ok rank r h \<longleftrightarrow> list_all (type_ok rank h) [0..<length h] \<and> registry_ok r h"

lemma heap_ok_type: "heap_ok rank r h \<Longrightarrow> a < length h \<Longrightarrow> type_ok rank h a"
  by (simp add: heap_ok_def list_all_iff)

lemma lookupType_valid: "registry_ok r h \<Longrightarrow> valid_pointer h (lookupType r n)"
  by (auto simp: registry_ok_def lookupType_def lookupPrimitive_def valid_pointer_iff list_all_iff
      split: option.splits dest!: map_of_SomeD bind_eq_Some_conv [THEN iffD1])

lemma named_parents_valid: "registry_ok r h \<Longrightarrow> list_all (valid_pointer h) (named_parents r d)"
proof -
  assume r: "registry_ok r h"
  have "valid_pointer h (case node of SimpleTypeNode n \<Rightarrow> lookupType r n | GenericTypeNode n \<Rightarrow> lookupType r n | OtherTypeNode \<Rightarrow> None)"
    for node using lookupType_valid [OF r] by (cases node) (simp_all add: valid_pointer_iff)
  then show ?thesis by (auto simp: named_parents_def list_all_iff split: option.split)
qed

lemma heap_interfaces_ok: "heap_ok rank r h \<Longrightarrow> interfaces_ok (Some r) h \<and> interfaces_ok None h"
proof (unfold interfaces_ok_def, intro conjI allI impI)
  assume h: "heap_ok rank r h"
  fix a assume a: "a < length h" "type_kind (h ! a) = Kind_Interface"
  then have ok: "type_ok rank h a" using heap_ok_type [OF h] by blast
  then obtain i where i: "details (h ! a) = Interface_details i" and ps: "list_all (valid_pointer h) (parentInterfaces i)"
    using a(2) by (cases "details (h ! a)") (simp_all add: type_ok_def)
  have "registry_ok r h" using h by (simp add: heap_ok_def)
  from named_parents_valid [OF this] i ps
  show "\<exists>i. interface_cast (h ! a) = Some i \<and> list_all (valid_pointer h) (interface_parents (Some r) i)"
    and "\<exists>i. interface_cast (h ! a) = Some i \<and> list_all (valid_pointer h) (interface_parents None i)"
    by (simp_all add: interface_cast_def interface_parents_def)
qed

lemma class_facts:
  assumes "type_ok rank h a" and "type_kind (h ! a) = Kind_Class"
  obtains c where "class_cast (h ! a) = Some c" "details (h ! a) = Class_details c"
    "class_baseClass c = None \<or> goes_down rank h a (class_baseClass c)"
    "list_all (\<lambda>p. p \<noteq> None \<and> valid_pointer h p) (class_interfaces c)"
proof -
  obtain c where c: "details (h ! a) = Class_details c"
    using assms by (cases "details (h ! a)") (simp_all add: type_ok_def)
  show thesis by (rule that [of c]) (use assms(1) c in \<open>simp_all add: type_ok_def class_cast_def\<close>)
qed

lemma interface_facts:
  assumes "type_ok rank h a" and "type_kind (h ! a) = Kind_Interface"
  obtains i where "interface_cast (h ! a) = Some i" "list_all (valid_pointer h) (parentInterfaces i)"
proof -
  obtain i where i: "details (h ! a) = Interface_details i"
    using assms by (cases "details (h ! a)") (simp_all add: type_ok_def)
  show thesis by (rule that [of i]) (use assms(1) i in \<open>simp_all add: type_ok_def interface_cast_def\<close>)
qed

section \<open>Every question is answered\<close>

named_theorems answered_intros \<open>what keeps a result defined\<close>

definition answered :: "'a option \<Rightarrow> bool" where
  "answered x \<longleftrightarrow> x \<noteq> None"

lemma answered_Some [answered_intros, simp]: "answered (Some x)"
  by (simp add: answered_def)

lemma answered_bind [answered_intros]: "answered a \<Longrightarrow> (\<And>x. a = Some x \<Longrightarrow> answered (f x)) \<Longrightarrow> answered (Option.bind a f)"
  by (cases a) (simp_all add: answered_def)

lemma answered_all_opt [answered_intros]: "(\<And>x. x \<in> set xs \<Longrightarrow> answered (f x)) \<Longrightarrow> answered (all_opt f xs)"
  by (induction xs) (auto intro!: answered_bind)

lemma answered_any_opt [answered_intros]: "(\<And>x. x \<in> set xs \<Longrightarrow> answered (f x)) \<Longrightarrow> answered (any_opt f xs)"
  by (induction xs) (auto intro!: answered_bind)

lemma answered_and_then [answered_intros]: "answered a \<Longrightarrow> answered b \<Longrightarrow> answered (and_then a b)"
  unfolding and_then_def by (rule answered_bind) (auto split: verdict.split)

lemma answered_when_true [answered_intros]: "answered a \<Longrightarrow> answered (when_true a)"
  unfolding when_true_def by (rule answered_bind) auto

lemma answered_answer [answered_intros]: "answered a \<Longrightarrow> answered (answer a)"
  unfolding answer_def by (rule answered_bind) auto

lemma answered_if [answered_intros]: "(c \<Longrightarrow> answered a) \<Longrightarrow> (\<not> c \<Longrightarrow> answered b) \<Longrightarrow> answered (if c then a else b)"
  by simp

lemma deref_valid: "a < length h \<Longrightarrow> deref h (Some a) = Some (h ! a)"
  by (simp add: deref_def)

text \<open>Chains of base classes end, because the rank goes down.\<close>

definition lower :: "(nat \<Rightarrow> nat) \<Rightarrow> type_heap \<Rightarrow> type_pointer \<Rightarrow> nat set" where
  "lower rank h p = (case p of None \<Rightarrow> {} | Some a \<Rightarrow> {b. b < length h \<and> rank b \<le> rank a})"

lemma finite_lower [simp]: "finite (lower rank h p)"
  by (simp add: lower_def split: option.split)

lemma lower_base:
  assumes "class_baseClass c = None \<or> goes_down rank h a (class_baseClass c)" and "a < length h"
  shows "card (lower rank h (class_baseClass c)) < card (lower rank h (Some a))"
proof (rule psubset_card_mono)
  have "lower rank h (class_baseClass c) \<subseteq> lower rank h (Some a) - {a}"
  proof (cases "class_baseClass c")
    case None
    then show ?thesis by (simp add: lower_def)
  next
    case (Some b)
    then have "rank b < rank a" using assms(1) by (simp add: goes_down_def)
    then show ?thesis unfolding Some lower_def by auto
  qed
  moreover have "a \<in> lower rank h (Some a)" using assms(2) by (simp add: lower_def)
  ultimately show "lower rank h (class_baseClass c) \<subset> lower rank h (Some a)" by blast
qed simp

lemma lower_fuel: "valid_pointer h p \<Longrightarrow> card (lower rank h p) < Suc (length h)"
proof -
  have "lower rank h p \<subseteq> {..<length h}" unfolding lower_def by (cases p) auto
  from card_mono [OF _ this] show ?thesis by simp
qed

lemma base_valid: "class_baseClass c = None \<or> goes_down rank h a (class_baseClass c) \<Longrightarrow> valid_pointer h (class_baseClass c)"
  by (auto simp: goes_down_def valid_pointer_iff)

lemma answered_base_chain:
  assumes "heap_ok rank r h" and "valid_pointer h p" and "card (lower rank h p) < n"
  shows "answered (base_chain n h goal p)"
  using assms(2,3)
proof (induction n arbitrary: p)
  case (Suc n)
  show ?case
  proof (cases p)
    case (Some a)
    then have len: "a < length h" using Suc.prems(1) by (simp add: valid_pointer_iff)
    have "answered (Option.bind (class_cast (h ! a)) (\<lambda>b. base_chain n h goal (class_baseClass b)))"
      if "type_kind (h ! a) = Kind_Class"
    proof (rule class_facts [OF heap_ok_type [OF assms(1) len] that])
      fix c assume c: "class_cast (h ! a) = Some c" "class_baseClass c = None \<or> goes_down rank h a (class_baseClass c)"
      have "answered (base_chain n h goal (class_baseClass c))"
        using Suc.IH [OF base_valid [OF c(2)]] lower_base [OF c(2) len] Suc.prems(2) Some by simp
      then show ?thesis using c(1) by simp
    qed
    then show ?thesis by (simp add: Some deref_valid [OF len])
  qed simp
qed simp

lemma answered_direct_interface:
  assumes "heap_ok rank r h" and "p \<noteq> None" and "valid_pointer h p"
  shows "answered (direct_interface h goal decl p)"
proof -
  from assms(2,3) obtain a where a: "p = Some a" "a < length h" by (auto simp: valid_pointer_iff)
  have "answered (Option.bind (interface_cast (h ! a)) (\<lambda>i. Some (same_declaration (interface_astDeclaration i) decl)))"
    if "type_kind (h ! a) = Kind_Interface"
    by (rule interface_facts [OF heap_ok_type [OF assms(1) a(2)] that]) simp
  then show ?thesis by (simp add: direct_interface_def a deref_valid)
qed

lemma answered_base_interfaces:
  assumes "heap_ok rank r h" and "valid_pointer h p" and "card (lower rank h p) < n"
  shows "answered (base_interfaces n h goal decl p)"
  using assms(2,3)
proof (induction n arbitrary: p)
  case (Suc n)
  show ?case
  proof (cases p)
    case (Some a)
    then have len: "a < length h" using Suc.prems(1) by (simp add: valid_pointer_iff)
    have "answered (Option.bind (class_cast (h ! a)) (\<lambda>b.
        Option.bind (any_opt (direct_interface h goal decl) (class_interfaces b)) (\<lambda>found.
          if found then Some True else base_interfaces n h goal decl (class_baseClass b))))"
      if "type_kind (h ! a) = Kind_Class"
    proof (rule class_facts [OF heap_ok_type [OF assms(1) len] that])
      fix c assume c: "class_cast (h ! a) = Some c" "class_baseClass c = None \<or> goes_down rank h a (class_baseClass c)"
        "list_all (\<lambda>p. p \<noteq> None \<and> valid_pointer h p) (class_interfaces c)"
      have "answered (base_interfaces n h goal decl (class_baseClass c))"
        using Suc.IH [OF base_valid [OF c(2)]] lower_base [OF c(2) len] Suc.prems(2) Some by simp
      moreover have "answered (any_opt (direct_interface h goal decl) (class_interfaces c))"
        using c(3) answered_direct_interface [OF assms(1)] by (intro answered_any_opt) (auto simp: list_all_iff)
      ultimately show ?thesis by (simp add: c(1) answered_bind)
    qed
    then show ?thesis by (simp add: Some deref_valid [OF len])
  qed simp
qed simp

text \<open>The recursion is answered on all pairs of smaller rank.\<close>

definition answers_below :: "(nat \<Rightarrow> nat) \<Rightarrow> type_heap \<Rightarrow> nat \<Rightarrow> recursion \<Rightarrow> bool" where
  "answers_below rank h k rec \<longleftrightarrow>
     (\<forall>a b. a < length h \<longrightarrow> b < length h \<longrightarrow> rank a + rank b < k \<longrightarrow> answered (rec (Some a) (Some b)))"

lemma below_both:
  "answers_below rank h (rank a + rank b) rec \<Longrightarrow> goes_down rank h a p \<Longrightarrow> goes_down rank h b q \<Longrightarrow> answered (rec p q)"
  by (auto simp: answers_below_def goes_down_def split: option.splits)

lemma below_left:
  "answers_below rank h (rank a + rank b) rec \<Longrightarrow> goes_down rank h a p \<Longrightarrow> b < length h \<Longrightarrow> answered (rec p (Some b))"
  by (auto simp: answers_below_def goes_down_def split: option.splits)

lemma below_right:
  "answers_below rank h (rank a + rank b) rec \<Longrightarrow> a < length h \<Longrightarrow> goes_down rank h b q \<Longrightarrow> answered (rec (Some a) q)"
  by (auto simp: answers_below_def goes_down_def split: option.splits)

lemma below_pairs:
  assumes "answers_below rank h (rank a + rank b) rec" and "list_all (goes_down rank h a) ps" and "list_all (goes_down rank h b) qs"
    and "x \<in> set (zip ps qs)"
  shows "answered (case x of (p, q) \<Rightarrow> rec p q)"
  using assms below_both [OF assms(1)] by (cases x) (auto simp: list_all_iff dest: set_zip_leftD set_zip_rightD)

lemma answered_signature:
  assumes "answers_below rank h (rank a + rank b) rec" and "list_all (goes_down rank h a) (p # ps)"
    and "list_all (goes_down rank h b) (q # qs)"
  shows "answered (signature_assignable rec ps p qs q)"
proof -
  have "answered (all_opt (\<lambda>(a, b). rec a b) (zip ps qs))"
    by (intro answered_all_opt below_pairs [OF assms(1)]) (use assms in simp_all)
  moreover have "answered (rec p q)" using below_both [OF assms(1)] assms by simp
  ultimately show ?thesis unfolding signature_assignable_def by (intro answered_if answered_bind answered_Some)
qed

lemma parts_ok: "type_ok rank h a \<Longrightarrow> list_all (goes_down rank h a) (parts (details (h ! a)))"
  by (simp add: type_ok_def)

lemma kind_ok: "type_ok rank h a \<Longrightarrow> kind_matches (type_kind (h ! a)) (details (h ! a))"
  by (simp add: type_ok_def)

lemmas component_facts = parts_ok kind_ok

lemma answered_generics:
  assumes "type_ok rank h a" and "type_ok rank h b" and "answers_below rank h (rank a + rank b) rec"
  shows "answered (test_generics rec (h ! a) (h ! b))"
proof (cases "both_kinds Kind_Class (h ! a) Kind_Class (h ! b)")
  case True
  obtain c where c: "class_cast (h ! a) = Some c" "details (h ! a) = Class_details c"
    using class_facts [OF assms(1)] True by blast
  obtain d where d: "class_cast (h ! b) = Some d" "details (h ! b) = Class_details d"
    using class_facts [OF assms(2)] True by blast
  note pc = parts_ok [OF assms(1), unfolded c(2), simplified] and pd = parts_ok [OF assms(2), unfolded d(2), simplified]
  have gen: "answered (all_opt (\<lambda>(a, b). rec a b) (zip (class_genericParameters c) (class_genericParameters d)))"
    using below_pairs [OF assms(3)] pc pd by (intro answered_all_opt) auto
  have "answered (case map_of (class_typeSubstitutions d) k of None \<Rightarrow> Some False | Some q \<Rightarrow> rec p q)"
    if "(k, p) \<in> set (class_typeSubstitutions c)" for k p
  proof (cases "map_of (class_typeSubstitutions d) k")
    case (Some q)
    then have "q \<in> snd ` set (class_typeSubstitutions d)" using map_of_SomeD by force
    then have "goes_down rank h b q" using pd by (auto simp: list_all_iff)
    moreover have "goes_down rank h a p" using pc that by (auto simp: list_all_iff)
    ultimately show ?thesis using below_both [OF assms(3)] Some by simp
  qed simp
  then have sub: "answered (all_opt (\<lambda>(k, p). case map_of (class_typeSubstitutions d) k of None \<Rightarrow> Some False | Some q \<Rightarrow> rec p q)
      (class_typeSubstitutions c))"
    by (intro answered_all_opt) auto
  have "answered (checkGenericCompatibility rec c d)"
    unfolding checkGenericCompatibility_def by (intro answered_if gen sub answered_Some)
  then show ?thesis by (simp add: test_generics_def c(1) d(1) answered_answer)
qed (auto simp: test_generics_def)

lemma answered_search:
  assumes "interfaces_ok r h" and "list_all (valid_pointer h) work"
  shows "answered (interface_search r h goal decl work [])"
  using search_exact [OF assms, of goal decl "[]"] by (simp add: explored_def)

lemma listed_interfaces_ok:
  assumes "heap_ok rank r h" and "list_all (\<lambda>p. p \<noteq> None \<and> valid_pointer h p) (class_interfaces c)"
  obtains ts where "listed_interfaces r h c = Some ts" "list_all (valid_pointer h) ts"
proof -
  have own: "list_all (valid_pointer h) (class_interfaces c)" using assms(2) by (simp add: list_all_iff)
  show thesis
  proof (cases "class_astDeclaration c")
    case None
    with own that show ?thesis by (simp add: listed_interfaces_def)
  next
    case (Some d)
    show ?thesis
    proof (cases "lookupType r (declaration_name d)")
      case None
      with own that \<open>class_astDeclaration c = Some d\<close> show ?thesis by (simp add: listed_interfaces_def)
    next
      case (Some b)
      then have len: "b < length h"
        using lookupType_valid [of r h "declaration_name d"] assms(1) by (simp add: heap_ok_def valid_pointer_iff)
      show ?thesis
      proof (cases "type_kind (h ! b) = Kind_Class")
        case True
        obtain e where e: "class_cast (h ! b) = Some e" "list_all (\<lambda>p. p \<noteq> None \<and> valid_pointer h p) (class_interfaces e)"
          using class_facts [OF heap_ok_type [OF assms(1) len] True] by blast
        have "list_all (valid_pointer h) (class_interfaces c @ class_interfaces e)"
          using own e(2) by (auto simp: list_all_iff)
        with that e(1) True \<open>class_astDeclaration c = Some d\<close> Some len
        show ?thesis by (simp add: listed_interfaces_def deref_valid)
      next
        case False
        with own that \<open>class_astDeclaration c = Some d\<close> Some len
        show ?thesis by (simp add: listed_interfaces_def deref_valid)
      qed
    qed
  qed
qed

lemma answered_class_to_interface:
  assumes "heap_ok rank r h" and "type_ok rank h a" and "type_ok rank h b"
  shows "answered (test_class_to_interface r h (h ! a) (h ! b))"
proof (cases "both_kinds Kind_Interface (h ! a) Kind_Class (h ! b)")
  case True
  obtain i where i: "interface_cast (h ! a) = Some i" using interface_facts [OF assms(2)] True by blast
  obtain c where c: "class_cast (h ! b) = Some c" "class_baseClass c = None \<or> goes_down rank h b (class_baseClass c)"
    "list_all (\<lambda>p. p \<noteq> None \<and> valid_pointer h p) (class_interfaces c)"
    using class_facts [OF assms(3)] True by blast
  obtain ts where ts: "listed_interfaces r h c = Some ts" "list_all (valid_pointer h) ts"
    using listed_interfaces_ok [OF assms(1) c(3)] by blast
  have "answered (interface_search (Some r) h (h ! a) (interface_astDeclaration i) (rev ts) [])"
    using answered_search heap_interfaces_ok [OF assms(1)] ts(2) by simp
  moreover have "answered (base_interfaces (Suc (length h)) h (h ! a) (interface_astDeclaration i) (class_baseClass c))"
    by (rule answered_base_interfaces [OF assms(1) base_valid [OF c(2)] lower_fuel [OF base_valid [OF c(2)]]])
  ultimately show ?thesis
    by (simp add: test_class_to_interface_def c(1) i ts(1) answered_and_then answered_when_true)
qed (auto simp: test_class_to_interface_def)

lemma answered_interface_to_class:
  assumes "heap_ok rank r h" and "type_ok rank h a" and "type_ok rank h b"
  shows "answered (test_interface_to_class r h (h ! a) (h ! b))"
proof (cases "both_kinds Kind_Class (h ! a) Kind_Interface (h ! b)")
  case True
  obtain i where i: "interface_cast (h ! b) = Some i" using interface_facts [OF assms(3)] True by blast
  obtain c where c: "class_cast (h ! a) = Some c" "list_all (\<lambda>p. p \<noteq> None \<and> valid_pointer h p) (class_interfaces c)"
    using class_facts [OF assms(2)] True by blast
  obtain ts where ts: "listed_interfaces r h c = Some ts" "list_all (valid_pointer h) ts"
    using listed_interfaces_ok [OF assms(1) c(2)] by blast
  have "answered (interface_search None h (h ! b) (interface_astDeclaration i) (rev ts) [])"
    using answered_search heap_interfaces_ok [OF assms(1)] ts(2) by simp
  then show ?thesis
    by (simp add: test_interface_to_class_def c(1) i ts(1) answered_when_true)
qed (auto simp: test_interface_to_class_def)

lemma answered_interfaces:
  assumes "heap_ok rank r h" and "type_ok rank h a" and "type_ok rank h b"
  shows "answered (test_interfaces r h (h ! a) (h ! b))"
proof (cases "both_kinds Kind_Interface (h ! a) Kind_Interface (h ! b)")
  case True
  obtain i where i: "interface_cast (h ! a) = Some i" using interface_facts [OF assms(2)] True by blast
  obtain j where j: "interface_cast (h ! b) = Some j" "list_all (valid_pointer h) (parentInterfaces j)"
    using interface_facts [OF assms(3)] True by blast
  have "list_all (valid_pointer h) (interface_parents (Some r) j)"
    using j(2) named_parents_valid [of r h] assms(1) by (simp add: interface_parents_def heap_ok_def)
  then have "answered (interface_search (Some r) h (h ! a) (interface_astDeclaration i) (rev (interface_parents (Some r) j)) [])"
    using answered_search heap_interfaces_ok [OF assms(1)] by simp
  then show ?thesis
    by (simp add: test_interfaces_def j(1) i answered_when_true)
qed (auto simp: test_interfaces_def)

lemma answered_matches: "valid_pointer h p \<Longrightarrow> answered (matches h goal p)"
  by (auto simp: matches_def valid_pointer_iff deref_valid split: option.split)

lemma answered_direct_base:
  assumes "heap_ok rank r h" and "type_ok rank h b"
  shows "answered (test_direct_base r h (h ! a) (h ! b))"
proof (cases "both_kinds Kind_Class (h ! a) Kind_Class (h ! b)")
  case True
  obtain c where c: "class_cast (h ! b) = Some c" "class_baseClass c = None \<or> goes_down rank h b (class_baseClass c)"
    using class_facts [OF assms(2)] True by blast
  have own: "answered (when_true (matches h (h ! a) (class_baseClass c)))"
    using answered_matches [OF base_valid [OF c(2)]] by (rule answered_when_true)
  have template: "answered (Option.bind (deref h (Some e)) (\<lambda>t.
      if type_kind t = Kind_Class then Option.bind (class_cast t) (\<lambda>b. when_true (matches h (h ! a) (class_baseClass b)))
      else Some Go_on))" if e: "lookupType r n = Some e" for e n
  proof -
    have len: "e < length h" using lookupType_valid [of r h n] assms(1) e by (simp add: heap_ok_def valid_pointer_iff)
    have "answered (Option.bind (class_cast (h ! e)) (\<lambda>b. when_true (matches h (h ! a) (class_baseClass b))))"
      if "type_kind (h ! e) = Kind_Class"
    proof (rule class_facts [OF heap_ok_type [OF assms(1) len] that])
      fix d assume d: "class_cast (h ! e) = Some d" "class_baseClass d = None \<or> goes_down rank h e (class_baseClass d)"
      show ?thesis using answered_matches [OF base_valid [OF d(2)]] d(1) by (simp add: answered_when_true)
    qed
    then show ?thesis by (simp add: deref_valid [OF len])
  qed
  have "answered (case class_astDeclaration c of
      None \<Rightarrow> Some Go_on
    | Some d \<Rightarrow>
        (case lookupType r (declaration_name d) of
           None \<Rightarrow> Some Go_on
         | Some e \<Rightarrow>
             Option.bind (deref h (Some e)) (\<lambda>t.
               if type_kind t = Kind_Class
               then Option.bind (class_cast t) (\<lambda>b. when_true (matches h (h ! a) (class_baseClass b)))
               else Some Go_on)))"
    using template by (auto split: option.split)
  with own True show ?thesis by (simp add: test_direct_base_def c(1) answered_and_then)
qed (auto simp: test_direct_base_def)

lemma answered_bases:
  assumes "heap_ok rank r h" and "type_ok rank h b"
  shows "answered (test_bases h (h ! a) (h ! b))"
proof (cases "both_kinds Kind_Class (h ! a) Kind_Class (h ! b)")
  case True
  obtain c where c: "class_cast (h ! b) = Some c" "class_baseClass c = None \<or> goes_down rank h b (class_baseClass c)"
    "list_all (\<lambda>p. p \<noteq> None \<and> valid_pointer h p) (class_interfaces c)"
    using class_facts [OF assms(2)] True by blast
  have "answered (base_chain (Suc (length h)) h (h ! a) (class_baseClass c))"
    by (rule answered_base_chain [OF assms(1) base_valid [OF c(2)] lower_fuel [OF base_valid [OF c(2)]]])
  moreover have "answered (any_opt (matches h (h ! a)) (class_interfaces c))"
    by (intro answered_any_opt answered_matches) (use c(3) in \<open>simp add: list_all_iff\<close>)
  ultimately show ?thesis using True by (simp add: test_bases_def c(1) answered_and_then answered_when_true)
qed (auto simp: test_bases_def)

lemma answered_optional:
  assumes "type_ok rank h a" and "type_ok rank h b" and "answers_below rank h (rank a + rank b) rec"
    and "a < length h" and "b < length h"
  shows "answered (test_optional rec (Some a) (h ! a) (Some b) (h ! b))"
proof -
  note facts = component_facts [OF assms(1)] component_facts [OF assms(2)]
  note below = below_both [OF assms(3)] below_left [OF assms(3) _ assms(5)] below_right [OF assms(3,4)]
  have opt: "\<exists>p. details (h ! i) = OptionalType p \<and> goes_down rank h i p"
    if "type_kind (h ! i) = Kind_Optional" "type_ok rank h i" for i
    using component_facts [OF that(2)] that(1) by (cases "details (h ! i)") simp_all
  have ref: "\<exists>p m. details (h ! i) = ReferenceType p m \<and> goes_down rank h i p"
    if "type_kind (h ! i) = Kind_Reference" "type_ok rank h i" for i
    using component_facts [OF that(2)] that(1) by (cases "details (h ! i)") simp_all
  show ?thesis
    unfolding test_optional_def
    using opt [OF _ assms(1)] opt [OF _ assms(2)] ref [OF _ assms(1)] below
    by (intro answered_if) (auto intro!: answered_answer)
qed

lemma answered_meta:
  assumes "type_ok rank h a" and "type_ok rank h b" and "answers_below rank h (rank a + rank b) rec"
  shows "answered (test_meta rec (h ! a) (h ! b))"
proof -
  have meta: "\<exists>p. details (h ! i) = MetaType p \<and> goes_down rank h i p"
    if "type_kind (h ! i) = Kind_Meta" "type_ok rank h i" for i
    using component_facts [OF that(2)] that(1) by (cases "details (h ! i)") simp_all
  have future: "\<exists>p. details (h ! i) = FutureType p \<and> goes_down rank h i p"
    if "type_kind (h ! i) = Kind_Future" "type_ok rank h i" for i
    using component_facts [OF that(2)] that(1) by (cases "details (h ! i)") simp_all
  show ?thesis
    unfolding test_meta_def
    using meta [OF _ assms(1)] meta [OF _ assms(2)] future [OF _ assms(1)] future [OF _ assms(2)] below_both [OF assms(3)]
    by (intro answered_if) (auto intro!: answered_answer)
qed

lemma answered_union:
  assumes "type_ok rank h a" and "type_ok rank h b" and "answers_below rank h (rank a + rank b) rec"
    and "a < length h" and "b < length h"
  shows "answered (test_union rec (Some a) (h ! a) (Some b) (h ! b))"
proof -
  have union: "\<exists>ps. details (h ! i) = UnionType ps \<and> list_all (goes_down rank h i) ps"
    if "type_kind (h ! i) = Kind_Union" "type_ok rank h i" for i
    using component_facts [OF that(2)] that(1) by (cases "details (h ! i)") simp_all
  have "answered (any_opt (\<lambda>m. rec m (Some b)) ps)" if "list_all (goes_down rank h a) ps" for ps
    by (intro answered_any_opt below_left [OF assms(3) _ assms(5)]) (use that in \<open>simp add: list_all_iff\<close>)
  moreover have "answered (all_opt (\<lambda>m. rec (Some a) m) ps)" if "list_all (goes_down rank h b) ps" for ps
    by (intro answered_all_opt below_right [OF assms(3,4)]) (use that in \<open>simp add: list_all_iff\<close>)
  ultimately show ?thesis
    unfolding test_union_def using union [OF _ assms(1)] union [OF _ assms(2)]
    by (intro answered_and_then answered_if answered_Some) (auto intro!: answered_when_true)
qed

lemma answered_callable:
  assumes "type_ok rank h a" and "type_ok rank h b" and "answers_below rank h (rank a + rank b) rec"
  shows "answered (test_callable rec (h ! a) (h ! b))"
proof -
  have call: "\<exists>ps p. details (h ! i) = CallableType ps p \<and> list_all (goes_down rank h i) (p # ps)"
    if "type_kind (h ! i) = Kind_Callable" "type_ok rank h i" for i
    using component_facts [OF that(2)] that(1) by (cases "details (h ! i)") simp_all
  have fn: "\<exists>f. details (h ! i) = Function_details f \<and> list_all (goes_down rank h i) (function_returnType f # function_parameterTypes f)"
    if "type_kind (h ! i) = Kind_Function" "type_ok rank h i" for i
    using component_facts [OF that(2)] that(1) by (cases "details (h ! i)") simp_all
  note sig = answered_signature [OF assms(3)]
  show ?thesis
    unfolding test_callable_def
  proof (intro answered_if answered_Some)
    assume "both_kinds Kind_Callable (h ! a) Kind_Function (h ! b)"
    with call [OF _ assms(1)] fn [OF _ assms(2)] obtain ps p f
      where "details (h ! a) = CallableType ps p" "list_all (goes_down rank h a) (p # ps)"
        "details (h ! b) = Function_details f" "list_all (goes_down rank h b) (function_returnType f # function_parameterTypes f)"
      by blast
    then show "answered (case (details (h ! a), details (h ! b)) of
        (CallableType tps tr, Function_details f) \<Rightarrow>
          answer (signature_assignable rec tps tr (function_parameterTypes f) (function_returnType f)) | _ \<Rightarrow> None)"
      using sig by (simp add: answered_answer)
  next
    assume "both_kinds Kind_Function (h ! a) Kind_Callable (h ! b)"
    with fn [OF _ assms(1)] call [OF _ assms(2)] obtain ps p f
      where "details (h ! b) = CallableType ps p" "list_all (goes_down rank h b) (p # ps)"
        "details (h ! a) = Function_details f" "list_all (goes_down rank h a) (function_returnType f # function_parameterTypes f)"
      by blast
    then show "answered (case (details (h ! a), details (h ! b)) of
        (Function_details f, CallableType sps sr) \<Rightarrow>
          answer (signature_assignable rec (function_parameterTypes f) (function_returnType f) sps sr) | _ \<Rightarrow> None)"
      using sig by (simp add: answered_answer)
  next
    assume "both_kinds Kind_Callable (h ! a) Kind_Callable (h ! b)"
    with call [OF _ assms(1)] call [OF _ assms(2)] obtain ps p qs q
      where "details (h ! a) = CallableType ps p" "list_all (goes_down rank h a) (p # ps)"
        "details (h ! b) = CallableType qs q" "list_all (goes_down rank h b) (q # qs)"
      by blast
    then show "answered (case (details (h ! a), details (h ! b)) of
        (CallableType tps tr, CallableType sps sr) \<Rightarrow> answer (signature_assignable rec tps tr sps sr) | _ \<Rightarrow> None)"
      using sig by (simp add: answered_answer)
  qed
qed

lemma answered_simple_tests:
  "answered (test_identity t s)" "answered (test_numbers t s)" "answered (test_wrappers t s)"
  by (simp_all add: test_identity_def test_numbers_def test_wrappers_def Let_def)

lemma answered_all_tests:
  assumes h: "heap_ok rank r h" and a: "a < length h" and b: "b < length h"
    and rec: "answers_below rank h (rank a + rank b) rec"
  shows "answered (all_tests rec r h (Some a) (h ! a) (Some b) (h ! b))"
proof -
  note oks = heap_ok_type [OF h a] heap_ok_type [OF h b]
  show ?thesis
    unfolding all_tests_def foldr.simps comp_def id_apply
    by (intro answered_and_then answered_simple_tests answered_Some
        answered_generics [OF oks rec] answered_class_to_interface [OF h oks] answered_interface_to_class [OF h oks]
        answered_interfaces [OF h oks] answered_direct_base [OF h oks(2)] answered_optional [OF oks rec a b]
        answered_bases [OF h oks(2)] answered_meta [OF oks rec] answered_union [OF oks rec a b] answered_callable [OF oks rec])
qed

lemma answered_isAssignable:
  assumes "heap_ok rank r h"
  shows "a < length h \<Longrightarrow> b < length h \<Longrightarrow> rank a + rank b < n \<Longrightarrow> answered (isAssignable n r h (Some a) (Some b))"
proof (induction n arbitrary: a b)
  case (Suc n)
  have "answers_below rank h (rank a + rank b) (isAssignable n r h)"
    unfolding answers_below_def using Suc.IH Suc.prems(3) by auto
  then have "answered (verdict_value (all_tests (isAssignable n r h) r h (Some a) (h ! a) (Some b) (h ! b)))"
    unfolding verdict_value_def
    by (intro answered_bind answered_all_tests [OF assms Suc.prems(1,2)]) (auto split: verdict.split)
  then show ?case using Suc.prems by (simp add: deref_valid)
qed simp


section \<open>Classes and interfaces\<close>

text \<open>
  The interfaces a class is known by: those that the listed ones lead to through their parents, and those that a
  base class lists itself.
\<close>

inductive_set base_classes :: "type_heap \<Rightarrow> type_pointer \<Rightarrow> ClassType set" for h p where
  first_base: "p = Some a \<Longrightarrow> a < length h \<Longrightarrow> type_kind (h ! a) = Kind_Class \<Longrightarrow> class_cast (h ! a) = Some c \<Longrightarrow>
    c \<in> base_classes h p"
| next_base: "b \<in> base_classes h p \<Longrightarrow> class_baseClass b = Some a \<Longrightarrow> a < length h \<Longrightarrow> type_kind (h ! a) = Kind_Class \<Longrightarrow>
    class_cast (h ! a) = Some c \<Longrightarrow> c \<in> base_classes h p"

definition known_by :: "Registry \<Rightarrow> type_heap \<Rightarrow> ClassType \<Rightarrow> Type \<Rightarrow> ast_declaration option \<Rightarrow> bool" where
  "known_by r h c goal decl \<longleftrightarrow>
     (\<exists>ts. listed_interfaces r h c = Some ts \<and> goal_found (Some r) h goal decl ts)
     \<or> (\<exists>b \<in> base_classes h (class_baseClass c). \<exists>a. Some a \<in> set (class_interfaces b) \<and> meets h goal decl a)"

lemma base_classes_unfold:
  assumes "p = Some a" and "a < length h" and "type_kind (h ! a) = Kind_Class" and "class_cast (h ! a) = Some c"
  shows "base_classes h p = insert c (base_classes h (class_baseClass c))"
proof
  show "base_classes h p \<subseteq> insert c (base_classes h (class_baseClass c))"
  proof
    fix d assume "d \<in> base_classes h p"
    then show "d \<in> insert c (base_classes h (class_baseClass c))"
    proof (induction rule: base_classes.induct)
      case (first_base b d)
      then show ?case using assms by simp
    next
      case (next_base b e d)
      then show ?case using base_classes.intros by blast
    qed
  qed
  have "d \<in> base_classes h p" if "d \<in> base_classes h (class_baseClass c)" for d
    using that
  proof (induction rule: base_classes.induct)
    case (first_base b d)
    then show ?case using base_classes.next_base [OF base_classes.first_base [OF assms]] by blast
  next
    case (next_base b e d)
    then show ?case using base_classes.next_base by blast
  qed
  then show "insert c (base_classes h (class_baseClass c)) \<subseteq> base_classes h p"
    using base_classes.first_base [OF assms] by blast
qed

lemma base_classes_none: "p = None \<Longrightarrow> base_classes h p = {}"
  and base_classes_other: "p = Some a \<Longrightarrow> type_kind (h ! a) \<noteq> Kind_Class \<Longrightarrow> base_classes h p = {}"
proof -
  have "d \<in> base_classes h p \<Longrightarrow> p \<noteq> None \<and> (\<forall>a. p = Some a \<longrightarrow> type_kind (h ! a) = Kind_Class)" for d
    by (induction rule: base_classes.induct) auto
  then show "p = None \<Longrightarrow> base_classes h p = {}" "p = Some a \<Longrightarrow> type_kind (h ! a) \<noteq> Kind_Class \<Longrightarrow> base_classes h p = {}"
    by auto
qed

lemma any_opt_exact: "(\<And>x. x \<in> set xs \<Longrightarrow> f x = Some (g x)) \<Longrightarrow> any_opt f xs = Some (\<exists>x \<in> set xs. g x)"
  by (induction xs) auto

lemma direct_interface_exact:
  assumes "heap_ok rank r h" and "a < length h"
  shows "direct_interface h goal decl (Some a) = Some (meets h goal decl a)"
proof (cases "type_kind (h ! a) = Kind_Interface")
  case True
  obtain i where "interface_cast (h ! a) = Some i"
    using interface_facts [OF heap_ok_type [OF assms] True] by blast
  then show ?thesis using True assms(2) by (simp add: direct_interface_def deref_valid meets_def)
qed (use assms(2) in \<open>simp add: direct_interface_def deref_valid meets_def\<close>)

lemma interfaces_exact:
  assumes "heap_ok rank r h" and "list_all (\<lambda>p. p \<noteq> None \<and> valid_pointer h p) ps"
  shows "any_opt (direct_interface h goal decl) ps = Some (\<exists>a. Some a \<in> set ps \<and> meets h goal decl a)"
proof -
  have "any_opt (direct_interface h goal decl) ps = Some (\<exists>p \<in> set ps. meets h goal decl (the p))"
    by (rule any_opt_exact) (use assms(2) direct_interface_exact [OF assms(1)] in \<open>auto simp: list_all_iff valid_pointer_iff\<close>)
  moreover have "(\<exists>p \<in> set ps. meets h goal decl (the p)) \<longleftrightarrow> (\<exists>a. Some a \<in> set ps \<and> meets h goal decl a)"
    using assms(2) by (force simp: list_all_iff)
  ultimately show ?thesis by simp
qed

lemma base_interfaces_exact:
  assumes "heap_ok rank r h" and "valid_pointer h p" and "base_interfaces n h goal decl p = Some x"
  shows "x \<longleftrightarrow> (\<exists>b \<in> base_classes h p. \<exists>a. Some a \<in> set (class_interfaces b) \<and> meets h goal decl a)"
  using assms(2,3)
proof (induction n arbitrary: p)
  case 0
  then show ?case by (cases p) (simp_all add: base_classes_none)
next
  case (Suc n)
  show ?case
  proof (cases p)
    case None
    then show ?thesis using Suc.prems(2) by (simp add: base_classes_none)
  next
    case (Some a)
    then have len: "a < length h" using Suc.prems(1) by (simp add: valid_pointer_iff)
    show ?thesis
    proof (cases "type_kind (h ! a) = Kind_Class")
      case True
      obtain c where c: "class_cast (h ! a) = Some c" "class_baseClass c = None \<or> goes_down rank h a (class_baseClass c)"
        "list_all (\<lambda>p. p \<noteq> None \<and> valid_pointer h p) (class_interfaces c)"
        using class_facts [OF heap_ok_type [OF assms(1) len] True] by blast
      note unfold = base_classes_unfold [OF Some len True c(1)]
      note own = interfaces_exact [OF assms(1) c(3), of goal decl]
      show ?thesis
      proof (cases "\<exists>a. Some a \<in> set (class_interfaces c) \<and> meets h goal decl a")
        case hit: True
        then show ?thesis using Suc.prems(2) True own by (simp add: Some deref_valid [OF len] c(1) unfold [unfolded Some])
      next
        case False
        then have "base_interfaces n h goal decl (class_baseClass c) = Some x"
          using Suc.prems(2) True own by (simp add: Some deref_valid [OF len] c(1) split: if_splits)
        from Suc.IH [OF base_valid [OF c(2)] this] False show ?thesis unfolding unfold by blast
      qed
    next
      case False
      then show ?thesis using Suc.prems(2) base_classes_other [OF Some False]
        by (simp add: Some deref_valid [OF len])
    qed
  qed
qed

lemma goal_found_rev [simp]: "goal_found r h goal decl (rev ps) = goal_found r h goal decl ps"
  by (simp add: goal_found_def)

lemma class_to_interface_test:
  assumes h: "heap_ok rank r h" and "type_ok rank h a" and "type_ok rank h b"
    and "type_kind (h ! a) = Kind_Interface" and "type_kind (h ! b) = Kind_Class"
    and "interface_cast (h ! a) = Some i" and "class_cast (h ! b) = Some c"
  shows "test_class_to_interface r h (h ! a) (h ! b)
    = Some (if known_by r h c (h ! a) (interface_astDeclaration i) then Return True else Go_on)"
proof -
  obtain d where d: "class_cast (h ! b) = Some d" "class_baseClass d = None \<or> goes_down rank h b (class_baseClass d)"
    "list_all (\<lambda>p. p \<noteq> None \<and> valid_pointer h p) (class_interfaces d)"
    using class_facts [OF assms(3,5)] by blast
  have cd: "d = c" using d(1) assms(7) by simp
  note c = d(2,3) [unfolded cd]
  obtain ts where ts: "listed_interfaces r h c = Some ts" "list_all (valid_pointer h) ts"
    using listed_interfaces_ok [OF h c(2)] by blast
  have search: "interface_search (Some r) h (h ! a) (interface_astDeclaration i) (rev ts) []
      = Some (goal_found (Some r) h (h ! a) (interface_astDeclaration i) ts)"
    using search_exact [of "Some r" h "rev ts" "h ! a" "interface_astDeclaration i" "[]"] heap_interfaces_ok [OF h] ts(2)
    by (simp add: explored_def)
  obtain x where x: "base_interfaces (Suc (length h)) h (h ! a) (interface_astDeclaration i) (class_baseClass c) = Some x"
    using answered_base_interfaces [OF h base_valid [OF c(1)] lower_fuel [OF base_valid [OF c(1)]]]
    unfolding answered_def by blast
  note base = base_interfaces_exact [OF h base_valid [OF c(1)] x]
  show ?thesis
    using assms(4-7) ts(1) search x base
    by (simp add: test_class_to_interface_def known_by_def and_then_def when_true_def)
qed

text \<open>
  C8. A class is assignable to an interface exactly when it is known by it: through the parents of the interfaces
  that it, or the class registered under the name of its declaration, lists, or because a base class lists that very interface.
\<close>

theorem class_to_interface_exact:
  assumes "heap_ok rank r h" and "a < length h" and "b < length h"
    and "type_kind (h ! a) = Kind_Interface" and "type_kind (h ! b) = Kind_Class"
    and "interface_cast (h ! a) = Some i" and "class_cast (h ! b) = Some c"
    and "\<not> isVoid (h ! a)" and "\<not> isNumeric (h ! a)"
  shows "isAssignable (Suc n) r h (Some a) (Some b) = Some (known_by r h c (h ! a) (interface_astDeclaration i))"
proof -
  note t = class_to_interface_test [OF assms(1) heap_ok_type [OF assms(1,2)] heap_ok_type [OF assms(1,3)] assms(4-7)]
  show ?thesis
    using assms(4,5,8,9) t
    by (simp add: deref_valid [OF assms(2)] deref_valid [OF assms(3)] all_tests_def verdict_value_def and_then_def
        test_identity_def isError_def Type_equals_def test_generics_def test_interface_to_class_def test_interfaces_def
        test_direct_base_def test_numbers_def Let_def isNumeric_def isIntegral_def isFloatingPoint_def test_optional_def
        test_bases_def test_wrappers_def isPrimitive_def test_meta_def test_union_def test_callable_def)
qed

section \<open>Examples\<close>

text \<open>A heap with an interface, one that extends it, a class that implements the second, and a class derived from that.\<close>

definition the_registry :: Registry where
  "the_registry = fst (new_Registry [])"

definition interface_named :: "string \<Rightarrow> type_pointer list \<Rightarrow> Type" where
  "interface_named n ps =
     (let t = new_InterfaceType n; i = interface_of (details t) in t\<lparr>details := Interface_details (i\<lparr>parentInterfaces := ps\<rparr>)\<rparr>)"

definition class_named :: "string \<Rightarrow> type_pointer \<Rightarrow> type_pointer list \<Rightarrow> Type" where
  "class_named n b is =
     (let t = new_ClassType n; c = class_of (details t)
      in t\<lparr>details := Class_details (c\<lparr>class_baseClass := b, class_interfaces := is\<rparr>)\<rparr>)"

definition shapes :: type_heap where
  "shapes = snd (new_Registry []) @
     [interface_named ''Shape'' [], interface_named ''Solid'' [Some 16], class_named ''Body'' None [Some 17],
      class_named ''Cube'' (Some 18) []]"

lemma shapes_ok: "heap_ok id the_registry shapes"
  by code_simp


theorem class_to_interface_exact_witness:
  "isAssignable 1 the_registry shapes (Some 16) (Some 18) = Some True \<and>
   known_by the_registry shapes (class_of (details (shapes ! 18))) (shapes ! 16) None"
proof -
  have "isAssignable (Suc 0) the_registry shapes (Some 16) (Some 18)
      = Some (known_by the_registry shapes (class_of (details (shapes ! 18))) (shapes ! 16)
          (interface_astDeclaration (interface_of (details (shapes ! 16)))))"
    by (rule class_to_interface_exact [OF shapes_ok]) code_simp+
  moreover have "isAssignable (Suc 0) the_registry shapes (Some 16) (Some 18) = Some True" by code_simp
  moreover have "interface_astDeclaration (interface_of (details (shapes ! 16))) = None" by code_simp
  ultimately show ?thesis by simp
qed


text \<open>
  Numbers convert into one another in every direction, whatever their width and sign: assigning to a
  narrower type is accepted too.
\<close>

lemma numbers_assignable:
  assumes "a < length h" and "b < length h" and "isNumeric (h ! a)" and "isNumeric (h ! b)"
    and "type_kind (h ! a) \<notin> {Kind_Class, Kind_Interface}" 
  shows "isAssignable (Suc n) r h (Some a) (Some b) = Some True"
  using assms
  by (auto simp: deref_valid all_tests_def verdict_value_def and_then_def test_identity_def test_generics_def
      test_class_to_interface_def test_interface_to_class_def test_interfaces_def test_direct_base_def test_numbers_def
      Let_def isNumeric_def isIntegral_def isFloatingPoint_def)

lemma numbers_assignable_example:
  "isAssignable 1 the_registry (snd (new_Registry [])) (integer8Type the_registry) (float64Type the_registry) = Some True"
proof -
  have "isAssignable (Suc 0) the_registry (snd (new_Registry [])) (Some 8) (Some 4) = Some True"
    by (rule numbers_assignable) code_simp+
  moreover have "integer8Type the_registry = Some 8" "float64Type the_registry = Some 4" by code_simp+
  ultimately show ?thesis by simp
qed

lemma equal_types_assignable:
  "a < length h \<Longrightarrow> b < length h \<Longrightarrow> Type_equals (h ! a) (h ! b) \<Longrightarrow> isAssignable (Suc n) r h (Some a) (Some b) = Some True"
  by (simp add: deref_valid all_tests_def verdict_value_def and_then_def test_identity_def)

lemma allocated_assignable:
  "Type_equals t u \<Longrightarrow> isAssignable (Suc n) r (h @ [t, u]) (Some (length h)) (Some (Suc (length h))) = Some True"
  by (rule equal_types_assignable) (simp_all add: nth_append)

lemma callable_made:
  "makeCallable k e es h = Some (p, h1) \<Longrightarrow>
     \<exists>t. type_kind t = Kind_Callable \<and> type_qualified t = ''Callable'' \<and> p = Some (length h) \<and> h1 = h @ [t]"
  by (auto simp: makeCallable_def new_CallableType_def allocate_type_def new_Type_def bind_eq_Some_conv)

lemma callables_assignable:
  assumes "makeCallable k e es h = Some (p, h1)" and "makeCallable k e' es' h1 = Some (q, h2)"
  shows "isAssignable (Suc n) r h2 p q = Some True"
proof -
  obtain t where t: "type_kind t = Kind_Callable" "type_qualified t = ''Callable''" "p = Some (length h)" "h1 = h @ [t]"
    using callable_made [OF assms(1)] by blast
  obtain u where u: "type_kind u = Kind_Callable" "type_qualified u = ''Callable''" "q = Some (length h1)" "h2 = h1 @ [u]"
    using callable_made [OF assms(2)] by blast
  have "Type_equals t u" using t(1,2) u(1,2) by (simp add: Type_equals_def)
  from allocated_assignable [OF this, of n r h] show ?thesis using t(3,4) u(3,4) by simp
qed

text \<open>
  Types that are built from others and get no name are all assignable to one another: an array to an
  array of anything, and the same for tuples, functions, pointers and references; callables too, because they
  share the qualified name that the constructor of the base class gave them.
\<close>

lemma structure_ignored:
  "(let (p, h1) = makeArray e m h; (q, h2) = makeArray e' m' h1 in isAssignable (Suc n) r h2 p q = Some True)
   \<and> (let (p, h1) = makeTuple es h; (q, h2) = makeTuple es' h1 in isAssignable (Suc n) r h2 p q = Some True)
   \<and> (let (p, h1) = makeFunction es e v h; (q, h2) = makeFunction es' e' v' h1 in isAssignable (Suc n) r h2 p q = Some True)
   \<and> (let (p, h1) = makePointer e v h; (q, h2) = makePointer e' v' h1 in isAssignable (Suc n) r h2 p q = Some True)
   \<and> (let (p, h1) = makeReference e v h; (q, h2) = makeReference e' v' h1 in isAssignable (Suc n) r h2 p q = Some True)
   \<and> (case makeCallable k e es h of
        None \<Rightarrow> True
      | Some (p, h1) \<Rightarrow>
          (case makeCallable k e' es' h1 of None \<Rightarrow> True | Some (q, h2) \<Rightarrow> isAssignable (Suc n) r h2 p q = Some True))"
proof -
  note makers = makeArray_def makeTuple_def makeFunction_def makePointer_def makeReference_def
    new_ArrayType_def new_TupleType_def new_FunctionType_def new_PointerType_def new_ReferenceType_def
    allocate_type_def new_Type_def
  have "case makeCallable k e es h of
        None \<Rightarrow> True
      | Some (p, h1) \<Rightarrow>
          (case makeCallable k e' es' h1 of None \<Rightarrow> True | Some (q, h2) \<Rightarrow> isAssignable (Suc n) r h2 p q = Some True)"
    using callables_assignable by (auto split: option.split simp del: isAssignable.simps)
  then show ?thesis
    by (intro conjI) (auto simp: makers allocated_assignable Type_equals_def simp del: isAssignable.simps)
qed

definition with_functions :: type_heap where
  "with_functions = shapes @
     [new_FunctionType [Some 19] (Some 15) False, the (new_CallableType 2 shapes (Some 15) [Some 18]),
      new_FunctionType [Some 18] (Some 15) False, the (new_CallableType 2 shapes (Some 15) [Some 19])]"

text \<open>
  The parameters of a function are compared in the wrong direction: a function that demands a derived class is
  assignable to a callable that is called with the base class, and the safe converse is refused.
\<close>

lemma callable_parameters_covariant:
  "isAssignable 3 the_registry with_functions (Some 21) (Some 20) = Some True
   \<and> isAssignable 3 the_registry with_functions (Some 23) (Some 22) = Some False"
  by code_simp

end
