(* ===== verification/ScopeLaws.thy ===== *)
theory ScopeLaws
  imports Scope TypeLaws
begin

text \<open>
  What the scopes mean: a scope pointer stands for an environment, the list of the frames from its scope outwards, and the
  operations of \<open>Scope\<close> are those of environments (\<open>scope_refines\<close>). What is defined between a \<^verbatim>\<open>pushScope\<close>
  and its \<^verbatim>\<open>popScope\<close> is gone afterwards (\<open>block_scoped\<close>), which holds for every stack of views: the locale \<open>environment\<close>.
\<close>

section \<open>Stacks of views\<close>

text \<open>What is done between entering a scope and leaving it: bindings and inner scopes.\<close>

datatype (plugins only: code size) ('b, 'k) action = Bind 'b | Within 'k "('b, 'k) action list"

fun run_action :: "('k \<Rightarrow> 's \<Rightarrow> 's) \<Rightarrow> ('s \<Rightarrow> 's) \<Rightarrow> ('b \<Rightarrow> 's \<Rightarrow> 's option) \<Rightarrow> ('b, 'k) action \<Rightarrow> 's \<Rightarrow> 's option"
  and run_actions :: "('k \<Rightarrow> 's \<Rightarrow> 's) \<Rightarrow> ('s \<Rightarrow> 's) \<Rightarrow> ('b \<Rightarrow> 's \<Rightarrow> 's option) \<Rightarrow> ('b, 'k) action list \<Rightarrow> 's \<Rightarrow> 's option" where
  "run_action enter leave bind (Bind b) s = bind b s"
| "run_action enter leave bind (Within k as) s = map_option leave (run_actions enter leave bind as (enter k s))"
| "run_actions enter leave bind [] s = Some s"
| "run_actions enter leave bind (a # as) s =
     Option.bind (run_action enter leave bind a s) (run_actions enter leave bind as)"

lemma action_list_induct [case_names Bind Within Nil Cons]:
  assumes "\<And>b. P (Bind b)" and "\<And>k as. Q as \<Longrightarrow> P (Within k as)" and "Q []"
    and "\<And>a as. P a \<Longrightarrow> Q as \<Longrightarrow> Q (a # as)"
  shows "P a" and "Q as"
proof -
  have all: "(\<And>a. a \<in> set as \<Longrightarrow> P a) \<Longrightarrow> Q as" for as
    by (induction as) (auto intro: assms)
  show "P a" for a
    by (induction a) (auto intro: assms all)
  then show "Q as" using all by blast
qed

locale environment =
  fixes ok :: "'s \<Rightarrow> bool"
    and views :: "'s \<Rightarrow> 'v list"
    and enter :: "'k \<Rightarrow> 's \<Rightarrow> 's"
    and leave :: "'s \<Rightarrow> 's"
    and bind :: "'b \<Rightarrow> 's \<Rightarrow> 's option"
  assumes views_nonempty: "ok s \<Longrightarrow> views s \<noteq> []"
    and enter_ok: "ok s \<Longrightarrow> ok (enter k s)"
    and enter_views: "ok s \<Longrightarrow> tl (views (enter k s)) = views s"
    and leave_ok: "ok s \<Longrightarrow> ok (leave s)"
    and leave_views: "ok s \<Longrightarrow> tl (views s) \<noteq> [] \<Longrightarrow> views (leave s) = tl (views s)"
    and bind_ok: "ok s \<Longrightarrow> bind b s = Some t \<Longrightarrow> ok t"
    and bind_views: "ok s \<Longrightarrow> bind b s = Some t \<Longrightarrow> tl (views t) = tl (views s)"
begin

lemma run_keeps:
  "ok s \<Longrightarrow> run_action enter leave bind a s = Some t \<Longrightarrow> ok t \<and> tl (views t) = tl (views s)"
  "ok s \<Longrightarrow> run_actions enter leave bind as s = Some t \<Longrightarrow> ok t \<and> tl (views t) = tl (views s)"
proof (induction a and as arbitrary: s t and s t rule: action_list_induct)
  case (Within k as)
  from Within.prems obtain u where u: "run_actions enter leave bind as (enter k s) = Some u" "t = leave u" by auto
  have "ok u \<and> tl (views u) = views s"
    using Within.IH [OF enter_ok u(1)] enter_views Within.prems(1) by auto
  then show ?case using u(2) leave_ok leave_views views_nonempty [OF Within.prems(1)] by simp
next
  case (Cons a as)
  from Cons.prems(2) obtain u where u: "run_action enter leave bind a s = Some u" "run_actions enter leave bind as u = Some t"
    by (auto split: Option.bind_split_asm)
  show ?case using Cons.IH(1) [OF Cons.prems(1) u(1)] Cons.IH(2) [OF _ u(2)] by simp
next
  case (Bind b)
  then show ?case using bind_ok bind_views by simp
qed simp

lemma block_restores:
  assumes "ok s" and "run_action enter leave bind (Within k as) s = Some t"
  shows "ok t" and "views t = views s"
proof -
  from assms(2) obtain u where u: "run_actions enter leave bind as (enter k s) = Some u" "t = leave u" by auto
  have "ok u \<and> tl (views u) = views s"
    using run_keeps(2) [OF enter_ok u(1)] enter_views assms(1) by auto
  then show "ok t" "views t = views s"
    using u(2) leave_ok leave_views views_nonempty [OF assms(1)] by simp_all
qed

end

section \<open>Scopes as environments\<close>

type_synonym frame = "Scope_Kind \<times> (string \<Rightarrow> nat list)"

definition frame :: "Scope \<Rightarrow> frame" where
  "frame s = (scope_kind s, \<lambda>n. lookupAllLocal n s)"

function chain :: "Scope list \<Rightarrow> nat \<Rightarrow> Scope list" where
  "chain ss i =
     ss ! i # (case parentT (ss ! i) of None \<Rightarrow> [] | Some j \<Rightarrow> if j < i then chain ss j else [])"
  by pat_completeness auto
termination by (relation "measure snd") auto

declare chain.simps [simp del]

definition environment_at :: "Scope list \<Rightarrow> nat \<Rightarrow> frame list" where
  "environment_at ss i = map frame (chain ss i)"

text \<open>The operations of environments.\<close>

fun env_lookup :: "frame list \<Rightarrow> string \<Rightarrow> nat list" where
  "env_lookup [] n = []"
| "env_lookup ((k, m) # fs) n = (if m n = [] then env_lookup fs n else m n)"

definition env_inside :: "Scope_Kind set \<Rightarrow> frame list \<Rightarrow> bool" where
  "env_inside ks fs = list_ex (\<lambda>(k, m). k \<in> ks) fs"

fun env_update :: "string \<Rightarrow> nat list \<Rightarrow> frame list \<Rightarrow> frame list" where
  "env_update n ps [] = []"
| "env_update n ps ((k, m) # fs) = (k, m(n := ps)) # fs"

definition scope_ok :: "Scope \<Rightarrow> bool" where
  "scope_ok s \<longleftrightarrow> distinct (map fst (symbolsT s)) \<and> list_all (\<lambda>(n, ps). ps \<noteq> []) (symbolsT s)"

definition analyzer_ok :: "Analyzer \<Rightarrow> bool" where
  "analyzer_ok a \<longleftrightarrow>
     currentScope a < length (scopes a) \<and> list_all scope_ok (scopes a)
     \<and> list_all (\<lambda>i. case parentT (scopes a ! i) of None \<Rightarrow> True | Some j \<Rightarrow> j < i) [0..<length (scopes a)]"

lemma analyzer_okD:
  assumes "analyzer_ok a"
  shows "currentScope a < length (scopes a)" and "s \<in> set (scopes a) \<Longrightarrow> scope_ok s"
    and "i < length (scopes a) \<Longrightarrow> parentT (scopes a ! i) = Some j \<Longrightarrow> j < i"
  using assms by (auto simp: analyzer_ok_def list_all_iff split: option.splits)

fun first_answer :: "(Scope \<Rightarrow> 'a option) \<Rightarrow> 'a \<Rightarrow> Scope list \<Rightarrow> 'a" where
  "first_answer f d [] = d"
| "first_answer f d (s # ss) = (case f s of Some x \<Rightarrow> x | None \<Rightarrow> first_answer f d ss)"

lemma ascend_chain: "ascend f d ss i = first_answer f d (chain ss i)"
proof (induction i rule: less_induct)
  case (less i)
  then show ?case
    by (subst ascend.simps, subst chain.simps) (auto split: option.splits)
qed

lemma chain_below:
  assumes "i < length ss" and "\<And>k. k \<le> i \<Longrightarrow> ts ! k = ss ! k"
  shows "chain ts i = chain ss i"
  using assms
proof (induction i rule: less_induct)
  case (less i)
  then show ?case
    by (subst (1 2) chain.simps) (auto split: option.splits)
qed

lemma chain_members:
  "i < length ss \<Longrightarrow> set (chain ss i) \<subseteq> set ss"
proof (induction i rule: less_induct)
  case (less i)
  then show ?case
    by (subst chain.simps) (auto split: option.splits)
qed

lemma scope_ok_nonempty: "scope_ok s \<Longrightarrow> map_of (symbolsT s) n = Some ps \<Longrightarrow> ps \<noteq> []"
  by (auto simp: scope_ok_def list_all_iff dest!: map_of_SomeD)

lemma lookupAll_frames:
  "\<forall>s \<in> set ss. scope_ok s \<Longrightarrow> first_answer (\<lambda>s. map_of (symbolsT s) n) [] ss = env_lookup (map frame ss) n"
  by (induction ss) (auto simp: frame_def lookupAllLocal_def dest: scope_ok_nonempty split: option.splits)

lemma lookup_frames:
  "\<forall>s \<in> set ss. scope_ok s \<Longrightarrow>
     first_answer (\<lambda>s. map_option Some (lookupLocal n s)) None ss =
     (case env_lookup (map frame ss) n of [] \<Rightarrow> None | p # _ \<Rightarrow> Some p)"
  by (induction ss) (auto simp: frame_def lookupAllLocal_def lookupLocal_def dest: scope_ok_nonempty split: option.splits list.splits)

lemma inside_frames:
  "first_answer (\<lambda>s. if scope_kind s \<in> ks then Some True else None) False ss = env_inside ks (map frame ss)"
  by (induction ss) (auto simp: frame_def env_inside_def)

lemma overload_loop_nonempty: "overload_loop n h symbols p s es = Some (b, ps) \<Longrightarrow> ps \<noteq> []"
  by (induction es arbitrary: b ps) (auto split: if_splits Option.bind_split_asm)

lemma overloads_nonempty:
  "overloads n h symbols p e = Some (b, ps) \<Longrightarrow> (\<And>es. e = Some es \<Longrightarrow> es \<noteq> []) \<Longrightarrow> ps \<noteq> []"
  by (auto simp: overloads_def dest: overload_loop_nonempty split: if_splits option.splits)

lemma update_members: "(k, x) \<in> set (AList.update n v xs) \<Longrightarrow> (k, x) \<in> set xs \<or> x = v"
  by (induction xs) (auto split: if_splits)

lemma define_symbol_scope:
  assumes "scope_ok s" and "define_symbol n h symbols name p s = Some (b, t)"
  shows "scope_ok t" and "scope_kind t = scope_kind s" and "parentT t = parentT s"
    and "\<exists>es. overloads n h symbols p (map_of (symbolsT s) name) = Some (b, es)
           \<and> lookupAllLocal m t = (if m = name then es else lookupAllLocal m s)"
proof -
  obtain es where o: "overloads n h symbols p (map_of (symbolsT s) name) = Some (b, es)"
    and t: "t = s\<lparr>symbolsT := AList.update name es (symbolsT s)\<rparr>"
    using assms(2) by (auto simp: define_symbol_def split: Option.bind_split_asm)
  have ne: "es \<noteq> []" using overloads_nonempty [OF o] scope_ok_nonempty [OF assms(1)] by blast
  show "scope_ok t"
    using assms(1) ne unfolding t scope_ok_def
    by (auto simp: list_all_iff distinct_update dest: update_members)
  show "scope_kind t = scope_kind s" "parentT t = parentT s" using t by simp_all
  show "\<exists>es. overloads n h symbols p (map_of (symbolsT s) name) = Some (b, es)
      \<and> lookupAllLocal m t = (if m = name then es else lookupAllLocal m s)"
    using o t by (auto simp: lookupAllLocal_def update_conv')
qed

section \<open>The operations of the analyser on environments\<close>

definition environment_of :: "Analyzer \<Rightarrow> frame list" where
  "environment_of a = environment_at (scopes a) (currentScope a)"

lemma environment_of_not_Nil [simp]: "environment_of a \<noteq> []"
  by (simp add: environment_of_def environment_at_def) (subst chain.simps, simp)

lemma hd_environment: "hd (environment_of a) = frame (scopes a ! currentScope a)"
  by (simp add: environment_of_def environment_at_def) (subst chain.simps, simp)

lemma environment_parent:
  assumes "analyzer_ok a"
  shows "tl (environment_of a) =
    (case parentT (scopes a ! currentScope a) of None \<Rightarrow> [] | Some j \<Rightarrow> environment_at (scopes a) j)"
  using analyzer_okD(1,3) [OF assms]
  by (simp add: environment_of_def environment_at_def) (subst chain.simps, simp add: environment_at_def split: option.splits)

lemma environment_at_not_Nil [simp]: "environment_at ss j \<noteq> []"
  by (simp add: environment_at_def) (subst chain.simps, simp)

lemma push_environment:
  assumes "analyzer_ok a"
  shows "environment_of (pushScope k a) = (k, \<lambda>_. []) # environment_of a" and "analyzer_ok (pushScope k a)"
proof -
  let ?ss = "scopes a @ [new_Scope k (Some (currentScope a))]"
  have i: "currentScope a < length (scopes a)" using analyzer_okD(1) [OF assms] .
  have "chain ?ss (currentScope a) = chain (scopes a) (currentScope a)"
    using i by (intro chain_below) (simp_all add: nth_append)
  then show "environment_of (pushScope k a) = (k, \<lambda>_. []) # environment_of a"
    using i by (simp add: environment_of_def environment_at_def pushScope_def, subst chain.simps)
      (simp add: new_Scope_def frame_def lookupAllLocal_def)
  show "analyzer_ok (pushScope k a)"
    using assms i
    by (auto simp: analyzer_ok_def pushScope_def new_Scope_def scope_ok_def list_all_iff nth_append split: option.splits)
qed

lemma pop_environment:
  assumes "analyzer_ok a"
  shows "environment_of (popScope a) = (if tl (environment_of a) = [] then environment_of a else tl (environment_of a))"
    and "analyzer_ok (popScope a)"
proof -
  show "environment_of (popScope a) = (if tl (environment_of a) = [] then environment_of a else tl (environment_of a))"
    using environment_parent [OF assms] by (auto simp: popScope_def environment_of_def split: option.splits)
  show "analyzer_ok (popScope a)"
    using assms analyzer_okD(1,3) [OF assms] by (fastforce simp: popScope_def analyzer_ok_def split: option.splits)
qed

lemma define_environment:
  assumes "analyzer_ok a" and "define_here N h symbols d a = Some b"
  shows "\<exists>r es. overloads N h symbols (snd d) (map_of (symbolsT (scopes a ! currentScope a)) (fst d)) = Some (r, es)
      \<and> environment_of b = env_update (fst d) es (environment_of a)" and "analyzer_ok b"
proof -
  let ?i = "currentScope a"
  note ok = analyzer_okD [OF assms(1)]
  obtain r s where d: "define_symbol N h symbols (fst d) (snd d) (scopes a ! ?i) = Some (r, s)"
    and b: "b = a\<lparr>scopes := (scopes a)[?i := s]\<rparr>"
    using assms(2) by (auto simp: define_here_def split: Option.bind_split_asm)
  have si: "scope_ok (scopes a ! ?i)" using ok by simp
  note ds = define_symbol_scope [OF si d]
  obtain es where o: "overloads N h symbols (snd d) (map_of (symbolsT (scopes a ! ?i)) (fst d)) = Some (r, es)"
    using ds(4) by blast
  then have l: "lookupAllLocal m s = (if m = fst d then es else lookupAllLocal m (scopes a ! ?i))" for m
    using ds(4) [of m] by auto
  have ch: "chain ((scopes a)[?i := s]) j = chain (scopes a) j" if "j < ?i" for j
    using that ok(1) by (intro chain_below) auto
  have "environment_of b = env_update (fst d) es (environment_of a)"
    using ok(1) ds(2,3) l ch unfolding b
    by (simp add: environment_of_def environment_at_def, subst (1 2) chain.simps)
      (auto simp: frame_def fun_eq_iff split: option.splits)
  then show "\<exists>r es. overloads N h symbols (snd d) (map_of (symbolsT (scopes a ! ?i)) (fst d)) = Some (r, es)
      \<and> environment_of b = env_update (fst d) es (environment_of a)" using o by blast
  have p: "parentT ((scopes a)[?i := s] ! i) = parentT (scopes a ! i)" for i
    using ok(1) ds(3) by (cases "i = ?i") auto
  show "analyzer_ok b"
    using assms(1) ds(1) unfolding b analyzer_ok_def
    by (auto simp: p list_all_iff dest!: set_update_subset_insert [THEN subsetD])
qed

lemma searches_environment:
  assumes "analyzer_ok a"
  shows "lookupAll (scopes a) (currentScope a) n = env_lookup (environment_of a) n"
    and "lookup (scopes a) (currentScope a) n = (case env_lookup (environment_of a) n of [] \<Rightarrow> None | p # _ \<Rightarrow> Some p)"
    and "inside ks (scopes a) (currentScope a) = env_inside ks (environment_of a)"
proof -
  have all: "\<forall>s \<in> set (chain (scopes a) (currentScope a)). scope_ok s"
    using chain_members analyzer_okD [OF assms] by blast
  note env = environment_of_def environment_at_def ascend_chain
  show "lookupAll (scopes a) (currentScope a) n = env_lookup (environment_of a) n"
    by (simp add: lookupAll_def lookupAll_frames [OF all] env)
  show "lookup (scopes a) (currentScope a) n = (case env_lookup (environment_of a) n of [] \<Rightarrow> None | p # _ \<Rightarrow> Some p)"
    by (simp add: lookup_def lookup_frames [OF all] env)
  show "inside ks (scopes a) (currentScope a) = env_inside ks (environment_of a)"
    by (simp add: inside_def inside_frames env)
qed

text \<open>
  C10. The scopes implement environments. For the current scope of the analyser the searches, the tests of what
  encloses it, \<^verbatim>\<open>pushScope\<close>, \<^verbatim>\<open>popScope\<close> and \<^verbatim>\<open>define\<close> are the operations of the list of frames: a search returns the
  overload set of the innermost frame that has one, a definition changes one set of the innermost frame and nothing else,
  and every operation keeps the scopes well formed.
\<close>

theorem scope_refines:
  assumes "analyzer_ok a"
  shows "lookupAll (scopes a) (currentScope a) n = env_lookup (environment_of a) n
    \<and> lookup (scopes a) (currentScope a) n = (case env_lookup (environment_of a) n of [] \<Rightarrow> None | p # _ \<Rightarrow> Some p)
    \<and> inside ks (scopes a) (currentScope a) = env_inside ks (environment_of a)
    \<and> environment_of (pushScope k a) = (k, \<lambda>_. []) # environment_of a
    \<and> environment_of (popScope a) = (if tl (environment_of a) = [] then environment_of a else tl (environment_of a))
    \<and> map_option environment_of (define_here N h symbols (n, p) a) =
        map_option (\<lambda>(_, es). env_update n es (environment_of a))
          (overloads N h symbols p (case snd (hd (environment_of a)) n of [] \<Rightarrow> None | es \<Rightarrow> Some es))
    \<and> analyzer_ok (pushScope k a) \<and> analyzer_ok (popScope a)
    \<and> (case define_here N h symbols (n, p) a of None \<Rightarrow> True | Some b \<Rightarrow> analyzer_ok b)"
proof -
  let ?s = "scopes a ! currentScope a"
  note ok = analyzer_okD [OF assms]
  have "scope_ok ?s" using ok by simp
  then have set: "(case snd (hd (environment_of a)) n of [] \<Rightarrow> None | es \<Rightarrow> Some es) = map_of (symbolsT ?s) n"
    using scope_ok_nonempty [of ?s n] by (auto simp: hd_environment frame_def lookupAllLocal_def split: option.splits list.splits)
  have d: "map_option environment_of (define_here N h symbols (n, p) a) =
      map_option (\<lambda>(_, es). env_update n es (environment_of a)) (overloads N h symbols p (map_of (symbolsT ?s) n))"
  proof (cases "define_here N h symbols (n, p) a")
    case None
    then show ?thesis by (auto simp: define_here_def define_symbol_def split: Option.bind_split_asm)
  next
    case (Some b)
    then show ?thesis using define_environment(1) [OF assms Some] by auto
  qed
  have "case define_here N h symbols (n, p) a of None \<Rightarrow> True | Some b \<Rightarrow> analyzer_ok b"
    using define_environment(2) [OF assms] by (simp split: option.split)
  then show ?thesis
    using searches_environment [OF assms] push_environment [OF assms] pop_environment [OF assms] d unfolding set by blast
qed

definition example_symbols :: "Symbol list" where
  "example_symbols = [new_Symbol ''x'' Symbol_Variable None None, new_Symbol ''f'' Symbol_Function None None]"

definition example_analyzer :: Analyzer where
  "example_analyzer = the (define_here 1 [] example_symbols (''x'', 0) (new_Analyzer Engine_default))"

lemma example_analyzer_ok: "analyzer_ok example_analyzer"
  by code_simp

theorem scope_refines_witness:
  "lookup (scopes example_analyzer) (currentScope example_analyzer) ''x'' = Some 0
   \<and> environment_of (popScope example_analyzer) = environment_of example_analyzer"
proof -
  have "tl (environment_of example_analyzer) = []" by code_simp
  moreover have "env_lookup (environment_of example_analyzer) ''x'' = [0]" by code_simp
  ultimately show ?thesis
    using scope_refines [OF example_analyzer_ok, of "''x''" "{}" Scope_Block 1 "[]" example_symbols 0] by simp
qed

section \<open>What is defined in a scope is gone after it\<close>

interpretation analyser_scopes:
  environment analyzer_ok environment_of pushScope popScope "define_here N h symbols" for N h symbols
proof unfold_locales
  show "tl (environment_of t) = tl (environment_of s)" if "analyzer_ok s" "define_here N h symbols b s = Some t" for s t b
    using define_environment(1) [OF that] by (cases "environment_of s") auto
qed (auto simp: push_environment pop_environment dest: define_environment(2))

text \<open>
  C15. Scopes are lexical. Whatever symbols and inner scopes are defined between a \<^verbatim>\<open>pushScope\<close> and its \<^verbatim>\<open>popScope\<close>,
  afterwards every search and every test of what encloses the current scope answers as before.
\<close>

theorem block_scoped:
  assumes "analyzer_ok a"
    and "run_action pushScope popScope (define_here N h symbols) (Within k as) a = Some b"
  shows "lookup (scopes b) (currentScope b) n = lookup (scopes a) (currentScope a) n
    \<and> lookupAll (scopes b) (currentScope b) n = lookupAll (scopes a) (currentScope a) n
    \<and> inside ks (scopes b) (currentScope b) = inside ks (scopes a) (currentScope a)
    \<and> analyzer_ok b"
proof -
  note r = analyser_scopes.block_restores [OF assms]
  show ?thesis
    using r by (simp add: searches_environment [OF assms(1)] searches_environment [OF r(1)])
qed

theorem block_scoped_witness:
  "\<exists>b. run_action pushScope popScope (define_here 1 [] example_symbols)
      (Within Scope_Block [Bind (''x'', 0), Within Scope_Loop [Bind (''f'', 1)]]) example_analyzer = Some b
   \<and> lookup (scopes b) (currentScope b) ''f'' = None"
proof -
  let ?as = "[Bind (''x'', 0), Within Scope_Loop [Bind (''f'', 1)]]"
  have "run_action pushScope popScope (define_here 1 [] example_symbols) (Within Scope_Block ?as) example_analyzer \<noteq> None"
    by code_simp
  then obtain b where b: "run_action pushScope popScope (define_here 1 [] example_symbols) (Within Scope_Block ?as)
      example_analyzer = Some b" by blast
  have "lookup (scopes example_analyzer) (currentScope example_analyzer) ''f'' = None" by code_simp
  then have "lookup (scopes b) (currentScope b) ''f'' = None"
    using block_scoped [OF example_analyzer_ok b, of "''f''" "{}"] by metis
  with b show ?thesis by blast
qed

section \<open>The hierarchy of classes\<close>

text \<open>The base class that is that many steps away.\<close>

fun base_after :: "nat \<Rightarrow> type_heap \<Rightarrow> type_pointer \<Rightarrow> Type option" where
  "base_after 0 h p = base_of h p"
| "base_after (Suc k) h p = Option.bind (base_of h p) (\<lambda>t. base_after k h (base_pointer t))"

definition stops_after :: "type_heap \<Rightarrow> Type \<Rightarrow> type_pointer \<Rightarrow> nat \<Rightarrow> bool" where
  "stops_after h c p k = (case base_after k h p of None \<Rightarrow> True | Some t \<Rightarrow> Type_equals t c)"

lemma stops_after_Suc:
  "base_of h p = Some t \<Longrightarrow> stops_after h c p (Suc k) = stops_after h c (base_pointer t) k"
  by (simp add: stops_after_def)

lemma hierarchy_loop_stops: "hierarchy_loop h c p = Some b \<Longrightarrow> \<exists>k. stops_after h c p k"
proof (induction h c p b rule: hierarchy_loop.raw_induct [rotated, consumes 1, case_names step])
  case (step f h c p b)
  show ?case
  proof (cases "base_of h p")
    case None
    then have "stops_after h c p 0" by (simp add: stops_after_def)
    then show ?thesis by blast
  next
    case (Some t)
    show ?thesis
    proof (cases "Type_equals t c")
      case True
      with Some have "stops_after h c p 0" by (simp add: stops_after_def)
      then show ?thesis by blast
    next
      case False
      with step Some have "f h c (base_pointer t) = Some b" by auto
      then obtain k where "stops_after h c (base_pointer t) k" using step by blast
      with Some show ?thesis using stops_after_Suc by blast
    qed
  qed
qed

lemma hierarchy_loop_least:
  "stops_after h c p k \<Longrightarrow> (\<And>j. j < k \<Longrightarrow> \<not> stops_after h c p j) \<Longrightarrow>
     hierarchy_loop h c p = Some (base_after k h p \<noteq> None)"
proof (induction k arbitrary: p)
  case 0
  then show ?case by (subst hierarchy_loop.simps) (auto simp: stops_after_def split: option.splits)
next
  case (Suc k)
  from Suc.prems(2) [of 0] obtain t where t: "base_of h p = Some t" "\<not> Type_equals t c"
    by (auto simp: stops_after_def split: option.splits)
  have "hierarchy_loop h c (base_pointer t) = Some (base_after k h (base_pointer t) \<noteq> None)"
    using Suc.prems(1) Suc.prems(2) [of "Suc j" for j] by (intro Suc.IH) (auto simp: stops_after_Suc [OF t(1)])
  then show ?case using t by (subst hierarchy_loop.simps) simp
qed

text \<open>The loop ends exactly when the chain of base classes ends or comes to a type equal to the class, and says which.\<close>

lemma hierarchy_exact:
  "hierarchy_loop h c p =
     (if \<exists>k. stops_after h c p k then Some (base_after (LEAST k. stops_after h c p k) h p \<noteq> None) else None)"
proof (cases "\<exists>k. stops_after h c p k")
  case True
  then have "stops_after h c p (LEAST k. stops_after h c p k)" by (metis LeastI_ex)
  then have "hierarchy_loop h c p = Some (base_after (LEAST k. stops_after h c p k) h p \<noteq> None)"
    by (rule hierarchy_loop_least) (rule not_less_Least)
  with True show ?thesis by simp
next
  case False
  then show ?thesis using hierarchy_loop_stops by (cases "hierarchy_loop h c p") auto
qed

text \<open>Two classes that are each other's base class, a class derived from them, and one that is not.\<close>

definition circle :: type_heap where
  "circle = [class_named ''A'' (Some 1) [], class_named ''B'' (Some 0) [], class_named ''C'' None [],
     class_named ''D'' (Some 0) []]"

lemma circle_chain: "base_after k circle (Some 0) = Some (circle ! (k mod 2)) \<and> base_after k circle (Some 1) = Some (circle ! (Suc k mod 2))"
proof (induction k)
  case 0
  show ?case by code_simp
next
  case (Suc k)
  have "base_of circle (Some 0) = Some (circle ! 0)" "base_pointer (circle ! 0) = Some 1" by code_simp+
  then have "base_after (Suc k) circle (Some 0) = base_after k circle (Some 1)"
    by (simp only: base_after.simps bind.bind_lunit)
  moreover have "base_of circle (Some 1) = Some (circle ! 1)" "base_pointer (circle ! 1) = Some 0" by code_simp+
  then have "base_after (Suc k) circle (Some 1) = base_after k circle (Some 0)"
    by (simp only: base_after.simps bind.bind_lunit)
  moreover have "Suc (Suc k) mod 2 = k mod 2" by simp
  ultimately show ?case using Suc.IH by (simp only: simp_thms)
qed

text \<open>
  C36. Circular inheritance is not met by the check that is made for it, which nothing calls, and no question about it ends: the test
  finds the circle of \<open>A\<close> and \<open>B\<close>, but assignability from \<open>A\<close> to another class goes round for ever, whatever the depth,
  and on a class derived from the circle the test itself goes round for ever.
\<close>

theorem circular_inheritance_hangs:
  "hierarchy_loop circle (circle ! 0) (base_pointer (circle ! 0)) = Some True
   \<and> isAssignable n the_registry circle (Some 2) (Some 0) = None
   \<and> hierarchy_loop circle (circle ! 3) (base_pointer (circle ! 3)) = None"
proof -
  have facts: "base_of circle (Some 0) = Some (circle ! 0)" "base_of circle (Some 1) = Some (circle ! 1)"
    "base_pointer (circle ! 0) = Some 1" "base_pointer (circle ! 1) = Some 0" "base_pointer (circle ! 3) = Some 0"
    "Type_equals (circle ! 0) (circle ! 0)" "\<not> Type_equals (circle ! 1) (circle ! 0)"
    "\<not> Type_equals (circle ! 0) (circle ! 3)" "\<not> Type_equals (circle ! 1) (circle ! 3)"
    by code_simp+
  have "hierarchy_loop circle (circle ! 0) (base_pointer (circle ! 0)) = Some True"
    unfolding facts(3) by (subst hierarchy_loop.simps, subst hierarchy_loop.simps) (simp only: facts option.case if_True if_False)
  moreover have "isAssignable n the_registry circle (Some 2) (Some 0) = None"
    by (cases n) (simp, simp only:, code_simp)
  moreover have "\<not> stops_after circle (circle ! 3) (Some 0) k" for k
    using circle_chain [of k] facts(8,9) by (cases "even k") (simp_all add: stops_after_def even_iff_mod_2_eq_zero odd_iff_mod_2_eq_one)
  then have "hierarchy_loop circle (circle ! 3) (base_pointer (circle ! 3)) = None"
    by (simp add: facts(5) hierarchy_exact)
  ultimately show ?thesis by blast
qed

end
