(* ===== verification/Ast.thy ===== *)
theory Ast
  imports Tokens TypeRef
begin

text \<open>
  The syntax tree: \<^verbatim>\<open>ast/node.hpp\<close>. A node class is a constructor, its fields are the arguments in
  the order of the class; the fields of the base class of all expressions are selectors of \<open>expression\<close>. A pointer the compiler
  tests against null is an option, a pointer it follows without a test is the node itself. Trees are values: a field
  that a pass sets on a node it has met before is kept by that pass under the address of the node.
\<close>

text \<open>Messages put names between double quotes.\<close>

definition quote :: "string \<Rightarrow> string" where
  "quote s = [DQUOTE] @ s @ [DQUOTE]"

text \<open>A written type is a location and one of the type node classes. A shape is a node class over the types of the nodes below it.\<close>

datatype (plugins only: code size) ('e, 't) type_shape =
    ArrayTypeNode 't "'e option"
  | CallableTypeNode "'t list" 't
  | FunctionTypeNode "'t list" 't
  | GenericTypeNode string "'t list"
  | MetaTypeNode 't
  | OptionalTypeNode 't
  | PointerTypeNode 't bool
  | ReferenceTypeNode 't bool
  | SimpleTypeNode string
  | TupleTypeNode "'t list"
  | UnionTypeNode "'t list"

datatype (plugins only: code size) 'e type_node =
  Type_node (type_source: Source) (type_form: "('e, 'e type_node) type_shape")

type_synonym 'e type_form = "('e, 'e type_node) type_shape"

datatype (plugins only: code size) ComprehensionKind = Comprehension_List | Comprehension_Set | Comprehension_Map

text \<open>
  Keyword arguments are triples of a name, an expression and a location. Where the parser finds no expression or statement it leaves
  the null pointer in the node above, here \<open>NullExpression\<close> and \<open>NullStatement\<close>.
\<close>

datatype (plugins only: code size) 'e parameter_shape =
  Parameter (parameter_source: Source) (parameter_access: AccessModifier) (parameter_default: "'e option")
    (parameter_isMutable: bool) (parameter_isProperty: bool) (parameter_isReadonly: bool) (parameter_isReference: bool)
    (parameter_isSelf: bool) (parameter_isVariadic: bool) (parameter_isKeyword: bool) (parameter_name: string)
    (parameter_type: "'e type_node option")

datatype (plugins only: code size) ('e, 's) expression_shape =
    ArrayExpression "'e list"
  | AwaitExpression 'e
  | BinaryExpression 'e token_type 'e
  | BoolLiteral bool
  | CallExpression "'e list" 'e "(string \<times> 'e \<times> Source) list" "'e type_node list"
  | CastExpression 'e "'e type_node"
  | CharLiteral char
  | ComprehensionExpression ComprehensionKind 'e "'e option" "'e option" 'e string
      "'e type_node option"
  | ConstructExpression "(string \<times> 'e) list" "'e type_node option"
  | FloatLiteral string "64 word"
  | IdentifierExpression string "'e type_node list"
  | IndexExpression 'e 'e
  | InstanceofExpression 'e "'e type_node"
  | IntegerLiteral string "64 word"
  | LambdaExpression "'s list" bool "'e parameter_shape list" "'e type_node option"
  | MatchExpression "'e option" "'e list" 'e "'e list"
  | MemberAccessExpression string 'e
  | MethodCallExpression "'e list" "(string \<times> 'e \<times> Source) list" string 'e "'e type_node list"
  | NoneLiteral
  | RangeExpression 'e bool 'e
  | SelfExpression
  | RegexLiteral string
  | StringLiteral string
  | SubclassofExpression "'e type_node" "'e type_node"
  | ParentExpression
  | TupleExpression "'e list"
  | MapLiteral "('e \<times> 'e) list"
  | SetLiteral "'e list"
  | TypeReferenceExpression string
  | UnaryExpression bool "'e option" token_type
  | YieldExpression "'e option"
  | NullExpression

datatype (plugins only: code size) ('e, 's) statement_shape =
    AssignStatement token_type 'e 'e
  | BlockStatement "'s list"
  | BreakStatement
  | ContinueStatement
  | DeferStatement 's
  | DeleteStatement 'e
  | ExpressionStatement 'e
  | ForStatement "'s list" "'e option" "'e option" "'e option" bool "'s option"
      string string "'e type_node option" "'e type_node option"
  | IfStatement 'e "('e \<times> 's list) list" "'s list" "'s list"
  | InlineAssemblyStatement bool string "(string \<times> 'e) list" "(string \<times> 'e) list" "string list"
      "(string \<times> string \<times> (string \<times> 'e) list \<times> (string \<times> 'e) list \<times> string list) list"
  | MatchStatement "('s list \<times> 'e option \<times> 'e) list" 'e
  | PassStatement
  | ReturnStatement "'e option"
  | SwitchStatement "('s list \<times> bool \<times> 'e option \<times> Source) list" 'e
  | ThrowStatement "'e option"
  | TryCatchStatement "('s list \<times> 'e type_node list \<times> string \<times> Source) list" "'s list" "'s list"
  | UnsafeBlock "'s list"
  | VariableStatement nat "'e option" bool bool string "'e type_node option"
  | WhileStatement "'s list" 'e
  | NullStatement

datatype (plugins only: code size) expression =
  Expression (expression_source: Source) (semanticType: type_pointer) (expression_node: "(expression, statement) expression_shape")
and statement =
  Statement (statement_source: Source) (statement_node: "(expression, statement) statement_shape")

type_synonym expression_node = "(expression, statement) expression_shape"
type_synonym statement_node = "(expression, statement) statement_shape"
type_synonym parameter = "expression parameter_shape"

text \<open>How large the parts of a tree are, for recursion over it.\<close>

abbreviation node_weight :: "expression_node \<Rightarrow> nat" where
  "node_weight \<equiv> size_expression_shape size size"

abbreviation keywords_weight :: "(string \<times> expression \<times> Source) list \<Rightarrow> nat" where
  "keywords_weight \<equiv> size_list (size_prod (\<lambda>_. 0) (size_prod size (\<lambda>_. 0)))"

abbreviation statement_weight :: "statement_node \<Rightarrow> nat" where
  "statement_weight \<equiv> size_statement_shape size size"

abbreviation elifs_weight :: "(expression \<times> statement list) list \<Rightarrow> nat" where
  "elifs_weight \<equiv> size_list (size_prod size (size_list size))"

abbreviation clauses_weight :: "(statement list \<times> expression type_node list \<times> string \<times> Source) list \<Rightarrow> nat" where
  "clauses_weight \<equiv> size_list (size_prod (size_list size) (size_prod (size_list (size_type_node size)) (\<lambda>_. 0)))"

section \<open>Declarations\<close>

datatype (plugins only: code size) generic_parameter =
  GenericParameter (generic_source: Source) (generic_constraints: "expression type_node list")
    (generic_default: "expression type_node option") (generic_name: string)

datatype (plugins only: code size) field_declaration =
  FieldDeclaration (field_source: Source) (field_access: AccessModifier) (field_default: "expression option") (field_isFinal: bool)
    (field_isReadonly: bool) (field_isStatic: bool) (field_name: string) (field_type: "expression type_node option")

text \<open>Variants and functions hold declarations again.\<close>

datatype (plugins only: code size) 'd enum_variant =
  EnumVariant (variant_source: Source) (variant_types: "expression type_node list") (variant_backedValue: "expression option")
    (variant_discriminant: "expression option") (variant_fields: "field_declaration list") (variant_methods: "'d list")
    (variant_name: string)

datatype (plugins only: code size) 'd function_declaration =
  Function (decl_body: "statement list") (decl_genericParameters: "generic_parameter list") (decl_isAbstract: bool)
    (decl_isAsync: bool) (decl_isConst: bool) (decl_isFinal: bool) (decl_isGenerator: bool) (decl_isNative: bool)
    (decl_isOverride: bool) (decl_isProperty: bool) (decl_isStatic: bool) (decl_isVirtual: bool) (decl_name: string)
    (decl_nestedFunctions: "'d list") (decl_parameters: "parameter list") (decl_raisesTypes: "expression type_node list")
    (decl_returnType: "expression type_node option")

datatype (plugins only: code size) 'd declaration_shape =
    ClassDeclaration "expression type_node option" "field_declaration list" "generic_parameter list" "expression type_node list"
      bool bool bool bool "'d list" string "'d list" "string list"
  | EnumDeclaration "expression type_node option" "expression type_node option" "generic_parameter list"
      "expression type_node list" "'d list" string "'d enum_variant list"
  | ExternDeclaration bool string string "(string \<times> expression type_node option) list" "expression type_node option"
  | ExportDeclaration "'d option" "(string \<times> string) list"
  | FunctionDeclaration "'d function_declaration"
  | ImplementDeclaration "generic_parameter list" "expression type_node option" "'d list" "expression type_node option"
  | ImportDeclaration string bool "(string \<times> string) list" bool "string list"
  | InterfaceDeclaration "generic_parameter list" bool "'d list" string "'d list"
      "expression type_node list"
  | ModuleDeclaration string
  | StructDeclaration "field_declaration list" "generic_parameter list" "'d list" string "'d list"
      "string list"
  | TraitDeclaration "field_declaration list" "generic_parameter list" "'d list" string
  | ConstantDeclaration "expression option" bool string "expression type_node option"
  | TypeAliasDeclaration "expression type_node option" "generic_parameter list" string

datatype (plugins only: code size) declaration_tree =
  Declared (declaration_source: Source) (declaration_access: AccessModifier) (declaration_isBuiltin: bool)
    (declaration_node: "declaration_tree declaration_shape")

type_synonym declaration_node = "declaration_tree declaration_shape"

text \<open>A declaration of a program may be null.\<close>

record program =
  program_declarations :: "declaration_tree option list"
  program_exports :: "declaration_tree list"
  program_imports :: "declaration_tree list"
  program_module :: "declaration_tree option"

end
