(* ===== verification/AstBorrow.thy ===== *)
theory AstBorrow
  imports Ast
begin

text \<open>
  The ownership checker of the syntax tree: \<^verbatim>\<open>semantic/borrow.cpp\<close>, \<^verbatim>\<open>borrow.hpp\<close>. The class is a record,
  each member function is a definition that returns the new checker or the exception of the diagnostic
  engine. The tracking map is an association list, the vector of scopes a list with the innermost scope
  first. The annotations that the checker writes into variable statements are kept under the addresses of the statements. The source
  never initialises \<^verbatim>\<open>hasMutableBorrow\<close>; the value it happens to have is the field \<open>indeterminate\<close>, which nothing sets.
\<close>

section \<open>State\<close>

record BorrowInfo =
  borrowerName :: string
  borrow_isMutable :: bool
  ownerName :: string
  borrow_scopeDepth :: int
  borrow_source :: Source

datatype (plugins only: code size) VariableState = Var_Borrowed | Var_Dropped | Var_Moved | Var_MutableBorrowed | Var_Owned

record BorrowOwnershipInfo =
  activeBorrows :: "BorrowInfo list"
  arenaOwnerName :: string
  astNode :: "nat option"
  declarationSource :: Source
  hasMutableBorrow :: bool
  immutableBorrowCount :: int
  isArenaManaged :: bool
  isHeapAllocated :: bool
  info_isMutable :: bool
  info_name :: string
  info_scopeDepth :: int
  info_state :: VariableState

record OwnershipAnnotation =
  annotation_isHeapAllocated :: bool
  annotation_isArenaManaged :: bool
  annotation_isMoved :: bool
  annotation_typeName :: string

record BorrowChecker =
  currentScopeDepth :: int
  checker_diagnostic :: Engine
  isInsideLoopFlag :: bool
  isInsideUnsafeBlock :: bool
  ownershipTracking :: "(string \<times> BorrowOwnershipInfo) list"
  variableScope :: "string list list"
  ownershipAnnotations :: "(nat \<times> OwnershipAnnotation) list"
  indeterminate :: "string \<Rightarrow> bool"

type_synonym 'a run = "(diagnostic_exception \<times> BorrowChecker) + 'a"

definition new_BorrowChecker :: "Engine \<Rightarrow> (string \<Rightarrow> bool) \<Rightarrow> BorrowChecker" where
  "new_BorrowChecker e garbage =
     \<lparr>currentScopeDepth = 0, checker_diagnostic = e, isInsideLoopFlag = False, isInsideUnsafeBlock = False,
      ownershipTracking = [], variableScope = [], ownershipAnnotations = [], indeterminate = garbage\<rparr>"

definition with_engine :: "BorrowChecker \<Rightarrow> (diagnostic_exception \<times> Engine) + Engine \<Rightarrow> BorrowChecker run" where
  "with_engine c = map_sum (\<lambda>(x, e). (x, c\<lparr>checker_diagnostic := e\<rparr>)) (\<lambda>e. c\<lparr>checker_diagnostic := e\<rparr>)"

definition checker_error :: "Source \<Rightarrow> string \<Rightarrow> string \<Rightarrow> BorrowChecker \<Rightarrow> BorrowChecker run" where
  "checker_error src msg hint c = with_engine c (emit_error src msg hint (checker_diagnostic c))"

definition checker_warning :: "Source \<Rightarrow> string \<Rightarrow> BorrowChecker \<Rightarrow> BorrowChecker run" where
  "checker_warning src msg c = with_engine c (emit_warning src msg (checker_diagnostic c))"

definition tracked :: "BorrowChecker \<Rightarrow> string \<Rightarrow> BorrowOwnershipInfo option" where
  "tracked c = map_of (ownershipTracking c)"

definition track :: "string \<Rightarrow> BorrowOwnershipInfo \<Rightarrow> BorrowChecker \<Rightarrow> BorrowChecker" where
  "track n i c = c\<lparr>ownershipTracking := AList.update n i (ownershipTracking c)\<rparr>"

section \<open>Ownership operations\<close>

definition borrow_record :: "string \<Rightarrow> string \<Rightarrow> bool \<Rightarrow> Source \<Rightarrow> BorrowChecker \<Rightarrow> BorrowInfo" where
  "borrow_record owner borrower isMutable src c =
     \<lparr>borrowerName = borrower, borrow_isMutable = isMutable, ownerName = owner,
      borrow_scopeDepth = currentScopeDepth c, borrow_source = src\<rparr>"

definition borrowValue :: "string \<Rightarrow> string \<Rightarrow> bool \<Rightarrow> Source \<Rightarrow> BorrowChecker \<Rightarrow> BorrowChecker run" where
  "borrowValue owner borrower isMutable src c =
     (case tracked c owner of
        None \<Rightarrow> Inr c
      | Some i \<Rightarrow>
          let granted = i\<lparr>activeBorrows := activeBorrows i @ [borrow_record owner borrower isMutable src c],
                info_state := (if isMutable then Var_MutableBorrowed else Var_Borrowed)\<rparr>
          in if info_state i = Var_Moved then checker_error src (''cannot borrow moved value '' @ quote owner) '''' c
          else if isMutable then
            if hasMutableBorrow i
            then checker_error src (''cannot borrow '' @ quote owner @ '' as mutable more than once'')
                   ''only one mutable borrow is allowed at a time'' c
            else if 0 < immutableBorrowCount i
            then checker_error src (''cannot borrow '' @ quote owner @ '' as mutable while immutable borrows exist'')
                   ''release immutable borrows first'' c
            else if \<not> info_isMutable i
            then checker_error src (''cannot borrow immutable variable '' @ quote owner @ '' as mutable'')
                   (''declare with '' @ quote ''mut'' @ '' to allow mutable borrows'') c
            else Inr (track owner (granted\<lparr>hasMutableBorrow := True\<rparr>) c)
          else if hasMutableBorrow i
          then checker_error src (''cannot borrow '' @ quote owner @ '' as immutable while a mutable borrow exists'') '''' c
          else Inr (track owner (granted\<lparr>immutableBorrowCount := immutableBorrowCount i + 1\<rparr>) c))"

definition checkBorrowConflict :: "string \<Rightarrow> bool \<Rightarrow> Source \<Rightarrow> BorrowChecker \<Rightarrow> BorrowChecker run" where
  "checkBorrowConflict n isMutable src c =
     (case tracked c n of
        None \<Rightarrow> Inr c
      | Some i \<Rightarrow>
          if isMutable \<and> 0 < immutableBorrowCount i
          then checker_error src (''cannot use '' @ quote n @ '' mutably while immutable borrows exist'') '''' c
          else Inr c)"

definition checkUseAfterMove :: "string \<Rightarrow> Source \<Rightarrow> BorrowChecker \<Rightarrow> BorrowChecker run" where
  "checkUseAfterMove n src c =
     (case tracked c n of
        None \<Rightarrow> Inr c
      | Some i \<Rightarrow>
          if info_state i = Var_Moved then checker_error src (''use of moved value '' @ quote n) '''' c
          else if info_state i = Var_Dropped then checker_error src (''use of dropped value '' @ quote n) '''' c
          else Inr c)"

definition declareOwnership :: "string \<Rightarrow> bool \<Rightarrow> Source \<Rightarrow> BorrowChecker \<Rightarrow> BorrowChecker" where
  "declareOwnership n isMutable src c =
     (let c1 = track n
        \<lparr>activeBorrows = [], arenaOwnerName = '''', astNode = None, declarationSource = src,
         hasMutableBorrow = indeterminate c n, immutableBorrowCount = 0, isArenaManaged = False,
         isHeapAllocated = False, info_isMutable = isMutable, info_name = n,
         info_scopeDepth = currentScopeDepth c, info_state = Var_Owned\<rparr> c
      in case variableScope c1 of [] \<Rightarrow> c1 | vs # rest \<Rightarrow> c1\<lparr>variableScope := (vs @ [n]) # rest\<rparr>)"

text \<open>What dropping a variable does to each tracked variable, itself included.\<close>

definition release :: "string \<Rightarrow> BorrowOwnershipInfo \<Rightarrow> BorrowOwnershipInfo" where
  "release n i =
     (let borrows = filter (\<lambda>b. borrowerName b \<noteq> n) (activeBorrows i);
          i1 = i\<lparr>activeBorrows := borrows,
                 immutableBorrowCount := int (length (filter (\<lambda>b. \<not> borrow_isMutable b) borrows)),
                 hasMutableBorrow := list_ex borrow_isMutable borrows\<rparr>
      in if borrows = [] \<and> info_state i1 \<noteq> Var_Moved then i1\<lparr>info_state := Var_Owned\<rparr> else i1)"

definition dropValue :: "string \<Rightarrow> BorrowChecker \<Rightarrow> BorrowChecker" where
  "dropValue n c =
     (case tracked c n of
        None \<Rightarrow> c
      | Some _ \<Rightarrow>
          c\<lparr>ownershipTracking := map (\<lambda>(v, i).
               (v, if v = n then (release n i)\<lparr>info_state := Var_Dropped\<rparr> else release n i)) (ownershipTracking c)\<rparr>)"

definition moveValue :: "string \<Rightarrow> Source \<Rightarrow> BorrowChecker \<Rightarrow> BorrowChecker run" where
  "moveValue n src c =
     (case tracked c n of
        None \<Rightarrow> Inr c
      | Some i \<Rightarrow>
          if info_state i = Var_Moved
          then checker_error src (''use of moved value '' @ quote n) ''value was previously moved'' c
          else if info_state i = Var_Dropped
          then checker_error src (''cannot move dropped value '' @ quote n) ''value was previously deleted'' c
          else if activeBorrows i \<noteq> []
          then checker_error src (''cannot move '' @ quote n @ '' because it is borrowed'')
                 ''outstanding borrows must be released before moving'' c
          else
            let c1 = track n (i\<lparr>info_state := Var_Moved\<rparr>) c
            in Inr (case Option.bind (astNode i) (\<lambda>a. map_option (Pair a) (map_of (ownershipAnnotations c1) a)) of
                 None \<Rightarrow> c1
               | Some (a, note) \<Rightarrow>
                   c1\<lparr>ownershipAnnotations :=
                        AList.update a (note\<lparr>annotation_isMoved := True\<rparr>) (ownershipAnnotations c1)\<rparr>))"

section \<open>Scopes and snapshots\<close>

definition checker_pushScope :: "BorrowChecker \<Rightarrow> BorrowChecker" where
  "checker_pushScope c = c\<lparr>currentScopeDepth := currentScopeDepth c + 1, variableScope := [] # variableScope c\<rparr>"

definition checker_popScope :: "BorrowChecker \<Rightarrow> BorrowChecker" where
  "checker_popScope c =
     (case variableScope c of
        [] \<Rightarrow> c
      | vs # rest \<Rightarrow>
          (fold dropValue (rev vs) c)\<lparr>variableScope := rest, currentScopeDepth := currentScopeDepth c - 1\<rparr>)"

type_synonym snapshot = "(string \<times> VariableState) list"

definition snapshotOwnershipStates :: "BorrowChecker \<Rightarrow> snapshot" where
  "snapshotOwnershipStates c = map (\<lambda>(n, i). (n, info_state i)) (ownershipTracking c)"

text \<open>The state of each tracked variable that the snapshot holds is set; no variable occurs twice in a map.\<close>

definition restoreOwnershipStates :: "snapshot \<Rightarrow> BorrowChecker \<Rightarrow> BorrowChecker" where
  "restoreOwnershipStates snap c =
     c\<lparr>ownershipTracking := map (\<lambda>(n, i).
         (n, case map_of snap n of None \<Rightarrow> i | Some s \<Rightarrow> i\<lparr>info_state := s\<rparr>)) (ownershipTracking c)\<rparr>"

definition merge_states :: "VariableState \<Rightarrow> VariableState \<Rightarrow> VariableState" where
  "merge_states existingState branchState =
     (if existingState = branchState then existingState
      else if branchState = Var_Dropped \<or> existingState = Var_Dropped then Var_Dropped
      else if branchState = Var_Moved \<or> existingState = Var_Moved then Var_Moved
      else existingState)"

definition merge_variable :: "string \<times> VariableState \<Rightarrow> snapshot \<Rightarrow> snapshot" where
  "merge_variable entry merged =
     (case map_of merged (fst entry) of
        None \<Rightarrow> AList.update (fst entry) (snd entry) merged
      | Some s \<Rightarrow> AList.update (fst entry) (merge_states s (snd entry)) merged)"

definition mergeOwnershipStates :: "snapshot list \<Rightarrow> BorrowChecker \<Rightarrow> BorrowChecker" where
  "mergeOwnershipStates snaps c = restoreOwnershipStates (fold (fold merge_variable) snaps []) c"

text \<open>A variable on the heap that nothing frees.\<close>

definition unfreed :: "BorrowOwnershipInfo \<Rightarrow> bool" where
  "unfreed i \<longleftrightarrow>
     isHeapAllocated i \<and> \<not> isArenaManaged i \<and> info_state i \<noteq> Var_Dropped \<and> info_state i \<noteq> Var_Moved"

definition loop_cleanup_variable :: "string \<Rightarrow> BorrowChecker \<Rightarrow> BorrowChecker run" where
  "loop_cleanup_variable n c =
     (case tracked c n of
        None \<Rightarrow> Inr c
      | Some i \<Rightarrow>
          if unfreed i
          then checker_warning (declarationSource i)
                 (''heap-allocated value '' @ quote n @ '' is not freed before next loop iteration; add ''
                  @ quote (''delete '' @ n) @ '' before end of loop body'') c
          else Inr c)"

definition checkLoopIterationCleanup :: "BorrowChecker \<Rightarrow> BorrowChecker run" where
  "checkLoopIterationCleanup c = (case variableScope c of [] \<Rightarrow> Inr c | vs # _ \<Rightarrow> foldr_res loop_cleanup_variable vs c)"

definition try_leak_variable :: "string \<Rightarrow> BorrowChecker \<Rightarrow> BorrowChecker run" where
  "try_leak_variable n c =
     (case tracked c n of
        None \<Rightarrow> Inr c
      | Some i \<Rightarrow>
          if unfreed i
          then checker_warning (declarationSource i)
                 (''heap-allocated '' @ quote n @ '' in try block may leak if exception is thrown; add ''
                  @ quote (''delete '' @ n) @ '' before potential throw sites'') c
          else Inr c)"

definition check_try_leaks :: "BorrowChecker \<Rightarrow> BorrowChecker run" where
  "check_try_leaks c = (case variableScope c of [] \<Rightarrow> Inr c | vs # _ \<Rightarrow> foldr_res try_leak_variable vs c)"

section \<open>Expressions\<close>

definition identifier_of :: "expression \<Rightarrow> string option" where
  "identifier_of e = (case expression_node e of IdentifierExpression n _ \<Rightarrow> Some n | _ \<Rightarrow> None)"

text \<open>An argument that is a variable is moved when its type is known and of none of these kinds.\<close>

definition moved_argument_type :: "type_heap \<Rightarrow> type_pointer \<Rightarrow> bool" where
  "moved_argument_type h p =
     (case deref h p of
        None \<Rightarrow> False
      | Some t \<Rightarrow> \<not> isPrimitive t \<and> type_kind t \<notin> {Kind_Enum, Kind_Class, Kind_Interface, Kind_Struct})"

definition move_argument :: "type_heap \<Rightarrow> expression \<Rightarrow> BorrowChecker \<Rightarrow> BorrowChecker run" where
  "move_argument h e c =
     (case identifier_of e of
        None \<Rightarrow> Inr c
      | Some n \<Rightarrow>
          (case tracked c n of
             None \<Rightarrow> Inr c
           | Some i \<Rightarrow>
               if info_state i = Var_Owned \<and> moved_argument_type h (semanticType e)
               then moveValue n (expression_source e) c else Inr c))"

text \<open>The name in \<^verbatim>\<open>&name\<close>.\<close>

definition referenced :: "expression \<Rightarrow> string option" where
  "referenced e =
     (case expression_node e of
        UnaryExpression _ (Some operand) operation \<Rightarrow>
          if operation = Bitwise Ampersand then identifier_of operand else None
      | _ \<Rightarrow> None)"

definition borrow_argument :: "expression \<Rightarrow> BorrowChecker \<Rightarrow> BorrowChecker run" where
  "borrow_argument e c =
     (case referenced e of None \<Rightarrow> Inr c | Some n \<Rightarrow> borrowValue n ''<call>'' False (expression_source e) c)"

text \<open>\<^verbatim>\<open>&\<close> and \<^verbatim>\<open>move\<close> look at an operand only when it is a variable.\<close>

function (sequential) checkExpression :: "type_heap \<Rightarrow> expression \<Rightarrow> BorrowChecker \<Rightarrow> BorrowChecker run"
  and checkNode :: "type_heap \<Rightarrow> Source \<Rightarrow> expression_node \<Rightarrow> BorrowChecker \<Rightarrow> BorrowChecker run"
  and checkArguments :: "type_heap \<Rightarrow> bool \<Rightarrow> expression list \<Rightarrow> BorrowChecker \<Rightarrow> BorrowChecker run"
  and checkKeywordArguments :: "type_heap \<Rightarrow> (string \<times> expression \<times> Source) list \<Rightarrow> BorrowChecker \<Rightarrow> BorrowChecker run" where
  "checkExpression h (Expression src t node) c = checkNode h src node c"
| "checkNode h src (BinaryExpression left operation right) c =
     bindr (checkExpression h left c) (\<lambda>c1. checkExpression h right c1)"
| "checkNode h src (CallExpression args callee keywords typeArguments) c =
     bindr (checkExpression h callee c) (\<lambda>c1.
     bindr (checkArguments h True args c1) (\<lambda>c2. checkKeywordArguments h keywords c2))"
| "checkNode h src (IdentifierExpression n typeArguments) c = checkUseAfterMove n src c"
| "checkNode h src (IndexExpression index object) c =
     bindr (checkExpression h object c) (\<lambda>c1. checkExpression h index c1)"
| "checkNode h src (MemberAccessExpression member object) c = checkExpression h object c"
| "checkNode h src (MethodCallExpression args keywords method object typeArguments) c =
     bindr (checkExpression h object c) (\<lambda>c1.
     bindr (checkArguments h False args c1) (\<lambda>c2. checkKeywordArguments h keywords c2))"
| "checkNode h src (UnaryExpression isPrefix operand operation) c =
     (case operand of
        None \<Rightarrow> Inr c
      | Some e \<Rightarrow>
          if operation = Bitwise Ampersand then
            (case identifier_of e of None \<Rightarrow> Inr c | Some n \<Rightarrow> borrowValue n ''<temp>'' False src c)
          else if operation = Memory KeywordMove then
            (case identifier_of e of None \<Rightarrow> Inr c | Some n \<Rightarrow> moveValue n src c)
          else checkExpression h e c)"
| "checkNode h src other c = Inr c"
| "checkArguments h inCall [] c = Inr c"
| "checkArguments h inCall (e # es) c =
     bindr (checkExpression h e c) (\<lambda>c1.
     bindr (move_argument h e c1) (\<lambda>c2.
     bindr (if inCall then borrow_argument e c2 else Inr c2) (\<lambda>c3. checkArguments h inCall es c3)))"
| "checkKeywordArguments h [] c = Inr c"
| "checkKeywordArguments h ((n, e, at) # es) c =
     bindr (checkExpression h e c) (\<lambda>c1. checkKeywordArguments h es c1)"
  by pat_completeness auto

termination
  by (relation "measure (\<lambda>x. case x of
    Inl (Inl (h, e, c)) \<Rightarrow> size e
  | Inl (Inr (h, src, node, c)) \<Rightarrow> node_weight node
  | Inr (Inl (h, b, es, c)) \<Rightarrow> size_list size es
  | Inr (Inr (h, ks, c)) \<Rightarrow> keywords_weight ks)") auto

definition check_optional :: "type_heap \<Rightarrow> expression option \<Rightarrow> BorrowChecker \<Rightarrow> BorrowChecker run" where
  "check_optional h e c = (case e of None \<Rightarrow> Inr c | Some x \<Rightarrow> checkExpression h x c)"

section \<open>Statements\<close>

definition checkAssignmentStatement ::
    "type_heap \<Rightarrow> Source \<Rightarrow> expression \<Rightarrow> expression \<Rightarrow> BorrowChecker \<Rightarrow> BorrowChecker run" where
  "checkAssignmentStatement h src target assigned c =
     bindr (checkExpression h assigned c) (\<lambda>c1.
       case Option.bind (identifier_of target) (\<lambda>n. map_option (Pair n) (tracked c1 n)) of
         None \<Rightarrow> Inr c1
       | Some (n, i) \<Rightarrow>
           bindr (if \<not> info_isMutable i
                  then checker_error src (''cannot assign to immutable variable '' @ quote n) '''' c1
                  else Inr c1)
             (checkBorrowConflict n True src))"

definition delete_named :: "string \<Rightarrow> Source \<Rightarrow> BorrowChecker \<Rightarrow> BorrowChecker run" where
  "delete_named n src c =
     (case tracked c n of
        None \<Rightarrow> Inr c
      | Some i \<Rightarrow>
          if info_state i = Var_Dropped then checker_error src (''double free: '' @ quote n @ '' was already deleted'') '''' c
          else if info_state i = Var_Moved then checker_error src (''cannot delete moved value '' @ quote n) '''' c
          else if activeBorrows i \<noteq> [] then checker_error src (''cannot delete '' @ quote n @ '' while it is borrowed'') '''' c
          else Inr (dropValue n c))"

definition checkDeleteStatement :: "type_heap \<Rightarrow> Source \<Rightarrow> expression \<Rightarrow> BorrowChecker \<Rightarrow> BorrowChecker run" where
  "checkDeleteStatement h src e c =
     (case identifier_of e of None \<Rightarrow> checkExpression h e c | Some n \<Rightarrow> delete_named n src c)"

definition checkReturnStatement :: "type_heap \<Rightarrow> Source \<Rightarrow> expression option \<Rightarrow> BorrowChecker \<Rightarrow> BorrowChecker run" where
  "checkReturnStatement h src returned c =
     (case returned of
        None \<Rightarrow> Inr c
      | Some e \<Rightarrow>
          bindr (checkExpression h e c) (\<lambda>c1.
            case Option.bind (referenced e) (\<lambda>n. map_option (Pair n) (tracked c1 n)) of
              None \<Rightarrow> Inr c1
            | Some (n, i) \<Rightarrow>
                if 1 < info_scopeDepth i
                then checker_error src (''cannot return reference to local variable '' @ quote n)
                       ''the variable will be dropped when the function returns'' c1
                else Inr c1))"

text \<open>An initialiser that is a tracked variable is moved unless its type is known and of one of these kinds.\<close>

definition copied_type :: "type_heap \<Rightarrow> type_pointer \<Rightarrow> bool" where
  "copied_type h p =
     (case deref h p of None \<Rightarrow> False | Some t \<Rightarrow> isPrimitive t \<or> type_kind t \<in> {Kind_Enum, Kind_Class, Kind_Struct})"

definition move_initializer :: "type_heap \<Rightarrow> Source \<Rightarrow> expression \<Rightarrow> BorrowChecker \<Rightarrow> BorrowChecker run" where
  "move_initializer h src e c =
     (case identifier_of e of
        None \<Rightarrow> Inr c
      | Some n \<Rightarrow>
          if tracked c n \<noteq> None \<and> \<not> copied_type h (semanticType e) then moveValue n src c else Inr c)"

definition constructor_name :: "expression \<Rightarrow> string" where
  "constructor_name e =
     (case expression_node e of
        ConstructExpression _ (Some (Type_node _ (GenericTypeNode n _))) \<Rightarrow> n
      | ConstructExpression _ (Some (Type_node _ (SimpleTypeNode n))) \<Rightarrow> n
      | _ \<Rightarrow> '''')"

definition arena_owner :: "expression \<Rightarrow> BorrowChecker \<Rightarrow> string option" where
  "arena_owner e c =
     (case expression_node e of
        MethodCallExpression _ _ method object _ \<Rightarrow>
          if method = ''alloc''
          then Option.bind (identifier_of object) (\<lambda>a. if tracked c a \<noteq> None then Some a else None)
          else None
      | _ \<Rightarrow> None)"

definition annotate_variable :: "nat \<Rightarrow> string \<Rightarrow> expression \<Rightarrow> BorrowChecker \<Rightarrow> BorrowChecker" where
  "annotate_variable address n e c =
     (case tracked c n of
        None \<Rightarrow> c
      | Some i \<Rightarrow>
          let i1 = i\<lparr>astNode := Some address\<rparr>;
              i2 = (case expression_node e of
                      ConstructExpression _ _ \<Rightarrow> if constructor_name e = ''Arena'' then i1 else i1\<lparr>isHeapAllocated := True\<rparr>
                    | _ \<Rightarrow> i1);
              i3 = (case arena_owner e c of None \<Rightarrow> i2 | Some a \<Rightarrow> i2\<lparr>isArenaManaged := True, arenaOwnerName := a\<rparr>)
          in (track n i3 c)\<lparr>ownershipAnnotations :=
               AList.update address
                 \<lparr>annotation_isHeapAllocated = isHeapAllocated i3, annotation_isArenaManaged = isArenaManaged i3,
                  annotation_isMoved = False, annotation_typeName = constructor_name e\<rparr> (ownershipAnnotations c)\<rparr>)"

definition checkVarStatement ::
    "type_heap \<Rightarrow> Source \<Rightarrow> nat \<Rightarrow> expression option \<Rightarrow> bool \<Rightarrow> string \<Rightarrow> BorrowChecker \<Rightarrow> BorrowChecker run" where
  "checkVarStatement h src address initializer isMutable n c =
     (case initializer of
        None \<Rightarrow> Inr (declareOwnership n isMutable src c)
      | Some e \<Rightarrow>
          bindr (checkExpression h e c) (\<lambda>c1.
          bindr (move_initializer h src e c1) (\<lambda>c2.
            Inr (annotate_variable address n e (declareOwnership n isMutable src c2)))))"

text \<open>The variables that a \<^verbatim>\<open>for\<close> loop declares.\<close>

definition declare_loop_variables :: "bool \<Rightarrow> string \<Rightarrow> string \<Rightarrow> Source \<Rightarrow> BorrowChecker \<Rightarrow> BorrowChecker" where
  "declare_loop_variables cStyle n n2 src c =
     (let c1 = declareOwnership n cStyle src c
      in if n2 \<noteq> '''' then declareOwnership n2 False src c1 else c1)"

function (sequential) checkStatement :: "type_heap \<Rightarrow> statement \<Rightarrow> BorrowChecker \<Rightarrow> BorrowChecker run"
  and checkStatementNode :: "type_heap \<Rightarrow> Source \<Rightarrow> statement_node \<Rightarrow> BorrowChecker \<Rightarrow> BorrowChecker run"
  and checkStatements :: "type_heap \<Rightarrow> statement list \<Rightarrow> BorrowChecker \<Rightarrow> BorrowChecker run"
  and checkElifs :: "type_heap \<Rightarrow> snapshot \<Rightarrow> (expression \<times> statement list) list \<Rightarrow> BorrowChecker \<times> snapshot list \<Rightarrow> (BorrowChecker \<times> snapshot list) run"
  and checkClauses :: "type_heap \<Rightarrow> (statement list \<times> expression type_node list \<times> string \<times> Source) list \<Rightarrow> BorrowChecker \<times> snapshot list \<Rightarrow> (BorrowChecker \<times> snapshot list) run" where
  "checkStatement h (Statement src node) c = checkStatementNode h src node c"
| "checkStatementNode h src (AssignStatement operation target assigned) c = checkAssignmentStatement h src target assigned c"
| "checkStatementNode h src (DeleteStatement e) c = checkDeleteStatement h src e c"
| "checkStatementNode h src (ExpressionStatement e) c = checkExpression h e c"
| "checkStatementNode h src (ForStatement body cond init iterable isCStyle update n n2 vt vt2) c =
     bindr (check_optional h iterable c) (\<lambda>c0.
     bindr (check_optional h init (declare_loop_variables (init \<noteq> None \<or> update \<noteq> None) n n2 src
              (checker_pushScope (c0\<lparr>isInsideLoopFlag := True\<rparr>)))) (\<lambda>c1.
     bindr (check_optional h cond c1) (\<lambda>c2.
     bindr (case update of None \<Rightarrow> Inr c2 | Some s \<Rightarrow> checkStatement h s c2) (\<lambda>c3.
     bindr (checkStatements h body c3) (\<lambda>c4.
     bindr (checkLoopIterationCleanup c4) (\<lambda>c5.
       Inr ((checker_popScope c5)\<lparr>isInsideLoopFlag := isInsideLoopFlag c0\<rparr>)))))))"
| "checkStatementNode h src (IfStatement cond elifs elseBody thenBody) c =
     bindr (checkExpression h cond c) (\<lambda>c0.
       let pre = snapshotOwnershipStates c0 in
     bindr (checkStatements h thenBody (checker_pushScope c0)) (\<lambda>c1.
       let t = checker_popScope c1 in
     bindr (checkElifs h pre elifs (restoreOwnershipStates pre t, [snapshotOwnershipStates t])) (\<lambda>(c2, ends).
       if elseBody \<noteq> [] then
         bindr (checkStatements h elseBody (checker_pushScope c2)) (\<lambda>c3.
           let e = checker_popScope c3 in
           Inr (mergeOwnershipStates (ends @ [snapshotOwnershipStates e]) (restoreOwnershipStates pre e)))
       else Inr (mergeOwnershipStates (ends @ [pre]) c2))))"
| "checkStatementNode h src (ReturnStatement e) c = checkReturnStatement h src e c"
| "checkStatementNode h src (ThrowStatement e) c = check_optional h e c"
| "checkStatementNode h src (TryCatchStatement clauses finallyBody tryBody) c =
     (let pre = snapshotOwnershipStates c in
     bindr (checkStatements h tryBody (checker_pushScope c)) (\<lambda>c1.
     bindr (check_try_leaks c1) (\<lambda>c2.
       let t = checker_popScope c2; post = snapshotOwnershipStates t;
           c3 = mergeOwnershipStates [pre, post] (restoreOwnershipStates pre t) in
     bindr (checkClauses h clauses (c3, [post])) (\<lambda>(c4, ends).
       let c5 = mergeOwnershipStates ends c4 in
       if finallyBody \<noteq> []
       then bindr (checkStatements h finallyBody (checker_pushScope c5)) (\<lambda>c6. Inr (checker_popScope c6))
       else Inr c5))))"
| "checkStatementNode h src (UnsafeBlock body) c =
     bindr (checkStatements h body (checker_pushScope (c\<lparr>isInsideUnsafeBlock := True\<rparr>))) (\<lambda>c1.
       Inr ((checker_popScope c1)\<lparr>isInsideUnsafeBlock := isInsideUnsafeBlock c\<rparr>))"
| "checkStatementNode h src (VariableStatement address init isConstant isMutable n vt) c =
     checkVarStatement h src address init isMutable n c"
| "checkStatementNode h src (WhileStatement body cond) c =
     bindr (checkExpression h cond c) (\<lambda>c0.
     bindr (checkStatements h body (checker_pushScope (c0\<lparr>isInsideLoopFlag := True\<rparr>))) (\<lambda>c1.
     bindr (checkLoopIterationCleanup c1) (\<lambda>c2.
       Inr ((checker_popScope c2)\<lparr>isInsideLoopFlag := isInsideLoopFlag c0\<rparr>))))"
| "checkStatementNode h src other c = Inr c"
| "checkStatements h [] c = Inr c"
| "checkStatements h (s # ss) c = bindr (checkStatement h s c) (\<lambda>c1. checkStatements h ss c1)"
| "checkElifs h pre [] r = Inr r"
| "checkElifs h pre ((cond, body) # bs) r =
     bindr (checkExpression h cond (fst r)) (\<lambda>c0.
     bindr (checkStatements h body (checker_pushScope c0)) (\<lambda>c1.
       let t = checker_popScope c1 in
       checkElifs h pre bs (restoreOwnershipStates pre t, snd r @ [snapshotOwnershipStates t])))"
| "checkClauses h [] r = Inr r"
| "checkClauses h ((body, types, n, at) # cs) r =
     bindr (checkStatements h body (checker_pushScope (fst r))) (\<lambda>c1.
       let t = checker_popScope c1 in
       checkClauses h cs (restoreOwnershipStates (snapshotOwnershipStates (fst r)) t, snd r @ [snapshotOwnershipStates t]))"
  by pat_completeness auto

termination
  by (relation "measure (\<lambda>x. case x of
    Inl (Inl (h, s, c)) \<Rightarrow> size s
  | Inl (Inr (h, src, node, c)) \<Rightarrow> statement_weight node
  | Inr (Inl (h, ss, c)) \<Rightarrow> size_list size ss
  | Inr (Inr (Inl (h, pre, bs, r))) \<Rightarrow> elifs_weight bs
  | Inr (Inr (Inr (h, cs, r))) \<Rightarrow> clauses_weight cs)") auto

definition checkBlock :: "type_heap \<Rightarrow> statement list \<Rightarrow> BorrowChecker \<Rightarrow> BorrowChecker run" where
  "checkBlock h body c = bindr (checkStatements h body (checker_pushScope c)) (\<lambda>c1. Inr (checker_popScope c1))"

section \<open>Declarations\<close>

definition declare_parameter :: "parameter \<Rightarrow> BorrowChecker \<Rightarrow> BorrowChecker" where
  "declare_parameter p c =
     (if parameter_isSelf p then c
      else declareOwnership (parameter_name p) (parameter_isMutable p) (parameter_source p) c)"

definition checkFunctionDeclaration :: "type_heap \<Rightarrow> declaration_tree function_declaration \<Rightarrow> BorrowChecker \<Rightarrow> BorrowChecker run" where
  "checkFunctionDeclaration h f c =
     bindr (checkBlock h (decl_body f) (fold declare_parameter (decl_parameters f) (checker_pushScope c)))
       (\<lambda>c1. Inr (checker_popScope c1))"

definition checkDeclaration :: "type_heap \<Rightarrow> declaration_tree option \<Rightarrow> BorrowChecker \<Rightarrow> BorrowChecker run" where
  "checkDeclaration h d c =
     (case map_option declaration_node d of
        Some (FunctionDeclaration f) \<Rightarrow> checkFunctionDeclaration h f c
      | _ \<Rightarrow> Inr c)"

definition check_program :: "type_heap \<Rightarrow> program \<Rightarrow> BorrowChecker \<Rightarrow> BorrowChecker run" where
  "check_program h p c =
     bindr (foldr_res (checkDeclaration h) (program_declarations p) (checker_pushScope c)) (\<lambda>c1. Inr (checker_popScope c1))"

end
