(* ===== verification/AstContract.thy ===== *)
theory AstContract
  imports AstBorrow
begin

text \<open>
  The walk of the ownership checker over statements, once and for all: the locale \<open>contract\<close> states what each operation of the
  checker keeps, and its lemmas carry that through expressions, statements, functions and programs. The contracts of
  \<open>AstBorrowLaws\<close> are its interpretations.
\<close>

section \<open>What the checker looks at\<close>

text \<open>An expression or statement uses a name of a set where the checker comes to look at it.\<close>

function (sequential) mentions :: "(string \<Rightarrow> bool) \<Rightarrow> expression \<Rightarrow> bool"
  and mentions_node :: "(string \<Rightarrow> bool) \<Rightarrow> expression_node \<Rightarrow> bool"
  and mentions_list :: "(string \<Rightarrow> bool) \<Rightarrow> expression list \<Rightarrow> bool"
  and mentions_keywords :: "(string \<Rightarrow> bool) \<Rightarrow> (string \<times> expression \<times> Source) list \<Rightarrow> bool" where
  "mentions W (Expression src t node) = mentions_node W node"
| "mentions_node W (BinaryExpression left operation right) = (mentions W left \<or> mentions W right)"
| "mentions_node W (CallExpression args callee keywords typeArguments) =
     (mentions W callee \<or> mentions_list W args \<or> mentions_keywords W keywords)"
| "mentions_node W (IdentifierExpression n typeArguments) = W n"
| "mentions_node W (IndexExpression index object) = (mentions W object \<or> mentions W index)"
| "mentions_node W (MemberAccessExpression member object) = mentions W object"
| "mentions_node W (MethodCallExpression args keywords method object typeArguments) =
     (mentions W object \<or> mentions_list W args \<or> mentions_keywords W keywords)"
| "mentions_node W (UnaryExpression isPrefix operand operation) =
     (case operand of
        None \<Rightarrow> False
      | Some e \<Rightarrow>
          if operation = Bitwise Ampersand \<or> operation = Memory KeywordMove
          then (case identifier_of e of None \<Rightarrow> False | Some n \<Rightarrow> W n)
          else mentions W e)"
| "mentions_node W other = False"
| "mentions_list W [] = False"
| "mentions_list W (e # es) = (mentions W e \<or> mentions_list W es)"
| "mentions_keywords W [] = False"
| "mentions_keywords W ((n, e, at) # es) = (mentions W e \<or> mentions_keywords W es)"
  by pat_completeness auto

termination
  by (relation "measure (\<lambda>x. case x of
    Inl (Inl (W, e)) \<Rightarrow> size e
  | Inl (Inr (W, node)) \<Rightarrow> node_weight node
  | Inr (Inl (W, es)) \<Rightarrow> size_list size es
  | Inr (Inr (W, ks)) \<Rightarrow> keywords_weight ks)") auto

definition mentions_optional :: "(string \<Rightarrow> bool) \<Rightarrow> expression option \<Rightarrow> bool" where
  "mentions_optional W e = (case e of None \<Rightarrow> False | Some x \<Rightarrow> mentions W x)"

function (sequential) uses :: "(string \<Rightarrow> bool) \<Rightarrow> statement \<Rightarrow> bool"
  and uses_node :: "(string \<Rightarrow> bool) \<Rightarrow> statement_node \<Rightarrow> bool"
  and uses_list :: "(string \<Rightarrow> bool) \<Rightarrow> statement list \<Rightarrow> bool"
  and uses_elifs :: "(string \<Rightarrow> bool) \<Rightarrow> (expression \<times> statement list) list \<Rightarrow> bool"
  and uses_clauses :: "(string \<Rightarrow> bool) \<Rightarrow> (statement list \<times> expression type_node list \<times> string \<times> Source) list \<Rightarrow> bool" where
  "uses W (Statement src node) = uses_node W node"
| "uses_node W (AssignStatement operation target assigned) = mentions W assigned"
| "uses_node W (DeleteStatement e) = mentions W e"
| "uses_node W (ExpressionStatement e) = mentions W e"
| "uses_node W (ForStatement body cond init iterable isCStyle update n n2 vt vt2) =
     (mentions_optional W iterable \<or> mentions_optional W init \<or> mentions_optional W cond
      \<or> (case update of None \<Rightarrow> False | Some s \<Rightarrow> uses W s) \<or> uses_list W body)"
| "uses_node W (IfStatement cond elifs elseBody thenBody) =
     (mentions W cond \<or> uses_list W thenBody \<or> uses_elifs W elifs \<or> uses_list W elseBody)"
| "uses_node W (ReturnStatement e) = mentions_optional W e"
| "uses_node W (ThrowStatement e) = mentions_optional W e"
| "uses_node W (TryCatchStatement clauses finallyBody tryBody) =
     (uses_list W tryBody \<or> uses_clauses W clauses \<or> uses_list W finallyBody)"
| "uses_node W (UnsafeBlock body) = uses_list W body"
| "uses_node W (VariableStatement address init isConstant isMutable n vt) = mentions_optional W init"
| "uses_node W (WhileStatement body cond) = (mentions W cond \<or> uses_list W body)"
| "uses_node W other = False"
| "uses_list W [] = False"
| "uses_list W (s # ss) = (uses W s \<or> uses_list W ss)"
| "uses_elifs W [] = False"
| "uses_elifs W ((cond, body) # bs) = (mentions W cond \<or> uses_list W body \<or> uses_elifs W bs)"
| "uses_clauses W [] = False"
| "uses_clauses W ((body, types, n, at) # cs) = (uses_list W body \<or> uses_clauses W cs)"
  by pat_completeness auto

termination
  by (relation "measure (\<lambda>x. case x of
    Inl (Inl (W, s)) \<Rightarrow> size s
  | Inl (Inr (W, node)) \<Rightarrow> statement_weight node
  | Inr (Inl (W, ss)) \<Rightarrow> size_list size ss
  | Inr (Inr (Inl (W, bs))) \<Rightarrow> elifs_weight bs
  | Inr (Inr (Inr (W, cs))) \<Rightarrow> clauses_weight cs)") auto

text \<open>All names that a statement declares satisfy a condition.\<close>

function (sequential) declares :: "(string \<Rightarrow> bool) \<Rightarrow> statement \<Rightarrow> bool"
  and declares_node :: "(string \<Rightarrow> bool) \<Rightarrow> statement_node \<Rightarrow> bool"
  and declares_list :: "(string \<Rightarrow> bool) \<Rightarrow> statement list \<Rightarrow> bool"
  and declares_elifs :: "(string \<Rightarrow> bool) \<Rightarrow> (expression \<times> statement list) list \<Rightarrow> bool"
  and declares_clauses :: "(string \<Rightarrow> bool) \<Rightarrow> (statement list \<times> expression type_node list \<times> string \<times> Source) list \<Rightarrow> bool" where
  "declares F (Statement src node) = declares_node F node"
| "declares_node F (ForStatement body cond init iterable isCStyle update n n2 vt vt2) =
     (F n \<and> (n2 \<noteq> [] \<longrightarrow> F n2) \<and> (case update of None \<Rightarrow> True | Some s \<Rightarrow> declares F s) \<and> declares_list F body)"
| "declares_node F (IfStatement cond elifs elseBody thenBody) =
     (declares_list F thenBody \<and> declares_elifs F elifs \<and> declares_list F elseBody)"
| "declares_node F (TryCatchStatement clauses finallyBody tryBody) =
     (declares_list F tryBody \<and> declares_clauses F clauses \<and> declares_list F finallyBody)"
| "declares_node F (UnsafeBlock body) = declares_list F body"
| "declares_node F (VariableStatement address init isConstant isMutable n vt) = F n"
| "declares_node F (WhileStatement body cond) = declares_list F body"
| "declares_node F other = True"
| "declares_list F [] = True"
| "declares_list F (s # ss) = (declares F s \<and> declares_list F ss)"
| "declares_elifs F [] = True"
| "declares_elifs F ((cond, body) # bs) = (declares_list F body \<and> declares_elifs F bs)"
| "declares_clauses F [] = True"
| "declares_clauses F ((body, types, n, at) # cs) = (declares_list F body \<and> declares_clauses F cs)"
  by pat_completeness auto

termination
  by (relation "measure (\<lambda>x. case x of
    Inl (Inl (W, s)) \<Rightarrow> size s
  | Inl (Inr (W, node)) \<Rightarrow> statement_weight node
  | Inr (Inl (W, ss)) \<Rightarrow> size_list size ss
  | Inr (Inr (Inl (W, bs))) \<Rightarrow> elifs_weight bs
  | Inr (Inr (Inr (W, cs))) \<Rightarrow> clauses_weight cs)") auto

lemma bindr_assoc: "bindr (bindr r f) g = bindr r (\<lambda>x. bindr (f x) g)"
  by (cases r) simp_all

lemma foldr_res_append: "foldr_res f (xs @ ys) s = bindr (foldr_res f xs s) (foldr_res f ys)"
proof (induction xs arbitrary: s)
  case (Cons x xs)
  then show ?case by (cases "f x s") simp_all
qed simp

section \<open>Contracts of the checker\<close>

text \<open>
  A contract is an invariant of the checker and a relation between the states around a step, which also says
  whether the step has looked at a watched name. When the operations of the checker keep a contract, so does the
  walk over every statement that declares only free names.
\<close>

locale contract =
  fixes inv :: "BorrowChecker \<Rightarrow> bool"
    and rel :: "bool \<Rightarrow> BorrowChecker \<Rightarrow> BorrowChecker \<Rightarrow> bool"
    and snap_ok :: "snapshot \<Rightarrow> bool"
    and watched :: "string \<Rightarrow> bool"
    and free :: "string \<Rightarrow> bool"
  assumes rel_refl: "rel False c c"
    and rel_trans: "rel u c1 c2 \<Longrightarrow> rel v c2 c3 \<Longrightarrow> rel (u \<or> v) c1 c3"
    and rel_weaken: "rel u c d \<Longrightarrow> rel False c d"
    and use_kept: "inv c \<Longrightarrow> checkUseAfterMove n src c = Inr d \<Longrightarrow> inv d \<and> rel (watched n) c d"
    and move_kept: "inv c \<Longrightarrow> moveValue n src c = Inr d \<Longrightarrow> inv d \<and> rel (watched n) c d"
    and borrow_kept: "inv c \<Longrightarrow> borrowValue n w False src c = Inr d \<Longrightarrow> inv d \<and> rel (watched n) c d"
    and delete_kept: "inv c \<Longrightarrow> delete_named n src c = Inr d \<Longrightarrow> inv d \<and> rel (watched n) c d"
    and error_kept: "inv c \<Longrightarrow> checker_error src msg hint c = Inr d \<Longrightarrow> inv d \<and> rel False c d"
    and warning_kept: "inv c \<Longrightarrow> checker_warning src msg c = Inr d \<Longrightarrow> inv d \<and> rel False c d"
    and declare_kept: "inv c \<Longrightarrow> free n \<Longrightarrow> inv (declareOwnership n m src c) \<and> rel False c (declareOwnership n m src c)"
    and annotate_kept: "inv c \<Longrightarrow> inv (annotate_variable adr n e c) \<and> rel False c (annotate_variable adr n e c)"
    and loop_flag_kept: "inv c \<Longrightarrow> inv (c\<lparr>isInsideLoopFlag := b\<rparr>) \<and> rel False c (c\<lparr>isInsideLoopFlag := b\<rparr>)"
    and unsafe_flag_kept: "inv c \<Longrightarrow> inv (c\<lparr>isInsideUnsafeBlock := b\<rparr>) \<and> rel False c (c\<lparr>isInsideUnsafeBlock := b\<rparr>)"
    and push_kept: "inv c \<Longrightarrow> inv (checker_pushScope c)"
    and pop_kept: "inv d \<Longrightarrow> rel u (checker_pushScope c) d \<Longrightarrow> inv (checker_popScope d) \<and> rel u c (checker_popScope d)"
    and snapshot_ok: "inv c \<Longrightarrow> snap_ok (snapshotOwnershipStates c)"
    and restore_kept: "inv c \<Longrightarrow> snap_ok s \<Longrightarrow> inv (restoreOwnershipStates s c) \<and> rel False c (restoreOwnershipStates s c)"
    and merge_kept: "inv c \<Longrightarrow> list_all snap_ok ss \<Longrightarrow> ss \<noteq> [] \<Longrightarrow>
          inv (mergeOwnershipStates ss c) \<and> rel False c (mergeOwnershipStates ss c)"
begin

definition keeps :: "bool \<Rightarrow> BorrowChecker \<Rightarrow> BorrowChecker run \<Rightarrow> bool" where
  "keeps u c r \<longleftrightarrow> (\<forall>d. r = Inr d \<longrightarrow> inv d \<and> rel u c d)"

lemma keeps_skip: "inv c \<Longrightarrow> keeps False c (Inr c)"
  by (simp add: keeps_def rel_refl)

lemma keeps_bind:
  assumes "keeps u c r" and "\<And>d. inv d \<Longrightarrow> rel u c d \<Longrightarrow> keeps v d (f d)"
  shows "keeps (u \<or> v) c (bindr r f)"
  unfolding keeps_def
proof (intro allI impI)
  fix e assume "bindr r f = Inr e"
  then obtain d where d: "r = Inr d" "f d = Inr e" by (auto simp: bindr_eq_Inr)
  with assms(1) have i: "inv d" "rel u c d" unfolding keeps_def by blast+
  with assms(2) [OF i] d(2) have "inv e" "rel v d e" unfolding keeps_def by blast+
  with i(2) show "inv e \<and> rel (u \<or> v) c e" using rel_trans by blast
qed

lemma keeps_after:
  assumes "inv d" and "rel u c d" and "keeps v d r"
  shows "keeps (u \<or> v) c r"
  unfolding keeps_def
proof (intro allI impI)
  fix e assume "r = Inr e"
  with assms(3) have "inv e" "rel v d e" unfolding keeps_def by blast+
  with assms(2) show "inv e \<and> rel (u \<or> v) c e" using rel_trans by blast
qed

lemma keeps_operations:
  assumes "inv c"
  shows "keeps (watched n) c (checkUseAfterMove n src c)" and "keeps (watched n) c (moveValue n src c)"
    and "keeps (watched n) c (borrowValue n w False src c)" and "keeps (watched n) c (delete_named n src c)"
    and "keeps False c (checker_error src msg hint c)" and "keeps False c (checker_warning src msg c)"
  unfolding keeps_def
  using use_kept [OF assms] move_kept [OF assms] borrow_kept [OF assms] delete_kept [OF assms] error_kept [OF assms]
    warning_kept [OF assms]
  by blast+

lemma keeps_weaken: "keeps u c r \<Longrightarrow> keeps False c r"
  unfolding keeps_def using rel_weaken by blast

lemma keeps_bind_weak:
  "keeps u c r \<Longrightarrow> (\<And>d. inv d \<Longrightarrow> rel u c d \<Longrightarrow> keeps False d (f d)) \<Longrightarrow> keeps u c (bindr r f)"
  using keeps_bind [of u c r False f] by simp

lemma arguments_kept:
  assumes "inv c"
  shows "keeps False c (move_argument h e c)" and "keeps False c (borrow_argument e c)"
  using keeps_skip [OF assms] keeps_operations [OF assms, THEN keeps_weaken]
  by (simp_all add: move_argument_def borrow_argument_def split: option.split)

lemma argument_step:
  assumes "keeps u c r" and "\<And>d. inv d \<Longrightarrow> keeps v d (g d)"
  shows "keeps (u \<or> v) c (bindr r (\<lambda>c1. bindr (move_argument h e c1) (\<lambda>c2.
           bindr (if inCall then borrow_argument e c2 else Inr c2) g)))"
proof (rule keeps_bind [OF assms(1)])
  fix c1 assume "inv c1"
  have "keeps (False \<or> (False \<or> v)) c1
      (bindr (move_argument h e c1) (\<lambda>c2. bindr (if inCall then borrow_argument e c2 else Inr c2) g))"
    using arguments_kept keeps_skip assms(2) \<open>inv c1\<close> by (intro keeps_bind) auto
  then show "keeps v c1
      (bindr (move_argument h e c1) (\<lambda>c2. bindr (if inCall then borrow_argument e c2 else Inr c2) g))" by simp
qed

lemma expression_kept:
  "inv c \<Longrightarrow> keeps (mentions watched e) c (checkExpression h e c)"
  "inv c \<Longrightarrow> keeps (mentions_node watched node) c (checkNode h src node c)"
  "inv c \<Longrightarrow> keeps (mentions_list watched es) c (checkArguments h inCall es c)"
  "inv c \<Longrightarrow> keeps (mentions_keywords watched ks) c (checkKeywordArguments h ks c)"
proof (induction h e c and h src node c and h inCall es c and h ks c
    rule: checkExpression_checkNode_checkArguments_checkKeywordArguments.induct)
  case (2 h src left operation right c)
  then show ?case by (simp add: keeps_bind)
next
  case (3 h src args callee kws ts c)
  then show ?case by (simp add: keeps_bind)
next
  case (5 h src index object c)
  then show ?case by (simp add: keeps_bind)
next
  case (7 h src args kws meth object ts c)
  then show ?case by (simp add: keeps_bind)
next
  case (8 h src isPrefix operand operation c)
  then show ?case by (cases operand) (simp_all add: keeps_skip keeps_operations split: option.split)
qed (simp_all add: keeps_skip keeps_operations keeps_bind argument_step)

lemma optional_kept: "inv c \<Longrightarrow> keeps (mentions_optional watched e) c (check_optional h e c)"
  by (simp add: check_optional_def mentions_optional_def keeps_skip expression_kept split: option.split)

lemma assignment_kept:
  assumes "inv c"
  shows "keeps (mentions watched e) c (checkAssignmentStatement h src target e c)"
  unfolding checkAssignmentStatement_def
proof (rule keeps_bind_weak [OF expression_kept(1) [OF assms]])
  fix c1 assume c1: "inv c1"
  have conflict: "keeps False d (checkBorrowConflict n True src d)" if "inv d" for n d
    using that keeps_skip keeps_operations(5) by (simp add: checkBorrowConflict_def split: option.split)
  have "keeps False c1 (bindr (if b then checker_error src msg hint c1 else Inr c1) (checkBorrowConflict n True src))"
    for b msg hint n
    using keeps_bind_weak [of False c1 "if b then checker_error src msg hint c1 else Inr c1"] c1 conflict
      keeps_operations(5) keeps_skip by simp
  then show "keeps False c1
      (case Option.bind (identifier_of target) (\<lambda>n. map_option (Pair n) (tracked c1 n)) of None \<Rightarrow> Inr c1
       | Some (n, i) \<Rightarrow> bindr (if \<not> info_isMutable i then checker_error src (''cannot assign to immutable variable '' @ quote n) [] c1
            else Inr c1) (checkBorrowConflict n True src))"
    using keeps_skip [OF c1] by (simp split: option.split)
qed

lemma identifier_mentions: "identifier_of e = Some n \<Longrightarrow> mentions W e = W n"
  by (cases e; cases "expression_node e") (simp_all add: identifier_of_def)

lemma delete_statement_kept:
  assumes "inv c"
  shows "keeps (mentions watched e) c (checkDeleteStatement h src e c)"
  using expression_kept(1) [OF assms] keeps_operations(4) [OF assms]
  by (simp add: checkDeleteStatement_def identifier_mentions split: option.split)

lemma return_kept:
  assumes "inv c"
  shows "keeps (mentions_optional watched e) c (checkReturnStatement h src e c)"
proof (cases e)
  case None
  then show ?thesis using keeps_skip [OF assms] by (simp add: checkReturnStatement_def mentions_optional_def)
next
  case (Some x)
  have "keeps False d (case Option.bind (referenced x) (\<lambda>n. map_option (Pair n) (tracked d n)) of None \<Rightarrow> Inr d
      | Some (n, i) \<Rightarrow> if 1 < info_scopeDepth i then checker_error src (m n) hint d else Inr d)" if "inv d" for d m hint
    using keeps_skip [OF that] keeps_operations(5) [OF that] by (simp split: option.split)
  then show ?thesis
    unfolding Some checkReturnStatement_def mentions_optional_def option.case
    by (intro keeps_bind_weak expression_kept(1) assms)
qed

lemma variable_kept:
  assumes "inv c" and "free n"
  shows "keeps (mentions_optional watched init) c (checkVarStatement h src address init isMutable n c)"
proof (cases init)
  case None
  then show ?thesis using declare_kept [OF assms]
    by (simp add: checkVarStatement_def mentions_optional_def keeps_def)
next
  case (Some e)
  have move: "keeps False d (move_initializer h src e d)" if "inv d" for d
    using keeps_skip [OF that] keeps_operations(2) [OF that, THEN keeps_weaken]
    by (simp add: move_initializer_def split: option.split)
  have noted: "keeps False d (Inr (annotate_variable address n e (declareOwnership n isMutable src d)))" if "inv d" for d
  proof -
    have d: "inv (declareOwnership n isMutable src d)" "rel False d (declareOwnership n isMutable src d)"
      using declare_kept [OF that assms(2)] by blast+
    show ?thesis using annotate_kept [OF d(1)] rel_trans [OF d(2)] by (fastforce simp: keeps_def)
  qed
  show ?thesis
    unfolding Some checkVarStatement_def mentions_optional_def option.case
    by (intro keeps_bind_weak expression_kept(1) assms(1) move noted)
qed

definition keeps_branches :: "bool \<Rightarrow> BorrowChecker \<Rightarrow> (BorrowChecker \<times> snapshot list) run \<Rightarrow> bool" where
  "keeps_branches u c r \<longleftrightarrow>
     (\<forall>d ends. r = Inr (d, ends) \<longrightarrow> inv d \<and> rel u c d \<and> list_all snap_ok ends \<and> ends \<noteq> [])"

lemma branches_Inr: "inv (fst r) \<Longrightarrow> list_all snap_ok (snd r) \<Longrightarrow> snd r \<noteq> [] \<Longrightarrow> keeps_branches False (fst r) (Inr r)"
  by (auto simp: keeps_branches_def rel_refl)

lemma branches_bind:
  assumes "keeps u c r" and "\<And>d. inv d \<Longrightarrow> keeps_branches v d (f d)"
  shows "keeps_branches (u \<or> v) c (bindr r f)"
  unfolding keeps_branches_def
proof (intro allI impI)
  fix e ends assume "bindr r f = Inr (e, ends)"
  then obtain d where d: "r = Inr d" "f d = Inr (e, ends)" by (auto simp: bindr_eq_Inr)
  with assms(1) have i: "inv d" "rel u c d" unfolding keeps_def by blast+
  with assms(2) [OF i(1)] d(2) have "inv e \<and> rel v d e \<and> list_all snap_ok ends \<and> ends \<noteq> []"
    unfolding keeps_branches_def by blast
  with i(2) show "inv e \<and> rel (u \<or> v) c e \<and> list_all snap_ok ends \<and> ends \<noteq> []" using rel_trans by blast
qed

lemma bind_branches:
  assumes "keeps_branches u c r"
    and "\<And>d ends. inv d \<Longrightarrow> list_all snap_ok ends \<Longrightarrow> ends \<noteq> [] \<Longrightarrow> keeps v d (f (d, ends))"
  shows "keeps (u \<or> v) c (bindr r f)"
  unfolding keeps_def
proof (intro allI impI)
  fix e assume "bindr r f = Inr e"
  then obtain d ends where d: "r = Inr (d, ends)" "f (d, ends) = Inr e" by (auto simp: bindr_eq_Inr)
  with assms(1) have i: "inv d" "rel u c d" "list_all snap_ok ends" "ends \<noteq> []" unfolding keeps_branches_def by blast+
  with assms(2) [OF i(1,3,4)] d(2) have "inv e" "rel v d e" unfolding keeps_def by blast+
  with i(2) show "inv e \<and> rel (u \<or> v) c e" using rel_trans by blast
qed

lemma branches_after:
  "inv d \<Longrightarrow> rel False c d \<Longrightarrow> keeps_branches v d r \<Longrightarrow> keeps_branches v c r"
  unfolding keeps_branches_def using rel_trans [of False c d v] by simp

lemma popped:
  assumes "inv c" and "inv (checker_pushScope c) \<Longrightarrow> keeps u (checker_pushScope c) r"
  shows "keeps u c (bindr r (\<lambda>c1. Inr (checker_popScope c1)))"
  unfolding keeps_def
proof (intro allI impI)
  fix e assume "bindr r (\<lambda>c1. Inr (checker_popScope c1)) = Inr e"
  then obtain d where d: "r = Inr d" "e = checker_popScope d" by (auto simp: bindr_eq_Inr)
  with assms(2) [OF push_kept [OF assms(1)]] have "inv d" "rel u (checker_pushScope c) d" unfolding keeps_def by blast+
  with d(2) show "inv e \<and> rel u c e" using pop_kept by blast
qed

lemma bindr_pop:
  "bindr r (\<lambda>c1. let t = checker_popScope c1 in F t) = bindr (bindr r (\<lambda>c1. Inr (checker_popScope c1))) F"
  by (cases r) (simp_all add: Let_def)

lemma restored_kept:
  assumes "inv t" and "snap_ok s" and "inv (restoreOwnershipStates s t) \<Longrightarrow> keeps u (restoreOwnershipStates s t) r"
  shows "keeps u t r"
  using keeps_after [of "restoreOwnershipStates s t" False t u r] restore_kept [OF assms(1,2)] assms(3) by simp

lemma merged_kept: "inv c \<Longrightarrow> list_all snap_ok ss \<Longrightarrow> ss \<noteq> [] \<Longrightarrow> keeps False c (Inr (mergeOwnershipStates ss c))"
  using merge_kept by (simp add: keeps_def)

lemma cleanup_kept:
  assumes "inv c"
  shows "keeps False c (checkLoopIterationCleanup c)" and "keeps False c (check_try_leaks c)"
proof -
  have all: "inv d \<Longrightarrow> (\<And>n e. inv e \<Longrightarrow> keeps False e (f n e)) \<Longrightarrow> keeps False d (foldr_res f ns d)"
    for ns d and f :: "string \<Rightarrow> BorrowChecker \<Rightarrow> BorrowChecker run"
  proof (induction ns arbitrary: d)
    case (Cons n ns)
    then show ?case using keeps_bind_weak [of False d "f n d" "foldr_res f ns"] by simp
  qed (simp add: keeps_skip)
  have "keeps False e (loop_cleanup_variable n e)" "keeps False e (try_leak_variable n e)" if "inv e" for n e
    using keeps_skip [OF that] keeps_operations(6) [OF that]
    by (simp_all add: loop_cleanup_variable_def try_leak_variable_def split: option.split)
  then show "keeps False c (checkLoopIterationCleanup c)" "keeps False c (check_try_leaks c)"
    using all [OF assms] keeps_skip [OF assms]
    by (simp_all add: checkLoopIterationCleanup_def check_try_leaks_def split: list.split)
qed

text \<open>A body in a scope of its own, with the flag of loops set around it.\<close>

lemma loop_kept:
  assumes "inv c" and "inv (checker_pushScope (c\<lparr>isInsideLoopFlag := b\<rparr>)) \<Longrightarrow> keeps u (checker_pushScope (c\<lparr>isInsideLoopFlag := b\<rparr>)) r"
  shows "keeps u c (bindr r
           (\<lambda>c1. Inr ((checker_popScope c1)\<lparr>isInsideLoopFlag := b'\<rparr>)))"
proof -
  let ?c = "c\<lparr>isInsideLoopFlag := b\<rparr>"
  have c: "inv ?c" "rel False c ?c" using loop_flag_kept [OF assms(1)] by blast+
  have "keeps u ?c (bindr (bindr r (\<lambda>c1. Inr (checker_popScope c1)))
      (\<lambda>d. Inr (d\<lparr>isInsideLoopFlag := b'\<rparr>)))"
    by (rule keeps_bind_weak [OF popped [OF c(1) assms(2)]]) (simp_all add: keeps_def loop_flag_kept)
  then show ?thesis using keeps_after [OF c] by (simp add: bindr_assoc)
qed

lemma unsafe_kept:
  assumes "inv c" and "inv (checker_pushScope (c\<lparr>isInsideUnsafeBlock := b\<rparr>)) \<Longrightarrow> keeps u (checker_pushScope (c\<lparr>isInsideUnsafeBlock := b\<rparr>)) r"
  shows "keeps u c (bindr r
           (\<lambda>c1. Inr ((checker_popScope c1)\<lparr>isInsideUnsafeBlock := b'\<rparr>)))"
proof -
  let ?c = "c\<lparr>isInsideUnsafeBlock := b\<rparr>"
  have c: "inv ?c" "rel False c ?c" using unsafe_flag_kept [OF assms(1)] by blast+
  have "keeps u ?c (bindr (bindr r (\<lambda>c1. Inr (checker_popScope c1)))
      (\<lambda>d. Inr (d\<lparr>isInsideUnsafeBlock := b'\<rparr>)))"
    by (rule keeps_bind_weak [OF popped [OF c(1) assms(2)]]) (simp_all add: keeps_def unsafe_flag_kept)
  then show ?thesis using keeps_after [OF c] by (simp add: bindr_assoc)
qed

lemma loop_variables_kept:
  assumes "inv c" and "free n" and "n2 \<noteq> [] \<longrightarrow> free n2"
  shows "inv (declare_loop_variables k n n2 src c)" and "rel False c (declare_loop_variables k n n2 src c)"
proof -
  note d = declare_kept [OF assms(1,2), of k src]
  show "inv (declare_loop_variables k n n2 src c)" "rel False c (declare_loop_variables k n n2 src c)"
    using d declare_kept [of "declareOwnership n k src c" n2 False src] assms(3)
      rel_trans [of False c "declareOwnership n k src c" False]
    by (auto simp: declare_loop_variables_def Let_def)
qed

text \<open>A branch: a body in a scope of its own, after which the states are taken and set back.\<close>

lemma branch_general:
  assumes "inv c" and "inv (checker_pushScope c) \<Longrightarrow> keeps u (checker_pushScope c) r"
    and undone: "\<And>t. inv t \<Longrightarrow> inv (g t) \<and> rel False t (g t)"
    and "\<And>d. inv (g (checker_popScope d)) \<Longrightarrow> snap_ok (snapshotOwnershipStates (checker_popScope d)) \<Longrightarrow>
           keeps_branches v (g (checker_popScope d)) (F (checker_popScope d))"
  shows "keeps_branches (u \<or> v) c (bindr r (\<lambda>c1. let t = checker_popScope c1 in F t))"
proof -
  have push: "inv (checker_pushScope c)" using push_kept [OF assms(1)] .
  have step: "keeps_branches (u \<or> v) c (F (checker_popScope d))" if d: "inv d" "rel u (checker_pushScope c) d" for d
  proof -
    let ?t = "checker_popScope d"
    have t: "inv ?t" "rel u c ?t" using pop_kept [OF d] by blast+
    have "keeps_branches v ?t (F ?t)"
      using branches_after [of "g ?t" ?t v "F ?t"] undone [OF t(1)] assms(4) snapshot_ok [OF t(1)] by blast
    then show ?thesis using t(2) rel_trans unfolding keeps_branches_def by blast
  qed
  show ?thesis
    using assms(2) [OF push] step unfolding keeps_def keeps_branches_def by (auto simp: Let_def)
qed

lemmas branch_kept = branch_general [OF _ _ restore_kept]

lemma else_kept:
  assumes "inv c" and "snap_ok pre" and "list_all snap_ok ends" and "inv (checker_pushScope c) \<Longrightarrow> keeps u (checker_pushScope c) r"
  shows "keeps u c (bindr r (\<lambda>c1. let e = checker_popScope c1 in
           Inr (mergeOwnershipStates (ends @ [snapshotOwnershipStates e]) (restoreOwnershipStates pre e))))"
  unfolding bindr_pop
proof (rule keeps_bind_weak [OF popped [OF assms(1,4)]])
  fix e assume e: "inv e"
  show "keeps False e (Inr (mergeOwnershipStates (ends @ [snapshotOwnershipStates e]) (restoreOwnershipStates pre e)))"
    by (rule restored_kept [OF e assms(2)], rule merged_kept) (simp_all add: assms(3) snapshot_ok [OF e])
qed

lemma statement_kept:
  "inv c \<Longrightarrow> declares free s \<Longrightarrow> keeps (uses watched s) c (checkStatement h s c)"
  "inv c \<Longrightarrow> declares_node free node \<Longrightarrow> keeps (uses_node watched node) c (checkStatementNode h src node c)"
  "inv c \<Longrightarrow> declares_list free ss \<Longrightarrow> keeps (uses_list watched ss) c (checkStatements h ss c)"
  "inv (fst r) \<Longrightarrow> snap_ok pre \<Longrightarrow> list_all snap_ok (snd r) \<Longrightarrow> snd r \<noteq> [] \<Longrightarrow> declares_elifs free bs \<Longrightarrow>
     keeps_branches (uses_elifs watched bs) (fst r) (checkElifs h pre bs r)"
  "inv (fst r) \<Longrightarrow> list_all snap_ok (snd r) \<Longrightarrow> snd r \<noteq> [] \<Longrightarrow> declares_clauses free cs \<Longrightarrow>
     keeps_branches (uses_clauses watched cs) (fst r) (checkClauses h cs r)"
proof (induction h s c and h src node c and h ss c and h pre bs r and h cs r
    rule: checkStatement_checkStatementNode_checkStatements_checkElifs_checkClauses.induct)
  case (5 h src body cond init iterable isCStyle update n n2 vt vt2 c)
  have names: "free n" "n2 \<noteq> [] \<longrightarrow> free n2" using 5 by simp_all
  have body: "keeps (uses_list watched body) d (checkStatements h body d)" if "inv d" for d
    using 5 that by simp
  have update: "keeps (case update of None \<Rightarrow> False | Some s \<Rightarrow> uses watched s) d
      (case update of None \<Rightarrow> Inr d | Some s \<Rightarrow> checkStatement h s d)" if "inv d" for d
    using 5 that keeps_skip [OF that] by (simp split: option.splits)
  have inner: "keeps (mentions_optional watched init \<or> mentions_optional watched cond
       \<or> (case update of None \<Rightarrow> False | Some s \<Rightarrow> uses watched s) \<or> uses_list watched body) d
      (bindr (check_optional h init (declare_loop_variables k n n2 src d)) (\<lambda>c1. bindr (check_optional h cond c1) (\<lambda>c2.
       bindr (case update of None \<Rightarrow> Inr c2 | Some s \<Rightarrow> checkStatement h s c2) (\<lambda>c3.
       bindr (checkStatements h body c3) checkLoopIterationCleanup))))" if "inv d" for d k
  proof -
    note v = loop_variables_kept [OF that names, of k src]
    have "keeps (mentions_optional watched init \<or> (mentions_optional watched cond
        \<or> ((case update of None \<Rightarrow> False | Some s \<Rightarrow> uses watched s) \<or> uses_list watched body))) (declare_loop_variables k n n2 src d)
      (bindr (check_optional h init (declare_loop_variables k n n2 src d)) (\<lambda>c1. bindr (check_optional h cond c1) (\<lambda>c2.
       bindr (case update of None \<Rightarrow> Inr c2 | Some s \<Rightarrow> checkStatement h s c2) (\<lambda>c3.
       bindr (checkStatements h body c3) checkLoopIterationCleanup))))"
      by (intro keeps_bind optional_kept update v(1) keeps_bind_weak [OF body] cleanup_kept(1))
    then show ?thesis using keeps_after [OF v] by simp
  qed
  have "keeps (mentions_optional watched iterable \<or> (mentions_optional watched init \<or> mentions_optional watched cond
       \<or> (case update of None \<Rightarrow> False | Some s \<Rightarrow> uses watched s) \<or> uses_list watched body)) c
      (bindr (check_optional h iterable c) (\<lambda>c0. bindr
        (bindr (check_optional h init (declare_loop_variables (init \<noteq> None \<or> update \<noteq> None) n n2 src
              (checker_pushScope (c0\<lparr>isInsideLoopFlag := True\<rparr>)))) (\<lambda>c1. bindr (check_optional h cond c1) (\<lambda>c2.
       bindr (case update of None \<Rightarrow> Inr c2 | Some s \<Rightarrow> checkStatement h s c2) (\<lambda>c3.
       bindr (checkStatements h body c3) checkLoopIterationCleanup))))
        (\<lambda>c5. Inr ((checker_popScope c5)\<lparr>isInsideLoopFlag := isInsideLoopFlag c0\<rparr>))))"
  proof (rule keeps_bind [OF optional_kept [OF "5.prems"(1)]])
    fix c0 assume "inv c0"
    then show "keeps (mentions_optional watched init \<or> mentions_optional watched cond
       \<or> (case update of None \<Rightarrow> False | Some s \<Rightarrow> uses watched s) \<or> uses_list watched body) c0
      (bindr (bindr (check_optional h init (declare_loop_variables (init \<noteq> None \<or> update \<noteq> None) n n2 src
              (checker_pushScope (c0\<lparr>isInsideLoopFlag := True\<rparr>)))) (\<lambda>c1. bindr (check_optional h cond c1) (\<lambda>c2.
       bindr (case update of None \<Rightarrow> Inr c2 | Some s \<Rightarrow> checkStatement h s c2) (\<lambda>c3.
       bindr (checkStatements h body c3) checkLoopIterationCleanup))))
        (\<lambda>c5. Inr ((checker_popScope c5)\<lparr>isInsideLoopFlag := isInsideLoopFlag c0\<rparr>)))"
      by (rule loop_kept) (rule inner)
  qed
  then show ?case by (simp add: bindr_assoc)
next
  case (10 h src body c)
  have "keeps (uses_list watched body) c (bindr (checkStatements h body (checker_pushScope (c\<lparr>isInsideUnsafeBlock := True\<rparr>)))
      (\<lambda>c1. Inr ((checker_popScope c1)\<lparr>isInsideUnsafeBlock := isInsideUnsafeBlock c\<rparr>)))"
    using 10 by (intro unsafe_kept) simp_all
  then show ?case by simp
next
  case (12 h src body cond c)
  have "keeps (mentions watched cond \<or> uses_list watched body) c
      (bindr (checkExpression h cond c) (\<lambda>c0. bindr
        (bindr (checkStatements h body (checker_pushScope (c0\<lparr>isInsideLoopFlag := True\<rparr>))) checkLoopIterationCleanup)
        (\<lambda>c2. Inr ((checker_popScope c2)\<lparr>isInsideLoopFlag := isInsideLoopFlag c0\<rparr>))))"
    using 12 by (intro keeps_bind expression_kept(1) loop_kept keeps_bind_weak cleanup_kept(1)) simp_all
  then show ?case by (simp add: bindr_assoc)
next
  case (6 h src cond elifs elseBody thenBody c)
  show ?case
    unfolding checkStatementNode.simps uses_node.simps
  proof (rule keeps_bind [OF expression_kept(1) [OF "6.prems"(1)]])
    fix c0 assume c0: "inv c0"
    let ?pre = "snapshotOwnershipStates c0"
    note pre = snapshot_ok [OF c0]
    have "keeps_branches (uses_list watched thenBody \<or> uses_elifs watched elifs) c0
        (bindr (checkStatements h thenBody (checker_pushScope c0)) (\<lambda>c1. let t = checker_popScope c1 in
          checkElifs h ?pre elifs (restoreOwnershipStates ?pre t, [snapshotOwnershipStates t])))"
      using 6 pre by (intro branch_kept [OF c0 _ _ pre]) simp_all
    then have "keeps ((uses_list watched thenBody \<or> uses_elifs watched elifs) \<or> uses_list watched elseBody) c0
        (bindr (bindr (checkStatements h thenBody (checker_pushScope c0)) (\<lambda>c1. let t = checker_popScope c1 in
          checkElifs h ?pre elifs (restoreOwnershipStates ?pre t, [snapshotOwnershipStates t]))) (\<lambda>(c2, ends).
         if elseBody \<noteq> [] then
           bindr (checkStatements h elseBody (checker_pushScope c2)) (\<lambda>c3. let e = checker_popScope c3 in
             Inr (mergeOwnershipStates (ends @ [snapshotOwnershipStates e]) (restoreOwnershipStates ?pre e)))
         else Inr (mergeOwnershipStates (ends @ [?pre]) c2)))"
    proof (rule bind_branches)
      fix d ends assume d: "inv d" "list_all snap_ok ends" "ends \<noteq> []"
      show "keeps (uses_list watched elseBody) d (case (d, ends) of (c2, ends) \<Rightarrow>
         if elseBody \<noteq> [] then
           bindr (checkStatements h elseBody (checker_pushScope c2)) (\<lambda>c3. let e = checker_popScope c3 in
             Inr (mergeOwnershipStates (ends @ [snapshotOwnershipStates e]) (restoreOwnershipStates ?pre e)))
         else Inr (mergeOwnershipStates (ends @ [?pre]) c2))"
        using 6 else_kept [OF d(1) pre d(2)] merged_kept [of d "ends @ [?pre]"] d pre by simp
    qed
    then show "keeps (uses_list watched thenBody \<or> uses_elifs watched elifs \<or> uses_list watched elseBody) c0
        (let pre = snapshotOwnershipStates c0 in bindr (checkStatements h thenBody (checker_pushScope c0)) (\<lambda>c1.
         let t = checker_popScope c1 in
         bindr (checkElifs h pre elifs (restoreOwnershipStates pre t, [snapshotOwnershipStates t])) (\<lambda>(c2, ends).
         if elseBody \<noteq> [] then
           bindr (checkStatements h elseBody (checker_pushScope c2)) (\<lambda>c3. let e = checker_popScope c3 in
             Inr (mergeOwnershipStates (ends @ [snapshotOwnershipStates e]) (restoreOwnershipStates pre e)))
         else Inr (mergeOwnershipStates (ends @ [pre]) c2))))"
      by (simp add: Let_def bindr_assoc)
  qed
next
  case (9 h src clauses finallyBody tryBody c)
  note c = "9.prems"(1)
  note pre = snapshot_ok [OF c]
  let ?pre = "snapshotOwnershipStates c"
  let ?g = "\<lambda>t. mergeOwnershipStates [?pre, snapshotOwnershipStates t] (restoreOwnershipStates ?pre t)"
  have undone: "inv (?g t) \<and> rel False t (?g t)" if "inv t" for t
    using restore_kept [OF that pre] merge_kept [of "restoreOwnershipStates ?pre t" "[?pre, snapshotOwnershipStates t]"]
      snapshot_ok [OF that] pre rel_trans [of False t "restoreOwnershipStates ?pre t" False] by simp
  have "keeps_branches (uses_list watched tryBody \<or> uses_clauses watched clauses) c
      (bindr (bindr (checkStatements h tryBody (checker_pushScope c)) check_try_leaks) (\<lambda>c2. let t = checker_popScope c2 in
        checkClauses h clauses (?g t, [snapshotOwnershipStates t])))"
    using 9 by (intro branch_general [where g = ?g, OF c _ undone] keeps_bind_weak cleanup_kept(2)) simp_all
  then have "keeps ((uses_list watched tryBody \<or> uses_clauses watched clauses) \<or> uses_list watched finallyBody) c
      (bindr (bindr (bindr (checkStatements h tryBody (checker_pushScope c)) check_try_leaks) (\<lambda>c2. let t = checker_popScope c2 in
        checkClauses h clauses (?g t, [snapshotOwnershipStates t]))) (\<lambda>(c4, ends).
        let c5 = mergeOwnershipStates ends c4 in
        if finallyBody \<noteq> [] then bindr (checkStatements h finallyBody (checker_pushScope c5)) (\<lambda>c6. Inr (checker_popScope c6))
        else Inr c5))"
  proof (rule bind_branches)
    fix d ends assume d: "inv d" "list_all snap_ok ends" "ends \<noteq> []"
    note m = merge_kept [OF d]
    have "keeps (uses_list watched finallyBody) (mergeOwnershipStates ends d)
        (if finallyBody \<noteq> []
         then bindr (checkStatements h finallyBody (checker_pushScope (mergeOwnershipStates ends d))) (\<lambda>c6. Inr (checker_popScope c6))
         else Inr (mergeOwnershipStates ends d))"
      using 9 m popped [of "mergeOwnershipStates ends d"] keeps_skip by simp
    then show "keeps (uses_list watched finallyBody) d (case (d, ends) of (c4, ends) \<Rightarrow>
        let c5 = mergeOwnershipStates ends c4 in
        if finallyBody \<noteq> [] then bindr (checkStatements h finallyBody (checker_pushScope c5)) (\<lambda>c6. Inr (checker_popScope c6))
        else Inr c5)"
      using keeps_after [of "mergeOwnershipStates ends d" False d] m by (simp add: Let_def)
  qed
  then show ?case by (simp add: Let_def bindr_assoc)
next
  case (17 h pre cond body bs r)
  show ?case
    unfolding checkElifs.simps uses_elifs.simps
  proof (rule branches_bind [OF expression_kept(1) [OF "17.prems"(1)]])
    fix c0 assume c0: "inv c0"
    show "keeps_branches (uses_list watched body \<or> uses_elifs watched bs) c0
        (bindr (checkStatements h body (checker_pushScope c0)) (\<lambda>c1. let t = checker_popScope c1 in
          checkElifs h pre bs (restoreOwnershipStates pre t, snd r @ [snapshotOwnershipStates t])))"
      using 17 by (intro branch_kept [OF c0 _ _ "17.prems"(2)]) simp_all
  qed
next
  case (19 h body types n at cs r)
  note c0 = "19.prems"(1)
  show ?case
    unfolding checkClauses.simps uses_clauses.simps
    using 19 by (intro branch_kept [OF c0 _ _ snapshot_ok [OF c0]]) simp_all
qed (simp_all add: keeps_skip keeps_operations keeps_bind branches_Inr assignment_kept delete_statement_kept expression_kept return_kept
   variable_kept optional_kept)

lemma block_kept:
  assumes "inv c" and "declares_list free body"
  shows "keeps (uses_list watched body) c (checkBlock h body c)"
  unfolding checkBlock_def by (rule popped [OF assms(1)]) (rule statement_kept(3) [OF _ assms(2)])

lemma parameters_kept:
  assumes "inv c" and "\<And>p. p \<in> set ps \<Longrightarrow> \<not> parameter_isSelf p \<Longrightarrow> free (parameter_name p)"
  shows "inv (fold declare_parameter ps c) \<and> rel False c (fold declare_parameter ps c)"
  using assms
proof (induction ps arbitrary: c)
  case (Cons p ps)
  have p: "inv (declare_parameter p c) \<and> rel False c (declare_parameter p c)"
    using Cons.prems declare_kept by (simp add: declare_parameter_def rel_refl)
  with Cons.IH [of "declare_parameter p c"] Cons.prems(2)
  show ?case using rel_trans [of False c "declare_parameter p c" False] by simp
qed (simp add: rel_refl)

definition declares_function :: "declaration_tree function_declaration \<Rightarrow> bool" where
  "declares_function f \<longleftrightarrow> declares_list free (decl_body f)
     \<and> (\<forall>p \<in> set (decl_parameters f). \<not> parameter_isSelf p \<longrightarrow> free (parameter_name p))"

lemma function_kept:
  assumes "inv c" and "declares_function f"
  shows "keeps (uses_list watched (decl_body f)) c (checkFunctionDeclaration h f c)"
  unfolding checkFunctionDeclaration_def
proof (rule popped [OF assms(1)])
  assume push: "inv (checker_pushScope c)"
  have p: "inv (fold declare_parameter (decl_parameters f) (checker_pushScope c))"
    "rel False (checker_pushScope c) (fold declare_parameter (decl_parameters f) (checker_pushScope c))"
    using parameters_kept [OF push] assms(2) unfolding declares_function_def by blast+
  have "declares_list free (decl_body f)" using assms(2) unfolding declares_function_def by blast
  from keeps_after [OF p block_kept [OF p(1) this]]
  show "keeps (uses_list watched (decl_body f)) (checker_pushScope c)
      (checkBlock h (decl_body f) (fold declare_parameter (decl_parameters f) (checker_pushScope c)))" by simp
qed

lemma declaration_kept:
  assumes "inv c" and "\<And>t f. d = Some t \<Longrightarrow> declaration_node t = FunctionDeclaration f \<Longrightarrow> declares_function f"
  shows "keeps False c (checkDeclaration h d c)"
  using keeps_skip [OF assms(1)] function_kept [OF assms(1), THEN keeps_weaken] assms(2)
  by (auto simp: checkDeclaration_def split: option.split declaration_shape.split)

lemma declarations_kept:
  assumes "inv c"
    and "\<And>t f. Some t \<in> set ds \<Longrightarrow> declaration_node t = FunctionDeclaration f \<Longrightarrow> declares_function f"
  shows "keeps False c (foldr_res (checkDeclaration h) ds c)"
  using assms
proof (induction ds arbitrary: c)
  case (Cons d ds)
  have "keeps False c (bindr (checkDeclaration h d c) (foldr_res (checkDeclaration h) ds))"
    using Cons by (intro keeps_bind_weak declaration_kept) auto
  then show ?case by simp
qed (simp add: keeps_skip)

lemma program_kept:
  assumes "inv c"
    and "\<And>t f. Some t \<in> set (program_declarations p) \<Longrightarrow> declaration_node t = FunctionDeclaration f \<Longrightarrow> declares_function f"
  shows "keeps False c (check_program h p c)"
  unfolding check_program_def
  by (rule popped [OF assms(1)]) (rule declarations_kept [OF _ assms(2)])

end

end
