(* ===== verification/AstBorrowLaws.thy ===== *)
theory AstBorrowLaws
  imports AstContract
begin

text \<open>
  What the ownership checker of the syntax tree guarantees and what it misses. A variable that is moved stays moved through every
  statement that does not declare its name again, and each use the checker comes to is reported
  (\<open>use_after_move_rejected\<close>). The scopes and the counters of the checker stay consistent (\<open>checker_balanced\<close>). The examples
  show the programs for which it is silent or wrong.
\<close>

section \<open>Examples\<close>

definition node_expression :: "expression_node \<Rightarrow> expression" where
  "node_expression n = Expression default_source None n"

definition node_statement :: "statement_node \<Rightarrow> statement" where
  "node_statement n = Statement default_source n"

definition name_expression :: "string \<Rightarrow> expression" where
  "name_expression n = node_expression (IdentifierExpression n [])"

definition declare_var :: "string \<Rightarrow> statement" where
  "declare_var n = node_statement (VariableStatement 0 (Some (node_expression (IntegerLiteral ''1'' 1))) False True n None)"

definition delete_var :: "string \<Rightarrow> statement" where
  "delete_var n = node_statement (DeleteStatement (name_expression n))"

definition move_var :: "string \<Rightarrow> statement" where
  "move_var n = node_statement (ExpressionStatement (node_expression
     (UnaryExpression True (Some (name_expression n)) (Memory KeywordMove))))"

definition use_var :: "string \<Rightarrow> statement" where
  "use_var n = node_statement (ExpressionStatement (name_expression n))"

definition pass_reference :: "string \<Rightarrow> statement" where
  "pass_reference n = node_statement (ExpressionStatement (node_expression (CallExpression
     [node_expression (UnaryExpression True (Some (name_expression n)) (Bitwise Ampersand))]
     (name_expression ''f'') [] [])))"

definition plain_function :: "string \<Rightarrow> parameter list \<Rightarrow> statement list \<Rightarrow> declaration_tree function_declaration" where
  "plain_function n ps body =
     Function body [] False False False False False False False False False False n [] ps [] None"

definition declare_node :: "declaration_node \<Rightarrow> declaration_tree" where
  "declare_node = Declared default_source Access_Public False"

definition program_of :: "declaration_tree list \<Rightarrow> program" where
  "program_of ds = \<lparr>program_declarations = map Some ds, program_exports = [], program_imports = [], program_module = None\<rparr>"

definition main_function :: "statement list \<Rightarrow> declaration_tree" where
  "main_function body = declare_node (FunctionDeclaration (plain_function ''main'' [] body))"

definition reports :: "BorrowChecker run \<Rightarrow> string list option" where
  "reports r = (case r of Inl _ \<Rightarrow> None | Inr c \<Rightarrow> Some (map messages (vdiagnostics (checker_diagnostic c))))"

definition checked :: "(string \<Rightarrow> bool) \<Rightarrow> statement list \<Rightarrow> string list option" where
  "checked garbage body =
     reports (check_program [] (program_of [main_function body]) (new_BorrowChecker (Engine_with_limits 0 0) garbage))"


section \<open>The operations on the tracked variables\<close>

lemma map_of_map_values: "map_of (map (\<lambda>(n, i). (n, f n i)) xs) m = map_option (f m) (map_of xs m)"
  by (induction xs) auto

lemma tracked_track [simp]: "tracked (track n i c) = (tracked c)(n \<mapsto> i)"
  by (simp add: tracked_def track_def update_conv')

lemma tracked_updates [simp]:
  "tracked (c\<lparr>checker_diagnostic := e\<rparr>) = tracked c"
  "tracked (c\<lparr>isInsideLoopFlag := b\<rparr>) = tracked c"
  "tracked (c\<lparr>isInsideUnsafeBlock := b\<rparr>) = tracked c"
  "tracked (c\<lparr>variableScope := vs\<rparr>) = tracked c"
  "tracked (c\<lparr>currentScopeDepth := d\<rparr>) = tracked c"
  "tracked (c\<lparr>ownershipAnnotations := a\<rparr>) = tracked c"
  by (simp_all add: tracked_def fun_eq_iff)

lemma track_fields [simp]:
  "checker_diagnostic (track n i c) = checker_diagnostic c" "variableScope (track n i c) = variableScope c"
  "currentScopeDepth (track n i c) = currentScopeDepth c" "indeterminate (track n i c) = indeterminate c"
  by (simp_all add: track_def)

definition dropped :: "string \<Rightarrow> string \<Rightarrow> BorrowOwnershipInfo \<Rightarrow> BorrowOwnershipInfo" where
  "dropped n v i = (if v = n then (release n i)\<lparr>info_state := Var_Dropped\<rparr> else release n i)"

lemma tracked_drop:
  "tracked (dropValue n c) v = (if tracked c n = None then tracked c v else map_option (dropped n v) (tracked c v))"
  by (auto simp: dropValue_def tracked_def dropped_def [abs_def] map_of_map_values split: option.split)

lemma drop_fields [simp]:
  "checker_diagnostic (dropValue n c) = checker_diagnostic c" "variableScope (dropValue n c) = variableScope c"
  "currentScopeDepth (dropValue n c) = currentScopeDepth c" "indeterminate (dropValue n c) = indeterminate c"
  by (simp_all add: dropValue_def split: option.split)

lemma drops_fields [simp]:
  "checker_diagnostic (fold dropValue ns c) = checker_diagnostic c" "variableScope (fold dropValue ns c) = variableScope c"
  "currentScopeDepth (fold dropValue ns c) = currentScopeDepth c" "indeterminate (fold dropValue ns c) = indeterminate c"
  by (induction ns arbitrary: c) simp_all

lemma tracked_pop:
  "tracked (checker_popScope c) = (case variableScope c of [] \<Rightarrow> tracked c | vs # _ \<Rightarrow> tracked (fold dropValue (rev vs) c))"
  by (simp add: checker_popScope_def split: list.split)

lemma pop_fields [simp]:
  "checker_diagnostic (checker_popScope c) = checker_diagnostic c" "variableScope (checker_popScope c) = tl (variableScope c)"
  "currentScopeDepth (checker_popScope c) = (if variableScope c = [] then currentScopeDepth c else currentScopeDepth c - 1)"
  "indeterminate (checker_popScope c) = indeterminate c"
  by (simp_all add: checker_popScope_def split: list.split)

lemma pushed_fields [simp]:
  "tracked (checker_pushScope c) = tracked c" "checker_diagnostic (checker_pushScope c) = checker_diagnostic c"
  "variableScope (checker_pushScope c) = [] # variableScope c"
  "currentScopeDepth (checker_pushScope c) = currentScopeDepth c + 1"
  "indeterminate (checker_pushScope c) = indeterminate c"
  by (simp_all add: checker_pushScope_def tracked_def fun_eq_iff)

lemma map_of_snapshot: "map_of (snapshotOwnershipStates c) n = map_option info_state (tracked c n)"
  by (simp add: snapshotOwnershipStates_def tracked_def map_of_map_values [of "\<lambda>_. info_state"])

definition set_back :: "snapshot \<Rightarrow> string \<Rightarrow> BorrowOwnershipInfo \<Rightarrow> BorrowOwnershipInfo" where
  "set_back s n i = (case map_of s n of None \<Rightarrow> i | Some st \<Rightarrow> i\<lparr>info_state := st\<rparr>)"

lemma tracked_restore: "tracked (restoreOwnershipStates s c) n = map_option (set_back s n) (tracked c n)"
  by (simp add: restoreOwnershipStates_def tracked_def set_back_def [abs_def] map_of_map_values [of "\<lambda>n i. case map_of s n of None \<Rightarrow> i | Some st \<Rightarrow> i\<lparr>info_state := st\<rparr>"])

lemma restore_fields [simp]:
  "checker_diagnostic (restoreOwnershipStates s c) = checker_diagnostic c"
  "variableScope (restoreOwnershipStates s c) = variableScope c"
  "currentScopeDepth (restoreOwnershipStates s c) = currentScopeDepth c"
  "indeterminate (restoreOwnershipStates s c) = indeterminate c"
  by (simp_all add: restoreOwnershipStates_def)

lemma declare_fields [simp]:
  "checker_diagnostic (declareOwnership n m src c) = checker_diagnostic c"
  "variableScope (declareOwnership n m src c) = (case variableScope c of [] \<Rightarrow> [] | vs # rest \<Rightarrow> (vs @ [n]) # rest)"
  "currentScopeDepth (declareOwnership n m src c) = currentScopeDepth c"
  "indeterminate (declareOwnership n m src c) = indeterminate c"
  by (simp_all add: declareOwnership_def Let_def split: list.split)

definition declared_info :: "string \<Rightarrow> bool \<Rightarrow> Source \<Rightarrow> BorrowChecker \<Rightarrow> BorrowOwnershipInfo" where
  "declared_info n m src c =
     \<lparr>activeBorrows = [], arenaOwnerName = [], astNode = None, declarationSource = src,
      hasMutableBorrow = indeterminate c n, immutableBorrowCount = 0, isArenaManaged = False,
      isHeapAllocated = False, info_isMutable = m, info_name = n,
      info_scopeDepth = currentScopeDepth c, info_state = Var_Owned\<rparr>"

lemma tracked_declare: "tracked (declareOwnership n m src c) = (tracked c)(n \<mapsto> declared_info n m src c)"
  by (simp add: declareOwnership_def declared_info_def Let_def split: list.split)

lemma annotate_fields [simp]:
  "checker_diagnostic (annotate_variable a n e c) = checker_diagnostic c"
  "variableScope (annotate_variable a n e c) = variableScope c"
  "currentScopeDepth (annotate_variable a n e c) = currentScopeDepth c"
  "indeterminate (annotate_variable a n e c) = indeterminate c"
  by (simp_all add: annotate_variable_def Let_def split: option.split)

text \<open>What a note on a variable leaves as it is.\<close>

definition same_ownership :: "BorrowOwnershipInfo \<Rightarrow> BorrowOwnershipInfo \<Rightarrow> bool" where
  "same_ownership i j \<longleftrightarrow> activeBorrows j = activeBorrows i \<and> hasMutableBorrow j = hasMutableBorrow i
     \<and> immutableBorrowCount j = immutableBorrowCount i \<and> info_state j = info_state i"

lemma tracked_annotate:
  "tracked (annotate_variable a n e c) v = tracked c v
   \<or> (\<exists>i j. v = n \<and> tracked c n = Some i \<and> tracked (annotate_variable a n e c) n = Some j \<and> same_ownership i j)"
  by (cases "tracked c n")
    (auto simp: annotate_variable_def Let_def same_ownership_def split: option.split expression_shape.split)

section \<open>What is reported\<close>

lemma record_diagnostics [simp]: "vdiagnostics (record_diagnostic e d) = vdiagnostics e @ [d]"
  by simp

lemma checker_error_Inr:
  assumes "checker_error src msg hint c = Inr d"
  obtains e x where "d = c\<lparr>checker_diagnostic := e\<rparr>" and "vdiagnostics e = vdiagnostics (checker_diagnostic c) @ [x]"
    and "counts_as_error x"
  using assms emit_InrD
  by (fastforce simp: checker_error_def with_engine_def emit_error_def map_sum_def counts_as_error_def split: sum.splits)

lemma checker_warning_Inr:
  assumes "checker_warning src msg c = Inr d"
  obtains e x where "d = c\<lparr>checker_diagnostic := e\<rparr>" and "vdiagnostics e = vdiagnostics (checker_diagnostic c) @ [x]"
  using assms emit_InrD
  by (fastforce simp: checker_warning_def with_engine_def emit_warning_def map_sum_def split: sum.splits)

section \<open>Reports and names are never lost\<close>

definition grown :: "BorrowChecker \<Rightarrow> BorrowChecker \<Rightarrow> bool" where
  "grown c d \<longleftrightarrow>
     (\<exists>xs. vdiagnostics (checker_diagnostic d) = vdiagnostics (checker_diagnostic c) @ xs)
     \<and> dom (tracked c) \<subseteq> dom (tracked d)"

lemma grownI:
  assumes "vdiagnostics (checker_diagnostic d) = vdiagnostics (checker_diagnostic c) @ xs"
    and "\<And>n. tracked c n \<noteq> None \<Longrightarrow> tracked d n \<noteq> None"
  shows "grown c d"
  using assms by (auto simp: grown_def dom_def)

lemma grown_same:
  "checker_diagnostic d = checker_diagnostic c \<Longrightarrow> (\<And>n. tracked c n \<noteq> None \<Longrightarrow> tracked d n \<noteq> None) \<Longrightarrow> grown c d"
  by (rule grownI [where xs = "[]"]) simp_all

lemma grows_trans: "grown c1 c2 \<Longrightarrow> grown c2 c3 \<Longrightarrow> grown c1 c3"
  unfolding grown_def by (metis append.assoc order_trans)

lemma grown_error: "checker_error src msg hint c = Inr d \<Longrightarrow> grown c d"
  by (erule checker_error_Inr) (auto intro!: grownI)

lemma grown_warning: "checker_warning src msg c = Inr d \<Longrightarrow> grown c d"
  by (erule checker_warning_Inr) (auto intro!: grownI)

lemma tracked_drops: "tracked c v \<noteq> None \<Longrightarrow> tracked (fold dropValue ns c) v \<noteq> None"
  by (induction ns arbitrary: c) (auto simp: tracked_drop)

lemma grown_drop: "grown c (dropValue n c)"
  by (rule grown_same) (auto simp: tracked_drop)

lemma grown_pop: "grown c (checker_popScope c)"
  by (rule grown_same) (simp_all add: tracked_pop tracked_drops del: not_None_eq split: list.split)

interpretation reports_grow: contract "\<lambda>_. True" "\<lambda>_. grown" "\<lambda>_. True" "\<lambda>_. False" "\<lambda>_. True"
proof unfold_locales
  show "grown c1 c2 \<Longrightarrow> grown c2 c3 \<Longrightarrow> grown c1 c3" for c1 c2 c3 by (rule grows_trans)
  show "True \<and> grown c d" if "checkUseAfterMove n src c = Inr d" for n src c d
    using that by (auto simp: checkUseAfterMove_def intro: grown_error grown_same split: option.splits if_splits)
  show "True \<and> grown c d" if "moveValue n src c = Inr d" for n src c d
    using that by (auto simp: moveValue_def Let_def intro: grown_error grown_same split: option.splits if_splits)
  show "True \<and> grown c d" if "borrowValue n w False src c = Inr d" for n w src c d
    using that by (auto simp: borrowValue_def Let_def intro: grown_error grown_same split: option.splits if_splits)
  show "True \<and> grown c d" if "delete_named n src c = Inr d" for n src c d
    using that by (auto simp: delete_named_def intro: grown_error grown_same grown_drop split: option.splits if_splits)
  show "True \<and> grown c (annotate_variable adr n e c)" for adr n e c
    using tracked_annotate [of adr n e c] by (intro conjI grown_same) (simp_all, metis option.distinct(1))
  show "True \<and> grown c (checker_popScope d)" if "grown (checker_pushScope c) d" for c d
    using that grown_pop [of d] grows_trans [of "checker_pushScope c" d] by (simp add: grown_def)
qed (auto simp: tracked_restore tracked_declare mergeOwnershipStates_def intro: grown_same dest: grown_error grown_warning)

section \<open>No name is tracked twice\<close>

definition names_ok :: "BorrowChecker \<Rightarrow> bool" where
  "names_ok c \<longleftrightarrow> distinct (map fst (ownershipTracking c))"

lemma fst_values [simp]: "fst \<circ> (\<lambda>(n, i). (n, f n i)) = fst"
  by (simp add: fun_eq_iff)

lemma names_updates [simp]:
  "names_ok (c\<lparr>checker_diagnostic := e\<rparr>) = names_ok c" "names_ok (c\<lparr>isInsideLoopFlag := b\<rparr>) = names_ok c"
  "names_ok (c\<lparr>isInsideUnsafeBlock := b\<rparr>) = names_ok c" "names_ok (c\<lparr>variableScope := vs\<rparr>) = names_ok c"
  "names_ok (c\<lparr>currentScopeDepth := d\<rparr>) = names_ok c" "names_ok (c\<lparr>ownershipAnnotations := a\<rparr>) = names_ok c"
  "names_ok (checker_pushScope c) = names_ok c"
  by (simp_all add: names_ok_def checker_pushScope_def)

lemma names_track [simp]: "names_ok c \<Longrightarrow> names_ok (track n i c)"
  by (simp add: names_ok_def track_def distinct_update)

lemma names_drop [simp]: "names_ok (dropValue n c) = names_ok c"
  by (simp add: names_ok_def dropValue_def split: option.split)

lemma names_drops [simp]: "names_ok (fold dropValue ns c) = names_ok c"
  by (induction ns arbitrary: c) simp_all

lemma names_pop [simp]: "names_ok (checker_popScope c) = names_ok c"
  by (simp add: checker_popScope_def split: list.split)

lemma names_restore [simp]: "names_ok (restoreOwnershipStates s c) = names_ok c"
  by (simp add: names_ok_def restoreOwnershipStates_def)

lemma names_declare [simp]: "names_ok c \<Longrightarrow> names_ok (declareOwnership n m src c)"
  by (simp add: declareOwnership_def Let_def split: list.split)

lemma names_annotate [simp]: "names_ok c \<Longrightarrow> names_ok (annotate_variable a n e c)"
  by (simp add: annotate_variable_def Let_def split: option.split)

section \<open>A moved variable stays moved\<close>

definition is_moved :: "string \<Rightarrow> BorrowChecker \<Rightarrow> bool" where
  "is_moved x c \<longleftrightarrow> map_option info_state (tracked c x) = Some Var_Moved"

definition opened :: "(string \<Rightarrow> bool) \<Rightarrow> BorrowChecker \<Rightarrow> BorrowChecker \<Rightarrow> bool" where
  "opened F c d \<longleftrightarrow>
     (\<exists>ns. list_all F ns \<and> variableScope d = (case variableScope c of [] \<Rightarrow> [] | vs # rest \<Rightarrow> (vs @ ns) # rest))"

definition warned :: "string \<Rightarrow> bool \<Rightarrow> BorrowChecker \<Rightarrow> BorrowChecker \<Rightarrow> bool" where
  "warned x u c d \<longleftrightarrow>
     (\<exists>xs. vdiagnostics (checker_diagnostic d) = vdiagnostics (checker_diagnostic c) @ xs \<and> (u \<longrightarrow> list_ex counts_as_error xs))
     \<and> opened (\<lambda>n. n \<noteq> x) c d"

definition moved_entry :: "string \<Rightarrow> snapshot \<Rightarrow> bool" where
  "moved_entry x s \<longleftrightarrow> distinct (map fst s) \<and> map_of s x = Some Var_Moved"

lemma opened_same: "variableScope d = variableScope c \<Longrightarrow> opened F c d"
  by (auto simp: opened_def intro!: exI [of _ "[]"] split: list.split)

lemma opened_trans:
  assumes "opened F c1 c2" and "opened F c2 c3"
  shows "opened F c1 c3"
proof -
  obtain ns ns' where "list_all F ns" "variableScope c2 = (case variableScope c1 of [] \<Rightarrow> [] | vs # rest \<Rightarrow> (vs @ ns) # rest)"
    and "list_all F ns'" "variableScope c3 = (case variableScope c2 of [] \<Rightarrow> [] | vs # rest \<Rightarrow> (vs @ ns') # rest)"
    using assms unfolding opened_def by blast
  then show "opened F c1 c3"
    unfolding opened_def by (intro exI [of _ "ns @ ns'"]) (simp split: list.splits)
qed

lemma opened_declare: "F n \<Longrightarrow> opened F c (declareOwnership n m src c)"
  unfolding opened_def by (intro exI [of _ "[n]"]) (simp split: list.split)

lemma opened_push:
  assumes "opened F (checker_pushScope c) d"
  obtains ns where "list_all F ns" and "variableScope d = ns # variableScope c"
  using assms by (auto simp: opened_def)

lemma warned_trans:
  assumes "warned x u c1 c2" and "warned x v c2 c3"
  shows "warned x (u \<or> v) c1 c3"
proof -
  obtain xs ys where
    "vdiagnostics (checker_diagnostic c2) = vdiagnostics (checker_diagnostic c1) @ xs" "u \<longrightarrow> list_ex counts_as_error xs"
    "vdiagnostics (checker_diagnostic c3) = vdiagnostics (checker_diagnostic c2) @ ys" "v \<longrightarrow> list_ex counts_as_error ys"
    using assms unfolding warned_def by blast
  then have "vdiagnostics (checker_diagnostic c3) = vdiagnostics (checker_diagnostic c1) @ (xs @ ys)
      \<and> (u \<or> v \<longrightarrow> list_ex counts_as_error (xs @ ys))"
    by simp
  moreover have "opened (\<lambda>n. n \<noteq> x) c1 c3"
    using assms opened_trans unfolding warned_def by blast
  ultimately show ?thesis unfolding warned_def by blast
qed

lemma warned_same: "checker_diagnostic d = checker_diagnostic c \<Longrightarrow> variableScope d = variableScope c \<Longrightarrow> warned x False c d"
  by (simp add: warned_def opened_same)

lemma warned_error: "checker_error src msg hint c = Inr d \<Longrightarrow> warned x u c d"
  by (erule checker_error_Inr) (simp add: warned_def opened_same)

lemma warned_warning: "checker_warning src msg c = Inr d \<Longrightarrow> warned x False c d"
  by (erule checker_warning_Inr) (simp add: warned_def opened_same)

lemma moved_error: "checker_error src msg hint c = Inr d \<Longrightarrow> is_moved x d = is_moved x c \<and> names_ok d = names_ok c"
  by (erule checker_error_Inr) (simp add: is_moved_def)

lemma moved_warning: "checker_warning src msg c = Inr d \<Longrightarrow> is_moved x d = is_moved x c \<and> names_ok d = names_ok c"
  by (erule checker_warning_Inr) (simp add: is_moved_def)

lemma release_moved [simp]: "info_state i = Var_Moved \<Longrightarrow> info_state (release n i) = Var_Moved"
  by (simp add: release_def Let_def)

lemma moved_drops: "x \<notin> set ns \<Longrightarrow> is_moved x c \<Longrightarrow> is_moved x (fold dropValue ns c)"
  by (induction ns arbitrary: c) (auto simp: is_moved_def tracked_drop dropped_def)

lemma merge_same [simp]: "merge_states s s = s"
  by (simp add: merge_states_def)

lemma map_of_merge_variable:
  "map_of (merge_variable e m) n =
     (if n = fst e then Some (case map_of m n of None \<Rightarrow> snd e | Some s \<Rightarrow> merge_states s (snd e)) else map_of m n)"
  by (auto simp: merge_variable_def update_conv' split: option.split)

lemma merge_variables:
  "distinct (map fst s) \<Longrightarrow>
     map_of (fold merge_variable s m) n =
       (case map_of s n of None \<Rightarrow> map_of m n
        | Some st \<Rightarrow> Some (case map_of m n of None \<Rightarrow> st | Some t \<Rightarrow> merge_states t st))"
proof (induction s arbitrary: m)
  case (Cons e s)
  then have "map_of s (fst e) = None" by (simp add: map_of_eq_None_iff)
  with Cons show ?case by (cases e) (auto simp: map_of_merge_variable split: option.split)
qed simp

lemma merge_moved:
  "list_all (moved_entry x) ss \<Longrightarrow> map_of m x \<in> {None, Some Var_Moved} \<Longrightarrow>
     map_of (fold (fold merge_variable) ss m) x \<in> {None, Some Var_Moved} \<and>
     (ss \<noteq> [] \<longrightarrow> map_of (fold (fold merge_variable) ss m) x = Some Var_Moved)"
proof (induction ss arbitrary: m)
  case (Cons s ss)
  then have m: "map_of (fold merge_variable s m) x = Some Var_Moved"
    by (auto simp: moved_entry_def merge_variables)
  have "list_all (moved_entry x) ss" using Cons.prems(1) by simp
  from Cons.IH [OF this, of "fold merge_variable s m"] show ?case
    using m by (cases "ss = []") simp_all
qed simp

definition held :: "string \<Rightarrow> bool \<Rightarrow> BorrowChecker \<Rightarrow> BorrowChecker \<Rightarrow> bool" where
  "held x u c d \<longleftrightarrow> (is_moved x d \<and> names_ok d) \<and> warned x u c d"

lemma held_error: "checker_error src msg hint c = Inr d \<Longrightarrow> is_moved x c \<Longrightarrow> names_ok c \<Longrightarrow> held x u c d"
  using moved_error warned_error by (fastforce simp: held_def)

lemma held_same:
  assumes "is_moved x c" and "names_ok d" and "tracked d x = tracked c x" and "checker_diagnostic d = checker_diagnostic c"
    and "variableScope d = variableScope c"
  shows "held x False c d"
  using assms by (simp add: held_def is_moved_def warned_same)

lemma moved_tracked: "is_moved x c \<Longrightarrow> \<exists>i. tracked c x = Some i \<and> info_state i = Var_Moved"
  by (auto simp: is_moved_def)

lemma held_operations:
  assumes "is_moved x c" and "names_ok c"
  shows "checkUseAfterMove n src c = Inr d \<Longrightarrow> held x (n = x) c d"
    and "moveValue n src c = Inr d \<Longrightarrow> held x (n = x) c d"
    and "borrowValue n w False src c = Inr d \<Longrightarrow> held x (n = x) c d"
    and "delete_named n src c = Inr d \<Longrightarrow> held x (n = x) c d"
proof -
  obtain i where i: "tracked c x = Some i" "info_state i = Var_Moved" using moved_tracked [OF assms(1)] by blast
  note err = held_error [OF _ assms]
  have same: "held x (n = x) c c" if "n \<noteq> x" using held_same [OF assms(1,2)] that by simp
  have track: "held x (n = x) c (track n j c)" if "n \<noteq> x" for j
    using held_same [OF assms(1), of "track n j c"] assms(2) that by simp
  have annotated: "held x (n = x) c ((track n j c)\<lparr>ownershipAnnotations := a\<rparr>)" if "n \<noteq> x" for j a
    using held_same [OF assms(1), of "(track n j c)\<lparr>ownershipAnnotations := a\<rparr>"] assms(2) that by simp
  have drop: "held x (n = x) c (dropValue n c)" if "n \<noteq> x"
    using that assms moved_drops [of x "[n]" c] by (simp add: held_def warned_same)
  show "held x (n = x) c d" if "checkUseAfterMove n src c = Inr d"
    using that i same by (cases "n = x") (auto simp: checkUseAfterMove_def intro: err split: option.splits if_splits)
  show "held x (n = x) c d" if "moveValue n src c = Inr d"
    using that i same track annotated
    by (cases "n = x") (auto simp: moveValue_def Let_def intro: err split: option.splits if_splits)
  show "held x (n = x) c d" if "borrowValue n w False src c = Inr d"
    using that i same track by (cases "n = x") (auto simp: borrowValue_def Let_def intro: err split: option.splits if_splits)
  show "held x (n = x) c d" if "delete_named n src c = Inr d"
    using that i same drop by (cases "n = x") (auto simp: delete_named_def intro: err split: option.splits if_splits)
qed

lemma held_annotate:
  assumes "is_moved x c" and "names_ok c"
  shows "held x False c (annotate_variable a n e c)"
  using assms tracked_annotate [of a n e c x] unfolding held_def is_moved_def same_ownership_def
  by (auto simp: warned_same)

lemma held_declare:
  assumes "is_moved x c" and "names_ok c" and "n \<noteq> x"
  shows "held x False c (declareOwnership n m src c)"
  using assms
  by (simp add: held_def is_moved_def tracked_declare warned_def opened_declare)

lemma held_pop:
  assumes "is_moved x d" and "names_ok d" and "warned x u (checker_pushScope c) d"
  shows "held x u c (checker_popScope d)"
proof -
  obtain ns where "list_all (\<lambda>n. n \<noteq> x) ns" and vs: "variableScope d = ns # variableScope c"
    using assms(3) opened_push unfolding warned_def by blast
  then have ns: "x \<notin> set ns" by (auto simp: list_all_iff)
  with vs have "is_moved x (checker_popScope d)"
    using moved_drops [of x "rev ns" d] assms(1) by (simp add: is_moved_def tracked_pop)
  then show ?thesis
    using vs assms(2,3) by (auto simp: held_def warned_def intro: opened_same)
qed

lemma held_restore:
  assumes "is_moved x c" and "names_ok c" and "map_of s x = Some Var_Moved"
  shows "held x False c (restoreOwnershipStates s c)"
  using assms by (auto simp: held_def is_moved_def tracked_restore set_back_def warned_same)

lemma held_merge:
  assumes "is_moved x c" and "names_ok c" and "list_all (moved_entry x) ss" and "ss \<noteq> []"
  shows "held x False c (mergeOwnershipStates ss c)"
  unfolding mergeOwnershipStates_def
  using merge_moved [OF assms(3), of "[]"] assms(4) by (intro held_restore [OF assms(1,2)]) simp

interpretation moved: contract
  "\<lambda>c. is_moved x c \<and> names_ok c" "warned x" "moved_entry x" "\<lambda>n. n = x" "\<lambda>n. n \<noteq> x" for x
proof unfold_locales
  show "warned x False c d" if "warned x u c d" for u c d using that by (auto simp: warned_def)
  show "(is_moved x d \<and> names_ok d) \<and> warned x False c d" if "is_moved x c \<and> names_ok c" "checker_error src msg hint c = Inr d"
    for c src msg hint d using held_error that by (auto simp: held_def)
  show "(is_moved x d \<and> names_ok d) \<and> warned x False c d" if "is_moved x c \<and> names_ok c" "checker_warning src msg c = Inr d"
    for c src msg d using moved_warning warned_warning that by blast
  show "(is_moved x (checker_popScope d) \<and> names_ok (checker_popScope d)) \<and> warned x u c (checker_popScope d)"
    if "is_moved x d \<and> names_ok d" "warned x u (checker_pushScope c) d" for d u c
    using held_pop that unfolding held_def by blast
  show "moved_entry x (snapshotOwnershipStates c)" if "is_moved x c \<and> names_ok c" for c
  proof -
    have "distinct (map fst (snapshotOwnershipStates c))"
      using that by (simp add: names_ok_def snapshotOwnershipStates_def)
    then show ?thesis using that by (simp only: moved_entry_def map_of_snapshot is_moved_def simp_thms)
  qed
  show "(is_moved x (c\<lparr>isInsideLoopFlag := b\<rparr>) \<and> names_ok (c\<lparr>isInsideLoopFlag := b\<rparr>)) \<and> warned x False c (c\<lparr>isInsideLoopFlag := b\<rparr>)"
    "(is_moved x (c\<lparr>isInsideUnsafeBlock := b\<rparr>) \<and> names_ok (c\<lparr>isInsideUnsafeBlock := b\<rparr>)) \<and> warned x False c (c\<lparr>isInsideUnsafeBlock := b\<rparr>)"
    if "is_moved x c \<and> names_ok c" for c b
    using that by (simp_all add: is_moved_def warned_same)
  show "is_moved x (checker_pushScope c) \<and> names_ok (checker_pushScope c)" if "is_moved x c \<and> names_ok c" for c
    using that by (simp add: is_moved_def)
  fix c d :: BorrowChecker and n w :: string and src :: Source
  assume c: "is_moved x c \<and> names_ok c"
  note ops = held_operations [unfolded held_def, of x c, OF conjunct1 [OF c] conjunct2 [OF c]]
  show "checkUseAfterMove n src c = Inr d \<Longrightarrow> (is_moved x d \<and> names_ok d) \<and> warned x (n = x) c d"
    "moveValue n src c = Inr d \<Longrightarrow> (is_moved x d \<and> names_ok d) \<and> warned x (n = x) c d"
    "borrowValue n w False src c = Inr d \<Longrightarrow> (is_moved x d \<and> names_ok d) \<and> warned x (n = x) c d"
    "delete_named n src c = Inr d \<Longrightarrow> (is_moved x d \<and> names_ok d) \<and> warned x (n = x) c d"
    by (fact ops)+
qed (use held_annotate held_declare held_merge held_restore in \<open>auto simp: held_def moved_entry_def warned_same intro: warned_trans\<close>)

section \<open>The counters and scopes stay consistent\<close>

definition counters_ok :: "bool \<Rightarrow> BorrowOwnershipInfo \<Rightarrow> bool" where
  "counters_ok garbage i \<longleftrightarrow>
     list_all (\<lambda>b. \<not> borrow_isMutable b) (activeBorrows i)
     \<and> immutableBorrowCount i = int (length (activeBorrows i))
     \<and> (hasMutableBorrow i \<longrightarrow> garbage) \<and> info_state i \<noteq> Var_MutableBorrowed"

definition checker_ok :: "BorrowChecker \<Rightarrow> bool" where
  "checker_ok c \<longleftrightarrow> names_ok c \<and> (\<forall>n i. tracked c n = Some i \<longrightarrow> counters_ok (indeterminate c n) i)"

definition level_with :: "(string \<Rightarrow> bool) \<Rightarrow> BorrowChecker \<Rightarrow> BorrowChecker \<Rightarrow> bool" where
  "level_with F c d \<longleftrightarrow>
     opened F c d \<and> currentScopeDepth d = currentScopeDepth c \<and> indeterminate d = indeterminate c"

definition plain_states :: "snapshot \<Rightarrow> bool" where
  "plain_states s \<longleftrightarrow> distinct (map fst s) \<and> (\<forall>n. map_of s n \<noteq> Some Var_MutableBorrowed)"

lemma counters_release:
  assumes "counters_ok g i"
  shows "counters_ok False (release n i)"
proof -
  have "filter (\<lambda>b. borrowerName b \<noteq> n \<and> \<not> borrow_isMutable b) (activeBorrows i) = filter (\<lambda>b. borrowerName b \<noteq> n) (activeBorrows i)"
    using assms by (intro filter_cong) (auto simp: counters_ok_def list_all_iff)
  then show ?thesis
    using assms by (auto simp: counters_ok_def release_def Let_def list_all_iff list_ex_iff conj_commute)
qed

lemma counters_weaken: "counters_ok False i \<Longrightarrow> counters_ok g i"
  by (simp add: counters_ok_def)

lemma counters_dropped: "counters_ok g i \<Longrightarrow> counters_ok g (dropped n v i)"
  using counters_weaken [OF counters_release] by (auto simp: dropped_def counters_ok_def)

definition sound_step :: "(string \<Rightarrow> bool) \<Rightarrow> BorrowChecker \<Rightarrow> BorrowChecker \<Rightarrow> bool" where
  "sound_step F c d \<longleftrightarrow> checker_ok d \<and> level_with F c d"

lemma sound_same:
  assumes "checker_ok c" and "names_ok d" and "tracked d = tracked c" and "variableScope d = variableScope c"
    and "currentScopeDepth d = currentScopeDepth c" and "indeterminate d = indeterminate c"
  shows "sound_step F c d"
  using assms by (simp add: sound_step_def checker_ok_def level_with_def opened_same)

lemma sound_error: "checker_error src msg hint c = Inr d \<Longrightarrow> checker_ok c \<Longrightarrow> sound_step F c d"
  by (erule checker_error_Inr) (simp add: sound_same checker_ok_def)

lemma sound_warning: "checker_warning src msg c = Inr d \<Longrightarrow> checker_ok c \<Longrightarrow> sound_step F c d"
  by (erule checker_warning_Inr) (simp add: sound_same checker_ok_def)

lemma sound_track:
  assumes "checker_ok c" and "counters_ok (indeterminate c n) j"
  shows "sound_step F c (track n j c)" and "sound_step F c ((track n j c)\<lparr>ownershipAnnotations := a\<rparr>)"
  using assms by (auto simp: sound_step_def checker_ok_def level_with_def opened_same)

lemma sound_drop: "checker_ok c \<Longrightarrow> sound_step F c (dropValue n c)"
  by (auto simp: sound_step_def checker_ok_def level_with_def opened_same tracked_drop counters_dropped split: if_splits)

lemma sound_drops: "checker_ok c \<Longrightarrow> checker_ok (fold dropValue ns c)"
  using sound_drop [where F = "\<lambda>_. True"] by (induction ns arbitrary: c) (auto simp: sound_step_def)

lemma sound_restore: "checker_ok c \<Longrightarrow> plain_states s \<Longrightarrow> sound_step F c (restoreOwnershipStates s c)"
  by (auto simp: sound_step_def checker_ok_def level_with_def opened_same tracked_restore set_back_def plain_states_def
      counters_ok_def split: option.splits)

lemma merge_plain:
  "list_all plain_states ss \<Longrightarrow> (\<forall>n. map_of m n \<noteq> Some Var_MutableBorrowed) \<Longrightarrow>
     map_of (fold (fold merge_variable) ss m) n \<noteq> Some Var_MutableBorrowed"
proof (induction ss arbitrary: m)
  case (Cons s ss)
  have "map_of (fold merge_variable s m) n \<noteq> Some Var_MutableBorrowed" for n
    using Cons.prems by (auto simp: plain_states_def merge_variables merge_states_def split: option.splits)
  with Cons show ?case by simp
qed simp

lemma sound_merge:
  assumes "checker_ok c" and "list_all plain_states ss"
  shows "sound_step F c (mergeOwnershipStates ss c)"
  using assms(1) merge_plain [OF assms(2), of "[]"]
  by (auto simp: mergeOwnershipStates_def sound_step_def checker_ok_def level_with_def opened_same tracked_restore set_back_def
      counters_ok_def split: option.splits)

lemma sound_annotate: "checker_ok c \<Longrightarrow> sound_step F c (annotate_variable a n e c)"
  using tracked_annotate [of a n e c]
  by (simp add: sound_step_def checker_ok_def level_with_def opened_same same_ownership_def counters_ok_def) (metis option.inject)

lemma sound_declare: "checker_ok c \<Longrightarrow> F n \<Longrightarrow> sound_step F c (declareOwnership n m src c)"
  by (auto simp: sound_step_def checker_ok_def level_with_def opened_declare tracked_declare declared_info_def counters_ok_def)

lemma sound_operations:
  assumes "checker_ok c"
  shows "checkUseAfterMove n src c = Inr d \<Longrightarrow> sound_step F c d" and "moveValue n src c = Inr d \<Longrightarrow> sound_step F c d"
    and "borrowValue n w False src c = Inr d \<Longrightarrow> sound_step F c d" and "delete_named n src c = Inr d \<Longrightarrow> sound_step F c d"
proof -
  have same: "sound_step F c c" using assms by (simp add: sound_same checker_ok_def)
  have j: "counters_ok (indeterminate c n) j" if "tracked c n = Some j" for j n
    using assms that by (simp add: checker_ok_def)
  show "sound_step F c d" if "checkUseAfterMove n src c = Inr d"
    using that same by (auto simp: checkUseAfterMove_def intro: sound_error [OF _ assms] split: option.splits if_splits)
  show "sound_step F c d" if "moveValue n src c = Inr d"
    using that same j
    by (auto simp: moveValue_def Let_def counters_ok_def intro!: sound_track [OF assms] intro: sound_error [OF _ assms]
        split: option.splits if_splits)
  show "sound_step F c d" if "borrowValue n w False src c = Inr d"
    using that same j
    by (auto simp: borrowValue_def Let_def counters_ok_def borrow_record_def intro!: sound_track [OF assms] intro: sound_error [OF _ assms]
        split: option.splits if_splits)
  show "sound_step F c d" if "delete_named n src c = Inr d"
    using that same sound_drop [OF assms]
    by (auto simp: delete_named_def intro: sound_error [OF _ assms] split: option.splits if_splits)
qed

lemma sound_pop:
  assumes "checker_ok d" and "level_with F (checker_pushScope c) d"
  shows "sound_step F c (checker_popScope d)"
proof -
  obtain ns where "variableScope d = ns # variableScope c"
    using assms(2) opened_push unfolding level_with_def by blast
  then show ?thesis
    using assms sound_drops [OF assms(1), of "rev ns"]
    by (simp add: sound_step_def checker_ok_def level_with_def tracked_pop opened_same)
qed

interpretation consistent: contract checker_ok "\<lambda>_. level_with F" plain_states "\<lambda>_. False" F for F
proof unfold_locales
  show "level_with F c c" for c by (simp add: level_with_def opened_same)
  show "level_with F c1 c2 \<Longrightarrow> level_with F c2 c3 \<Longrightarrow> level_with F c1 c3" for c1 c2 c3
    using opened_trans unfolding level_with_def by fastforce
  show "checker_ok (checker_popScope d) \<and> level_with F c (checker_popScope d)"
    if "checker_ok d" "level_with F (checker_pushScope c) d" for d c
    using sound_pop [OF that] unfolding sound_step_def .
  show "checker_ok d \<and> level_with F c d" if "checker_ok c" "checker_error src msg hint c = Inr d" for c src msg hint d
    using sound_error that unfolding sound_step_def by blast
  show "checker_ok d \<and> level_with F c d" if "checker_ok c" "checker_warning src msg c = Inr d" for c src msg d
    using sound_warning that unfolding sound_step_def by blast
  show "checker_ok (c\<lparr>isInsideLoopFlag := b\<rparr>) \<and> level_with F c (c\<lparr>isInsideLoopFlag := b\<rparr>)"
    "checker_ok (c\<lparr>isInsideUnsafeBlock := b\<rparr>) \<and> level_with F c (c\<lparr>isInsideUnsafeBlock := b\<rparr>)" if "checker_ok c" for c b
    using that by (simp_all add: checker_ok_def level_with_def opened_same)
  fix c d :: BorrowChecker and n w :: string and src :: Source
  assume c: "checker_ok c"
  note ops = sound_operations [OF c, unfolded sound_step_def]
  show "checkUseAfterMove n src c = Inr d \<Longrightarrow> checker_ok d \<and> level_with F c d"
    "moveValue n src c = Inr d \<Longrightarrow> checker_ok d \<and> level_with F c d"
    "borrowValue n w False src c = Inr d \<Longrightarrow> checker_ok d \<and> level_with F c d"
    "delete_named n src c = Inr d \<Longrightarrow> checker_ok d \<and> level_with F c d"
    by (fact ops)+
  show "plain_states (snapshotOwnershipStates c)"
  proof -
    have "distinct (map fst (snapshotOwnershipStates c))"
      using c by (simp add: checker_ok_def names_ok_def snapshotOwnershipStates_def)
    moreover have "map_of (snapshotOwnershipStates c) n \<noteq> Some Var_MutableBorrowed" for n
      using c by (auto simp only: map_of_snapshot checker_ok_def counters_ok_def map_option_eq_Some)
    ultimately show ?thesis by (simp only: plain_states_def simp_thms)
  qed
  show "checker_ok (declareOwnership n m src c) \<and> level_with F c (declareOwnership n m src c)" if "F n" for m
    using sound_declare [OF c, of F n, OF that] unfolding sound_step_def .
  show "checker_ok (annotate_variable adr n e c) \<and> level_with F c (annotate_variable adr n e c)" for adr e
    using sound_annotate [OF c] unfolding sound_step_def .
  show "checker_ok (checker_pushScope c)" using c by (simp add: checker_ok_def)
  show "checker_ok (restoreOwnershipStates s c) \<and> level_with F c (restoreOwnershipStates s c)" if "plain_states s" for s
    using sound_restore [OF c that] unfolding sound_step_def .
  show "checker_ok (mergeOwnershipStates ss c) \<and> level_with F c (mergeOwnershipStates ss c)"
    if "list_all plain_states ss" "ss \<noteq> []" for ss
    using sound_merge [OF c that(1)] unfolding sound_step_def .
qed

section \<open>Uses of a moved variable are rejected\<close>

definition erred :: "BorrowChecker \<Rightarrow> BorrowChecker \<Rightarrow> bool" where
  "erred c d \<longleftrightarrow>
     (\<exists>xs. vdiagnostics (checker_diagnostic d) = vdiagnostics (checker_diagnostic c) @ xs \<and> list_ex counts_as_error xs)"

lemma erred_between: "grown c c1 \<Longrightarrow> erred c1 c2 \<Longrightarrow> grown c2 d \<Longrightarrow> erred c d"
  unfolding grown_def erred_def by fastforce

lemma grown_tracked: "grown c d \<Longrightarrow> tracked c x \<noteq> None \<Longrightarrow> tracked d x \<noteq> None"
  unfolding grown_def by blast

text \<open>A walk that is allowed to declare any name.\<close>

lemma free_anything:
  "F = (\<lambda>_. True) \<Longrightarrow> declares F s" "F = (\<lambda>_. True) \<Longrightarrow> declares_node F node" "F = (\<lambda>_. True) \<Longrightarrow> declares_list F ss"
  "F = (\<lambda>_. True) \<Longrightarrow> declares_elifs F bs" "F = (\<lambda>_. True) \<Longrightarrow> declares_clauses F cs"
  by (induction F s and F node and F ss and F bs and F cs
      rule: declares_declares_node_declares_list_declares_elifs_declares_clauses.induct)
    (simp_all split: option.split)

lemmas free_everything [simp] = free_anything [OF refl]

lemma walk_statements:
  assumes "checkStatements h ss c = Inr d" and "checker_ok c"
  shows "checker_ok d" and "level_with (\<lambda>_. True) c d" and "grown c d"
  using consistent.statement_kept(3) [OF assms(2), of "\<lambda>_. True" ss h] reports_grow.statement_kept(3) [where c = c and ss = ss and h = h] assms(1)
  by (simp_all add: consistent.keeps_def reports_grow.keeps_def)

lemma walk_declarations:
  assumes "foldr_res (checkDeclaration h) ds c = Inr d" and "checker_ok c"
  shows "checker_ok d" and "level_with (\<lambda>_. True) c d" and "grown c d"
  using consistent.declarations_kept [OF assms(2), of ds "\<lambda>_. True" h] reports_grow.declarations_kept [where c = c and ds = ds and h = h] assms(1)
  by (simp_all add: consistent.keeps_def reports_grow.keeps_def consistent.declares_function_def reports_grow.declares_function_def)

lemma walk_parameters:
  assumes "checker_ok c"
  shows "checker_ok (fold declare_parameter ps c)" and "grown c (fold declare_parameter ps c)"
  using consistent.parameters_kept [OF assms, of ps "\<lambda>_. True"] reports_grow.parameters_kept [where c = c and ps = ps] by blast+

lemma checkStatements_append:
  "checkStatements h (ss @ ts) c = bindr (checkStatements h ss c) (checkStatements h ts)"
proof (induction ss arbitrary: c)
  case (Cons s ss)
  then show ?case by (cases "checkStatement h s c") simp_all
qed simp

lemma parameter_tracked:
  assumes "p \<in> set ps" and "\<not> parameter_isSelf p" and "checker_ok c"
  shows "tracked (fold declare_parameter ps c) (parameter_name p) \<noteq> None"
  using assms(1,3)
proof (induction ps arbitrary: c)
  case (Cons q qs)
  have ok: "checker_ok (declare_parameter q c)" using walk_parameters(1) [OF Cons.prems(2), of "[q]"] by simp
  show ?case
  proof (cases "p = q")
    case True
    then have "tracked (declare_parameter q c) (parameter_name p) \<noteq> None"
      using assms(2) by (simp add: declare_parameter_def tracked_declare)
    with grown_tracked [OF walk_parameters(2) [OF ok]] show ?thesis by simp
  next
    case False
    with Cons.IH [OF _ ok] Cons.prems(1) show ?thesis by simp
  qed
qed simp

text \<open>A statement \<^verbatim>\<open>move x\<close>.\<close>

definition is_move :: "string \<Rightarrow> statement \<Rightarrow> bool" where
  "is_move x s =
     (case statement_node s of
        ExpressionStatement e \<Rightarrow>
          (case expression_node e of
             UnaryExpression _ (Some operand) operation \<Rightarrow> operation = Memory KeywordMove \<and> identifier_of operand = Some x
           | _ \<Rightarrow> False)
      | _ \<Rightarrow> False)"

lemma move_statement_runs:
  assumes "is_move x s"
  shows "\<exists>src. checkStatement h s c = moveValue x src c"
proof -
  obtain src e where s: "s = Statement src (ExpressionStatement e)"
    using assms by (cases s) (auto simp: is_move_def split: statement_shape.splits)
  then obtain src' t b operand where "e = Expression src' t (UnaryExpression b (Some operand) (Memory KeywordMove))"
    and "identifier_of operand = Some x"
    using assms by (cases e) (auto simp: is_move_def split: expression_shape.splits option.splits)
  with s show ?thesis by auto
qed

lemma move_moves:
  assumes "moveValue x src c = Inr d" and "tracked c x \<noteq> None"
  shows "erred c d \<or> is_moved x d"
  using assms
  by (auto simp: moveValue_def Let_def erred_def is_moved_def split: option.splits if_splits elim!: checker_error_Inr)

text \<open>A list of statements with a move in it leaves the variable moved, or an error behind.\<close>

lemma moved_through:
  assumes "checkStatements h (before @ m # after) c = Inr d" and "is_move x m" and "tracked c x \<noteq> None" and "checker_ok c"
    and "declares_list (\<lambda>n. n \<noteq> x) after"
  shows "erred c d \<or> is_moved x d \<and> \<not> uses_list (\<lambda>n. n = x) after"
proof -
  obtain c1 c2 where c1: "checkStatements h before c = Inr c1" and c2: "checkStatement h m c1 = Inr c2"
    and d: "checkStatements h after c2 = Inr d"
    using assms(1) by (auto simp: checkStatements_append bindr_eq_Inr)
  note w1 = walk_statements [OF c1 assms(4)]
  have m: "checkStatements h [m] c1 = Inr c2" using c2 by simp
  note w2 = walk_statements [OF m w1(1)] and w3 = walk_statements [OF d walk_statements(1) [OF m w1(1)]]
  obtain src where "moveValue x src c1 = Inr c2" using move_statement_runs [OF assms(2)] c2 by metis
  then consider "erred c1 c2" | "is_moved x c2" using move_moves grown_tracked [OF w1(3) assms(3)] by blast
  then show ?thesis
  proof cases
    case 1
    then show ?thesis using erred_between w1(3) w3(3) by blast
  next
    case 2
    then have "is_moved x c2 \<and> names_ok c2" using w2(1) by (simp add: checker_ok_def)
    from moved.statement_kept(3) [OF this assms(5), of h] d
    have x: "is_moved x d" and "uses_list (\<lambda>n. n = x) after \<Longrightarrow> erred c2 d"
      by (auto simp: moved.keeps_def warned_def erred_def)
    moreover have "grown c c2" "grown d d" using grows_trans [OF w1(3) w2(3)] by (auto intro: grown_same)
    ultimately show ?thesis using erred_between by blast
  qed
qed

lemma function_after_move:
  assumes "checkFunctionDeclaration h f c = Inr d" and "checker_ok c" and "decl_body f = before @ m # after"
    and "is_move x m" and "uses_list (\<lambda>n. n = x) after" and "declares_list (\<lambda>n. n \<noteq> x) after"
    and "p \<in> set (decl_parameters f)" and "\<not> parameter_isSelf p" and "parameter_name p = x"
  shows "erred c d"
proof -
  let ?c1 = "fold declare_parameter (decl_parameters f) (checker_pushScope c)"
  have push: "checker_ok (checker_pushScope c)" using assms(2) by (rule consistent.push_kept)
  note p = walk_parameters [OF push, of "decl_parameters f"]
  have "tracked ?c1 x \<noteq> None" using parameter_tracked [OF assms(7,8) push] assms(9) by simp
  then have t: "tracked (checker_pushScope ?c1) x \<noteq> None" by simp
  obtain e where e: "checkStatements h (before @ m # after) (checker_pushScope ?c1) = Inr e"
    and d: "d = checker_popScope (checker_popScope e)"
    using assms(1,3) by (auto simp: checkFunctionDeclaration_def checkBlock_def bindr_eq_Inr)
  have "erred (checker_pushScope ?c1) e"
    using moved_through [OF e assms(4) t consistent.push_kept [OF p(1)] assms(6)] assms(5) by blast
  moreover have "grown c (checker_pushScope ?c1)"
    using p(2) by (simp add: grown_def)
  moreover have "grown e d" using grows_trans grown_pop d by blast
  ultimately show ?thesis using erred_between by blast
qed


section \<open>The checker is balanced\<close>

text \<open>
  C12. The checker ends every program as it began it: all scopes are closed, the depth is back at zero, no name is tracked
  twice, and for every variable the counter of immutable borrows is the length of its list of borrows, none of which is
  mutable, and no variable is left in the state of a mutable borrow.
\<close>

theorem checker_balanced:
  assumes "check_program h program (new_BorrowChecker e g) = Inr d"
  shows "variableScope d = [] \<and> currentScopeDepth d = 0 \<and> distinct (map fst (ownershipTracking d))
     \<and> (\<forall>n i. tracked d n = Some i \<longrightarrow> counters_ok (g n) i)"
proof -
  have ok: "checker_ok (new_BorrowChecker e g)"
    by (simp add: checker_ok_def names_ok_def new_BorrowChecker_def tracked_def)
  from consistent.program_kept [OF ok, of program "\<lambda>_. True" h] assms
  have "checker_ok d" "level_with (\<lambda>_. True) (new_BorrowChecker e g) d"
    by (simp_all add: consistent.keeps_def consistent.declares_function_def)
  then show ?thesis
    by (simp add: checker_ok_def names_ok_def level_with_def opened_def new_BorrowChecker_def)
qed

section \<open>Branches\<close>

text \<open>The state of a variable that is no longer there to be used.\<close>

definition gone :: "VariableState option \<Rightarrow> bool" where
  "gone s \<longleftrightarrow> s = Some Var_Moved \<or> s = Some Var_Dropped"

lemma merge_absorbs: "gone (map_of m x) \<Longrightarrow> gone (map_of (fold merge_variable s m) x)"
proof (induction s arbitrary: m)
  case (Cons e s)
  have "gone (map_of (merge_variable e m) x)"
    using Cons.prems by (auto simp: map_of_merge_variable merge_states_def gone_def split: if_splits)
  with Cons.IH show ?case by simp
qed simp

lemma merges_absorb: "gone (map_of m x) \<Longrightarrow> gone (map_of (fold (fold merge_variable) ss m) x)"
  by (induction ss arbitrary: m) (simp_all add: merge_absorbs)

lemma merge_moved_branch:
  assumes "moved_entry x s" and "tracked c x \<noteq> None"
  shows "gone (map_option info_state (tracked (mergeOwnershipStates (s # ss) c) x))"
proof -
  have "gone (map_of (fold merge_variable s []) x)"
    using assms(1) by (simp add: moved_entry_def merge_variables gone_def)
  then have "gone (map_of (fold (fold merge_variable) (s # ss) []) x)"
    using merges_absorb by simp
  then show ?thesis
    using assms(2) by (auto simp: mergeOwnershipStates_def tracked_restore set_back_def gone_def)
qed

lemma elif_ends_extend: "checkElifs h pre bs r = Inr (d, ends) \<Longrightarrow> \<exists>more. ends = snd r @ more"
proof (induction bs arbitrary: r)
  case (Cons b bs)
  obtain cond body where b: "b = (cond, body)" by fastforce
  from Cons.prems obtain c1 where
    "checkElifs h pre bs (restoreOwnershipStates pre (checker_popScope c1), snd r @ [snapshotOwnershipStates (checker_popScope c1)])
       = Inr (d, ends)"
    by (auto simp: b Let_def bindr_eq_Inr)
  from Cons.IH [OF this] show ?case by auto
qed auto

lemma walk_elifs:
  assumes "checkElifs h pre bs (c, ends) = Inr (d, ends')" and "ends \<noteq> []"
  shows "grown c d"
  using reports_grow.statement_kept(4) [where r = "(c, ends)" and pre = pre and bs = bs and h = h] assms
  by (simp add: reports_grow.keeps_branches_def list_all_iff)

lemma walk_statement: "checkStatement h s c = Inr d \<Longrightarrow> grown c d"
  using reports_grow.statement_kept(1) [where c = c and s = s and h = h] by (simp add: reports_grow.keeps_def)

lemma walk_expression:
  assumes "checkExpression h e c = Inr d" and "checker_ok c"
  shows "checker_ok d" and "grown c d"
  using consistent.expression_kept(1) [OF assms(2), where e = e and h = h] reports_grow.expression_kept(1) [where c = c and e = e and h = h]
    assms(1)
  by (simp_all add: consistent.keeps_def reports_grow.keeps_def)

lemma walk_opened:
  assumes "checkStatements h ss c = Inr d" and "checker_ok c" and "declares_list F ss"
  shows "opened F c d"
  using consistent.statement_kept(3) [OF assms(2,3), of h] assms(1) by (simp add: consistent.keeps_def level_with_def)

lemma declares_append: "declares_list F (ss @ ts) \<longleftrightarrow> declares_list F ss \<and> declares_list F ts"
  by (induction ss) auto


section \<open>Programs\<close>

definition if_statement :: "statement list \<Rightarrow> statement" where
  "if_statement body = node_statement (IfStatement (name_expression ''c'') [] [] body)"

definition while_statement :: "statement list \<Rightarrow> statement" where
  "while_statement body = node_statement (WhileStatement body (name_expression ''c''))"



section \<open>Witnesses\<close>

definition some_parameter :: "string \<Rightarrow> parameter" where
  "some_parameter n = Parameter default_source Access_Public None False False False False False False False n None"

definition moving_function :: "declaration_tree function_declaration" where
  "moving_function =
     plain_function ''take'' [some_parameter ''p'']
       ([use_var ''p''] @ move_var ''p'' # [while_statement [if_statement [use_var ''p'']]])"

definition moving_program :: program where
  "moving_program = program_of [declare_node (FunctionDeclaration moving_function)]"


theorem checker_balanced_witness:
  "case check_program [] moving_program (new_BorrowChecker (Engine_with_limits 0 0) (\<lambda>_. False)) of
     Inl _ \<Rightarrow> False
   | Inr d \<Rightarrow> variableScope d = [] \<and> currentScopeDepth d = 0 \<and> (\<forall>n i. tracked d n = Some i \<longrightarrow> counters_ok False i)"
proof -
  let ?r = "check_program [] moving_program
      (new_BorrowChecker (Engine_with_limits 0 0) (\<lambda>_. False))"
  have "reports ?r \<noteq> None" by code_simp
  then obtain d where d: "?r = Inr d" by (cases ?r) (auto simp: reports_def)
  then show ?thesis using checker_balanced [OF d] by simp
qed

definition branch_start :: BorrowChecker where
  "branch_start = declareOwnership ''a'' False default_source
     (checker_pushScope (new_BorrowChecker (Engine_with_limits 0 0) (\<lambda>_. False)))"


end
