(* ===== verification/Parser.thy ===== *)
theory Parser
  imports Ast
begin

text \<open>
  The parser, its state and its tokens: \<^verbatim>\<open>parser/parser.cpp\<close>, \<^verbatim>\<open>parser.hpp\<close>. The class is the record \<open>Parser\<close>. A member
  function is a computation of type \<open>'a parse\<close>: it takes the parser and gives its result with the new parser, or the reason why it does
  not return. The calls between the member functions that may recurse go through the record \<open>calls\<close>, whose levels \<open>ParserDeclarations\<close> ties
  together; a loop runs with as much fuel as there are tokens and reports left (\<open>ParserLaws\<close> shows that this is enough).
\<close>

section \<open>Computations\<close>

record Parser =
  parser_diagnostic :: Engine
  pendingGreaterThans :: nat
  parser_position :: nat
  parser_tokens :: "Token list"

text \<open>
  A function leaves by the exception of the diagnostic engine, by an exception of a number conversion, by following a
  null pointer, by a cast to a class that the node is not of, or not at all (\<open>Out_of_fuel\<close>).
\<close>

datatype (plugins only: code size) parse_failure =
    Parse_diagnostic diagnostic_exception | Null_pointer | Wrong_cast | Number_failure number_error | Out_of_fuel

type_synonym 'a parse = "Parser \<Rightarrow> (parse_failure \<times> Parser) + ('a \<times> Parser)"

definition returns :: "'a \<Rightarrow> 'a parse" where
  "returns x p = Inr (x, p)"

definition fails :: "parse_failure \<Rightarrow> 'a parse" where
  "fails f p = Inl (f, p)"

definition bindp :: "'a parse \<Rightarrow> ('a \<Rightarrow> 'b parse) \<Rightarrow> 'b parse" where
  "bindp m f p = (case m p of Inl e \<Rightarrow> Inl e | Inr (x, q) \<Rightarrow> f x q)"

definition ifp :: "(Parser \<Rightarrow> bool) \<Rightarrow> 'a parse \<Rightarrow> 'a parse \<Rightarrow> 'a parse" where
  "ifp b m n p = (if b p then m p else n p)"

definition getp :: "(Parser \<Rightarrow> 'a) \<Rightarrow> 'a parse" where
  "getp g p = Inr (g p, p)"

text \<open>What is left to parse and the reports left before the engine raises; no report is left to count when it has no limit.\<close>

definition remaining :: "Parser \<Rightarrow> nat" where
  "remaining p = length (parser_tokens p) - parser_position p"

definition budget :: "Engine \<Rightarrow> nat" where
  "budget e = (if errorMaximum e = 0 then 0 else unat (errorMaximum e) - unat (errorCounts e))"

definition energy :: "Parser \<Rightarrow> nat" where
  "energy p = remaining p + budget (parser_diagnostic p)"

text \<open>A loop whose body says whether it goes on.\<close>

fun iterate :: "nat \<Rightarrow> ('s \<Rightarrow> (bool \<times> 's) parse) \<Rightarrow> 's \<Rightarrow> 's parse" where
  "iterate 0 step s = fails Out_of_fuel"
| "iterate (Suc n) step s = bindp (step s) (\<lambda>(go, s1). if go then iterate n step s1 else returns s1)"

definition repeatp :: "('s \<Rightarrow> (bool \<times> 's) parse) \<Rightarrow> 's \<Rightarrow> 's parse" where
  "repeatp step s p = iterate (Suc (energy p)) step s p"

section \<open>Tokens\<close>

definition new_Parser :: "Token list \<Rightarrow> Engine \<Rightarrow> Parser" where
  "new_Parser ts e = \<lparr>parser_diagnostic = e, pendingGreaterThans = 0, parser_position = 0, parser_tokens = ts\<rparr>"

definition peek_token :: "nat \<Rightarrow> Parser \<Rightarrow> Token" where
  "peek_token k p =
     (let targetIndex = parser_position p + k in
      if length (parser_tokens p) \<le> targetIndex then default_token else parser_tokens p ! targetIndex)"

definition current_token :: "Parser \<Rightarrow> Token" where
  "current_token p =
     (if length (parser_tokens p) \<le> parser_position p then default_token else parser_tokens p ! parser_position p)"

abbreviation here :: "Parser \<Rightarrow> Source" where
  "here p \<equiv> tsource (current_token p)"

definition advance_token :: "Token parse" where
  "advance_token p =
     Inr (current_token p,
          if parser_position p < length (parser_tokens p) then p\<lparr>parser_position := parser_position p + 1\<rparr> else p)"

definition check_type :: "token_type \<Rightarrow> Parser \<Rightarrow> bool" where
  "check_type t p \<longleftrightarrow> ttype (current_token p) = t"

definition check_types :: "token_type list \<Rightarrow> Parser \<Rightarrow> bool" where
  "check_types ts p \<longleftrightarrow> ttype (current_token p) \<in> set ts"

definition next_type :: "nat \<Rightarrow> token_type \<Rightarrow> Parser \<Rightarrow> bool" where
  "next_type k t p \<longleftrightarrow> ttype (peek_token k p) = t"

definition at_end :: "Parser \<Rightarrow> bool" where
  "at_end = check_type (Special Eof)"

definition parser_error :: "(Parser \<Rightarrow> Source) \<Rightarrow> (Parser \<Rightarrow> string) \<Rightarrow> string \<Rightarrow> unit parse" where
  "parser_error src msg hint p =
     (case emit_error (src p) (msg p) hint (parser_diagnostic p) of
        Inl (x, e) \<Rightarrow> Inl (Parse_diagnostic x, p\<lparr>parser_diagnostic := e\<rparr>)
      | Inr e \<Rightarrow> Inr ((), p\<lparr>parser_diagnostic := e\<rparr>))"

definition expected_message :: "token_type \<Rightarrow> Parser \<Rightarrow> string" where
  "expected_message t p =
     ''expected '' @ quote (if t = Comparison GreaterThan then ''>'' else toString t) @ '' but found ''
     @ quote (tvalue (current_token p)) @ '' ('' @ toString (ttype (current_token p)) @ '')''"

definition checkGreaterThan :: "Parser \<Rightarrow> bool" where
  "checkGreaterThan p \<longleftrightarrow> 0 < pendingGreaterThans p \<or> check_types [Comparison GreaterThan, Bitwise ShiftRight] p"

definition error_token :: "Token parse" where
  "error_token = getp (\<lambda>p. mk_token (Special Error) (here p) '''')"

definition consumeGreaterThan :: "string \<Rightarrow> Token parse" where
  "consumeGreaterThan msg p =
     (if 0 < pendingGreaterThans p
      then Inr (mk_token (Comparison GreaterThan) (here p) ''>'', p\<lparr>pendingGreaterThans := pendingGreaterThans p - 1\<rparr>)
      else if check_type (Comparison GreaterThan) p then advance_token p
      else if check_type (Bitwise ShiftRight) p
      then bindp advance_token (\<lambda>tok q. Inr (mk_token (Comparison GreaterThan) (tsource tok) ''>'', q\<lparr>pendingGreaterThans := 1\<rparr>)) p
      else bindp (parser_error here (expected_message (Comparison GreaterThan)) msg) (\<lambda>_. error_token) p)"

definition expect_type :: "token_type \<Rightarrow> string \<Rightarrow> Token parse" where
  "expect_type t msg =
     (if t = Comparison GreaterThan then consumeGreaterThan msg
      else ifp (check_type t) advance_token (bindp (parser_error here (expected_message t) msg) (\<lambda>_. error_token)))"

definition expect_name :: "token_type \<Rightarrow> string \<Rightarrow> string parse" where
  "expect_name t msg = bindp (expect_type t msg) (\<lambda>tok. returns (tvalue tok))"

definition match_type :: "token_type \<Rightarrow> bool parse" where
  "match_type t =
     (if t = Comparison GreaterThan
      then ifp checkGreaterThan (bindp (consumeGreaterThan '''') (\<lambda>_. returns True)) (returns False)
      else ifp (check_type t) (bindp advance_token (\<lambda>_. returns True)) (returns False))"

definition skipNewline :: "unit parse" where
  "skipNewline =
     repeatp (\<lambda>_. ifp (check_type (Layout Newline)) (bindp advance_token (\<lambda>_. returns (True, ()))) (returns (False, ()))) ()"

abbreviation line_ends :: "token_type list" where
  "line_ends \<equiv> [Layout Dedent, Special Eof, Layout Newline]"

definition expectNewline :: "string \<Rightarrow> unit parse" where
  "expectNewline context =
     bindp (ifp (check_types line_ends) (returns ()) (parser_error here (\<lambda>_. ''expected newline after '' @ context) ''''))
       (\<lambda>_. skipNewline)"

text \<open>A hint names a symbol between single quotes.\<close>

definition wanted :: "string \<Rightarrow> string \<Rightarrow> string" where
  "wanted symbol rest = ''expected '' @ [SQUOTE] @ symbol @ [SQUOTE] @ rest"

fun getOperatorPrecedenceValue :: "token_type \<Rightarrow> int" where
  "getOperatorPrecedenceValue (Bitwise Ampersand) = 5"
| "getOperatorPrecedenceValue (Bitwise Caret) = 4"
| "getOperatorPrecedenceValue (Comparison t) = (if t = Equal \<or> t = NotEqual then 6 else 7)"
| "getOperatorPrecedenceValue (Other KeywordIn) = 7"
| "getOperatorPrecedenceValue (Other KeywordInstanceOf) = 7"
| "getOperatorPrecedenceValue (Other KeywordIs) = 7"
| "getOperatorPrecedenceValue (Other KeywordSubclassOf) = 7"
| "getOperatorPrecedenceValue (Logic KeywordAnd) = 2"
| "getOperatorPrecedenceValue (Other KeywordAs) = 12"
| "getOperatorPrecedenceValue (Logic KeywordOr) = 1"
| "getOperatorPrecedenceValue (Arithmetic Minus) = 9"
| "getOperatorPrecedenceValue (Arithmetic Plus) = 9"
| "getOperatorPrecedenceValue (Arithmetic Percent) = 10"
| "getOperatorPrecedenceValue (Arithmetic Slash) = 10"
| "getOperatorPrecedenceValue (Arithmetic Star) = 10"
| "getOperatorPrecedenceValue (Bitwise Pipe) = 3"
| "getOperatorPrecedenceValue (Arithmetic Power) = 11"
| "getOperatorPrecedenceValue (Bitwise ShiftLeft) = 8"
| "getOperatorPrecedenceValue (Bitwise ShiftRight) = 8"
| "getOperatorPrecedenceValue other = -1"

text \<open>
  The scan over the tokens after a \<^verbatim>\<open><\<close> up to the matching \<^verbatim>\<open>>\<close>: the depth at which it ends, negative after a \<^verbatim>\<open>>>\<close>
  that closes one level too many, with the tokens that follow.
\<close>

fun generic_end :: "int \<Rightarrow> Token list \<Rightarrow> (int \<times> Token list) option" where
  "generic_end depth ts =
     (if depth \<le> 0 then Some (depth, ts)
      else case ts of
        [] \<Rightarrow> None
      | t # rest \<Rightarrow>
          if ttype t = Special Eof \<or> ttype t = Layout Newline then None
          else if ttype t = Comparison LessThan then generic_end (depth + 1) rest
          else if ttype t = Comparison GreaterThan then generic_end (depth - 1) rest
          else if ttype t = Bitwise ShiftRight then generic_end (depth - 2) rest
          else if ttype t \<in> {Identifier, Punctuation Comma, Punctuation Question, Punctuation Dot} then generic_end depth rest
          else None)"

declare generic_end.simps [simp del]

definition followed_by :: "token_type \<Rightarrow> Token list \<Rightarrow> bool" where
  "followed_by t ts \<longleftrightarrow> (case ts of [] \<Rightarrow> t = Special Eof | u # _ \<Rightarrow> ttype u = t)"

definition looksLikeGenericCall :: "Parser \<Rightarrow> bool" where
  "looksLikeGenericCall p \<longleftrightarrow>
     next_type 0 (Comparison LessThan) p
     \<and> (case generic_end 1 (drop (Suc (parser_position p)) (parser_tokens p)) of
          None \<Rightarrow> False
        | Some (_, rest) \<Rightarrow> followed_by (Delimiter LeftParenthesis) rest)"

definition generic_before_dot :: "Parser \<Rightarrow> bool" where
  "generic_before_dot p \<longleftrightarrow>
     (case generic_end 1 (drop (Suc (parser_position p)) (parser_tokens p)) of
        None \<Rightarrow> False
      | Some (depth, rest) \<Rightarrow> depth = 0 \<and> followed_by (Punctuation Dot) rest)"

section \<open>Calls between the member functions\<close>

record calls =
  call_type :: "expression type_node parse"
  call_unary :: "expression parse"
  call_precedence :: "int \<Rightarrow> expression parse"
  call_statement :: "statement parse"
  call_function :: "AccessModifier \<Rightarrow> bool \<Rightarrow> bool \<Rightarrow> bool \<Rightarrow> bool \<Rightarrow> declaration_tree parse"
  call_class :: "AccessModifier \<Rightarrow> declaration_tree parse"
  call_struct :: "AccessModifier \<Rightarrow> declaration_tree parse"
  call_enum :: "AccessModifier \<Rightarrow> declaration_tree parse"
  call_interface :: "AccessModifier \<Rightarrow> declaration_tree parse"

definition no_calls :: calls where
  "no_calls =
     \<lparr>call_type = fails Out_of_fuel, call_unary = fails Out_of_fuel, call_precedence = \<lambda>_. fails Out_of_fuel,
      call_statement = fails Out_of_fuel, call_function = \<lambda>_ _ _ _ _. fails Out_of_fuel, call_class = \<lambda>_. fails Out_of_fuel,
      call_struct = \<lambda>_. fails Out_of_fuel, call_enum = \<lambda>_. fails Out_of_fuel, call_interface = \<lambda>_. fails Out_of_fuel\<rparr>"

section \<open>Nodes\<close>

definition expr :: "Source \<Rightarrow> expression_node \<Rightarrow> expression" where
  "expr src node = Expression src None node"

definition null_expression :: expression where
  "null_expression = expr default_source NullExpression"

definition is_null :: "expression \<Rightarrow> bool" where
  "is_null e \<longleftrightarrow> expression_node e = NullExpression"

definition pointer :: "expression \<Rightarrow> expression option" where
  "pointer e = (if is_null e then None else Some e)"

definition identifier_name :: "expression \<Rightarrow> string option" where
  "identifier_name e = (case expression_node e of IdentifierExpression n _ \<Rightarrow> Some n | _ \<Rightarrow> None)"

text \<open>A node behind a pointer that is followed without a test.\<close>

definition followed :: "expression \<Rightarrow> expression parse" where
  "followed e = (if is_null e then fails Null_pointer else returns e)"

definition null_statement :: statement where
  "null_statement = Statement default_source NullStatement"

definition is_null_statement :: "statement \<Rightarrow> bool" where
  "is_null_statement s \<longleftrightarrow> statement_node s = NullStatement"

section \<open>Numbers\<close>

definition base_digit :: "nat \<Rightarrow> char \<Rightarrow> nat option" where
  "base_digit b c =
     (let v = (if isdigit c then Some (code c - 48)
               else if code (CHR ''a'') \<le> code c \<and> code c \<le> code (CHR ''f'') then Some (code c - 87)
               else if code (CHR ''A'') \<le> code c \<and> code c \<le> code (CHR ''F'') then Some (code c - 55)
               else None)
      in case v of None \<Rightarrow> None | Some n \<Rightarrow> if n < b then Some n else None)"

definition base_value :: "nat \<Rightarrow> string \<Rightarrow> nat" where
  "base_value b s = foldl (\<lambda>v c. v * b + the (base_digit b c)) 0 (takeWhile (\<lambda>c. base_digit b c \<noteq> None) s)"

text \<open>\<^verbatim>\<open>std::stoll\<close>: blanks, a sign, in base 16 an optional prefix, and at least one digit.\<close>

definition stoll :: "nat \<Rightarrow> string \<Rightarrow> number_error + int64" where
  "stoll b s =
     (let s1 = dropWhile isspace s;
          negative = (case s1 of c # _ \<Rightarrow> c = CHR ''-'' | [] \<Rightarrow> False);
          s2 = (case s1 of c # r \<Rightarrow> if c = CHR ''-'' \<or> c = CHR ''+'' then r else s1 | [] \<Rightarrow> s1);
          s3 = (case s2 of
                  z # x # d # r \<Rightarrow>
                    if b = 16 \<and> z = CHR ''0'' \<and> (x = CHR ''x'' \<or> x = CHR ''X'') \<and> base_digit 16 d \<noteq> None then d # r else s2
                | _ \<Rightarrow> s2);
          v = (if negative then - int (base_value b s3) else int (base_value b s3))
      in if takeWhile (\<lambda>c. base_digit b c \<noteq> None) s3 = [] then Inl InvalidArgument
         else if v < - (2 ^ 63) \<or> 2 ^ 63 - 1 < v then Inl OutOfRange
         else Inr (word_of_int v))"

text \<open>
  \<^verbatim>\<open>std::stod\<close> on a text that starts with a digit: the longest prefix that is a decimal number, rounded to the nearest
  double, the even one of two; its 64 bits are the result. A value that overflows and a tiny one that is not exact are out of range.
\<close>

definition round_even :: "nat \<Rightarrow> nat \<Rightarrow> nat" where
  "round_even n d =
     (let q = n div d; r = n mod d in
      if 2 * r < d \<or> (2 * r = d \<and> even q) then q else q + 1)"

fun bit_length :: "nat \<Rightarrow> nat" where
  "bit_length n = (if n = 0 then 0 else Suc (bit_length (n div 2)))"

declare bit_length.simps [simp del]

definition scaled :: "nat \<Rightarrow> nat \<Rightarrow> int \<Rightarrow> nat \<times> nat" where
  "scaled n d e = (if 0 \<le> e then (n, d * 2 ^ nat e) else (n * 2 ^ nat (- e), d))"

definition double_of_fraction :: "nat \<Rightarrow> nat \<Rightarrow> number_error + int64" where
  "double_of_fraction n d =
     (if n = 0 then Inr 0
      else
        let guess = int (bit_length n) - int (bit_length d) - 53;
            (a, b) = scaled n d guess;
            e = max (if b * 2 ^ 53 \<le> a then guess + 1 else guess) (-1074);
            (x, y) = scaled n d e;
            m = round_even x y
        in if m = 2 ^ 53
           then if 971 \<le> e then Inl OutOfRange else Inr (word_of_int ((e + 1076) * 2 ^ 52))
           else if 971 < e then Inl OutOfRange
           else if m < 2 ^ 52 then if x mod y = 0 then Inr (of_nat m) else Inl OutOfRange
           else Inr (word_of_int ((e + 1075) * 2 ^ 52 + (int m - 2 ^ 52))))"

text \<open>The exponent behind the digits of a number, and the number.\<close>

definition exponent_of :: "string \<Rightarrow> int" where
  "exponent_of s =
     (case s of
        c # r \<Rightarrow>
          if c = CHR ''e'' \<or> c = CHR ''E''
          then case r of
                 d # r2 \<Rightarrow>
                   if d = CHR ''-'' then - int (decimal_value (takeWhile isdigit r2))
                   else if d = CHR ''+'' then int (decimal_value (takeWhile isdigit r2))
                   else int (decimal_value (takeWhile isdigit r))
               | [] \<Rightarrow> 0
          else 0
      | [] \<Rightarrow> 0)"

definition stod :: "string \<Rightarrow> number_error + int64" where
  "stod s =
     (let whole = takeWhile isdigit s;
          r1 = dropWhile isdigit s;
          fraction = (case r1 of c # r \<Rightarrow> if c = CHR ''.'' then takeWhile isdigit r else [] | [] \<Rightarrow> []);
          r2 = (case r1 of c # r \<Rightarrow> if c = CHR ''.'' then dropWhile isdigit r else r1 | [] \<Rightarrow> r1);
          n = decimal_value (whole @ fraction);
          e = exponent_of r2 - int (length fraction)
      in if whole @ fraction = [] then Inl InvalidArgument
         else if 0 \<le> e then double_of_fraction (n * 10 ^ nat e) 1 else double_of_fraction n (10 ^ nat (- e)))"

definition number_result :: "number_error + 'a \<Rightarrow> 'a parse" where
  "number_result r = (case r of Inl e \<Rightarrow> fails (Number_failure e) | Inr v \<Rightarrow> returns v)"

text \<open>The value of an integer literal as \<^verbatim>\<open>parsePrimaryExpression\<close> reads it.\<close>

definition integer_literal :: "string \<Rightarrow> number_error + int64" where
  "integer_literal raw =
     (let prefixed = (\<lambda>lo up. 2 < length raw \<and> raw ! 0 = CHR ''0'' \<and> (raw ! 1 = lo \<or> raw ! 1 = up))
      in if prefixed (CHR ''x'') (CHR ''X'') then stoll 16 (drop 2 raw)
         else if prefixed (CHR ''b'') (CHR ''B'') then stoll 2 (drop 2 raw)
         else if prefixed (CHR ''o'') (CHR ''O'') then stoll 8 (drop 2 raw)
         else stoll 10 (takeWhile (\<lambda>c. isdigit c \<or> c = CHR ''-'') raw))"

end
