(* ===== verification/ParserExpressions.thy ===== *)
theory ParserExpressions
  imports Parser
begin

text \<open>
  The parser: written types, parameters and expressions. Each member function is a definition over the record of calls \<open>r\<close>; what the
  source writes out several times (the arguments of the three kinds of calls, the tails of the three kinds of comprehensions,
  the lists separated by commas) is one definition here.
\<close>

section \<open>Lists\<close>

text \<open>A \<^verbatim>\<open>do\<close> loop that goes on while there is a comma.\<close>

definition comma_separated :: "'a parse \<Rightarrow> 'a list parse" where
  "comma_separated item =
     repeatp (\<lambda>xs. bindp item (\<lambda>x. bindp (match_type (Punctuation Comma)) (\<lambda>go. returns (go, xs @ [x])))) []"

text \<open>More elements, each behind a separator.\<close>

definition more_after :: "token_type \<Rightarrow> 'a parse \<Rightarrow> 'a list \<Rightarrow> 'a list parse" where
  "more_after t item =
     repeatp (\<lambda>xs. bindp (match_type t) (\<lambda>go. if go then bindp item (\<lambda>x. returns (True, xs @ [x])) else returns (False, xs)))"

text \<open>An expression below the current call; the null pointer becomes none.\<close>

abbreviation nested_expression :: "calls \<Rightarrow> expression parse" where
  "nested_expression r \<equiv> call_precedence r 1"

definition optional_expression :: "calls \<Rightarrow> expression option parse" where
  "optional_expression r = bindp (nested_expression r) (\<lambda>e. returns (pointer e))"

section \<open>Written types\<close>

definition parseGenericArguments :: "calls \<Rightarrow> expression type_node list parse" where
  "parseGenericArguments r =
     bindp (match_type (Comparison LessThan)) (\<lambda>opened.
       if \<not> opened then returns []
       else bindp
         (repeatp (\<lambda>ts. ifp (\<lambda>p. checkGreaterThan p \<or> at_end p) (returns (False, ts))
            (bindp (call_type r) (\<lambda>t. bindp (match_type (Punctuation Comma)) (\<lambda>go. returns (go, ts @ [t]))))) [])
         (\<lambda>ts. bindp (consumeGreaterThan (wanted ''>'' '' after generic arguments'')) (\<lambda>_. returns ts)))"

definition parse_pointer_type ::
    "calls \<Rightarrow> (expression type_node \<Rightarrow> bool \<Rightarrow> expression type_form) \<Rightarrow> Source \<Rightarrow> expression type_node parse" where
  "parse_pointer_type r form src =
     bindp advance_token (\<lambda>_. bindp (match_type (Declaration KeywordMutable)) (\<lambda>isMutable.
     bindp (call_type r) (\<lambda>inner. returns (Type_node src (form inner isMutable)))))"

definition parse_array_type :: "calls \<Rightarrow> Source \<Rightarrow> expression type_node parse" where
  "parse_array_type r src =
     bindp advance_token (\<lambda>_. bindp (call_type r) (\<lambda>elementType.
     bindp (match_type (Punctuation Semicolon)) (\<lambda>sized.
     bindp (if sized then optional_expression r else returns None) (\<lambda>size.
     bindp (expect_type (Delimiter RightBracket) (wanted '']'' '' in array type'')) (\<lambda>_.
       returns (Type_node src (ArrayTypeNode elementType size)))))))"

text \<open>Types up to a closing parenthesis.\<close>

definition parse_type_list :: "calls \<Rightarrow> expression type_node list parse" where
  "parse_type_list r =
     bindp (ifp (check_type (Delimiter RightParenthesis)) (returns []) (comma_separated (call_type r))) (\<lambda>ts.
     bindp (expect_type (Delimiter RightParenthesis) (wanted '')'' [])) (\<lambda>_. returns ts))"

definition parse_tuple_type :: "calls \<Rightarrow> Source \<Rightarrow> expression type_node parse" where
  "parse_tuple_type r src =
     bindp advance_token (\<lambda>_. bindp (parse_type_list r) (\<lambda>ts.
       returns (case ts of [t] \<Rightarrow> t | _ \<Rightarrow> Type_node src (TupleTypeNode ts))))"

definition parse_function_type :: "calls \<Rightarrow> Source \<Rightarrow> expression type_node parse" where
  "parse_function_type r src =
     bindp advance_token (\<lambda>_. bindp (expect_type (Delimiter LeftParenthesis) (wanted ''('' [])) (\<lambda>_.
     bindp (parse_type_list r) (\<lambda>ts.
     bindp (expect_type (Punctuation Arrow) (wanted ''->'' '' followed by return type in function type'')) (\<lambda>_.
     bindp (call_type r) (\<lambda>t. returns (Type_node src (FunctionTypeNode ts t)))))))"

definition parse_meta_type :: "calls \<Rightarrow> Source \<Rightarrow> expression type_node parse" where
  "parse_meta_type r src =
     bindp advance_token (\<lambda>_. bindp (call_type r) (\<lambda>inner.
     bindp (expect_type (Comparison GreaterThan) (wanted ''>'' '' after Meta type parameter'')) (\<lambda>_.
       returns (Type_node src (MetaTypeNode inner)))))"

definition parse_callable_type :: "calls \<Rightarrow> Source \<Rightarrow> expression type_node parse" where
  "parse_callable_type r src =
     bindp advance_token (\<lambda>_. bindp (call_type r) (\<lambda>returnType.
     bindp (expect_type (Punctuation Comma) (wanted '','' '' after Callable return type'')) (\<lambda>_.
     bindp (expect_type (Comparison LessThan) (wanted ''<'' '' before Callable parameter types'')) (\<lambda>_.
     bindp (ifp (check_types [Comparison GreaterThan, Bitwise ShiftRight]) (returns []) (comma_separated (call_type r))) (\<lambda>ts.
     bindp (expect_type (Comparison GreaterThan) (wanted ''>'' '' after Callable parameter types'')) (\<lambda>_.
     bindp (expect_type (Comparison GreaterThan) (wanted ''>'' '' to close Callable type'')) (\<lambda>_.
       returns (Type_node src (CallableTypeNode ts returnType)))))))))"

text \<open>What follows the name of a type.\<close>

definition parse_named_type :: "calls \<Rightarrow> Source \<Rightarrow> string \<Rightarrow> expression type_node parse" where
  "parse_named_type r src n =
     ifp (\<lambda>p. n = ''Meta'' \<and> check_type (Comparison LessThan) p) (parse_meta_type r src)
    (ifp (\<lambda>p. n = ''Callable'' \<and> check_type (Comparison LessThan) p) (parse_callable_type r src)
    (ifp (check_type (Comparison LessThan))
       (bindp (parseGenericArguments r) (\<lambda>ts.
          returns (Type_node src (if ts \<noteq> [] then GenericTypeNode n ts else SimpleTypeNode n))))
       (returns (Type_node src (SimpleTypeNode n)))))"

definition parseBaseTypeNode :: "calls \<Rightarrow> expression type_node parse" where
  "parseBaseTypeNode r p =
     (let src = here p in
      if check_type (Bitwise Ampersand) p then parse_pointer_type r ReferenceTypeNode src p
      else if check_type (Arithmetic Star) p then parse_pointer_type r PointerTypeNode src p
      else if check_type (Delimiter LeftBracket) p then parse_array_type r src p
      else if check_type (Delimiter LeftParenthesis) p then parse_tuple_type r src p
      else if check_type (Declaration KeywordFunction) p then parse_function_type r src p
      else if check_type Identifier p then bindp advance_token (\<lambda>tok. parse_named_type r src (tvalue tok)) p
      else if check_type (Oop KeywordSelf) p then bindp advance_token (\<lambda>_. parse_named_type r src ''Self'') p
      else bindp (parser_error here (\<lambda>q. ''expected type name but found '' @ quote (tvalue (current_token q))) [])
             (\<lambda>_. returns (Type_node src (SimpleTypeNode ''error''))) p)"

definition parse_union_type :: "calls \<Rightarrow> expression type_node \<Rightarrow> expression type_node parse" where
  "parse_union_type r t =
     ifp (check_type (Bitwise Pipe))
       (bindp (more_after (Bitwise Pipe) (parseBaseTypeNode r) [t]) (\<lambda>ts. returns (Type_node (type_source t) (UnionTypeNode ts))))
       (returns t)"

definition parse_optional_suffix :: "expression type_node \<Rightarrow> expression type_node parse" where
  "parse_optional_suffix t p =
     (if check_type (Punctuation Question) p
      then bindp advance_token (\<lambda>tok. returns (Type_node (tsource tok) (OptionalTypeNode t))) p
      else returns t p)"

definition parseTypeNode :: "calls \<Rightarrow> expression type_node parse" where
  "parseTypeNode r =
     ifp (check_type (Punctuation Question))
       (bindp advance_token (\<lambda>tok. bindp (parseBaseTypeNode r) (\<lambda>t.
          returns (Type_node (tsource tok) (OptionalTypeNode t)))))
       (bindp (parseBaseTypeNode r) (\<lambda>t. bindp (parse_union_type r t) parse_optional_suffix))"

section \<open>Parameters\<close>

definition self_parameter :: "Source \<Rightarrow> bool \<Rightarrow> parameter" where
  "self_parameter src isReference =
     Parameter src Access_Default None False False False isReference True False False ''self'' None"

definition access_of :: "token_type \<Rightarrow> AccessModifier option" where
  "access_of t =
     (if t = Access KeywordPublic then Some Access_Public
      else if t = Access KeywordPrivate then Some Access_Private
      else if t = Access KeywordProtect then Some Access_Protect else None)"

text \<open>The access modifier of a property parameter, with whether it is read-only.\<close>

definition parse_property_access :: "(AccessModifier \<times> bool \<times> bool) parse" where
  "parse_property_access p =
     (case access_of (ttype (current_token p)) of
        None \<Rightarrow> returns (Access_Default, False, False) p
      | Some a \<Rightarrow> bindp advance_token (\<lambda>_. bindp (match_type (Oop KeywordReadonly)) (\<lambda>ro. returns (a, True, ro))) p)"

text \<open>The brackets behind the name of a variadic or keyword parameter.\<close>

definition parse_parameter_kind :: "(bool \<times> bool) parse" where
  "parse_parameter_kind =
     ifp (\<lambda>p. check_type (Delimiter LeftBracket) p \<and> next_type 1 (Delimiter RightBracket) p)
       (bindp advance_token (\<lambda>_. bindp advance_token (\<lambda>_. returns (True, False))))
    (ifp (\<lambda>p. check_type (Delimiter LeftBrace) p \<and> next_type 1 (Delimiter RightBrace) p)
       (bindp advance_token (\<lambda>_. bindp advance_token (\<lambda>_. returns (False, True))))
       (returns (False, False)))"

definition parse_plain_parameter :: "calls \<Rightarrow> Source \<Rightarrow> parameter parse" where
  "parse_plain_parameter r src =
     bindp parse_property_access (\<lambda>(access, isProperty, isReadonly).
     bindp (match_type (Declaration KeywordMutable)) (\<lambda>isMutable.
     bindp (call_type r) (\<lambda>t.
     bindp (expect_name Identifier ''expected parameter name'') (\<lambda>n.
     bindp parse_parameter_kind (\<lambda>(isVariadic, isKeywordParameter).
     bindp (match_type (Assigning Assignment)) (\<lambda>assigned.
     bindp (if assigned then optional_expression r else returns None) (\<lambda>default.
       returns (Parameter src access default isMutable isProperty isReadonly False False isVariadic isKeywordParameter n
         (Some (if isVariadic then Type_node src (ArrayTypeNode t None) else t))))))))))"

definition parseFunctionParameter :: "calls \<Rightarrow> parameter parse" where
  "parseFunctionParameter r p =
     (let src = here p in
      if check_type (Oop KeywordSelf) p then bindp advance_token (\<lambda>_. returns (self_parameter src False)) p
      else if check_type (Bitwise Ampersand) p \<and> next_type 1 (Oop KeywordSelf) p
      then bindp advance_token (\<lambda>_. bindp advance_token (\<lambda>_. returns (self_parameter src True))) p
      else parse_plain_parameter r src p)"

text \<open>The tests of the list of parameters: what has been seen before, the parameter, and whether it is the last one.\<close>

definition report_if :: "bool \<Rightarrow> Source \<Rightarrow> string \<Rightarrow> unit parse" where
  "report_if b src msg = (if b then parser_error (\<lambda>_. src) (\<lambda>_. msg) [] else returns ())"

fun check_parameters :: "bool \<Rightarrow> bool \<Rightarrow> parameter list \<Rightarrow> unit parse" where
  "check_parameters hasVariadic hasKeyword [] = returns ()"
| "check_parameters hasVariadic hasKeyword (x # xs) =
     (let src = parameter_source x; variadic = hasVariadic \<or> parameter_isVariadic x in
      bindp (report_if (parameter_isVariadic x \<and> hasVariadic) src ''only one variadic parameter allowed per function'') (\<lambda>_.
      bindp (report_if (parameter_isKeyword x \<and> hasKeyword) src ''only one keyword parameter allowed per function'') (\<lambda>_.
      bindp (report_if (parameter_isKeyword x \<and> xs \<noteq> []) src ''keyword parameter must be the last parameter'') (\<lambda>_.
      bindp (report_if (variadic \<and> \<not> parameter_isVariadic x \<and> \<not> parameter_isKeyword x \<and> \<not> parameter_isSelf x
               \<and> parameter_default x = None) src
               ''no positional parameters allowed after variadic parameter (use default values for keyword-only parameters)'') (\<lambda>_.
        check_parameters variadic (hasKeyword \<or> parameter_isKeyword x) xs)))))"

definition parseFunctionParameters :: "calls \<Rightarrow> parameter list parse" where
  "parseFunctionParameters r =
     ifp (check_type (Delimiter RightParenthesis)) (returns [])
       (bindp (comma_separated (parseFunctionParameter r)) (\<lambda>xs.
        bindp (check_parameters False False xs) (\<lambda>_. returns xs)))"

definition parse_generic_parameter :: "calls \<Rightarrow> generic_parameter parse" where
  "parse_generic_parameter r p =
     (let src = here p in
      bindp (expect_name Identifier ''expected generic parameter name'') (\<lambda>n.
      bindp (match_type (Punctuation Colon)) (\<lambda>constrained.
      bindp (if constrained then bindp (call_type r) (\<lambda>t. more_after (Arithmetic Plus) (call_type r) [t]) else returns []) (\<lambda>ts.
      bindp (match_type (Assigning Assignment)) (\<lambda>defaulted.
      bindp (if defaulted then bindp (call_type r) (\<lambda>t. returns (Some t)) else returns None) (\<lambda>default.
        returns (GenericParameter src ts default n)))))) p)"

definition parseGenericParameters :: "calls \<Rightarrow> generic_parameter list parse" where
  "parseGenericParameters r =
     bindp (match_type (Comparison LessThan)) (\<lambda>opened.
       if \<not> opened then returns []
       else bindp
         (repeatp (\<lambda>gs. ifp (\<lambda>p. checkGreaterThan p \<or> at_end p) (returns (False, gs))
            (bindp (parse_generic_parameter r) (\<lambda>g. bindp (match_type (Punctuation Comma)) (\<lambda>go. returns (go, gs @ [g]))))) [])
         (\<lambda>gs. bindp (consumeGreaterThan (wanted ''>'' '' after generic parameters'')) (\<lambda>_. returns gs)))"

section \<open>Comprehensions and literals of collections\<close>

text \<open>The tail of a comprehension behind \<^verbatim>\<open>for\<close>: the type and name of the variable, what it runs over and the condition.\<close>

definition comprehension_variable :: "calls \<Rightarrow> (expression type_node option \<times> string) parse" where
  "comprehension_variable r =
     ifp (\<lambda>p. check_type Identifier p \<and> next_type 1 Identifier p)
       (bindp (call_type r) (\<lambda>t. bindp (expect_name Identifier ''expected variable name'') (\<lambda>n. returns (Some t, n))))
    (ifp (\<lambda>p. check_type Identifier p \<and> next_type 1 (Other KeywordIn) p)
       (bindp advance_token (\<lambda>tok. returns (None, tvalue tok)))
       (bindp (expect_name Identifier ''expected variable name'') (\<lambda>n. returns (None, n))))"

definition parse_comprehension ::
    "calls \<Rightarrow> ComprehensionKind \<Rightarrow> Source \<Rightarrow> expression \<Rightarrow> expression option \<Rightarrow> token_type \<Rightarrow> string \<Rightarrow> expression parse" where
  "parse_comprehension r kind src body key closing msg =
     bindp advance_token (\<lambda>_. bindp (comprehension_variable r) (\<lambda>(t, n).
     bindp (expect_type (Other KeywordIn) (wanted ''in'' '' in comprehension'')) (\<lambda>_.
     bindp (nested_expression r) (\<lambda>iterable.
     bindp (match_type (Control KeywordIf)) (\<lambda>filtered.
     bindp (if filtered then optional_expression r else returns None) (\<lambda>condition.
     bindp (expect_type closing msg) (\<lambda>_.
       returns (expr src (ComprehensionExpression kind body key condition iterable n t)))))))))"

definition parseArrayExpression :: "calls \<Rightarrow> expression parse" where
  "parseArrayExpression r p =
     (let src = here p in
      bindp (expect_type (Delimiter LeftBracket) []) (\<lambda>_.
      ifp (check_type (Delimiter RightBracket)) (bindp advance_token (\<lambda>_. returns (expr src (ArrayExpression []))))
        (bindp (nested_expression r) (\<lambda>first.
         ifp (check_type (Control KeywordFor))
           (parse_comprehension r Comprehension_List src first None (Delimiter RightBracket) (wanted '']'' '' after comprehension''))
           (bindp (more_after (Punctuation Comma) (nested_expression r) [first]) (\<lambda>es.
            bindp (expect_type (Delimiter RightBracket) (wanted '']'' [])) (\<lambda>_. returns (expr src (ArrayExpression es)))))))) p)"

text \<open>The loop over the further elements of a set or a map: a trailing comma is allowed.\<close>

definition until_brace :: "'a parse \<Rightarrow> 'a list \<Rightarrow> 'a list parse" where
  "until_brace item =
     repeatp (\<lambda>xs. bindp (match_type (Punctuation Comma)) (\<lambda>go.
       if \<not> go then returns (False, xs)
       else ifp (check_type (Delimiter RightBrace)) (returns (False, xs)) (bindp item (\<lambda>x. returns (True, xs @ [x])))))"

definition parse_map_entry :: "calls \<Rightarrow> (expression \<times> expression) parse" where
  "parse_map_entry r =
     bindp (nested_expression r) (\<lambda>key.
     bindp (expect_type (Punctuation Colon) (wanted '':'' '' in map literal'')) (\<lambda>_.
     bindp (nested_expression r) (\<lambda>v. returns (key, v))))"

definition parse_map_rest :: "calls \<Rightarrow> Source \<Rightarrow> expression \<Rightarrow> expression parse" where
  "parse_map_rest r src first =
     bindp advance_token (\<lambda>_. bindp (nested_expression r) (\<lambda>firstValue.
     ifp (check_type (Control KeywordFor))
       (parse_comprehension r Comprehension_Map src firstValue (pointer first) (Delimiter RightBrace)
          (wanted ''}'' '' after map comprehension''))
       (bindp (until_brace (parse_map_entry r) [(first, firstValue)]) (\<lambda>entries.
        bindp (expect_type (Delimiter RightBrace) (wanted ''}'' [])) (\<lambda>_. returns (expr src (MapLiteral entries)))))))"

definition parse_set_rest :: "calls \<Rightarrow> Source \<Rightarrow> expression \<Rightarrow> expression parse" where
  "parse_set_rest r src first =
     ifp (check_type (Control KeywordFor))
       (parse_comprehension r Comprehension_Set src first None (Delimiter RightBrace) (wanted ''}'' '' after set comprehension''))
       (bindp (until_brace (nested_expression r) [first]) (\<lambda>es.
        bindp (expect_type (Delimiter RightBrace) (wanted ''}'' [])) (\<lambda>_. returns (expr src (SetLiteral es)))))"

definition parseMapOrSetExpression :: "calls \<Rightarrow> expression parse" where
  "parseMapOrSetExpression r p =
     (let src = here p in
      bindp (expect_type (Delimiter LeftBrace) []) (\<lambda>_.
      ifp (check_type (Delimiter RightBrace)) (bindp advance_token (\<lambda>_. returns (expr src (MapLiteral []))))
        (bindp (nested_expression r) (\<lambda>first.
         ifp (check_type (Punctuation Colon)) (parse_map_rest r src first) (parse_set_rest r src first)))) p)"

section \<open>Arguments\<close>

type_synonym call_arguments = "expression list \<times> (string \<times> expression \<times> Source) list"

text \<open>One argument: a name before \<^verbatim>\<open>=\<close> makes it a keyword argument. The null pointer of an argument is followed.\<close>

definition named_argument :: "calls \<Rightarrow> expression \<Rightarrow> (string \<Rightarrow> expression \<Rightarrow> 'a) \<Rightarrow> 'a parse \<Rightarrow> 'a parse" where
  "named_argument r e named positional =
     (case identifier_name e of
        None \<Rightarrow> positional
      | Some n \<Rightarrow>
          ifp (check_type (Assigning Assignment))
            (bindp advance_token (\<lambda>_. bindp (nested_expression r) (\<lambda>v. returns (named n v)))) positional)"

definition argument_step ::
    "calls \<Rightarrow> call_arguments \<times> bool \<Rightarrow> (bool \<times> (call_arguments \<times> bool)) parse" where
  "argument_step r = (\<lambda>((args, keywords), seen).
     bindp (nested_expression r) (\<lambda>e0. bindp (followed e0) (\<lambda>e.
     bindp (named_argument r e (\<lambda>n v. ((args, keywords @ [(n, v, expression_source e)]), True))
         (bindp (report_if seen (expression_source e) ''positional argument cannot follow keyword argument'') (\<lambda>_.
            returns ((args @ [e], keywords), seen)))) (\<lambda>s.
     bindp (match_type (Punctuation Comma)) (\<lambda>go. returns (go, s))))))"

definition parse_arguments :: "calls \<Rightarrow> string \<Rightarrow> call_arguments parse" where
  "parse_arguments r msg =
     bindp (ifp (check_type (Delimiter RightParenthesis)) (returns (([], []), False)) (repeatp (argument_step r) (([], []), False)))
       (\<lambda>(xs, _). bindp (expect_type (Delimiter RightParenthesis) msg) (\<lambda>_. returns xs))"

text \<open>The arguments of \<^verbatim>\<open>new\<close>, where a positional argument has no name.\<close>

definition field_step ::
    "calls \<Rightarrow> (string \<times> expression) list \<times> bool \<Rightarrow> (bool \<times> ((string \<times> expression) list \<times> bool)) parse" where
  "field_step r = (\<lambda>(fields, seen).
     bindp (nested_expression r) (\<lambda>e0. bindp (followed e0) (\<lambda>e.
     bindp (named_argument r e (\<lambda>n v. (fields @ [(n, v)], True))
         (bindp (report_if seen (expression_source e) ''positional argument cannot follow named argument'') (\<lambda>_.
            returns (fields @ [([], e)], seen)))) (\<lambda>s.
     bindp (match_type (Punctuation Comma)) (\<lambda>go. returns (go, s))))))"

definition parse_fields :: "calls \<Rightarrow> (string \<times> expression) list parse" where
  "parse_fields r =
     bindp (ifp (check_type (Delimiter RightParenthesis)) (returns ([], False)) (repeatp (field_step r) ([], False)))
       (\<lambda>(xs, _). bindp (expect_type (Delimiter RightParenthesis) (wanted '')'' '' after constructor arguments'')) (\<lambda>_. returns xs))"

section \<open>Postfix expressions\<close>

definition parse_call :: "calls \<Rightarrow> expression \<Rightarrow> expression type_node list \<Rightarrow> expression parse" where
  "parse_call r callee typeArguments p =
     (let src = here p in
      bindp advance_token (\<lambda>_. bindp (parse_arguments r (wanted '')'' '' after arguments'')) (\<lambda>(args, keywords).
        returns (expr src (CallExpression args callee keywords typeArguments)))) p)"

text \<open>The name of a member, empty when there is none.\<close>

definition member_name :: "string parse" where
  "member_name = ifp (check_type Identifier) (bindp advance_token (\<lambda>tok. returns (tvalue tok))) (returns [])"

definition parse_member :: "calls \<Rightarrow> expression \<Rightarrow> expression parse" where
  "parse_member r object p =
     (let src = here p in
      bindp advance_token (\<lambda>_. bindp member_name (\<lambda>member.
      bindp (ifp looksLikeGenericCall (parseGenericArguments r) (returns [])) (\<lambda>ts.
      ifp (check_type (Delimiter LeftParenthesis))
        (bindp advance_token (\<lambda>_. bindp (parse_arguments r (wanted '')'' '' after method arguments'')) (\<lambda>(args, keywords).
           returns (expr src (MethodCallExpression args keywords member object ts)))))
        (returns (expr src (MemberAccessExpression member object)))))) p)"

definition parse_index :: "calls \<Rightarrow> expression \<Rightarrow> expression parse" where
  "parse_index r object p =
     (let src = here p in
      bindp advance_token (\<lambda>_. bindp (nested_expression r) (\<lambda>index.
      bindp (expect_type (Delimiter RightBracket) (wanted '']'' '' after index'')) (\<lambda>_.
        returns (expr src (IndexExpression index object))))) p)"

definition parse_scoped_member :: "calls \<Rightarrow> expression \<Rightarrow> expression parse" where
  "parse_scoped_member r object p =
     (let src = here p in
      bindp advance_token (\<lambda>_. bindp member_name (\<lambda>member.
      ifp (check_type (Delimiter LeftParenthesis))
        (bindp advance_token (\<lambda>_.
         bindp (ifp (check_type (Delimiter RightParenthesis)) (returns []) (comma_separated (nested_expression r))) (\<lambda>args.
         bindp (expect_type (Delimiter RightParenthesis) (wanted '')'' [])) (\<lambda>_.
           returns (expr src (MethodCallExpression args [] member object []))))))
        (returns (expr src (MemberAccessExpression member object))))) p)"

definition with_type_arguments :: "expression \<Rightarrow> expression type_node list \<Rightarrow> expression" where
  "with_type_arguments e ts =
     (case expression_node e of
        IdentifierExpression n _ \<Rightarrow> Expression (expression_source e) (semanticType e) (IdentifierExpression n ts)
      | _ \<Rightarrow> e)"

definition postfix_step :: "calls \<Rightarrow> expression \<Rightarrow> (bool \<times> expression) parse" where
  "postfix_step r e p =
     (let more = (\<lambda>m. bindp m (\<lambda>e1. returns (True, e1)) p);
          generic = (check_type (Comparison LessThan) p \<and> identifier_name e \<noteq> None)
      in if generic \<and> looksLikeGenericCall p
         then more (bindp (parseGenericArguments r) (parse_call r e))
         else if check_type (Delimiter LeftParenthesis) p then more (parse_call r e [])
         else if generic
         then if generic_before_dot p then more (bindp (parseGenericArguments r) (\<lambda>ts. returns (with_type_arguments e ts)))
              else returns (False, e) p
         else if check_type (Punctuation Dot) p then more (parse_member r e)
         else if check_type (Delimiter LeftBracket) p then more (parse_index r e)
         else if check_type (Punctuation DoubleColon) p then more (parse_scoped_member r e)
         else if check_type (Punctuation Question) p
         then more (bindp advance_token (\<lambda>tok. returns (expr (tsource tok) (UnaryExpression False (Some e) (Punctuation Question)))))
         else if check_type (Arithmetic Increment) p \<or> check_type (Arithmetic Decrement) p
         then more (bindp advance_token (\<lambda>tok. returns (expr (tsource tok) (UnaryExpression False (Some e) (ttype tok)))))
         else returns (False, e) p)"

section \<open>Lambda and match expressions\<close>

definition parseStatementBlock :: "calls \<Rightarrow> statement list parse" where
  "parseStatementBlock r =
     bindp (match_type (Layout Indent)) (\<lambda>opened.
       if \<not> opened then returns []
       else bindp
         (repeatp (\<lambda>ss. ifp (check_types [Layout Dedent, Special Eof]) (returns (False, ss))
            (bindp skipNewline (\<lambda>_. ifp (check_type (Layout Dedent)) (returns (False, ss))
              (bindp (call_statement r) (\<lambda>s. bindp skipNewline (\<lambda>_.
                 returns (True, if is_null_statement s then ss else ss @ [s]))))))) [])
         (\<lambda>ss. bindp (match_type (Layout Dedent)) (\<lambda>_. returns ss)))"

definition lambda_parameter :: "calls \<Rightarrow> Source \<Rightarrow> parameter parse" where
  "lambda_parameter r src =
     bindp (match_type (Oop KeywordFinal)) (\<lambda>isFinal.
     bindp (call_type r) (\<lambda>t.
     bindp (expect_name Identifier ''expected parameter name'') (\<lambda>n.
       returns (Parameter src Access_Default None (\<not> isFinal) False False False False False False n (Some t)))))"

text \<open>A body that is one expression returns it; the location of the expression is that of the statement.\<close>

definition returned_body :: "calls \<Rightarrow> statement list parse" where
  "returned_body r =
     bindp (nested_expression r) (\<lambda>e0. bindp (followed e0) (\<lambda>e.
       returns [Statement (expression_source e) (ReturnStatement (Some e))]))"

definition lambda_block :: "calls \<Rightarrow> statement list parse" where
  "lambda_block r = bindp (expectNewline ''lambda'') (\<lambda>_. parseStatementBlock r)"

definition parse_function_lambda :: "calls \<Rightarrow> Source \<Rightarrow> expression parse" where
  "parse_function_lambda r src =
     bindp (expect_type (Declaration KeywordFunction) []) (\<lambda>_.
     bindp (expect_type (Delimiter LeftParenthesis) (wanted ''('' '' in lambda'')) (\<lambda>_.
     bindp (parseFunctionParameters r) (\<lambda>ps.
     bindp (expect_type (Delimiter RightParenthesis) (wanted '')'' '' after lambda parameters'')) (\<lambda>_.
     bindp (match_type (Punctuation Arrow)) (\<lambda>typed.
     bindp (if typed then bindp (call_type r) (\<lambda>t. returns (Some t)) else returns None) (\<lambda>t.
     bindp (match_type (Punctuation Colon)) (\<lambda>colon.
     bindp (if colon then ifp (check_types [Layout Indent, Layout Newline]) (lambda_block r) (returned_body r)
            else lambda_block r) (\<lambda>body.
       returns (expr src (LambdaExpression body False ps t))))))))))"

definition parse_short_lambda :: "calls \<Rightarrow> Source \<Rightarrow> expression parse" where
  "parse_short_lambda r src =
     bindp advance_token (\<lambda>_.
     bindp (comma_separated (lambda_parameter r src)) (\<lambda>ps.
     bindp (expect_type (Punctuation Colon) (wanted '':'' '' after lambda parameters'')) (\<lambda>_.
     bindp (returned_body r) (\<lambda>body.
       returns (expr src (LambdaExpression body False ps None))))))"

definition parseLambdaExpression :: "calls \<Rightarrow> expression parse" where
  "parseLambdaExpression r p =
     (let src = here p in
      if check_type (Other KeywordLambda) p then parse_short_lambda r src p else parse_function_lambda r src p)"

definition set_async :: "expression \<Rightarrow> expression" where
  "set_async e =
     (case expression_node e of
        LambdaExpression body _ ps t \<Rightarrow> Expression (expression_source e) (semanticType e) (LambdaExpression body True ps t)
      | _ \<Rightarrow> e)"

type_synonym match_arms = "expression option \<times> expression list \<times> expression list"

definition match_arm :: "calls \<Rightarrow> match_arms \<Rightarrow> (bool \<times> match_arms) parse" where
  "match_arm r = (\<lambda>(default, patterns, bodies).
     ifp at_end (returns (False, (default, patterns, bodies)))
       (bindp (match_type (Arithmetic Star)) (\<lambda>star.
        bindp (if star
               then bindp (expect_type (Punctuation FatArrow) (wanted ''=>'' ('' after '' @ [SQUOTE] @ ''*'' @ [SQUOTE] @ '' in match''))) (\<lambda>_.
                    bindp (optional_expression r) (\<lambda>d. returns (d, patterns, bodies)))
               else bindp (nested_expression r) (\<lambda>pattern.
                    bindp (expect_type (Punctuation FatArrow) (wanted ''=>'' '' in match arm'')) (\<lambda>_.
                    bindp (nested_expression r) (\<lambda>v. returns (default, patterns @ [pattern], bodies @ [v]))))) (\<lambda>arms.
        bindp (match_type (Punctuation Comma)) (\<lambda>go. returns (go, arms))))))"

definition parseMatchExpression :: "calls \<Rightarrow> expression parse" where
  "parseMatchExpression r p =
     (let src = here p in
      bindp advance_token (\<lambda>_. bindp (call_precedence r 8) (\<lambda>subject.
      bindp (expect_type (Other KeywordIn) (wanted ''in'' '' after match subject'')) (\<lambda>_.
      bindp (repeatp (match_arm r) (None, [], [])) (\<lambda>(default, patterns, bodies).
        returns (expr src (MatchExpression default patterns subject bodies)))))) p)"

section \<open>Primary, unary and binary expressions\<close>

definition literal :: "(Token \<Rightarrow> expression_node parse) \<Rightarrow> expression parse" where
  "literal node = bindp advance_token (\<lambda>tok. bindp (node tok) (\<lambda>n. returns (expr (tsource tok) n)))"

definition parse_parenthesized :: "calls \<Rightarrow> expression parse" where
  "parse_parenthesized r p =
     (let src = here p in
      bindp advance_token (\<lambda>_.
      ifp (check_type (Delimiter RightParenthesis)) (bindp advance_token (\<lambda>_. returns (expr src (TupleExpression []))))
        (bindp (nested_expression r) (\<lambda>e.
         bindp (match_type (Punctuation Comma)) (\<lambda>tuple.
         if tuple
         then bindp (ifp (check_type (Delimiter RightParenthesis)) (returns [e])
                      (bindp (comma_separated (nested_expression r)) (\<lambda>es. returns (e # es)))) (\<lambda>es.
              bindp (expect_type (Delimiter RightParenthesis) (wanted '')'' [])) (\<lambda>_. returns (expr src (TupleExpression es))))
         else bindp (expect_type (Delimiter RightParenthesis) (wanted '')'' [])) (\<lambda>_. returns e))))) p)"

definition parse_new :: "calls \<Rightarrow> expression parse" where
  "parse_new r p =
     (let src = here p in
      bindp advance_token (\<lambda>_. bindp (call_type r) (\<lambda>t.
      bindp (match_type (Delimiter LeftParenthesis)) (\<lambda>opened.
      bindp (if opened then parse_fields r else returns []) (\<lambda>fields.
        returns (expr src (ConstructExpression fields (Some t))))))) p)"

definition parse_async :: "calls \<Rightarrow> expression parse" where
  "parse_async r =
     ifp (\<lambda>p. next_type 1 (Other KeywordLambda) p \<or> next_type 1 (Declaration KeywordFunction) p)
       (bindp advance_token (\<lambda>_. bindp (parseLambdaExpression r) (\<lambda>e. returns (set_async e))))
       (bindp (parser_error here (\<lambda>_. ''expected '' @ quote ''lambda'' @ '' or '' @ quote ''function'' @ '' after '' @ quote ''async'') [])
          (\<lambda>_. returns null_expression))"

definition unexpected_token :: "expression parse" where
  "unexpected_token =
     bindp (parser_error here (\<lambda>p. ''unexpected token '' @ quote (tvalue (current_token p)) @ '' in expression'') []) (\<lambda>_.
     bindp advance_token (\<lambda>_. returns null_expression))"

fun parsePrimaryExpression_of :: "calls \<Rightarrow> token_type \<Rightarrow> expression parse" where
  "parsePrimaryExpression_of r Identifier = literal (\<lambda>tok. returns (IdentifierExpression (tvalue tok) []))"
| "parsePrimaryExpression_of r (Other KeywordAsync) = parse_async r"
| "parsePrimaryExpression_of r (Other KeywordAwait) = literal (\<lambda>_. bindp (nested_expression r) (\<lambda>e. returns (AwaitExpression e)))"
| "parsePrimaryExpression_of r (KValue KeywordFalse) = literal (\<lambda>_. returns (BoolLiteral False))"
| "parsePrimaryExpression_of r (Declaration KeywordFunction) = parseLambdaExpression r"
| "parsePrimaryExpression_of r (Other KeywordLambda) = parseLambdaExpression r"
| "parsePrimaryExpression_of r (Oop KeywordNew) = parse_new r"
| "parsePrimaryExpression_of r (KValue KeywordNone) = literal (\<lambda>_. returns NoneLiteral)"
| "parsePrimaryExpression_of r (Oop KeywordParent) = literal (\<lambda>_. returns ParentExpression)"
| "parsePrimaryExpression_of r (Oop KeywordSelf) = literal (\<lambda>_. returns SelfExpression)"
| "parsePrimaryExpression_of r (KValue KeywordTrue) = literal (\<lambda>_. returns (BoolLiteral True))"
| "parsePrimaryExpression_of r (Control KeywordMatch) = parseMatchExpression r"
| "parsePrimaryExpression_of r (Delimiter LeftBrace) = parseMapOrSetExpression r"
| "parsePrimaryExpression_of r (Delimiter LeftBracket) = parseArrayExpression r"
| "parsePrimaryExpression_of r (Delimiter LeftParenthesis) = parse_parenthesized r"
| "parsePrimaryExpression_of r (Literal LiteralChar) =
     literal (\<lambda>tok. returns (CharLiteral (case tvalue tok of [] \<Rightarrow> NUL | c # _ \<Rightarrow> c)))"
| "parsePrimaryExpression_of r (Literal LiteralFloat) =
     bindp (getp current_token) (\<lambda>tok. bindp (number_result (stod (tvalue tok))) (\<lambda>v.
     literal (\<lambda>_. returns (FloatLiteral (tvalue tok) v))))"
| "parsePrimaryExpression_of r (Literal LiteralInteger) =
     literal (\<lambda>tok. bindp (number_result (integer_literal (tvalue tok))) (\<lambda>v. returns (IntegerLiteral (tvalue tok) v)))"
| "parsePrimaryExpression_of r (Literal LiteralRegex) = literal (\<lambda>tok. returns (RegexLiteral (tvalue tok)))"
| "parsePrimaryExpression_of r (Literal LiteralString) = literal (\<lambda>tok. returns (StringLiteral (tvalue tok)))"
| "parsePrimaryExpression_of r (Control KeywordYield) =
     literal (\<lambda>_. bindp (optional_expression r) (\<lambda>e. returns (YieldExpression e)))"
| "parsePrimaryExpression_of r other = unexpected_token"

definition parsePrimaryExpression :: "calls \<Rightarrow> expression parse" where
  "parsePrimaryExpression r p = parsePrimaryExpression_of r (ttype (current_token p)) p"

definition parsePostfixExpression :: "calls \<Rightarrow> expression parse" where
  "parsePostfixExpression r =
     bindp (parsePrimaryExpression r) (\<lambda>e. if is_null e then returns e else repeatp (postfix_step r) e)"

text \<open>The operators in front of an operand.\<close>

definition prefix_operators :: "token_type list" where
  "prefix_operators =
     [Bitwise Ampersand, Punctuation Bang, Logic KeywordNot, Memory KeywordAddressof, Memory KeywordMove, Arithmetic Minus,
      Arithmetic Star, Bitwise Tilde, Arithmetic Increment, Arithmetic Decrement]"

definition parseUnaryExpression :: "calls \<Rightarrow> expression parse" where
  "parseUnaryExpression r =
     ifp (check_types prefix_operators)
       (bindp advance_token (\<lambda>tok.
        bindp (if ttype tok = Bitwise Ampersand then match_type (Declaration KeywordMutable) else returns False) (\<lambda>_.
        bindp (call_unary r) (\<lambda>e. returns (expr (tsource tok) (UnaryExpression True (pointer e) (ttype tok)))))))
       (parsePostfixExpression r)"

definition type_operator :: "calls \<Rightarrow> (expression type_node \<Rightarrow> expression_node) \<Rightarrow> (bool \<times> expression) parse" where
  "type_operator r node =
     bindp advance_token (\<lambda>tok. bindp (call_type r) (\<lambda>t. returns (True, expr (tsource tok) (node t))))"

text \<open>The left operand of \<^verbatim>\<open>subclassof\<close> is cast to an identifier without a test.\<close>

definition subclass_operator :: "calls \<Rightarrow> expression \<Rightarrow> (bool \<times> expression) parse" where
  "subclass_operator r left =
     bindp advance_token (\<lambda>tok. bindp (call_type r) (\<lambda>t.
       case identifier_name left of
         None \<Rightarrow> fails Wrong_cast
       | Some n \<Rightarrow> returns (True, expr (tsource tok)
           (SubclassofExpression (Type_node (expression_source left) (SimpleTypeNode n)) t))))"

definition binary_operator :: "calls \<Rightarrow> expression \<Rightarrow> (bool \<times> expression) parse" where
  "binary_operator r left =
     bindp advance_token (\<lambda>tok.
     bindp (if ttype tok = Other KeywordIs then match_type (Logic KeywordNot) else returns False) (\<lambda>isNegated.
     bindp (call_precedence r (let prec = getOperatorPrecedenceValue (ttype tok) in
              if ttype tok = Arithmetic Power then prec else prec + 1)) (\<lambda>right.
       (let e = expr (tsource tok) (BinaryExpression left (ttype tok) right) in
        returns (True, if isNegated then expr (tsource tok) (UnaryExpression True (Some e) (Logic KeywordNot)) else e)))))"

definition precedence_step :: "calls \<Rightarrow> int \<Rightarrow> expression \<Rightarrow> (bool \<times> expression) parse" where
  "precedence_step r minimumPrecedence left p =
     (let kind = ttype (current_token p) in
      if getOperatorPrecedenceValue kind < minimumPrecedence then returns (False, left) p
      else if kind = Other KeywordAs then type_operator r (CastExpression left) p
      else if kind = Other KeywordInstanceOf then type_operator r (InstanceofExpression left) p
      else if kind = Other KeywordSubclassOf then subclass_operator r left p
      else binary_operator r left p)"

definition parse_range :: "calls \<Rightarrow> expression \<Rightarrow> expression parse" where
  "parse_range r left =
     ifp (check_types [Punctuation DoubleDot, Punctuation Ellipsis])
       (bindp advance_token (\<lambda>tok. bindp (nested_expression r) (\<lambda>e.
          returns (expr (tsource tok) (RangeExpression e (ttype tok = Punctuation Ellipsis) left)))))
       (returns left)"

definition parsePrecedenceExpression :: "calls \<Rightarrow> int \<Rightarrow> expression parse" where
  "parsePrecedenceExpression r minimumPrecedence =
     bindp (parseUnaryExpression r) (\<lambda>left.
       if is_null left then returns left
       else bindp (repeatp (precedence_step r minimumPrecedence) left) (parse_range r))"

definition parseExpression :: "calls \<Rightarrow> expression parse" where
  "parseExpression r = parsePrecedenceExpression r 1"

end
