(* ===== verification/ParserStatements.thy ===== *)
theory ParserStatements
  imports ParserExpressions
begin

text \<open>The parser: statements.\<close>

definition stmt :: "Source \<Rightarrow> statement_node \<Rightarrow> statement" where
  "stmt src node = Statement src node"

text \<open>A colon, the end of the line and a block.\<close>

definition parse_suite :: "calls \<Rightarrow> string \<Rightarrow> string \<Rightarrow> statement list parse" where
  "parse_suite r msg context =
     bindp (expect_type (Punctuation Colon) msg) (\<lambda>_. bindp (expectNewline context) (\<lambda>_. parseStatementBlock r))"

section \<open>Inline assembly\<close>

definition asm_operand :: "calls \<Rightarrow> (string \<times> expression) parse" where
  "asm_operand r =
     bindp (getp (\<lambda>p. tvalue (current_token p))) (\<lambda>constraint.
     bindp (expect_type (Literal LiteralString) ''expected constraint string'') (\<lambda>_.
     bindp (nested_expression r) (\<lambda>e.
     bindp (match_type (Punctuation Comma)) (\<lambda>_. returns (constraint, e)))))"

definition asm_clobber :: "string parse" where
  "asm_clobber =
     bindp (getp (\<lambda>p. tvalue (current_token p))) (\<lambda>n.
     bindp (expect_type (Literal LiteralString) ''expected clobber register name'') (\<lambda>_.
     bindp (match_type (Punctuation Comma)) (\<lambda>_. returns n)))"

text \<open>Items in parentheses.\<close>

definition asm_list :: "string \<Rightarrow> 'a parse \<Rightarrow> 'a list parse" where
  "asm_list msg item =
     bindp (expect_type (Delimiter LeftParenthesis) msg) (\<lambda>_.
     bindp (repeatp (\<lambda>xs. ifp (\<lambda>p. check_type (Delimiter RightParenthesis) p \<or> at_end p) (returns (False, xs))
              (bindp item (\<lambda>x. returns (True, xs @ [x])))) []) (\<lambda>xs.
     bindp (expect_type (Delimiter RightParenthesis) (wanted '')'' [])) (\<lambda>_. returns xs)))"

text \<open>A section that starts with a colon and holds a list when its word follows.\<close>

definition asm_section :: "string \<Rightarrow> 'a list parse \<Rightarrow> ('a list \<Rightarrow> 'b parse) \<Rightarrow> 'b parse \<Rightarrow> 'b parse" where
  "asm_section word items rest absent =
     ifp (check_type (Punctuation Colon))
       (bindp advance_token (\<lambda>_.
        bindp (ifp (\<lambda>p. check_type Identifier p \<and> tvalue (current_token p) = word)
                 (bindp advance_token (\<lambda>_. items)) (returns [])) rest))
       absent"

type_synonym asm_operands = "(string \<times> expression) list \<times> (string \<times> expression) list \<times> string list"

definition parse_asm_operands :: "calls \<Rightarrow> asm_operands parse" where
  "parse_asm_operands r =
     asm_section ''output'' (asm_list (wanted ''('' '' after output/input'') (asm_operand r)) (\<lambda>outputs.
       asm_section ''input'' (asm_list (wanted ''('' '' after output/input'') (asm_operand r)) (\<lambda>inputs.
         asm_section ''clobber'' (asm_list (wanted ''('' '' after clobber'') asm_clobber) (\<lambda>clobbers.
           returns (outputs, inputs, clobbers))
         (returns (outputs, inputs, [])))
       (returns (outputs, [], [])))
     (returns ([], [], []))"

definition asm_template :: "string parse" where
  "asm_template =
     bindp (getp (\<lambda>p. tvalue (current_token p))) (\<lambda>t.
     bindp (expect_type (Literal LiteralString) ''expected assembly template string'') (\<lambda>_. returns t))"

definition asm_architecture :: "string parse" where
  "asm_architecture =
     bindp (getp (\<lambda>p. tvalue (current_token p))) (\<lambda>n.
     bindp (expect_type Identifier ''expected architecture name (x86-64, aarch64, ...)'') (\<lambda>_.
     ifp (\<lambda>p. n = ''x86'' \<and> check_type (Arithmetic Minus) p)
       (bindp advance_token (\<lambda>_. bindp (getp (\<lambda>p. tvalue (current_token p))) (\<lambda>suffix.
        bindp (expect_type (Literal LiteralInteger) (''expected architecture suffix after '' @ [SQUOTE] @ ''x86-'' @ [SQUOTE])) (\<lambda>_.
          returns (n @ ''-'' @ suffix)))))
       (returns n)))"

definition asm_variant ::
    "calls \<Rightarrow> (string \<times> string \<times> (string \<times> expression) list \<times> (string \<times> expression) list \<times> string list) parse" where
  "asm_variant r =
     bindp asm_architecture (\<lambda>arch. bindp asm_template (\<lambda>t. bindp (parse_asm_operands r) (\<lambda>ops. returns (arch, t, ops))))"

definition parse_asm_block :: "calls \<Rightarrow> Source \<Rightarrow> bool \<Rightarrow> statement parse" where
  "parse_asm_block r src isVolatile =
     bindp advance_token (\<lambda>_. bindp (expectNewline ''asm arch block'') (\<lambda>_. bindp (match_type (Layout Indent)) (\<lambda>_.
     bindp (repeatp (\<lambda>vs. ifp (check_types [Layout Dedent, Special Eof]) (returns (False, vs))
              (bindp skipNewline (\<lambda>_. ifp (check_type (Layout Dedent)) (returns (False, vs))
                (bindp (asm_variant r) (\<lambda>v. bindp skipNewline (\<lambda>_. returns (True, vs @ [v]))))))) []) (\<lambda>vs.
     bindp (match_type (Layout Dedent)) (\<lambda>_.
       returns (stmt src (InlineAssemblyStatement isVolatile [] [] [] [] vs)))))))"

definition parseInlineAssemblyStatement :: "calls \<Rightarrow> statement parse" where
  "parseInlineAssemblyStatement r p =
     (let src = here p in
      bindp (expect_type (Other KeywordAssembly) []) (\<lambda>_. bindp (match_type (Other KeywordVolatile)) (\<lambda>isVolatile.
      ifp (check_type (Punctuation Colon)) (parse_asm_block r src isVolatile)
        (bindp asm_template (\<lambda>t. bindp (parse_asm_operands r) (\<lambda>(outputs, inputs, clobbers).
         bindp (expectNewline ''inline assembly'') (\<lambda>_.
           returns (stmt src (InlineAssemblyStatement isVolatile t outputs inputs clobbers [])))))))) p)"

section \<open>Control flow\<close>

definition parseDeferStatement :: "calls \<Rightarrow> statement parse" where
  "parseDeferStatement r p =
     (let src = here p in
      bindp (expect_type (Other KeywordDefer) []) (\<lambda>_. bindp (match_type (Punctuation Colon)) (\<lambda>colon.
      if colon
      then bindp (expectNewline ''defer block'') (\<lambda>_. bindp (parseStatementBlock r) (\<lambda>body.
             returns (stmt src (DeferStatement (stmt src (BlockStatement body))))))
      else bindp (call_statement r) (\<lambda>s. returns (stmt src (DeferStatement s))))) p)"

text \<open>The type and name of a loop variable.\<close>

definition loop_variable :: "calls \<Rightarrow> string \<Rightarrow> (expression type_node option \<times> string) parse" where
  "loop_variable r msg =
     ifp (\<lambda>p. check_type Identifier p \<and> (next_type 1 Identifier p \<or> next_type 1 (Comparison LessThan) p)
            \<or> check_type (Punctuation Question) p)
       (bindp (call_type r) (\<lambda>t. bindp (expect_name Identifier msg) (\<lambda>n. returns (Some t, n))))
       (bindp (expect_name Identifier msg) (\<lambda>n. returns (None, n)))"

definition one_literal :: "Source \<Rightarrow> expression" where
  "one_literal src = expr src (IntegerLiteral ''1'' 1)"

text \<open>The last part of the header of a loop in the style of C; the location is that of the target, whose pointer is followed.\<close>

definition parse_loop_update :: "calls \<Rightarrow> statement parse" where
  "parse_loop_update r =
     bindp (nested_expression r) (\<lambda>target.
     ifp (check_types [Arithmetic Decrement, Arithmetic Increment])
       (bindp advance_token (\<lambda>tok. bindp (followed target) (\<lambda>e.
          returns (stmt (expression_source e) (AssignStatement
            (Assigning (if ttype tok = Arithmetic Increment then PlusAssignment else MinusAssignment)) e
            (one_literal (expression_source e)))))))
    (ifp (check_types [Assigning Assignment, Assigning PlusAssignment, Assigning MinusAssignment, Assigning StarAssignment,
            Assigning SlashAssignment])
       (bindp advance_token (\<lambda>tok. bindp (nested_expression r) (\<lambda>v. bindp (followed target) (\<lambda>e.
          returns (stmt (expression_source e) (AssignStatement (ttype tok) e v))))))
       (bindp (followed target) (\<lambda>e. returns (stmt (expression_source e) (ExpressionStatement e))))))"

definition parse_c_loop :: "calls \<Rightarrow> Source \<Rightarrow> expression type_node option \<Rightarrow> string \<Rightarrow> statement parse" where
  "parse_c_loop r src t n =
     bindp advance_token (\<lambda>_. bindp (optional_expression r) (\<lambda>init.
     bindp (expect_type (Punctuation Semicolon) (wanted '';'' '' after for initializer'')) (\<lambda>_.
     bindp (optional_expression r) (\<lambda>condition.
     bindp (expect_type (Punctuation Semicolon) (wanted '';'' '' after for condition'')) (\<lambda>_.
     bindp (parse_loop_update r) (\<lambda>update.
     bindp (parse_suite r (wanted '':'' '' after for loop header'') ''for loop header'') (\<lambda>body.
       returns (stmt src (ForStatement body condition init None True (Some update) n [] t None)))))))))"

definition parse_iteration :: "calls \<Rightarrow> Source \<Rightarrow> expression type_node option \<Rightarrow> string \<Rightarrow> statement parse" where
  "parse_iteration r src t n =
     bindp (match_type (Punctuation Comma)) (\<lambda>second.
     bindp (if second then loop_variable r ''expected second loop variable'' else returns (None, [])) (\<lambda>(t2, n2).
     bindp (expect_type (Other KeywordIn) (wanted ''in'' '' after loop variable'')) (\<lambda>_.
     bindp (optional_expression r) (\<lambda>iterable.
     bindp (parse_suite r (wanted '':'' '' after for loop header'') ''for loop header'') (\<lambda>body.
       returns (stmt src (ForStatement body None None iterable False None n n2 t t2)))))))"

definition parseForStatement :: "calls \<Rightarrow> statement parse" where
  "parseForStatement r p =
     (let src = here p in
      bindp (expect_type (Control KeywordFor) []) (\<lambda>_. bindp (loop_variable r ''expected loop variable'') (\<lambda>(t, n).
        ifp (check_type (Assigning Assignment)) (parse_c_loop r src t n) (parse_iteration r src t n))) p)"

definition elif_step ::
    "calls \<Rightarrow> (expression \<times> statement list) list \<Rightarrow> (bool \<times> (expression \<times> statement list) list) parse" where
  "elif_step r bs =
     ifp (check_type (Control KeywordElif))
       (bindp advance_token (\<lambda>_. bindp (nested_expression r) (\<lambda>condition.
        bindp (parse_suite r (wanted '':'' '' after elif condition'') ''elif condition'') (\<lambda>body.
          returns (True, bs @ [(condition, body)])))))
       (returns (False, bs))"

definition parseIfStatement :: "calls \<Rightarrow> statement parse" where
  "parseIfStatement r p =
     (let src = here p in
      bindp (expect_type (Control KeywordIf) []) (\<lambda>_. bindp (nested_expression r) (\<lambda>condition.
      bindp (parse_suite r (wanted '':'' '' after if condition'') ''if condition'') (\<lambda>body.
      bindp (repeatp (elif_step r) []) (\<lambda>elifs.
      bindp (match_type (Control KeywordElse)) (\<lambda>otherwise.
      bindp (if otherwise then parse_suite r (wanted '':'' '' after else'') ''else'' else returns []) (\<lambda>elseBody.
        returns (stmt src (IfStatement condition elifs elseBody body)))))))) p)"

definition parseReturnStatement :: "calls \<Rightarrow> statement parse" where
  "parseReturnStatement r =
     bindp advance_token (\<lambda>tok. bindp (ifp (check_types line_ends) (returns None) (optional_expression r)) (\<lambda>e.
     bindp (expectNewline ''return statement'') (\<lambda>_. returns (stmt (tsource tok) (ReturnStatement e)))))"

type_synonym switch_case = "statement list \<times> bool \<times> expression option \<times> Source"

text \<open>The location of a case is the one behind \<^verbatim>\<open>case\<close>; a body on the same line is one statement, or the null pointer.\<close>

definition switch_case :: "calls \<Rightarrow> switch_case parse" where
  "switch_case r =
     bindp (expect_type (Other KeywordCase) (wanted ''case'' '' in switch body'')) (\<lambda>_. bindp (getp here) (\<lambda>src.
     bindp (match_type (Arithmetic Star)) (\<lambda>isDefault.
     bindp (if isDefault then returns None else optional_expression r) (\<lambda>pattern.
     bindp (expect_type (Punctuation Colon) (wanted '':'' '' after case pattern'')) (\<lambda>_.
     bindp (ifp (check_type (Layout Newline))
              (bindp (expectNewline ''case body'') (\<lambda>_. parseStatementBlock r))
              (bindp (call_statement r) (\<lambda>s. returns [s]))) (\<lambda>body.
       returns (body, isDefault, pattern, src)))))))"

text \<open>The loop over the lines of an indented body.\<close>

definition parse_body_with :: "('a list \<Rightarrow> 'a list parse) \<Rightarrow> 'a list parse" where
  "parse_body_with item =
     repeatp (\<lambda>xs. ifp (check_types [Layout Dedent, Special Eof]) (returns (False, xs))
       (bindp skipNewline (\<lambda>_. ifp (check_type (Layout Dedent)) (returns (False, xs))
          (bindp (item xs) (\<lambda>ys. returns (True, ys)))))) []"

definition parseSwitchStatement :: "calls \<Rightarrow> statement parse" where
  "parseSwitchStatement r p =
     (let src = here p in
      bindp (expect_type (Other KeywordSwitch) []) (\<lambda>_. bindp (nested_expression r) (\<lambda>subject.
      bindp (expect_type (Punctuation Colon) (wanted '':'' '' after switch expression'')) (\<lambda>_.
      bindp (expectNewline ''switch statement'') (\<lambda>_. bindp (match_type (Layout Indent)) (\<lambda>opened.
      bindp (if opened
             then bindp (parse_body_with (\<lambda>cs. bindp (switch_case r) (\<lambda>c. returns (cs @ [c])))) (\<lambda>cs.
                  bindp (match_type (Layout Dedent)) (\<lambda>_. returns cs))
             else returns []) (\<lambda>cases.
        returns (stmt src (SwitchStatement cases subject)))))))) p)"

section \<open>Exceptions, unsafe blocks and loops\<close>

definition caught_type :: "expression type_node parse" where
  "caught_type = bindp advance_token (\<lambda>tok. returns (Type_node (tsource tok) (SimpleTypeNode (tvalue tok))))"

definition caught_types :: "expression type_node list parse" where
  "caught_types =
     ifp (check_type Identifier)
       (bindp caught_type (\<lambda>t. repeatp (\<lambda>ts. bindp (match_type (Bitwise Pipe)) (\<lambda>go.
          if \<not> go then returns (False, ts)
          else ifp (check_type Identifier) (bindp caught_type (\<lambda>u. returns (True, ts @ [u])))
                 (bindp (parser_error here (\<lambda>_. ''expected exception type after '' @ quote ''|'') []) (\<lambda>_. returns (False, ts))))) [t]))
       (returns [])"

type_synonym except_clause = "statement list \<times> expression type_node list \<times> string \<times> Source"

definition parse_except :: "calls \<Rightarrow> except_clause parse" where
  "parse_except r =
     bindp advance_token (\<lambda>tok. bindp caught_types (\<lambda>ts.
     bindp (match_type (Other KeywordAs)) (\<lambda>named.
     bindp (if named then expect_name Identifier (''expected variable name after '' @ [SQUOTE] @ ''as'' @ [SQUOTE]) else returns []) (\<lambda>n.
     bindp (parse_suite r (wanted '':'' '' after except clause'') ''except block'') (\<lambda>body.
       returns (body, ts, n, tsource tok))))))"

definition parseTryCatchStatement :: "calls \<Rightarrow> statement parse" where
  "parseTryCatchStatement r p =
     (let src = here p in
      bindp (expect_type (Handling KeywordTry) []) (\<lambda>_.
      bindp (parse_suite r (wanted '':'' ('' after '' @ [SQUOTE] @ ''try'' @ [SQUOTE])) ''try block'') (\<lambda>tryBody.
      bindp (repeatp (\<lambda>cs. ifp (check_type (Handling KeywordExcept)) (bindp (parse_except r) (\<lambda>c. returns (True, cs @ [c])))
               (returns (False, cs))) []) (\<lambda>clauses.
      bindp (match_type (Handling KeywordFinally)) (\<lambda>finalBody.
      bindp (if finalBody then parse_suite r (wanted '':'' ('' after '' @ [SQUOTE] @ ''finally'' @ [SQUOTE])) ''finally block''
             else returns []) (\<lambda>finallyBody.
        returns (stmt src (TryCatchStatement clauses finallyBody tryBody))))))) p)"

definition parseUnsafeBlockStatement :: "calls \<Rightarrow> statement parse" where
  "parseUnsafeBlockStatement r p =
     (let src = here p in
      bindp (expect_type (Memory KeywordUnsafe) []) (\<lambda>_.
      bindp (parse_suite r (wanted '':'' '' after unsafe'') ''unsafe block'') (\<lambda>body.
        returns (stmt src (UnsafeBlock body)))) p)"

definition parseWhileStatement :: "calls \<Rightarrow> statement parse" where
  "parseWhileStatement r p =
     (let src = here p in
      bindp (expect_type (Control KeywordWhile) []) (\<lambda>_. bindp (nested_expression r) (\<lambda>condition.
      bindp (parse_suite r (wanted '':'' '' after while condition'') ''while condition'') (\<lambda>body.
        returns (stmt src (WhileStatement body condition))))) p)"

section \<open>Variables and expression statements\<close>

text \<open>
  The look-ahead for a variable: the positions at which the type starts and at which the look-ahead stops,
  when there is a type. Skipping angle brackets moves over whatever stands between them.
\<close>

fun skip_angles :: "int \<Rightarrow> Token list \<Rightarrow> nat" where
  "skip_angles depth ts =
     (if depth \<le> 0 then 0
      else case ts of
        [] \<Rightarrow> 0
      | t # rest \<Rightarrow>
          if ttype t = Special Eof then 0
          else Suc (skip_angles
                 (if ttype t = Comparison LessThan then depth + 1
                  else if ttype t = Comparison GreaterThan then depth - 1
                  else if ttype t = Bitwise ShiftRight then depth - 2 else depth) rest))"

declare skip_angles.simps [simp del]

definition moved_by :: "nat \<Rightarrow> Parser \<Rightarrow> Parser" where
  "moved_by k p = p\<lparr>parser_position := min (parser_position p + k) (max (parser_position p) (length (parser_tokens p)))\<rparr>"

definition moved_if :: "token_type \<Rightarrow> Parser \<Rightarrow> Parser" where
  "moved_if t p = (if check_type t p then moved_by 1 p else p)"

definition past_angles :: "Parser \<Rightarrow> Parser" where
  "past_angles p =
     (if check_type (Comparison LessThan) p
      then moved_by (Suc (skip_angles 1 (drop (Suc (parser_position p)) (parser_tokens p)))) p else p)"

definition past_brackets :: "Parser \<Rightarrow> Parser" where
  "past_brackets p =
     (if check_type (Delimiter LeftBracket) p \<and> next_type 1 (Delimiter RightBracket) p then moved_by 2 p else p)"

definition starts_variable :: "Parser \<Rightarrow> bool" where
  "starts_variable p \<longleftrightarrow>
     (check_type (Punctuation Question) p \<or> check_type Identifier p)
     \<and> check_type Identifier (past_brackets (past_angles (moved_if Identifier (moved_if (Punctuation Question) p))))"

text \<open>A variable takes its location behind the statement; its address is the position there.\<close>

definition parse_variable :: "calls \<Rightarrow> bool \<Rightarrow> statement parse" where
  "parse_variable r isConstant =
     bindp (parseTypeNode r) (\<lambda>t.
     bindp (expect_name Identifier ''expected variable name'') (\<lambda>n.
     bindp (match_type (Assigning Assignment)) (\<lambda>assigned.
     bindp (if assigned then optional_expression r else returns None) (\<lambda>init.
     bindp (if (case init of None \<Rightarrow> False | Some e \<Rightarrow> (case expression_node e of LambdaExpression _ _ _ _ \<Rightarrow> True | _ \<Rightarrow> False))
            then returns () else expectNewline ''variable declaration'') (\<lambda>_.
     bindp (getp (\<lambda>p. (here p, parser_position p))) (\<lambda>(src, address).
       returns (stmt src (VariableStatement address init isConstant (\<not> isConstant) n (Some t)))))))))"

definition parse_expression_statement :: "calls \<Rightarrow> statement parse" where
  "parse_expression_statement r =
     bindp (parseExpression r) (\<lambda>e.
       if is_null e
       then bindp (parser_error here (\<lambda>_. ''expected statement'') []) (\<lambda>_. bindp advance_token (\<lambda>_. returns null_statement))
       else ifp (\<lambda>p. isAssignment (ttype (current_token p)))
         (bindp advance_token (\<lambda>tok. bindp (nested_expression r) (\<lambda>v. bindp (expectNewline ''assignment'') (\<lambda>_.
            returns (stmt (tsource tok) (AssignStatement (ttype tok) e v))))))
      (ifp (check_types [Arithmetic Decrement, Arithmetic Increment])
         (bindp advance_token (\<lambda>tok. bindp (expectNewline ''increment/decrement'') (\<lambda>_.
            returns (stmt (tsource tok) (AssignStatement
              (Assigning (if ttype tok = Arithmetic Increment then PlusAssignment else MinusAssignment)) e
              (one_literal (tsource tok)))))))
         (bindp (expectNewline ''expression statement'') (\<lambda>_. returns (stmt (expression_source e) (ExpressionStatement e))))))"

text \<open>The statements that start with an access modifier, a type or an expression.\<close>

definition parse_other_statement :: "calls \<Rightarrow> statement parse" where
  "parse_other_statement r p =
     (let p1 = (if access_of (ttype (current_token p)) \<noteq> None then moved_by 1 p else p);
          isConstant = check_type (Declaration KeywordConstant) p1;
          p2 = (if isConstant then moved_by 1 p1 else p1)
      in if starts_variable p2 then parse_variable r isConstant p2 else parse_expression_statement r p)"

text \<open>A word, the end of the line and a statement without parts.\<close>

definition simple_statement :: "string \<Rightarrow> statement_node \<Rightarrow> statement parse" where
  "simple_statement context node =
     bindp advance_token (\<lambda>tok. bindp (expectNewline context) (\<lambda>_. returns (stmt (tsource tok) node)))"

fun parseStatement_of :: "calls \<Rightarrow> token_type \<Rightarrow> statement parse" where
  "parseStatement_of r (Other KeywordAssembly) = parseInlineAssemblyStatement r"
| "parseStatement_of r (Control KeywordReturn) = parseReturnStatement r"
| "parseStatement_of r (Control KeywordIf) = parseIfStatement r"
| "parseStatement_of r (Other KeywordSwitch) = parseSwitchStatement r"
| "parseStatement_of r (Control KeywordFor) = parseForStatement r"
| "parseStatement_of r (Control KeywordWhile) = parseWhileStatement r"
| "parseStatement_of r (Control KeywordBreak) = simple_statement ''break'' BreakStatement"
| "parseStatement_of r (Control KeywordContinue) = simple_statement ''continue'' ContinueStatement"
| "parseStatement_of r (Memory KeywordUnsafe) = parseUnsafeBlockStatement r"
| "parseStatement_of r (Other KeywordDefer) = parseDeferStatement r"
| "parseStatement_of r (Oop KeywordDelete) =
     bindp advance_token (\<lambda>tok. bindp (nested_expression r) (\<lambda>e. bindp (expectNewline ''delete statement'') (\<lambda>_.
       returns (stmt (tsource tok) (DeleteStatement e)))))"
| "parseStatement_of r (Handling KeywordTry) = parseTryCatchStatement r"
| "parseStatement_of r (Other KeywordPass) = simple_statement ''pass'' PassStatement"
| "parseStatement_of r (Punctuation Ellipsis) = simple_statement ''...'' PassStatement"
| "parseStatement_of r (Handling KeywordRaise) =
     bindp advance_token (\<lambda>tok. bindp (optional_expression r) (\<lambda>e. bindp (expectNewline ''raise statement'') (\<lambda>_.
       returns (stmt (tsource tok) (ThrowStatement e)))))"
| "parseStatement_of r other = parse_other_statement r"

definition parseStatement :: "calls \<Rightarrow> statement parse" where
  "parseStatement r p = parseStatement_of r (ttype (current_token p)) p"

end
