(* ===== verification/ParserDeclarations.thy ===== *)
theory ParserDeclarations
  imports ParserStatements
begin

text \<open>
  The parser: declarations and whole programs. The modifiers in front of a declaration are the list of the words read. The
  members of classes and structures are parsed by one definition, since the two member functions differ in the word of their
  message and in what they do with the modifiers of a nested class only.
\<close>

section \<open>Modifiers\<close>

definition parseAccessModifier :: "AccessModifier parse" where
  "parseAccessModifier p =
     (case access_of (ttype (current_token p)) of
        None \<Rightarrow> returns Access_Default p
      | Some a \<Rightarrow> bindp advance_token (\<lambda>_. returns a) p)"

definition parse_modifiers :: "token_type list \<Rightarrow> token_type list parse" where
  "parse_modifiers words =
     repeatp (\<lambda>ms. ifp (check_types words) (bindp advance_token (\<lambda>tok. returns (True, ttype tok # ms))) (returns (False, ms))) []"

definition declaration_modifiers :: "token_type list" where
  "declaration_modifiers =
     [Oop KeywordAbstract, Other KeywordAsync, Oop KeywordFinal, Oop KeywordNative, Oop KeywordOverride, Oop KeywordReadonly,
      Declaration KeywordStatic, Oop KeywordVirtual]"

definition member_modifiers :: "token_type list" where
  "member_modifiers = Declaration KeywordConstant # declaration_modifiers"

definition enum_modifiers :: "token_type list" where
  "enum_modifiers = [Oop KeywordAbstract, Oop KeywordFinal, Oop KeywordOverride, Declaration KeywordStatic, Oop KeywordVirtual]"

section \<open>Functions and fields\<close>

text \<open>Types behind a separator each.\<close>

definition types_after :: "calls \<Rightarrow> token_type \<Rightarrow> expression type_node list parse" where
  "types_after r t = bindp (call_type r) (\<lambda>x. more_after t (call_type r) [x])"

text \<open>The lines of an indented body, the blank ones behind a line included, up to the end of the indentation.\<close>

definition line_step :: "('s \<Rightarrow> 's parse) \<Rightarrow> 's \<Rightarrow> (bool \<times> 's) parse" where
  "line_step item s =
     ifp (check_types [Layout Dedent, Special Eof]) (returns (False, s))
       (bindp skipNewline (\<lambda>_. ifp (check_type (Layout Dedent)) (returns (False, s))
          (bindp (item s) (\<lambda>s1. bindp skipNewline (\<lambda>_. returns (True, s1))))))"

definition parse_lines :: "('s \<Rightarrow> 's parse) \<Rightarrow> 's \<Rightarrow> 's parse" where
  "parse_lines item s0 =
     bindp (repeatp (line_step item) s0) (\<lambda>s. bindp (match_type (Layout Dedent)) (\<lambda>_. returns s))"

definition parse_indented :: "('s \<Rightarrow> 's parse) \<Rightarrow> 's \<Rightarrow> 's parse" where
  "parse_indented item s0 = bindp (match_type (Layout Indent)) (\<lambda>opened. if opened then parse_lines item s0 else returns s0)"

definition function_line ::
    "calls \<Rightarrow> declaration_tree list \<times> statement list \<Rightarrow> (declaration_tree list \<times> statement list) parse" where
  "function_line r = (\<lambda>(nested, body).
     ifp (check_type (Declaration KeywordFunction))
       (bindp (call_function r Access_Default False False False False) (\<lambda>d. returns (nested @ [d], body)))
       (bindp (call_statement r) (\<lambda>s. returns (nested, if is_null_statement s then body else body @ [s]))))"

text \<open>The end of a function: whether it is abstract by its semicolon, the functions inside it and its statements.\<close>

definition parse_function_body ::
    "calls \<Rightarrow> bool \<Rightarrow> (bool \<times> declaration_tree list \<times> statement list) parse" where
  "parse_function_body r isAbstract =
     bindp (match_type (Punctuation Semicolon)) (\<lambda>semicolon.
       if semicolon then bindp (expectNewline ''abstract method declaration'') (\<lambda>_. returns (True, [], []))
       else bindp (match_type (Punctuation Colon)) (\<lambda>colon.
         if colon
         then bindp (expectNewline ''function signature'') (\<lambda>_.
              bindp (if isAbstract then returns ([], []) else parse_indented (function_line r) ([], [])) (\<lambda>(nested, body).
                returns (isAbstract, nested, body)))
         else bindp (ifp (\<lambda>p. isAbstract \<or> check_types [Special Eof, Layout Newline] p)
                       (expectNewline ''function signature'') (returns ())) (\<lambda>_. returns (isAbstract, [], []))))"

definition parse_result_type :: "calls \<Rightarrow> expression type_node option parse" where
  "parse_result_type r =
     bindp (match_type (Punctuation Arrow)) (\<lambda>arrow.
       if arrow then bindp (call_type r) (\<lambda>t. returns (Some t)) else returns None)"

definition parseFunctionDeclaration ::
    "calls \<Rightarrow> AccessModifier \<Rightarrow> bool \<Rightarrow> bool \<Rightarrow> bool \<Rightarrow> bool \<Rightarrow> declaration_tree parse" where
  "parseFunctionDeclaration r access isVirtual isOverride isAbstract isStatic =
     bindp (match_type (Declaration KeywordFunction)) (\<lambda>word.
     bindp (if word then error_token
            else expect_type (Oop KeywordProperty) (wanted ''function'' '' or '' @ [SQUOTE] @ ''property'' @ [SQUOTE])) (\<lambda>_.
     bindp (expect_type Identifier ''expected function name'') (\<lambda>tok.
     bindp (parseGenericParameters r) (\<lambda>gs.
     bindp (expect_type (Delimiter LeftParenthesis) (wanted ''('' '' after function name'')) (\<lambda>_.
     bindp (parseFunctionParameters r) (\<lambda>ps.
     bindp (expect_type (Delimiter RightParenthesis) (wanted '')'' '' after parameters'')) (\<lambda>_.
     bindp (parse_result_type r) (\<lambda>t.
     bindp (ifp (check_type (Handling KeywordRaises)) (bindp advance_token (\<lambda>_. types_after r (Bitwise Pipe))) (returns [])) (\<lambda>raised.
     bindp (parse_function_body r isAbstract) (\<lambda>(noBody, nested, body).
       returns (Declared (tsource tok) access False (FunctionDeclaration
         (Function body gs noBody False False False False False isOverride False isStatic isVirtual (tvalue tok) nested ps raised t)))))))))))))"

text \<open>The flags that the callers set afterwards.\<close>

definition flag_function :: "bool \<Rightarrow> bool \<Rightarrow> bool \<Rightarrow> bool \<Rightarrow> declaration_tree \<Rightarrow> declaration_tree" where
  "flag_function isAsync isFinal isNative isProperty d =
     (case declaration_node d of
        FunctionDeclaration (Function body gs ab asy c fin gen native ov prop st vi n nested ps raised t) \<Rightarrow>
          Declared (declaration_source d) (declaration_access d) (declaration_isBuiltin d) (FunctionDeclaration
            (Function body gs ab (asy \<or> isAsync) c (fin \<or> isFinal) gen (native \<or> isNative) ov (prop \<or> isProperty) st vi n nested ps raised t))
      | _ \<Rightarrow> d)"

definition flag_class :: "bool \<Rightarrow> bool \<Rightarrow> bool \<Rightarrow> bool \<Rightarrow> declaration_tree \<Rightarrow> declaration_tree" where
  "flag_class isAbstract isFinal isNative isReadonly d =
     (case declaration_node d of
        ClassDeclaration base fs gs is ab fin native ro ms n nested traits \<Rightarrow>
          Declared (declaration_source d) (declaration_access d) (declaration_isBuiltin d)
            (ClassDeclaration base fs gs is (ab \<or> isAbstract) (fin \<or> isFinal) (native \<or> isNative) (ro \<or> isReadonly) ms n nested traits)
      | _ \<Rightarrow> d)"

definition flag_interface :: "bool \<Rightarrow> declaration_tree \<Rightarrow> declaration_tree" where
  "flag_interface isFinal d =
     (case declaration_node d of
        InterfaceDeclaration gs fin ms n nested parents \<Rightarrow>
          Declared (declaration_source d) (declaration_access d) (declaration_isBuiltin d)
            (InterfaceDeclaration gs (fin \<or> isFinal) ms n nested parents)
      | _ \<Rightarrow> d)"

definition flag_field :: "bool \<Rightarrow> bool \<Rightarrow> bool \<Rightarrow> field_declaration \<Rightarrow> field_declaration" where
  "flag_field isFinal isReadonly isStatic f =
     FieldDeclaration (field_source f) (field_access f) (field_default f) (field_isFinal f \<or> isFinal) (field_isReadonly f \<or> isReadonly)
       (field_isStatic f \<or> isStatic) (field_name f) (field_type f)"

definition parse_initializer :: "calls \<Rightarrow> expression option parse" where
  "parse_initializer r =
     bindp (match_type (Assigning Assignment)) (\<lambda>assigned. if assigned then optional_expression r else returns None)"

definition parseFieldDeclaration :: "calls \<Rightarrow> AccessModifier \<Rightarrow> field_declaration parse" where
  "parseFieldDeclaration r access p =
     (let src = here p in
      bindp (call_type r) (\<lambda>t.
      bindp (expect_name Identifier ''expected field name'') (\<lambda>n.
      bindp (parse_initializer r) (\<lambda>default.
      bindp (expectNewline ''field declaration'') (\<lambda>_.
        returns (FieldDeclaration src access default False False False n (Some t)))))) p)"

section \<open>Classes and structures\<close>

type_synonym members = "field_declaration list \<times> declaration_tree list \<times> declaration_tree list \<times> string list"

text \<open>The names behind \<^verbatim>\<open>use\<close>.\<close>

definition parse_used_traits :: "string list parse" where
  "parse_used_traits =
     bindp advance_token (\<lambda>_. bindp (expect_name Identifier (''expected trait name after '' @ [SQUOTE] @ ''use'' @ [SQUOTE])) (\<lambda>n.
     bindp (more_after (Punctuation Comma) (expect_name Identifier ''expected trait name'') [n]) (\<lambda>ns.
     bindp (expectNewline ''use statement'') (\<lambda>_. returns ns))))"

text \<open>A token no member starts with is reported and skipped.\<close>

definition unexpected_member :: "string \<Rightarrow> string \<Rightarrow> unit parse" where
  "unexpected_member place hint =
     bindp (parser_error here (\<lambda>p. ''unexpected token '' @ quote (tvalue (current_token p)) @ '' in '' @ place) hint) (\<lambda>_.
     bindp advance_token (\<lambda>_. returns ()))"

text \<open>A function of a body, with the flag for a property.\<close>

definition parse_method ::
    "calls \<Rightarrow> AccessModifier \<Rightarrow> token_type list \<Rightarrow> bool \<Rightarrow> declaration_tree parse" where
  "parse_method r access ms isAbstract p =
     (let isProperty = check_type (Oop KeywordProperty) p in
      bindp (call_function r access (Oop KeywordVirtual \<in> set ms) (Oop KeywordOverride \<in> set ms) isAbstract
               (Declaration KeywordStatic \<in> set ms)) (\<lambda>d.
        returns (flag_function (Other KeywordAsync \<in> set ms) (Oop KeywordFinal \<in> set ms) (Oop KeywordNative \<in> set ms) isProperty d)) p)"

abbreviation starts_function :: "Parser \<Rightarrow> bool" where
  "starts_function \<equiv> check_types [Declaration KeywordFunction, Oop KeywordProperty]"

definition parse_class_member :: "calls \<Rightarrow> bool \<Rightarrow> members \<Rightarrow> members parse" where
  "parse_class_member r inClass = (\<lambda>(fields, methods, nested, traits).
     bindp parseAccessModifier (\<lambda>access. bindp (parse_modifiers member_modifiers) (\<lambda>ms.
       ifp starts_function
         (bindp (parse_method r access ms (Oop KeywordAbstract \<in> set ms)) (\<lambda>d. returns (fields, methods @ [d], nested, traits)))
      (ifp (check_type (Declaration KeywordClass))
         (bindp (call_class r access) (\<lambda>d. returns (fields, methods, nested @
            [if inClass
             then flag_class (Oop KeywordAbstract \<in> set ms) (Oop KeywordFinal \<in> set ms) False (Oop KeywordReadonly \<in> set ms) d
             else d], traits)))
      (ifp (check_type (Declaration KeywordInterface))
         (bindp (call_interface r access) (\<lambda>d. returns (fields, methods, nested @ [d], traits)))
      (ifp (check_type (Declaration KeywordStruct))
         (bindp (call_struct r access) (\<lambda>d. returns (fields, methods, nested @ [d], traits)))
      (ifp (check_type (Declaration KeywordEnum))
         (bindp (call_enum r access) (\<lambda>d. returns (fields, methods, nested @ [d], traits)))
      (ifp (check_type (Other KeywordUse))
         (bindp parse_used_traits (\<lambda>ns. returns (fields, methods, nested, traits @ ns)))
      (ifp (check_types [Identifier, Punctuation Question])
         (bindp (parseFieldDeclaration r access) (\<lambda>f. returns
            (fields @ [flag_field (Oop KeywordFinal \<in> set ms) (Oop KeywordReadonly \<in> set ms) (Declaration KeywordStatic \<in> set ms) f],
             methods, nested, traits)))
         (bindp (unexpected_member (if inClass then ''class body'' else ''struct body'') [])
            (\<lambda>_. returns (fields, methods, nested, traits))))))))))))"

text \<open>The base class and the interfaces of a class.\<close>

definition parse_extends :: "calls \<Rightarrow> (expression type_node option \<times> expression type_node list) parse" where
  "parse_extends r =
     ifp (check_type (Oop KeywordExtends))
       (bindp advance_token (\<lambda>_. bindp (call_type r) (\<lambda>t. bindp (more_after (Punctuation Comma) (call_type r) []) (\<lambda>ts.
          returns (Some t, ts)))))
       (returns (None, []))"

definition parse_implements :: "calls \<Rightarrow> expression type_node list parse" where
  "parse_implements r =
     ifp (check_type (Declaration KeywordImplements))
       (bindp advance_token (\<lambda>_. types_after r (Punctuation Comma))) (returns [])"

text \<open>A semicolon instead of a body.\<close>

definition forward_or :: "string \<Rightarrow> 'a \<Rightarrow> 'a parse \<Rightarrow> 'a parse" where
  "forward_or kind nothing body =
     bindp (match_type (Punctuation Semicolon)) (\<lambda>semicolon.
       if semicolon then bindp (expectNewline (kind @ '' forward declaration'')) (\<lambda>_. returns nothing)
       else bindp (expect_type (Punctuation Colon)
                     (wanted '':'' ('' or '' @ [SQUOTE] @ '';'' @ [SQUOTE] @ '' after '' @ kind @ '' declaration''))) (\<lambda>_.
            bindp (expectNewline (kind @ '' declaration'')) (\<lambda>_. body)))"

definition parseClassDeclaration :: "calls \<Rightarrow> AccessModifier \<Rightarrow> declaration_tree parse" where
  "parseClassDeclaration r access =
     bindp (expect_type (Declaration KeywordClass) []) (\<lambda>_.
     bindp (expect_type Identifier ''expected class name'') (\<lambda>tok.
     bindp (parseGenericParameters r) (\<lambda>gs.
     bindp (parse_extends r) (\<lambda>(base, is).
     bindp (parse_implements r) (\<lambda>js.
     bindp (forward_or ''class'' ([], [], [], []) (parse_indented (parse_class_member r True) ([], [], [], [])))
       (\<lambda>(fields, methods, nested, traits).
       returns (Declared (tsource tok) access False
         (ClassDeclaration base fields gs (is @ js) False False False False methods (tvalue tok) nested traits))))))))"

definition parseStructDeclaration :: "calls \<Rightarrow> AccessModifier \<Rightarrow> declaration_tree parse" where
  "parseStructDeclaration r access =
     bindp (expect_type (Declaration KeywordStruct) []) (\<lambda>_.
     bindp (expect_type Identifier ''expected struct name'') (\<lambda>tok.
     bindp (parseGenericParameters r) (\<lambda>gs.
     bindp (forward_or ''struct'' ([], [], [], []) (parse_indented (parse_class_member r False) ([], [], [], [])))
       (\<lambda>(fields, methods, nested, traits).
       returns (Declared (tsource tok) access False
         (StructDeclaration fields gs methods (tvalue tok) nested traits))))))"

section \<open>Enumerations\<close>

definition public_by_default :: "AccessModifier \<Rightarrow> AccessModifier" where
  "public_by_default a = (if a = Access_Default then Access_Public else a)"

text \<open>A line in the body of a variant: a token that starts no function is neither reported nor skipped.\<close>

definition variant_line :: "calls \<Rightarrow> declaration_tree list \<Rightarrow> declaration_tree list parse" where
  "variant_line r methods =
     bindp parseAccessModifier (\<lambda>access. bindp (parse_modifiers enum_modifiers) (\<lambda>ms.
     bindp (if Oop KeywordAbstract \<in> set ms
            then parser_error here (\<lambda>_. ''enum variant methods cannot be abstract'') (''remove '' @ quote ''abstract'' @ '' modifier'')
            else returns ()) (\<lambda>_.
       ifp starts_function
         (bindp (parse_method r (public_by_default access) ms False) (\<lambda>d. returns (methods @ [d])))
         (returns methods))))"

definition variant_values :: "token_type list" where
  "variant_values =
     [KValue KeywordFalse, Literal LiteralFloat, Literal LiteralInteger, Literal LiteralString, KValue KeywordTrue, Arithmetic Minus]"

definition parse_variant_types :: "calls \<Rightarrow> expression type_node list parse" where
  "parse_variant_types r =
     bindp (match_type (Delimiter LeftParenthesis)) (\<lambda>opened.
       if opened
       then bindp (repeatp (\<lambda>ts. ifp (check_types [Special Eof, Delimiter RightParenthesis]) (returns (False, ts))
                    (bindp (call_type r) (\<lambda>t. bindp (match_type (Punctuation Comma)) (\<lambda>go. returns (go, ts @ [t]))))) []) (\<lambda>ts.
            bindp (expect_type (Delimiter RightParenthesis) (wanted '')'' [])) (\<lambda>_. returns ts))
       else returns [])"

definition parse_variant :: "calls \<Rightarrow> declaration_tree enum_variant parse" where
  "parse_variant r p =
     (let src = here p in
      bindp (expect_name Identifier ''expected variant name'') (\<lambda>n.
      bindp (ifp (check_types variant_values) (optional_expression r) (returns None)) (\<lambda>v.
      bindp (parse_variant_types r) (\<lambda>ts.
      bindp (match_type (Punctuation Colon)) (\<lambda>colon.
      bindp (if colon then bindp (expectNewline ''variant body'') (\<lambda>_. parse_indented (variant_line r) []) else returns []) (\<lambda>methods.
        returns (EnumVariant src ts v None [] methods n)))))) p)"

type_synonym enum_members = "declaration_tree list \<times> declaration_tree enum_variant list"

text \<open>A member behind its modifiers.\<close>

definition enum_member :: "calls \<Rightarrow> AccessModifier \<Rightarrow> token_type list \<Rightarrow> enum_members \<Rightarrow> enum_members parse" where
  "enum_member r access ms = (\<lambda>(methods, variants).
     bindp (if Oop KeywordAbstract \<in> set ms
            then parser_error here (\<lambda>_. ''enum methods cannot be abstract'') (''remove '' @ quote ''abstract'' @ '' modifier'')
            else returns ()) (\<lambda>_.
       ifp starts_function
         (bindp (parse_method r (public_by_default access) ms (Oop KeywordAbstract \<in> set ms)) (\<lambda>d. returns (methods @ [d], variants)))
      (ifp (check_type (Other KeywordUnit))
         (bindp advance_token (\<lambda>_. bindp (parse_variant r) (\<lambda>v. returns (methods, variants @ [v]))))
      (ifp (check_type Identifier)
         (bindp (getp (\<lambda>p. tvalue (current_token p))) (\<lambda>n.
          bindp (parser_error here (\<lambda>_. ''enum variants must be declared with '' @ quote ''unit'' @ '' keyword'')
                   (''use '' @ quote (''unit '' @ n) @ '' to declare an enum variant'')) (\<lambda>_.
          bindp advance_token (\<lambda>_. returns (methods, variants)))))
      (ifp (check_types [Layout Dedent, Special Eof, Layout Newline]) (returns (methods, variants))
         (bindp (unexpected_member ''enum body''
                   (''expected '' @ quote ''unit'' @ '', '' @ quote ''function'' @ '', or '' @ quote ''property'')) (\<lambda>_.
            returns (methods, variants))))))))"

definition enum_line :: "calls \<Rightarrow> enum_members \<Rightarrow> enum_members parse" where
  "enum_line r x =
     bindp parseAccessModifier (\<lambda>access. bindp (parse_modifiers enum_modifiers) (\<lambda>ms. enum_member r access ms x))"

definition optional_type :: "calls \<Rightarrow> token_type \<Rightarrow> expression type_node option parse" where
  "optional_type r t =
     bindp (match_type t) (\<lambda>go. if go then bindp (call_type r) (\<lambda>x. returns (Some x)) else returns None)"

definition parseEnumDeclaration :: "calls \<Rightarrow> AccessModifier \<Rightarrow> declaration_tree parse" where
  "parseEnumDeclaration r access =
     bindp (expect_type (Declaration KeywordEnum) []) (\<lambda>_.
     bindp (expect_type Identifier ''expected enum name'') (\<lambda>tok.
     bindp (parseGenericParameters r) (\<lambda>gs.
     bindp (optional_type r (Other KeywordBacked)) (\<lambda>backed.
     bindp (optional_type r (Oop KeywordExtends)) (\<lambda>base.
     bindp (match_type (Declaration KeywordImplements)) (\<lambda>go.
     bindp (if go then comma_separated (call_type r) else returns []) (\<lambda>is.
     bindp (forward_or ''enum'' ([], []) (parse_indented (enum_line r) ([], []))) (\<lambda>(methods, variants).
       returns (Declared (tsource tok) access False (EnumDeclaration backed base gs is methods (tvalue tok) variants))))))))))"

section \<open>Interfaces, traits and implementations\<close>

type_synonym interface_members = "declaration_tree list \<times> declaration_tree list"

definition interface_line :: "calls \<Rightarrow> interface_members \<Rightarrow> interface_members parse" where
  "interface_line r = (\<lambda>(methods, nested).
     bindp parseAccessModifier (\<lambda>access.
       ifp (check_type (Declaration KeywordClass)) (bindp (call_class r access) (\<lambda>d. returns (methods, nested @ [d])))
      (ifp (check_type (Declaration KeywordInterface)) (bindp (call_interface r access) (\<lambda>d. returns (methods, nested @ [d])))
      (ifp (check_type (Declaration KeywordStruct)) (bindp (call_struct r access) (\<lambda>d. returns (methods, nested @ [d])))
      (ifp (check_type (Declaration KeywordEnum)) (bindp (call_enum r access) (\<lambda>d. returns (methods, nested @ [d])))
         (bindp (parse_method r access [] False) (\<lambda>d. returns (methods @ [d], nested))))))))"

definition parse_parents :: "calls \<Rightarrow> expression type_node list parse" where
  "parse_parents r =
     bindp (ifp (check_types [Oop KeywordExtends, Declaration KeywordImplements])
              (bindp advance_token (\<lambda>_. types_after r (Punctuation Comma))) (returns [])) (\<lambda>ts.
     bindp (match_type (Punctuation Colon)) (\<lambda>colon.
     bindp (if colon
            then ifp (check_types [Layout Newline, Special Eof]) (returns [])
                   (bindp (types_after r (Punctuation Comma)) (\<lambda>us.
                    bindp (expect_type (Punctuation Colon) (wanted '':'' '' after interface declaration'')) (\<lambda>_. returns us)))
            else returns []) (\<lambda>us.
     bindp (expectNewline ''interface declaration'') (\<lambda>_. returns (ts @ us)))))"

definition parseInterfaceDeclaration :: "calls \<Rightarrow> AccessModifier \<Rightarrow> declaration_tree parse" where
  "parseInterfaceDeclaration r access =
     bindp (expect_type (Declaration KeywordInterface) []) (\<lambda>_.
     bindp (expect_type Identifier ''expected interface name'') (\<lambda>tok.
     bindp (parseGenericParameters r) (\<lambda>gs.
     bindp (match_type (Punctuation Semicolon)) (\<lambda>semicolon.
     bindp (if semicolon then bindp (expectNewline ''interface forward declaration'') (\<lambda>_. returns ([], [], []))
            else bindp (parse_parents r) (\<lambda>parents.
                 bindp (parse_indented (interface_line r) ([], [])) (\<lambda>(methods, nested). returns (parents, methods, nested))))
       (\<lambda>(parents, methods, nested).
       returns (Declared (tsource tok) access False (InterfaceDeclaration gs False methods (tvalue tok) nested parents)))))))"

definition trait_line ::
    "calls \<Rightarrow> field_declaration list \<times> declaration_tree list \<Rightarrow> (field_declaration list \<times> declaration_tree list) parse" where
  "trait_line r = (\<lambda>(fields, methods).
     bindp parseAccessModifier (\<lambda>access. bindp (parse_modifiers [Declaration KeywordStatic]) (\<lambda>ms.
       ifp starts_function (bindp (parse_method r access ms False) (\<lambda>d. returns (fields, methods @ [d])))
      (ifp (check_types [Identifier, Punctuation Question])
         (bindp (parseFieldDeclaration r access) (\<lambda>f. returns (fields @ [f], methods)))
         (bindp (unexpected_member ''trait body'' []) (\<lambda>_. returns (fields, methods)))))))"

definition parseTraitDeclaration :: "calls \<Rightarrow> AccessModifier \<Rightarrow> declaration_tree parse" where
  "parseTraitDeclaration r access =
     bindp (expect_type (Other KeywordTrait) []) (\<lambda>_.
     bindp (expect_type Identifier ''expected trait name'') (\<lambda>tok.
     bindp (parseGenericParameters r) (\<lambda>gs.
     bindp (expect_type (Punctuation Colon) (wanted '':'' '' after trait declaration'')) (\<lambda>_.
     bindp (expectNewline ''trait declaration'') (\<lambda>_.
     bindp (parse_indented (trait_line r) ([], [])) (\<lambda>(fields, methods).
       returns (Declared (tsource tok) access False (TraitDeclaration fields gs methods (tvalue tok)))))))))"

definition parseImplementDeclaration :: "calls \<Rightarrow> declaration_tree parse" where
  "parseImplementDeclaration r p =
     (let src = here p in
      bindp (expect_type (Declaration KeywordImplements) []) (\<lambda>_.
      bindp (parseGenericParameters r) (\<lambda>gs.
      bindp (call_type r) (\<lambda>t.
      bindp (optional_type r (Control KeywordFor)) (\<lambda>target.
      bindp (expect_type (Punctuation Colon) (wanted '':'' '' after impl declaration'')) (\<lambda>_.
      bindp (expectNewline ''impl declaration'') (\<lambda>_.
      bindp (parse_indented (\<lambda>methods. bindp parseAccessModifier (\<lambda>access.
               bindp (call_function r access False False False False) (\<lambda>d. returns (methods @ [d])))) []) (\<lambda>methods.
        returns (Declared src Access_Default False
          (case target of
             None \<Rightarrow> ImplementDeclaration gs None methods (Some t)
           | Some u \<Rightarrow> ImplementDeclaration gs (Some t) methods (Some u)))))))))) p)"

section \<open>Other declarations\<close>

definition extern_parameter ::
    "calls \<Rightarrow> bool \<times> (string \<times> expression type_node option) list \<Rightarrow>
      (bool \<times> bool \<times> (string \<times> expression type_node option) list) parse" where
  "extern_parameter r = (\<lambda>(isVariadic, ps).
     bindp (match_type (Punctuation Ellipsis)) (\<lambda>ellipsis.
       if ellipsis then returns (False, True, ps)
       else bindp (call_type r) (\<lambda>t.
            bindp (ifp (check_type Identifier) (bindp advance_token (\<lambda>tok. returns (tvalue tok))) (returns [])) (\<lambda>n.
            bindp (match_type (Punctuation Comma)) (\<lambda>go. returns (go, isVariadic, ps @ [(n, Some t)]))))))"

definition parseExternDeclaration :: "calls \<Rightarrow> declaration_tree parse" where
  "parseExternDeclaration r =
     bindp (expect_type (Declaration KeywordExtern) []) (\<lambda>_.
     bindp (expect_type (Declaration KeywordFunction) (wanted ''function'' ('' after '' @ [SQUOTE] @ ''extern'' @ [SQUOTE]))) (\<lambda>_.
     bindp (expect_type Identifier ''expected function name'') (\<lambda>tok.
     bindp (match_type (Other KeywordAs)) (\<lambda>linked.
     bindp (if linked then expect_name (Literal LiteralString) ''expected link name string'' else returns (tvalue tok)) (\<lambda>link.
     bindp (expect_type (Delimiter LeftParenthesis) (wanted ''('' '' after extern function name'')) (\<lambda>_.
     bindp (ifp (check_type (Delimiter RightParenthesis)) (returns (False, [])) (repeatp (extern_parameter r) (False, []))) (\<lambda>(isVariadic, ps).
     bindp (expect_type (Delimiter RightParenthesis) (wanted '')'' '' after extern parameters'')) (\<lambda>_.
     bindp (parse_result_type r) (\<lambda>t.
     bindp (match_type (Punctuation Semicolon)) (\<lambda>_.
     bindp (expectNewline ''extern declaration'') (\<lambda>_.
       returns (Declared (tsource tok) Access_Default False (ExternDeclaration isVariadic link (tvalue tok) ps t)))))))))))))"

definition parseTypeAliasDeclaration :: "calls \<Rightarrow> AccessModifier \<Rightarrow> declaration_tree parse" where
  "parseTypeAliasDeclaration r access p =
     (let src = here p in
      bindp (expect_type (Declaration KeywordType) []) (\<lambda>_.
      bindp (expect_name Identifier ''expected type name'') (\<lambda>n.
      bindp (parseGenericParameters r) (\<lambda>gs.
      bindp (expect_type (Assigning Assignment) (wanted ''='' '' in type alias'')) (\<lambda>_.
      bindp (call_type r) (\<lambda>t.
      bindp (expectNewline ''type alias'') (\<lambda>_.
        returns (Declared src access False (TypeAliasDeclaration (Some t) gs n)))))))) p)"

text \<open>A constant keeps the text of the token in the place of its name, whatever the token is.\<close>

definition parse_constant :: "calls \<Rightarrow> AccessModifier \<Rightarrow> declaration_tree parse" where
  "parse_constant r access =
     bindp advance_token (\<lambda>tok. bindp (call_type r) (\<lambda>t.
     bindp (getp (\<lambda>p. tvalue (current_token p))) (\<lambda>n.
     bindp (expect_type Identifier ''expected constant name'') (\<lambda>_.
     bindp (parse_initializer r) (\<lambda>v.
       returns (Declared (tsource tok) access False (ConstantDeclaration v False n (Some t))))))))"

definition parse_global_variable :: "calls \<Rightarrow> AccessModifier \<Rightarrow> declaration_tree parse" where
  "parse_global_variable r access p =
     (let src = here p in
      bindp (call_type r) (\<lambda>t.
      bindp (expect_name Identifier ''expected variable name'') (\<lambda>n.
      bindp (parse_initializer r) (\<lambda>v.
        returns (Declared src access False (ConstantDeclaration v True n (Some t)))))) p)"

definition unexpected_declaration :: "declaration_tree option parse" where
  "unexpected_declaration =
     bindp (parser_error here (\<lambda>p. ''unexpected token '' @ quote (tvalue (current_token p)) @ '' at top level'')
       ''expected a declaration (function, class, struct, enum, interface, trait, implements, type, const)'') (\<lambda>_.
     bindp advance_token (\<lambda>_. returns None))"

definition some_declaration :: "(declaration_tree \<Rightarrow> declaration_tree) \<Rightarrow> declaration_tree parse \<Rightarrow> declaration_tree option parse" where
  "some_declaration f m = bindp m (\<lambda>d. returns (Some (f d)))"

fun parseDeclaration_of ::
    "calls \<Rightarrow> AccessModifier \<Rightarrow> token_type list \<Rightarrow> token_type \<Rightarrow> declaration_tree option parse" where
  "parseDeclaration_of r access ms (Oop KeywordProperty) =
     some_declaration (flag_function False (Oop KeywordFinal \<in> set ms) (Oop KeywordNative \<in> set ms) True)
       (call_function r access (Oop KeywordVirtual \<in> set ms) (Oop KeywordOverride \<in> set ms) (Oop KeywordAbstract \<in> set ms)
          (Declaration KeywordStatic \<in> set ms))"
| "parseDeclaration_of r access ms (Declaration KeywordFunction) =
     some_declaration (flag_function (Other KeywordAsync \<in> set ms) (Oop KeywordFinal \<in> set ms) (Oop KeywordNative \<in> set ms) False)
       (call_function r access (Oop KeywordVirtual \<in> set ms) (Oop KeywordOverride \<in> set ms) (Oop KeywordAbstract \<in> set ms)
          (Declaration KeywordStatic \<in> set ms))"
| "parseDeclaration_of r access ms (Declaration KeywordClass) =
     some_declaration (flag_class (Oop KeywordAbstract \<in> set ms) (Oop KeywordFinal \<in> set ms) (Oop KeywordNative \<in> set ms)
       (Oop KeywordReadonly \<in> set ms)) (call_class r access)"
| "parseDeclaration_of r access ms (Declaration KeywordStruct) = some_declaration id (call_struct r access)"
| "parseDeclaration_of r access ms (Declaration KeywordEnum) = some_declaration id (call_enum r access)"
| "parseDeclaration_of r access ms (Declaration KeywordInterface) =
     some_declaration (flag_interface (Oop KeywordFinal \<in> set ms)) (call_interface r access)"
| "parseDeclaration_of r access ms (Other KeywordTrait) = some_declaration id (parseTraitDeclaration r access)"
| "parseDeclaration_of r access ms (Declaration KeywordImplements) = some_declaration id (parseImplementDeclaration r)"
| "parseDeclaration_of r access ms (Declaration KeywordType) = some_declaration id (parseTypeAliasDeclaration r access)"
| "parseDeclaration_of r access ms (Declaration KeywordExtern) = some_declaration id (parseExternDeclaration r)"
| "parseDeclaration_of r access ms (Declaration KeywordConstant) = some_declaration id (parse_constant r access)"
| "parseDeclaration_of r access ms Identifier =
     ifp (next_type 1 Identifier) (some_declaration id (parse_global_variable r access)) unexpected_declaration"
| "parseDeclaration_of r access ms other = unexpected_declaration"

definition parseDeclaration :: "calls \<Rightarrow> declaration_tree option parse" where
  "parseDeclaration r =
     bindp parseAccessModifier (\<lambda>access. bindp (parse_modifiers declaration_modifiers) (\<lambda>ms p.
       parseDeclaration_of r access ms (ttype (current_token p)) p))"

section \<open>Exports, imports and packages\<close>

definition skip_layout :: "unit parse" where
  "skip_layout =
     repeatp (\<lambda>_. ifp (check_types [Layout Dedent, Layout Indent, Layout Newline])
       (bindp advance_token (\<lambda>_. returns (True, ()))) (returns (False, ()))) ()"

text \<open>A name with an alias behind \<^verbatim>\<open>as\<close>, of an import or an export.\<close>

definition parse_item :: "string \<Rightarrow> (string \<times> string) parse" where
  "parse_item kind =
     bindp (expect_name Identifier (''expected '' @ kind @ '' name'')) (\<lambda>n. bindp (match_type (Other KeywordAs)) (\<lambda>aliased.
     bindp (if aliased then expect_name Identifier (''expected '' @ kind @ '' alias'') else returns []) (\<lambda>alias. returns (alias, n))))"

definition exported_name :: "declaration_node \<Rightarrow> string" where
  "exported_name d =
     (case d of
        ClassDeclaration _ _ _ _ _ _ _ _ _ n _ _ \<Rightarrow> n
      | EnumDeclaration _ _ _ _ _ n _ \<Rightarrow> n
      | FunctionDeclaration f \<Rightarrow> decl_name f
      | InterfaceDeclaration _ _ _ n _ _ \<Rightarrow> n
      | StructDeclaration _ _ _ n _ _ \<Rightarrow> n
      | _ \<Rightarrow> [])"

definition make_public :: "declaration_tree \<Rightarrow> declaration_tree" where
  "make_public d = Declared (declaration_source d) Access_Public (declaration_isBuiltin d) (declaration_node d)"

definition export_step :: "(string \<times> string) list \<Rightarrow> (bool \<times> (string \<times> string) list) parse" where
  "export_step xs =
     ifp (check_types [Special Eof, Delimiter RightBrace]) (returns (False, xs))
       (bindp (parse_item ''export'') (\<lambda>x. bindp (match_type (Punctuation Comma)) (\<lambda>_. bindp skip_layout (\<lambda>_.
          returns (True, xs @ [x])))))"

definition parse_export_list :: "(string \<times> string) list parse" where
  "parse_export_list =
     bindp skip_layout (\<lambda>_. bindp (repeatp export_step []) (\<lambda>xs.
     bindp (expect_type (Delimiter RightBrace) (wanted ''}'' '' after export list'')) (\<lambda>_.
     bindp skipNewline (\<lambda>_. returns xs))))"

definition parseExportDeclaration :: "calls \<Rightarrow> declaration_tree parse" where
  "parseExportDeclaration r p =
     (let src = here p; export = (\<lambda>d items. Declared src Access_Default False (ExportDeclaration d items)) in
      bindp (expect_type KeywordExport []) (\<lambda>_. bindp (match_type (Delimiter LeftBrace)) (\<lambda>braces.
        if braces then bindp parse_export_list (\<lambda>xs. returns (export None xs))
        else bindp (parseDeclaration r) (\<lambda>inner.
          returns (case inner of
              None \<Rightarrow> export None []
            | Some d \<Rightarrow> export (Some (make_public d))
                (if exported_name (declaration_node d) = [] then [] else [([], exported_name (declaration_node d))]))))) p)"

text \<open>Words that may stand in a path: the range of the enumeration starts at \<^verbatim>\<open>if\<close>.\<close>

definition path_word :: "token_type \<Rightarrow> bool" where
  "path_word t \<longleftrightarrow> in_range (Control KeywordIf) KeywordExport t"

definition path_part :: "Parser \<Rightarrow> bool" where
  "path_part p \<longleftrightarrow>
     check_type (Arithmetic Minus) p
     \<and> (let t = ttype (peek_token 1 p) in t = Identifier \<or> t = Literal LiteralInteger \<or> path_word t)"

definition parse_path_segment :: "string \<Rightarrow> string \<Rightarrow> string parse" where
  "parse_path_segment hint minus_hint =
     bindp (ifp (\<lambda>p. check_type Identifier p \<or> path_word (ttype (current_token p)))
              (bindp advance_token (\<lambda>tok. returns (tvalue tok))) (expect_name Identifier hint))
       (repeatp (\<lambda>s. ifp path_part
          (bindp advance_token (\<lambda>_.
           bindp (ifp (\<lambda>p. check_type (Literal LiteralInteger) p \<or> path_word (ttype (current_token p)))
                    (bindp advance_token (\<lambda>tok. returns (tvalue tok))) (expect_name Identifier minus_hint)) (\<lambda>part.
             returns (True, s @ ''-'' @ part))))
          (returns (False, s))))"

definition parse_path :: "string \<Rightarrow> string \<Rightarrow> string \<Rightarrow> string list parse" where
  "parse_path hint dot_hint minus_hint =
     bindp (parse_path_segment hint minus_hint) (\<lambda>s. more_after (Punctuation Dot) (parse_path_segment dot_hint minus_hint) [s])"

text \<open>The items of an import between braces, over several lines.\<close>

definition parse_braced_items :: "(string \<times> string) list parse" where
  "parse_braced_items =
     bindp skipNewline (\<lambda>_. bindp (match_type (Layout Indent)) (\<lambda>_.
     bindp (repeatp (\<lambda>xs. bindp skipNewline (\<lambda>_.
              ifp (check_types [Delimiter RightBrace, Layout Dedent]) (returns (False, xs))
                (bindp (parse_item ''import'') (\<lambda>x. bindp skipNewline (\<lambda>_. bindp (match_type (Punctuation Comma)) (\<lambda>go.
                   returns (go, xs @ [x]))))))) []) (\<lambda>xs.
     bindp skipNewline (\<lambda>_. bindp (match_type (Layout Dedent)) (\<lambda>_. bindp skipNewline (\<lambda>_.
     bindp (expect_type (Delimiter RightBrace) (wanted ''}'' '' after import list'')) (\<lambda>_. returns xs)))))))"

definition parse_imported :: "(bool \<times> (string \<times> string) list) parse" where
  "parse_imported =
     bindp (match_type (Arithmetic Star)) (\<lambda>star.
       if star then returns (True, [])
       else bindp (match_type (Delimiter LeftBrace)) (\<lambda>braces.
              bindp (if braces then parse_braced_items else comma_separated (parse_item ''import'')) (\<lambda>xs. returns (False, xs))))"

definition segment_hint :: string where
  "segment_hint = ''expected path segment after '' @ [SQUOTE] @ ''-'' @ [SQUOTE]"

definition parseImportDeclaration :: "declaration_tree parse" where
  "parseImportDeclaration p =
     (let src = here p; import = (\<lambda>alias all items from path.
            Declared src Access_Default False (ImportDeclaration alias all items from path)) in
      bindp (match_type (Declaration KeywordFrom)) (\<lambda>from.
        if from
        then bindp (parse_path ''expected module path'' ''expected module path segment'' segment_hint) (\<lambda>path.
             bindp (expect_type (Declaration KeywordImport) (wanted ''import'' '' after module path'')) (\<lambda>_.
             bindp parse_imported (\<lambda>(all, items).
             bindp (expectNewline ''import declaration'') (\<lambda>_. returns (import [] all items True path)))))
        else bindp (expect_type (Declaration KeywordImport) []) (\<lambda>_.
             bindp (parse_path ''expected import path'' ''expected import path segment'' segment_hint) (\<lambda>path.
             bindp (match_type (Other KeywordAs)) (\<lambda>aliased.
             bindp (if aliased then expect_name Identifier ''expected import alias'' else returns []) (\<lambda>alias.
             bindp (expectNewline ''import declaration'') (\<lambda>_. returns (import alias False [] False path))))))) p)"

definition dotted :: "string list \<Rightarrow> string" where
  "dotted ss = (case ss of [] \<Rightarrow> [] | s # rest \<Rightarrow> s @ concat (map (\<lambda>t. ''.'' @ t) rest))"

definition parseModuleDeclaration :: "declaration_tree parse" where
  "parseModuleDeclaration p =
     (let src = here p in
      bindp (expect_type (Declaration KeywordPackage) []) (\<lambda>_.
      bindp (parse_path ''expected package name'' ''expected package name segment'' ''expected package name segment'') (\<lambda>path.
      bindp (expectNewline ''package declaration'') (\<lambda>_.
        returns (Declared src Access_Default False (ModuleDeclaration (dotted path)))))) p)"

section \<open>Programs\<close>

text \<open>The calls, to a depth.\<close>

fun parsers :: "nat \<Rightarrow> calls" where
  "parsers 0 = no_calls"
| "parsers (Suc n) =
     \<lparr>call_type = parseTypeNode (parsers n), call_unary = parseUnaryExpression (parsers n),
      call_precedence = parsePrecedenceExpression (parsers n), call_statement = parseStatement (parsers n),
      call_function = parseFunctionDeclaration (parsers n), call_class = parseClassDeclaration (parsers n),
      call_struct = parseStructDeclaration (parsers n), call_enum = parseEnumDeclaration (parsers n),
      call_interface = parseInterfaceDeclaration (parsers n)\<rparr>"

abbreviation starts_import :: "Parser \<Rightarrow> bool" where
  "starts_import \<equiv> check_types [Declaration KeywordImport, Declaration KeywordFrom]"

definition add_declaration :: "program \<Rightarrow> declaration_tree option \<Rightarrow> program" where
  "add_declaration g d =
     (case d of None \<Rightarrow> g | Some _ \<Rightarrow> g\<lparr>program_declarations := program_declarations g @ [d]\<rparr>)"

definition add_import :: "program \<Rightarrow> declaration_tree \<Rightarrow> program" where
  "add_import g d = g\<lparr>program_imports := program_imports g @ [d]\<rparr>"

definition add_export :: "program \<Rightarrow> declaration_tree \<Rightarrow> program" where
  "add_export g d =
     add_declaration (g\<lparr>program_exports := program_exports g @ [d]\<rparr>)
       (case declaration_node d of ExportDeclaration inner _ \<Rightarrow> inner | _ \<Rightarrow> None)"

definition top_level :: "calls \<Rightarrow> program \<Rightarrow> (bool \<times> program) parse" where
  "top_level r g =
     ifp at_end (returns (False, g))
       (bindp skipNewline (\<lambda>_. ifp at_end (returns (False, g))
         (bindp (ifp starts_import (bindp parseImportDeclaration (\<lambda>d. returns (add_import g d)))
                (ifp (check_type KeywordExport) (bindp (parseExportDeclaration r) (\<lambda>d. returns (add_export g d)))
                   (bindp (parseDeclaration r) (\<lambda>d. returns (add_declaration g d))))) (\<lambda>g1.
          bindp skipNewline (\<lambda>_. returns (True, g1))))))"

definition parse_program :: "calls \<Rightarrow> program parse" where
  "parse_program r =
     bindp skipNewline (\<lambda>_.
     bindp (ifp (check_type (Declaration KeywordPackage))
              (bindp parseModuleDeclaration (\<lambda>d. bindp skipNewline (\<lambda>_. returns (Some d)))) (returns None)) (\<lambda>module.
     bindp (repeatp (\<lambda>is. ifp starts_import
              (bindp parseImportDeclaration (\<lambda>d. bindp skipNewline (\<lambda>_. returns (True, is @ [d])))) (returns (False, is))) []) (\<lambda>is.
       repeatp (top_level r)
         \<lparr>program_declarations = [], program_exports = [], program_imports = is, program_module = module\<rparr>)))"

text \<open>The depth of the calls is bounded by what is left to read and to report.\<close>

definition parse :: "program parse" where
  "parse p = parse_program (parsers (Suc (energy p))) p"

end
