(* ===== verification/ParserLaws.thy ===== *)
theory ParserLaws
  imports ParserDeclarations
begin

text \<open>
  The parser returns: every member function consumes a token or reports an error before it calls another one at the same place, so
  the energy of the parser bounds the depth of the calls and the turns of each loop. The locale \<open>bounded_calls\<close> assumes this of the
  calls below a level, its lemmas carry it through the member functions, and its interpretation on \<open>parsers\<close> ties the levels together.
\<close>

section \<open>Steps that lose energy\<close>

definition without_unit :: "Token list \<Rightarrow> bool" where
  "without_unit ts \<longleftrightarrow> (\<forall>t\<in>set ts. ttype t \<noteq> Other KeywordUnit)"

definition live :: "Parser \<Rightarrow> bool" where
  "live p \<longleftrightarrow>
     errorCounts (parser_diagnostic p) < errorMaximum (parser_diagnostic p) \<and> without_unit (parser_tokens p)"

text \<open>An outcome from a live parser with at most \<open>k\<close> of energy: it is live again, and some of the energy is gone when \<open>s\<close> says so.\<close>

definition fine :: "bool \<Rightarrow> nat \<Rightarrow> Parser \<Rightarrow> (parse_failure \<times> Parser) + ('a \<times> Parser) \<Rightarrow> bool" where
  "fine s k p res \<longleftrightarrow>
     (live p \<longrightarrow> energy p \<le> k \<longrightarrow>
      (case res of Inl (f, _) \<Rightarrow> f \<noteq> Out_of_fuel | Inr (_, q) \<Rightarrow> live q \<and> (if s then energy q < energy p else energy q \<le> energy p)))"

lemma fine_weaken: "fine t j p res \<Longrightarrow> (s \<longrightarrow> t) \<Longrightarrow> k \<le> j \<Longrightarrow> fine s k p res"
  by (auto simp: fine_def split: sum.splits prod.splits if_splits)

lemma fine_keep: "fine True k p res \<Longrightarrow> fine False k p res"
  by (erule fine_weaken) simp_all

lemma fine_below: "fine True (Suc k) p res \<Longrightarrow> fine s k p res"
  by (erule fine_weaken) simp_all

lemma fine_returns: "fine False k p (returns x p)"
  by (simp add: fine_def returns_def)

lemma fine_fails: "f \<noteq> Out_of_fuel \<Longrightarrow> fine s k p (fails f p)"
  by (simp add: fine_def fails_def)

lemma fine_getp: "fine False k p (getp g p)"
  by (simp add: fine_def getp_def)

lemma fine_bind:
  assumes "fine False k p (m p)" and "\<And>x q. fine s k q (f x q)"
  shows "fine s k p (bindp m f p)"
  using assms by (fastforce simp: fine_def bindp_def split: sum.splits prod.splits)

lemma fine_bind_spent:
  assumes "fine True (Suc k) p (m p)" and "\<And>x q. fine False k q (f x q)"
  shows "fine True (Suc k) p (bindp m f p)"
  using assms by (fastforce simp: fine_def bindp_def split: sum.splits prod.splits)

lemma fine_bind_in:
  assumes "fine True k p (m p)" and "\<And>x q. fine False k q (f x q)"
  shows "fine True k p (bindp m f p)"
  using assms by (fastforce simp: fine_def bindp_def split: sum.splits prod.splits if_splits)

lemma fine_getp_bind: "fine s k p (f (g p) p) \<Longrightarrow> fine s k p (bindp (getp g) f p)"
  by (simp add: bindp_def getp_def)

lemma fine_if: "(b \<Longrightarrow> fine s k p x) \<Longrightarrow> (\<not> b \<Longrightarrow> fine s k p y) \<Longrightarrow> fine s k p (if b then x else y)"
  by simp

lemma fine_if_parse: "(b \<Longrightarrow> fine s k p (m p)) \<Longrightarrow> (\<not> b \<Longrightarrow> fine s k p (n p)) \<Longrightarrow> fine s k p ((if b then m else n) p)"
  by simp

lemma fine_ifp: "(b p \<Longrightarrow> fine s k p (m p)) \<Longrightarrow> (\<not> b p \<Longrightarrow> fine s k p (n p)) \<Longrightarrow> fine s k p (ifp b m n p)"
  by (simp add: ifp_def)

lemma fine_prod: "(\<And>a b. fine s k p (f a b p)) \<Longrightarrow> fine s k p ((case x of (a, b) \<Rightarrow> f a b) p)"
  by (cases x) simp

lemma fine_option:
  "fine s k p (f p) \<Longrightarrow> (\<And>a. fine s k p (g a p)) \<Longrightarrow> fine s k p ((case x of None \<Rightarrow> f | Some a \<Rightarrow> g a) p)"
  by (cases x) auto

text \<open>The step of a loop: it loses energy when the loop goes on.\<close>

definition step_fine :: "nat \<Rightarrow> Parser \<Rightarrow> (parse_failure \<times> Parser) + ((bool \<times> 's) \<times> Parser) \<Rightarrow> bool" where
  "step_fine k p res \<longleftrightarrow>
     (live p \<longrightarrow> energy p \<le> k \<longrightarrow>
      (case res of Inl (f, _) \<Rightarrow> f \<noteq> Out_of_fuel
       | Inr ((go, _), q) \<Rightarrow> live q \<and> (if go then energy q < energy p else energy q \<le> energy p)))"

lemma step_spends: "fine True k p res \<Longrightarrow> step_fine k p res"
  by (auto simp: fine_def step_fine_def split: sum.splits prod.splits)

lemma step_stops: "step_fine k p (returns (False, s) p)"
  by (simp add: step_fine_def returns_def)

lemma step_bind:
  assumes "fine False k p (m p)" and "\<And>x q. step_fine k q (f x q)"
  shows "step_fine k p (bindp m f p)"
  using assms by (fastforce simp: fine_def step_fine_def bindp_def split: sum.splits prod.splits)

lemma step_bind_spent:
  assumes "fine True k p (m p)" and "\<And>x q. fine False k q (f x q)"
  shows "step_fine k p (bindp m f p)"
  using assms by (fastforce simp: fine_def step_fine_def bindp_def split: sum.splits prod.splits)

lemma step_more: "fine True k p (m p) \<Longrightarrow> step_fine k p (bindp m (\<lambda>x. returns (True, x)) p)"
  by (rule step_bind_spent) (simp_all add: fine_returns)

lemma step_more': "fine True k p (m p) \<Longrightarrow> step_fine k p (bindp m (\<lambda>x. returns (True, f x)) p)"
  by (rule step_bind_spent) (simp_all add: fine_returns)

lemma step_ifp: "(b p \<Longrightarrow> step_fine k p (m p)) \<Longrightarrow> (\<not> b p \<Longrightarrow> step_fine k p (n p)) \<Longrightarrow> step_fine k p (ifp b m n p)"
  by (simp add: ifp_def)

lemma step_if: "(b \<Longrightarrow> step_fine k p (m p)) \<Longrightarrow> (\<not> b \<Longrightarrow> step_fine k p (n p)) \<Longrightarrow> step_fine k p ((if b then m else n) p)"
  by simp

lemma step_if_plain: "(b \<Longrightarrow> step_fine k p x) \<Longrightarrow> (\<not> b \<Longrightarrow> step_fine k p y) \<Longrightarrow> step_fine k p (if b then x else y)"
  by simp

lemma step_prod: "(\<And>a b. step_fine k p (f a b p)) \<Longrightarrow> step_fine k p ((case x of (a, b) \<Rightarrow> f a b) p)"
  by (cases x) simp

lemma iterate_fine:
  assumes step: "\<And>s q. step_fine k q (step s q)"
  shows "energy p < n \<Longrightarrow> fine False k p (iterate n step s p)"
proof (induction n arbitrary: s p)
  case (Suc n)
  show ?case
  proof (cases "step s p")
    case (Inl a)
    then show ?thesis
      using step [of p s] by (auto simp: fine_def step_fine_def bindp_def)
  next
    case (Inr a)
    obtain go s1 q where a: "a = ((go, s1), q)" by (metis surj_pair)
    show ?thesis
    proof (cases "live p \<and> energy p \<le> k")
      case True
      then have q: "live q \<and> (if go then energy q < energy p else energy q \<le> energy p)"
        using step [of p s] Inr a by (simp add: step_fine_def)
      have "fine False k q (iterate n step s1 q)" if go
        using Suc.IH [of q s1] Suc.prems q that by simp
      then show ?thesis
        using q True Inr a
        by (auto simp: fine_def bindp_def returns_def split: sum.splits prod.splits if_splits)
    qed (auto simp: fine_def)
  qed
qed simp

lemma fine_repeat: "(\<And>s q. step_fine k q (step s q)) \<Longrightarrow> fine False k p (repeatp step s p)"
  unfolding repeatp_def by (rule iterate_fine) simp_all

lemma repeat_idle: "step s p = Inr ((False, s1), p) \<Longrightarrow> repeatp step s p = Inr (s1, p)"
  by (simp add: repeatp_def bindp_def returns_def)

lemma repeat_spends:
  assumes "\<And>s q. step_fine k q (step s q)" and "step s p = Inr ((True, s1), q)"
  shows "fine True k p (repeatp step s p)"
proof (cases "live p \<and> energy p \<le> k")
  case True
  then have q: "live q" "energy q < energy p"
    using assms(1) [of p s] assms(2) by (auto simp: step_fine_def)
  then have "fine False k q (iterate (energy p) step s1 q)"
    by (intro iterate_fine assms(1))
  then show ?thesis
    using q True assms(2) by (auto simp: repeatp_def bindp_def fine_def split: sum.splits prod.splits)
qed (auto simp: fine_def)

section \<open>Tokens\<close>

lemma budget_emit:
  assumes "emit_error src msg hint e = Inr e'" and "errorCounts e < errorMaximum e"
  shows "errorCounts e' < errorMaximum e' \<and> budget e' + 1 \<le> budget e"
proof -
  have e': "errorMaximum e' = errorMaximum e" "errorCounts e' = errorCounts e + 1" "errorCounts e + 1 < errorMaximum e"
    using assms
    using le_less_trans [OF word_zero_le assms(2)]
    by (auto simp: emit_error_def emit_def Let_def record_diagnostic_counts counts_as_error_def not_le split: if_splits)
  have "unat (errorCounts e + 1) = unat (errorCounts e) + 1"
    using assms(2) by unat_arith
  moreover have "errorMaximum e \<noteq> 0" using assms(2) by auto
  ultimately show ?thesis
    using e' assms(2) by (auto simp: budget_def word_less_nat_alt)
qed

lemma fine_error: "fine s k p (parser_error src msg hint p)"
  by (auto simp: fine_def parser_error_def live_def energy_def remaining_def split: sum.splits dest!: budget_emit)

lemma remaining_next [simp]: "remaining (p\<lparr>parser_position := Suc n\<rparr>) = remaining (p\<lparr>parser_position := n\<rparr>) - 1"
  by (simp add: remaining_def)

lemma fine_advance0: "fine False k p (advance_token p)"
  by (simp add: fine_def advance_token_def live_def energy_def)

lemma fine_advance:
  assumes "ttype (current_token p) \<noteq> Special Eof"
  shows "fine s k p (advance_token p)"
proof -
  have "parser_position p < length (parser_tokens p)"
    using assms by (auto simp: current_token_def default_token_def split: if_splits)
  then show ?thesis
    by (auto simp: fine_def advance_token_def live_def energy_def remaining_def)
qed

lemma fine_check: "check_type t p \<Longrightarrow> t \<noteq> Special Eof \<Longrightarrow> fine s k p (advance_token p)"
  by (rule fine_advance) (simp_all add: check_type_def)

lemma fine_checks: "check_types ts p \<Longrightarrow> Special Eof \<notin> set ts \<Longrightarrow> fine s k p (advance_token p)"
  by (rule fine_advance) (auto simp: check_types_def)

text \<open>The rules of the computations, for the outcomes that may keep the energy.\<close>

named_theorems fine_intros

lemmas [fine_intros] =
  fine_returns fine_getp fine_fails fine_bind [where s = False] fine_if fine_if_parse fine_ifp fine_prod fine_option fine_repeat fine_error fine_advance0

lemmas step_intros = step_stops step_ifp step_if step_prod

lemma fine_error_token [fine_intros]: "fine False k p (error_token p)"
  by (simp add: error_token_def fine_getp)

lemma fine_let: "(\<And>x. x = a \<Longrightarrow> fine s k p (f x p)) \<Longrightarrow> fine s k p ((let x = a in f x) p)"
  by simp

lemma fine_pending:
  assumes "live q \<longleftrightarrow> live p" and "energy q = energy p"
  shows "fine False k p (Inr (x, q))"
  using assms by (simp add: fine_def)

lemma live_pending [simp]: "live (p\<lparr>pendingGreaterThans := n\<rparr>) = live p" "energy (p\<lparr>pendingGreaterThans := n\<rparr>) = energy p"
  by (simp_all add: live_def energy_def remaining_def)

lemma fine_consume [fine_intros]: "fine False k p (consumeGreaterThan msg p)"
  unfolding consumeGreaterThan_def
  by (intro fine_if fine_bind fine_pending fine_advance0 fine_error fine_error_token) simp_all

lemma fine_expect:
  assumes "t \<noteq> Comparison GreaterThan" and "t \<noteq> Special Eof"
  shows "fine s k p (expect_type t msg p)"
proof -
  have "fine True (Suc k) p (expect_type t msg p)"
    using assms unfolding expect_type_def
    by (auto intro!: fine_ifp fine_bind_spent fine_error fine_error_token fine_check)
  then show ?thesis by (rule fine_weaken) simp_all
qed

lemma fine_expect0 [fine_intros]: "fine False k p (expect_type t msg p)"
  unfolding expect_type_def by (auto intro!: fine_ifp fine_bind fine_error fine_error_token fine_advance0 fine_consume)

lemma fine_name: "t \<noteq> Comparison GreaterThan \<Longrightarrow> t \<noteq> Special Eof \<Longrightarrow> fine s k p (expect_name t msg p)"
  unfolding expect_name_def
  by (rule fine_weaken [where t = True and j = "Suc k"]) (auto intro!: fine_bind_spent fine_expect fine_returns)

lemma fine_name0 [fine_intros]: "fine False k p (expect_name t msg p)"
  unfolding expect_name_def by (intro fine_intros)

lemma fine_match [fine_intros]: "fine False k p (match_type t p)"
  unfolding match_type_def by (auto intro!: fine_intros)

text \<open>A match loses energy when it finds its token.\<close>

lemma match_cases:
  assumes "t \<noteq> Comparison GreaterThan" and "t \<noteq> Special Eof"
  obtains "match_type t p = Inr (False, p)" | q where "match_type t p = Inr (True, q)" "fine True k p (match_type t p)"
proof (cases "check_type t p")
  case True
  then have "match_type t p = bindp advance_token (\<lambda>_. returns True) p"
    using assms(1) by (simp add: match_type_def ifp_def)
  moreover have "\<exists>q. bindp advance_token (\<lambda>_. returns True) p = Inr (True, q)"
    by (simp add: bindp_def advance_token_def returns_def)
  moreover have "fine True (Suc k) p (bindp advance_token (\<lambda>_. returns True) p)"
    using True assms(2) by (intro fine_bind_spent fine_check fine_returns) simp_all
  ultimately show ?thesis using that(2) fine_weaken by (metis le_SucI order_refl)
next
  case False
  then show ?thesis using assms(1) that(1) by (simp add: match_type_def ifp_def returns_def)
qed

lemma fine_match_checked:
  assumes "check_type t p" and "t \<noteq> Comparison GreaterThan" and "t \<noteq> Special Eof"
  shows "fine True k p (match_type t p)"
  using assms by (auto simp: match_type_def ifp_def intro: fine_below [OF fine_bind_spent] fine_check fine_returns)

lemma step_match:
  assumes "t \<noteq> Comparison GreaterThan" and "t \<noteq> Special Eof"
    and "\<And>q. fine False k q (f True q)" and "\<And>q. step_fine k q (f False q)"
  shows "step_fine k p (bindp (match_type t) f p)"
  using assms(1,2)
proof (cases rule: match_cases [where t = t and p = p and k = k])
  case 1
  then show ?thesis using assms(4) [of p] by (simp add: bindp_def)
next
  case (2 q)
  then show ?thesis
    using assms(3) [of q] by (auto simp: bindp_def fine_def step_fine_def split: sum.splits prod.splits)
qed

lemma fine_match_spent:
  assumes "t \<noteq> Comparison GreaterThan" and "t \<noteq> Special Eof"
    and "\<And>q. fine False k q (f True q)" and "\<And>q. fine True (Suc k) q (f False q)"
  shows "fine True (Suc k) p (bindp (match_type t) f p)"
  using assms(1,2)
proof (cases rule: match_cases [where t = t and p = p and k = "Suc k"])
  case 1
  then show ?thesis using assms(4) [of p] by (simp add: bindp_def)
next
  case (2 q)
  then show ?thesis
    using assms(3) [of q] by (fastforce simp: bindp_def fine_def split: sum.splits prod.splits)
qed

lemma skip_step: "step_fine k p (ifp (check_type (Layout Newline)) (bindp advance_token (\<lambda>_. returns (True, ()))) (returns (False, ())) p)"
  by (auto intro!: step_ifp step_stops step_bind_spent fine_check fine_returns)

lemma fine_skip [fine_intros]: "fine False k p (skipNewline p)"
  unfolding skipNewline_def by (intro fine_repeat skip_step)

lemma skip_idle: "\<not> check_type (Layout Newline) p \<Longrightarrow> skipNewline p = Inr ((), p)"
  unfolding skipNewline_def by (rule repeat_idle) (simp add: ifp_def returns_def)

lemma skip_spends: "check_type (Layout Newline) p \<Longrightarrow> fine True k p (skipNewline p)"
  unfolding skipNewline_def by (rule repeat_spends [OF skip_step]) (simp add: ifp_def bindp_def advance_token_def returns_def)

lemma fine_newline [fine_intros]: "fine False k p (expectNewline c p)"
  unfolding expectNewline_def by (intro fine_intros)

lemma fine_number [fine_intros]: "fine False k p (number_result x p)"
  unfolding number_result_def by (cases x) (auto intro: fine_returns fine_fails)

lemma fine_number_bind: "(\<And>v. fine s k p (f v p)) \<Longrightarrow> fine s k p (bindp (number_result x) f p)"
  by (cases x) (auto simp: number_result_def bindp_def fails_def returns_def fine_def)

lemma fine_followed [fine_intros]: "fine False k p (followed e p)"
  unfolding followed_def by (auto intro!: fine_intros)

lemma fine_report_if [fine_intros]: "fine False k p (report_if b src msg p)"
  unfolding report_if_def by (auto intro!: fine_intros)

lemma fine_check_parameters [fine_intros]: "fine False k p (check_parameters v w xs p)"
  by (induction v w xs arbitrary: p rule: check_parameters.induct) (auto simp: Let_def intro!: fine_intros)

text \<open>Computations that start by losing energy.\<close>

lemma fine_start:
  "check_type t p \<Longrightarrow> t \<noteq> Special Eof \<Longrightarrow> (\<And>x q. fine False k q (f x q)) \<Longrightarrow> fine True (Suc k) p (bindp advance_token f p)"
  by (intro fine_bind_spent fine_check)

lemma fine_starts:
  "check_types ts p \<Longrightarrow> Special Eof \<notin> set ts \<Longrightarrow> (\<And>x q. fine False k q (f x q)) \<Longrightarrow>
     fine True (Suc k) p (bindp advance_token f p)"
  by (intro fine_bind_spent fine_checks)

lemma fine_start_type:
  "ttype (current_token p) \<noteq> Special Eof \<Longrightarrow> (\<And>x q. fine False k q (f x q)) \<Longrightarrow> fine True (Suc k) p (bindp advance_token f p)"
  by (intro fine_bind_spent fine_advance)

lemma fine_expected:
  "t \<noteq> Comparison GreaterThan \<Longrightarrow> t \<noteq> Special Eof \<Longrightarrow> (\<And>x q. fine False k q (f x q)) \<Longrightarrow>
     fine True (Suc k) p (bindp (expect_type t msg) f p)"
  by (intro fine_bind_spent fine_expect)

lemma fine_named:
  "t \<noteq> Comparison GreaterThan \<Longrightarrow> t \<noteq> Special Eof \<Longrightarrow> (\<And>x q. fine False k q (f x q)) \<Longrightarrow>
     fine True (Suc k) p (bindp (expect_name t msg) f p)"
  by (intro fine_bind_spent fine_name)

lemma fine_reported: "(\<And>x q. fine False k q (f x q)) \<Longrightarrow> fine True (Suc k) p (bindp (parser_error src msg hint) f p)"
  by (intro fine_bind_spent fine_error)

lemmas fine_first = fine_start fine_starts fine_expected fine_named fine_reported

lemma fine_moved:
  assumes "fine s k q res" and "live p \<longrightarrow> live q" and "energy q \<le> energy p"
  shows "fine s k p res"
  using assms by (fastforce simp: fine_def split: sum.splits prod.splits if_splits)

lemma live_moved: "live (moved_by n p) = live p" "live (moved_if t p) = live p"
  by (simp_all add: live_def moved_by_def moved_if_def)

lemma energy_moved_by: "energy (moved_by n p) \<le> energy p"
  by (simp add: energy_def remaining_def moved_by_def)

lemma energy_moved: "energy (moved_by n p) \<le> energy p" "energy (moved_by m (moved_by n p)) \<le> energy p"
  using energy_moved_by le_trans by blast+

section \<open>Lists\<close>

lemma fine_comma_separated:
  assumes "\<And>p. fine False k p (item p)"
  shows "fine False k p (comma_separated item p)"
  unfolding comma_separated_def
  by (rule fine_repeat, rule step_bind, rule assms, rule step_match) (auto intro!: fine_returns step_stops)

lemma fine_more_after:
  assumes "t \<noteq> Comparison GreaterThan" and "t \<noteq> Special Eof" and "\<And>p. fine False k p (item p)"
  shows "fine False k p (more_after t item xs p)"
  unfolding more_after_def
  by (rule fine_repeat, rule step_match) (use assms in \<open>auto intro!: fine_bind fine_returns step_stops\<close>)

text \<open>A line of a body loses energy when it does not start at the end of a line or of the body.\<close>

lemma fine_lines:
  assumes item: "\<And>s p. fine False k p (item s p)"
    and spends: "\<And>s p. \<not> check_types [Layout Dedent, Special Eof, Layout Newline] p \<Longrightarrow> fine True k p (item s p)"
  shows "fine False k p (parse_lines item s0 p)"
proof -
  have "step_fine k q (line_step item s q)" for s q
  proof (cases "check_type (Layout Newline) q")
    case True
    then show ?thesis
      unfolding line_step_def by (intro step_ifp step_stops step_bind_spent [OF skip_spends] fine_intros item)
  next
    case False
    show ?thesis
      unfolding line_step_def
    proof (rule step_ifp)
      assume "\<not> check_types [Layout Dedent, Special Eof] q"
      with False have "fine True k q (item s q)"
        by (intro spends) (auto simp: check_types_def check_type_def)
      then have "step_fine k q (bindp (item s) (\<lambda>s1. bindp skipNewline (\<lambda>_. returns (True, s1))) q)"
        by (intro step_bind_spent fine_intros)
      then show "step_fine k q (bindp skipNewline (\<lambda>_. ifp (check_type (Layout Dedent)) (returns (False, s))
        (bindp (item s) (\<lambda>s1. bindp skipNewline (\<lambda>_. returns (True, s1))))) q)"
        using False by (simp add: bindp_def [of skipNewline] skip_idle ifp_def returns_def [of "(False, s)"] step_stops [unfolded returns_def])
    qed (rule step_stops)
  qed
  then show ?thesis unfolding parse_lines_def by (intro fine_intros)
qed

lemma fine_indented:
  assumes "\<And>s p. fine False k p (item s p)"
    and "\<And>s p. \<not> check_types [Layout Dedent, Special Eof, Layout Newline] p \<Longrightarrow> fine True k p (item s p)"
  shows "fine False k p (parse_indented item s0 p)"
  unfolding parse_indented_def using assms by (intro fine_intros fine_lines)

lemma fine_modifiers:
  assumes "Special Eof \<notin> set words"
  shows "fine False k p (parse_modifiers words p)"
    and "check_types words p \<Longrightarrow> fine True k p (parse_modifiers words p)"
    and "\<not> check_types words p \<Longrightarrow> parse_modifiers words p = Inr ([], p)"
proof -
  have step: "step_fine k q (ifp (check_types words) (bindp advance_token (\<lambda>tok. returns (True, ttype tok # ms))) (returns (False, ms)) q)" for ms q
    using assms by (intro step_ifp step_stops step_bind_spent fine_checks fine_returns)
  then show "fine False k p (parse_modifiers words p)"
    unfolding parse_modifiers_def by (intro fine_repeat)
  show "fine True k p (parse_modifiers words p)" if "check_types words p"
    unfolding parse_modifiers_def using that
    by (intro repeat_spends [OF step]) (simp add: ifp_def bindp_def advance_token_def returns_def)
  show "parse_modifiers words p = Inr ([], p)" if "\<not> check_types words p"
    unfolding parse_modifiers_def using that by (intro repeat_idle) (simp add: ifp_def returns_def)
qed

lemma modifiers_words [simp]:
  "Special Eof \<notin> set member_modifiers" "Special Eof \<notin> set declaration_modifiers" "Special Eof \<notin> set enum_modifiers"
  by (simp_all add: member_modifiers_def declaration_modifiers_def enum_modifiers_def)

lemmas [fine_intros] = fine_modifiers(1)

section \<open>The member functions\<close>

locale bounded_calls =
  fixes r :: calls and k :: nat
  assumes fine_type: "fine True k p (call_type r p)"
    and fine_unary: "fine True k p (call_unary r p)"
    and fine_precedence: "fine True k p (call_precedence r n p)"
    and fine_statement: "fine True k p (call_statement r p)"
    and fine_function: "fine True k p (call_function r access b1 b2 b3 b4 p)"
    and fine_class: "fine True k p (call_class r access p)"
    and fine_struct: "fine True k p (call_struct r access p)"
    and fine_enum: "fine True k p (call_enum r access p)"
    and fine_interface: "fine True k p (call_interface r access p)"
begin

lemmas fine_calls =
  fine_type fine_unary fine_precedence fine_statement fine_function fine_class fine_struct fine_enum fine_interface

lemmas [fine_intros] = fine_calls [THEN fine_keep]

lemma fine_optional_expression [fine_intros]: "fine False k p (optional_expression r p)"
  unfolding optional_expression_def by (intro fine_intros)

lemma fine_generic_arguments [fine_intros]: "fine False k p (parseGenericArguments r p)"
proof -
  have "step_fine k q (ifp (\<lambda>p. checkGreaterThan p \<or> at_end p) (returns (False, ts))
      (bindp (call_type r) (\<lambda>t. bindp (match_type (Punctuation Comma)) (\<lambda>go. returns (go, ts @ [t])))) q)" for ts q
    by (intro step_ifp step_stops step_bind_spent fine_type fine_intros)
  then show ?thesis
    unfolding parseGenericArguments_def by (intro fine_intros)
qed

lemma fine_type_list [fine_intros]: "fine False k p (parse_type_list r p)"
  unfolding parse_type_list_def by (intro fine_intros fine_comma_separated)

lemma fine_named_type [fine_intros]: "fine False k p (parse_named_type r src n p)"
  unfolding parse_named_type_def parse_meta_type_def parse_callable_type_def
  by (intro fine_intros fine_comma_separated)

lemma fine_base_type: "fine True (Suc k) p (parseBaseTypeNode r p)"
  unfolding parseBaseTypeNode_def Let_def parse_pointer_type_def parse_array_type_def parse_tuple_type_def parse_function_type_def
  by (intro fine_if fine_start fine_reported) (auto intro!: fine_intros)

lemmas [fine_intros] = fine_base_type [THEN fine_below, of False]

lemma fine_type_node: "fine True (Suc k) p (parseTypeNode r p)"
proof -
  have "fine False k q (parse_union_type r t q)" for t q
    unfolding parse_union_type_def by (intro fine_intros fine_more_after) simp_all
  moreover have "fine False k q (parse_optional_suffix t q)" for t q
    unfolding parse_optional_suffix_def by (intro fine_intros)
  ultimately show ?thesis
    unfolding parseTypeNode_def by (auto intro!: fine_ifp fine_start fine_bind_spent [OF fine_base_type] fine_intros)
qed

lemmas [fine_intros] = fine_type_node [THEN fine_below, of False]

subsection \<open>Parameters\<close>

lemma fine_parameter [fine_intros]: "fine False k p (parseFunctionParameter r p)"
proof -
  have "fine False k q (parse_property_access q)" "fine False k q (parse_parameter_kind q)" for q
    unfolding parse_property_access_def parse_parameter_kind_def
    by (auto split: option.split intro!: fine_intros)
  then show ?thesis
    unfolding parseFunctionParameter_def Let_def parse_plain_parameter_def by (intro fine_intros)
qed

lemma fine_parameters [fine_intros]: "fine False k p (parseFunctionParameters r p)"
  unfolding parseFunctionParameters_def by (intro fine_intros fine_comma_separated)

lemma fine_generic_parameters [fine_intros]: "fine False k p (parseGenericParameters r p)"
proof -
  have first: "fine True k q (parse_generic_parameter r q)" for q
    unfolding parse_generic_parameter_def Let_def
    by (rule fine_weaken [where t = True and j = "Suc k"])
      (auto intro!: fine_named fine_intros fine_more_after)
  have "step_fine k q (ifp (\<lambda>p. checkGreaterThan p \<or> at_end p) (returns (False, gs))
      (bindp (parse_generic_parameter r) (\<lambda>g. bindp (match_type (Punctuation Comma)) (\<lambda>go. returns (go, gs @ [g])))) q)" for gs q
    by (intro step_ifp step_stops step_bind_spent first fine_intros)
  then show ?thesis
    unfolding parseGenericParameters_def by (intro fine_intros)
qed

subsection \<open>Collections and arguments\<close>

lemma fine_comprehension [fine_intros]: "fine False k p (parse_comprehension r kind src body key closing msg p)"
  unfolding parse_comprehension_def comprehension_variable_def by (intro fine_intros)

lemma fine_array: "fine True (Suc k) p (parseArrayExpression r p)"
  unfolding parseArrayExpression_def Let_def by (auto intro!: fine_expected fine_intros fine_more_after)

lemma fine_until_brace:
  assumes "\<And>p. fine False k p (item p)"
  shows "fine False k p (until_brace item xs p)"
  unfolding until_brace_def
  by (rule fine_repeat, rule step_match) (use assms in \<open>auto intro!: fine_intros step_stops\<close>)

lemma fine_map_entry [fine_intros]: "fine False k p (parse_map_entry r p)"
  unfolding parse_map_entry_def by (intro fine_intros)

lemma fine_map_or_set: "fine True (Suc k) p (parseMapOrSetExpression r p)"
  unfolding parseMapOrSetExpression_def Let_def parse_map_rest_def parse_set_rest_def
  by (auto intro!: fine_expected fine_intros fine_until_brace)

lemma fine_named_argument [fine_intros]:
  "(\<And>q. fine False k q (m q)) \<Longrightarrow> fine False k p (named_argument r e f m p)"
  unfolding named_argument_def by (cases "identifier_name e") (auto intro!: fine_intros)

lemma step_argument: "step_fine k p (argument_step r x p)"
  unfolding argument_step_def
  by (cases x) (auto intro!: step_prod step_bind_spent fine_precedence fine_intros)

lemma step_field: "step_fine k p (field_step r x p)"
  unfolding field_step_def
  by (cases x) (auto intro!: step_prod step_bind_spent fine_precedence fine_intros)

lemma fine_arguments [fine_intros]: "fine False k p (parse_arguments r msg p)"
  unfolding parse_arguments_def by (intro fine_intros step_argument)

lemma fine_fields [fine_intros]: "fine False k p (parse_fields r p)"
  unfolding parse_fields_def by (intro fine_intros step_field)

subsection \<open>Expressions\<close>

lemma fine_member_name [fine_intros]: "fine False k p (member_name p)"
  unfolding member_name_def by (intro fine_intros)

lemma fine_call: "fine False k p (parse_call r e ts p)"
  unfolding parse_call_def Let_def by (intro fine_intros)

lemma fine_generic_start:
  assumes "check_type (Comparison LessThan) p"
  shows "fine True k p (parseGenericArguments r p)"
proof -
  have "step_fine k q (ifp (\<lambda>p. checkGreaterThan p \<or> at_end p) (returns (False, ts))
      (bindp (call_type r) (\<lambda>t. bindp (match_type (Punctuation Comma)) (\<lambda>go. returns (go, ts @ [t])))) q)" for ts q
    by (intro step_ifp step_stops step_bind_spent fine_type fine_intros)
  with assms have "fine True (Suc k) p (parseGenericArguments r p)"
    unfolding parseGenericArguments_def by (auto intro!: fine_bind_spent fine_match_checked fine_intros)
  then show ?thesis by (rule fine_below)
qed

lemma fine_postfix_parts:
  "check_type (Delimiter LeftParenthesis) p \<Longrightarrow> fine True (Suc k) p (parse_call r e ts p)"
  "check_type (Punctuation Dot) p \<Longrightarrow> fine True (Suc k) p (parse_member r e p)"
  "check_type (Delimiter LeftBracket) p \<Longrightarrow> fine True (Suc k) p (parse_index r e p)"
  "check_type (Punctuation DoubleColon) p \<Longrightarrow> fine True (Suc k) p (parse_scoped_member r e p)"
  unfolding parse_call_def parse_member_def parse_index_def parse_scoped_member_def Let_def
  by (auto intro!: fine_start fine_intros fine_comma_separated)

lemma step_postfix: "step_fine k p (postfix_step r e p)"
proof -
  have generic: "fine True k p (bindp (parseGenericArguments r) f p)"
    if "check_type (Comparison LessThan) p" "\<And>ts q. fine False k q (f ts q)" for f :: "_ \<Rightarrow> expression parse"
    using that by (intro fine_bind_in fine_generic_start)
  have operator: "fine True k p (bindp advance_token f p)"
    if "check_type (Punctuation Question) p \<or> check_type (Arithmetic Increment) p \<or> check_type (Arithmetic Decrement) p"
      "\<And>t q. fine False k q (f t q)" for f :: "_ \<Rightarrow> expression parse"
    using that by (auto intro: fine_below [OF fine_start])
  show ?thesis
    unfolding postfix_step_def Let_def
    by (intro step_if_plain step_more step_stops)
      (simp_all add: generic operator fine_call fine_returns fine_postfix_parts [THEN fine_below])
qed

lemma fine_block [fine_intros]: "fine False k p (parseStatementBlock r p)"
proof -
  have "step_fine k q (ifp (check_types [Layout Dedent, Special Eof]) (returns (False, ss))
      (bindp skipNewline (\<lambda>_. ifp (check_type (Layout Dedent)) (returns (False, ss))
        (bindp (call_statement r) (\<lambda>s. bindp skipNewline (\<lambda>_.
           returns (True, if is_null_statement s then ss else ss @ [s])))))) q)" for ss q
    by (rule step_ifp, rule step_stops, rule step_bind, rule fine_skip, rule step_ifp, rule step_stops, rule step_bind_spent,
        rule fine_statement, intro fine_intros)
  then show ?thesis
    unfolding parseStatementBlock_def by (intro fine_intros)
qed

lemma fine_returned_body [fine_intros]: "fine False k p (returned_body r p)"
  unfolding returned_body_def by (intro fine_intros)

lemma fine_lambda_block [fine_intros]: "fine False k p (lambda_block r p)"
  unfolding lambda_block_def by (intro fine_intros)

lemma fine_lambda_parameter [fine_intros]: "fine False k p (lambda_parameter r src p)"
  unfolding lambda_parameter_def by (intro fine_intros)

lemma fine_lambda: "fine True (Suc k) p (parseLambdaExpression r p)"
  unfolding parseLambdaExpression_def Let_def parse_short_lambda_def parse_function_lambda_def
  by (auto intro!: fine_if fine_start fine_expected fine_intros fine_comma_separated)

lemma step_match_arm: "step_fine k p (match_arm r x p)"
  unfolding match_arm_def
  by (cases x, simp only: split_conv, rule step_ifp, rule step_stops, rule step_bind, rule fine_match, rule step_bind,
      (intro fine_intros)[1], rule step_match) (auto intro!: step_stops fine_returns)

lemma fine_match_expression: "check_type (Control KeywordMatch) p \<Longrightarrow> fine True (Suc k) p (parseMatchExpression r p)"
  unfolding parseMatchExpression_def Let_def by (auto intro!: fine_start fine_intros step_match_arm)

lemma fine_literal:
  "ttype (current_token p) \<noteq> Special Eof \<Longrightarrow> (\<And>t q. fine False k q (node t q)) \<Longrightarrow> fine True (Suc k) p (literal node p)"
  unfolding literal_def by (intro fine_start_type fine_intros) auto

lemma fine_parenthesized: "check_type (Delimiter LeftParenthesis) p \<Longrightarrow> fine True (Suc k) p (parse_parenthesized r p)"
  unfolding parse_parenthesized_def Let_def by (auto intro!: fine_start fine_intros fine_comma_separated)

lemma fine_new: "check_type (Oop KeywordNew) p \<Longrightarrow> fine True (Suc k) p (parse_new r p)"
  unfolding parse_new_def Let_def by (auto intro!: fine_start fine_intros)

lemma fine_async: "check_type (Other KeywordAsync) p \<Longrightarrow> fine True (Suc k) p (parse_async r p)"
  unfolding parse_async_def
  by (auto intro!: fine_ifp fine_start fine_reported fine_lambda [THEN fine_below] fine_intros)

lemma fine_unexpected_token: "fine True (Suc k) p (unexpected_token p)"
  unfolding unexpected_token_def by (auto intro!: fine_reported fine_intros)

lemma fine_primary: "fine True (Suc k) p (parsePrimaryExpression r p)"
proof -
  have "fine True (Suc k) p (parsePrimaryExpression_of r t p)" if "ttype (current_token p) = t" for t
    using that
    by (cases "(r, t)" rule: parsePrimaryExpression_of.cases)
      (auto intro!: fine_literal fine_unexpected_token fine_parenthesized fine_new fine_async fine_match_expression fine_array
         fine_map_or_set fine_lambda fine_getp_bind fine_number_bind fine_intros
       simp: check_type_def)
  then show ?thesis by (simp add: parsePrimaryExpression_def)
qed

lemma fine_postfix: "fine True (Suc k) p (parsePostfixExpression r p)"
  unfolding parsePostfixExpression_def by (auto intro!: fine_bind_spent fine_primary fine_intros step_postfix)

lemma fine_unary_expression: "fine True (Suc k) p (parseUnaryExpression r p)"
  unfolding parseUnaryExpression_def
  by (auto intro!: fine_ifp fine_starts fine_postfix fine_intros simp: prefix_operators_def)

lemma step_precedence: "step_fine k p (precedence_step r n e p)"
proof -
  have types: "fine True k p (type_operator r node p)" for node
    unfolding type_operator_def
    by (rule fine_bind, rule fine_advance0, rule fine_bind_in, rule fine_type, rule fine_returns)
  have related: "fine True k p (subclass_operator r e p)"
    unfolding subclass_operator_def
    by (rule fine_bind, rule fine_advance0, rule fine_bind_in, rule fine_type) (auto intro!: fine_intros)
  have binary: "fine True k p (binary_operator r e p)"
    unfolding binary_operator_def Let_def
    by (rule fine_bind, rule fine_advance0, rule fine_bind, (intro fine_intros)[1], rule fine_bind_in, rule fine_precedence,
        rule fine_returns)
  show ?thesis
    unfolding precedence_step_def Let_def
    by (intro step_if_plain step_stops step_spends types related binary)
qed

lemma fine_range [fine_intros]: "fine False k p (parse_range r e p)"
  unfolding parse_range_def by (intro fine_intros)

lemma fine_precedence_expression: "fine True (Suc k) p (parsePrecedenceExpression r n p)"
  unfolding parsePrecedenceExpression_def by (auto intro!: fine_bind_spent fine_unary_expression fine_intros step_precedence)

subsection \<open>Statements\<close>

lemma fine_suite [fine_intros]: "fine False k p (parse_suite r msg c p)"
  unfolding parse_suite_def by (intro fine_intros)

lemma fine_asm_list:
  assumes "\<And>p. fine True k p (item p)"
  shows "fine False k p (asm_list msg item p)"
proof -
  have "step_fine k q (ifp (\<lambda>p. check_type (Delimiter RightParenthesis) p \<or> at_end p) (returns (False, xs))
      (bindp item (\<lambda>x. returns (True, xs @ [x]))) q)" for xs q
    by (intro step_ifp step_stops step_bind_spent assms fine_returns)
  then show ?thesis unfolding asm_list_def by (intro fine_intros)
qed

lemma fine_asm_items: "fine True k p (asm_operand r p)" "fine True k p (asm_clobber p)"
  unfolding asm_operand_def asm_clobber_def
  by (auto intro!: fine_getp_bind fine_bind_in fine_expect fine_intros)

lemma fine_asm_section:
  assumes "\<And>p. fine False k p (items p)" and "\<And>x p. fine False k p (rest x p)" and "\<And>p. fine False k p (absent p)"
  shows "fine False k p (asm_section word items rest absent p)"
  unfolding asm_section_def by (intro fine_intros assms)

lemma fine_asm_operands [fine_intros]: "fine False k p (parse_asm_operands r p)"
  unfolding parse_asm_operands_def by (intro fine_asm_section fine_asm_list fine_asm_items fine_returns)

lemma fine_asm_template [fine_intros]: "fine False k p (asm_template p)"
  unfolding asm_template_def by (intro fine_intros)

lemma fine_asm_variant: "fine True k p (asm_variant r p)"
proof -
  have "fine True k p (asm_architecture p)"
    unfolding asm_architecture_def by (auto intro!: fine_getp_bind fine_bind_in fine_expect fine_intros)
  then show ?thesis
    unfolding asm_variant_def by (auto intro!: fine_bind_in fine_intros)
qed

lemma fine_asm_block [fine_intros]: "fine False k p (parse_asm_block r src v p)"
proof -
  have "step_fine k q (ifp (check_types [Layout Dedent, Special Eof]) (returns (False, vs))
      (bindp skipNewline (\<lambda>_. ifp (check_type (Layout Dedent)) (returns (False, vs))
        (bindp (asm_variant r) (\<lambda>v. bindp skipNewline (\<lambda>_. returns (True, vs @ [v])))))) q)" for vs q
    by (rule step_ifp, rule step_stops, rule step_bind, rule fine_skip, rule step_ifp, rule step_stops, rule step_bind_spent,
        rule fine_asm_variant, intro fine_intros)
  then show ?thesis unfolding parse_asm_block_def by (intro fine_intros)
qed

lemma fine_asm: "fine True (Suc k) p (parseInlineAssemblyStatement r p)"
  unfolding parseInlineAssemblyStatement_def Let_def by (auto intro!: fine_expected fine_intros)

lemma fine_defer: "fine True (Suc k) p (parseDeferStatement r p)"
  unfolding parseDeferStatement_def Let_def by (auto intro!: fine_expected fine_intros)

lemma fine_loop_variable [fine_intros]: "fine False k p (loop_variable r msg p)"
  unfolding loop_variable_def by (intro fine_intros)

lemma fine_loop_update [fine_intros]: "fine False k p (parse_loop_update r p)"
  unfolding parse_loop_update_def by (intro fine_intros)

lemma fine_for: "fine True (Suc k) p (parseForStatement r p)"
  unfolding parseForStatement_def Let_def parse_c_loop_def parse_iteration_def by (auto intro!: fine_expected fine_intros)

lemma step_elif: "step_fine k p (elif_step r bs p)"
  unfolding elif_step_def
  by (auto intro!: step_ifp step_stops step_bind_spent fine_check fine_intros)

lemma fine_if_statement: "fine True (Suc k) p (parseIfStatement r p)"
  unfolding parseIfStatement_def Let_def by (auto intro!: fine_expected fine_intros step_elif)

lemma fine_switch_case: "fine True k p (switch_case r p)"
  unfolding switch_case_def by (auto intro!: fine_bind_in fine_expect fine_intros)

lemma fine_body_with:
  assumes "\<And>xs p. fine True k p (item xs p)"
  shows "fine False k p (parse_body_with item p)"
  unfolding parse_body_with_def
  by (rule fine_repeat, rule step_ifp, rule step_stops, rule step_bind, rule fine_skip, rule step_ifp, rule step_stops,
      rule step_bind_spent, rule assms, intro fine_intros)

lemma fine_switch: "fine True (Suc k) p (parseSwitchStatement r p)"
proof -
  have "fine True k q (bindp (switch_case r) (\<lambda>c. returns (cs @ [c])) q)" for cs q
    by (intro fine_bind_in fine_switch_case fine_returns)
  then show ?thesis
    unfolding parseSwitchStatement_def Let_def by (auto intro!: fine_expected fine_intros fine_body_with)
qed

lemma fine_return: "check_type (Control KeywordReturn) p \<Longrightarrow> fine True (Suc k) p (parseReturnStatement r p)"
  unfolding parseReturnStatement_def by (auto intro!: fine_start fine_intros)

lemma fine_caught_types [fine_intros]: "fine False k p (caught_types p)"
proof -
  have type: "fine False k q (caught_type q)" for q
    unfolding caught_type_def by (intro fine_intros)
  show ?thesis
    unfolding caught_types_def
    by (intro fine_ifp fine_bind fine_repeat type fine_returns) (rule step_match; auto intro!: fine_intros type step_stops)
qed

lemma fine_try: "fine True (Suc k) p (parseTryCatchStatement r p)"
proof -
  have "step_fine k q (ifp (check_type (Handling KeywordExcept)) (bindp (parse_except r) (\<lambda>c. returns (True, cs @ [c])))
      (returns (False, cs)) q)" for cs q
    unfolding parse_except_def
    by (intro step_ifp step_stops step_more') (auto intro!: fine_bind_in fine_check fine_intros)
  then show ?thesis
    unfolding parseTryCatchStatement_def Let_def by (auto intro!: fine_expected fine_intros)
qed

lemma fine_unsafe: "fine True (Suc k) p (parseUnsafeBlockStatement r p)"
  unfolding parseUnsafeBlockStatement_def Let_def by (auto intro!: fine_expected fine_intros)

lemma fine_while: "fine True (Suc k) p (parseWhileStatement r p)"
  unfolding parseWhileStatement_def Let_def by (auto intro!: fine_expected fine_intros)

lemma fine_variable: "fine True (Suc k) p (parse_variable r c p)"
proof -
  have "fine False k q ((if lambda then returns () else expectNewline msg) q)" for lambda msg q
    by (intro fine_intros)
  then show ?thesis
    unfolding parse_variable_def by (intro fine_bind_spent fine_type_node fine_intros)
qed

lemma fine_expression_statement: "fine True (Suc k) p (parse_expression_statement r p)"
  unfolding parse_expression_statement_def parseExpression_def
  by (intro fine_bind_spent fine_precedence_expression fine_intros)

lemma fine_other_statement: "fine True (Suc k) p (parse_other_statement r p)"
  unfolding parse_other_statement_def Let_def
  by (auto intro!: fine_moved [OF fine_variable] fine_expression_statement simp: live_moved energy_moved)

lemma fine_simple_statement: "ttype (current_token p) \<noteq> Special Eof \<Longrightarrow> fine True (Suc k) p (simple_statement c node p)"
  unfolding simple_statement_def by (intro fine_start_type fine_intros)

lemma fine_statement_node: "fine True (Suc k) p (parseStatement r p)"
proof -
  have "fine True (Suc k) p (parseStatement_of r t p)" if "ttype (current_token p) = t" for t
    using that
    by (cases "(r, t)" rule: parseStatement_of.cases)
      (auto intro!: fine_asm fine_if_statement fine_switch fine_for fine_while fine_unsafe fine_defer fine_try fine_return
         fine_other_statement fine_simple_statement fine_start_type fine_intros
       simp: check_type_def)
  then show ?thesis by (simp add: parseStatement_def)
qed

subsection \<open>Declarations\<close>

lemma fine_access [fine_intros]: "fine False k p (parseAccessModifier p)"
  unfolding parseAccessModifier_def by (auto split: option.split intro!: fine_intros)

lemma fine_types_after [fine_intros]:
  "t \<noteq> Comparison GreaterThan \<Longrightarrow> t \<noteq> Special Eof \<Longrightarrow> fine False k p (types_after r t p)"
  unfolding types_after_def by (intro fine_intros fine_more_after)

lemma fine_function_body [fine_intros]: "fine False k p (parse_function_body r a p)"
proof -
  have "fine False k q (function_line r s q)" for s q
    unfolding function_line_def by (cases s) (auto intro!: fine_intros)
  moreover have "fine True k q (function_line r s q)" for s q
    unfolding function_line_def
    by (cases s) (auto intro!: fine_ifp fine_bind_in fine_function fine_statement fine_returns)
  ultimately show ?thesis
    unfolding parse_function_body_def by (intro fine_intros fine_indented)
qed

lemma fine_result_type [fine_intros]: "fine False k p (parse_result_type r p)"
  unfolding parse_result_type_def by (intro fine_intros)

lemma fine_function_declaration: "fine True (Suc k) p (parseFunctionDeclaration r access v ov ab st p)"
  unfolding parseFunctionDeclaration_def
  by (rule fine_match_spent) (auto intro!: fine_intros fine_bind_spent fine_expect)

lemma fine_initializer [fine_intros]: "fine False k p (parse_initializer r p)"
  unfolding parse_initializer_def by (intro fine_intros)

lemma fine_field: "fine True k p (parseFieldDeclaration r access p)"
  unfolding parseFieldDeclaration_def Let_def by (intro fine_bind_in fine_type fine_intros)

lemma fine_used_traits: "check_type (Other KeywordUse) p \<Longrightarrow> fine True k p (parse_used_traits p)"
  unfolding parse_used_traits_def
  by (rule fine_bind_in, erule fine_check) (auto intro!: fine_intros fine_more_after)

lemma fine_unexpected_member: "fine s k p (unexpected_member place hint p)"
  by (rule fine_below) (auto simp: unexpected_member_def intro!: fine_reported fine_intros)

lemma fine_method: "fine True k p (parse_method r access ms ab p)"
  unfolding parse_method_def Let_def by (intro fine_bind_in fine_function fine_returns)

lemma fine_class_member: "fine True k p (parse_class_member r inClass x p)"
proof (cases x)
  case (fields fs ms ns ts)
  have member: "fine True k q (bindp m f q)" if "fine True k q (m q)" "\<And>y q. fine False k q (f y q)"
    for m :: "'b parse" and f :: "'b \<Rightarrow> members parse" and q
    using that by (rule fine_bind_in)
  show ?thesis
    unfolding parse_class_member_def fields split_conv
    by (rule fine_bind, rule fine_access, rule fine_bind, rule fine_modifiers, simp, intro fine_ifp member)
      (auto intro!: fine_method fine_class fine_interface fine_struct fine_enum fine_used_traits fine_field fine_unexpected_member
         fine_returns)
qed

lemma fine_extends [fine_intros]: "fine False k p (parse_extends r p)"
  unfolding parse_extends_def by (auto intro!: fine_intros fine_more_after)

lemma fine_implements [fine_intros]: "fine False k p (parse_implements r p)"
  unfolding parse_implements_def by (auto intro!: fine_intros)

lemma fine_forward [fine_intros]: "(\<And>q. fine False k q (body q)) \<Longrightarrow> fine False k p (forward_or kind nothing body p)"
  unfolding forward_or_def by (intro fine_intros)

lemma fine_members [fine_intros]: "fine False k p (parse_indented (parse_class_member r c) s p)"
  by (intro fine_indented fine_class_member fine_class_member [THEN fine_keep])

lemma fine_class_declaration: "fine True (Suc k) p (parseClassDeclaration r access p)"
  unfolding parseClassDeclaration_def by (rule fine_expected) (auto intro!: fine_intros)

lemma fine_struct_declaration: "fine True (Suc k) p (parseStructDeclaration r access p)"
  unfolding parseStructDeclaration_def by (rule fine_expected) (auto intro!: fine_intros)

subsection \<open>Enumerations\<close>

text \<open>A live parser has no variants left to parse.\<close>

lemma no_unit: "check_type (Other KeywordUnit) p \<Longrightarrow> fine s k p res"
  by (auto simp: fine_def live_def without_unit_def check_type_def current_token_def default_token_def split: if_splits)

lemma fine_unit: "fine s k p (n p) \<Longrightarrow> fine s k p (ifp (check_type (Other KeywordUnit)) m n p)"
  using no_unit by (auto simp: ifp_def)

lemma enum_rest_parts:
  "fine True k p (bindp (parse_method r access ms ab) (\<lambda>d. returns (ds @ [d], vs)) p)"
  "fine True k p (bindp (parser_error src msg hint) (\<lambda>_. bindp advance_token (\<lambda>_. returns x)) p)"
  "fine True k p (bindp (unexpected_member place h) (\<lambda>_. returns x) p)"
  by (auto intro!: fine_bind_in fine_method fine_error fine_unexpected_member fine_intros)

lemma fine_enum_member: "fine False k p (enum_member r access ms x p)"
  unfolding enum_member_def
  by (rule fine_prod, rule fine_bind, (intro fine_intros)[1], rule fine_ifp, rule enum_rest_parts(1) [THEN fine_keep], rule fine_unit, rule fine_ifp,
      rule fine_getp_bind, rule enum_rest_parts(2) [THEN fine_keep], rule fine_ifp, rule fine_returns,
      rule enum_rest_parts(3) [THEN fine_keep])

lemma enum_member_spends:
  assumes "\<not> check_types [Layout Dedent, Special Eof, Layout Newline] p"
  shows "fine True k p (enum_member r access [] x p)"
proof -
  have "bindp (returns ()) f p = f () p" for f :: "unit \<Rightarrow> enum_members parse"
    by (simp add: bindp_def returns_def)
  then show ?thesis
    unfolding enum_member_def using assms enum_rest_parts
    by (intro fine_prod, simp, intro fine_ifp fine_unit) (auto intro!: fine_getp_bind)
qed

lemma fine_enum_line: "fine False k p (enum_line r x p)"
  unfolding enum_line_def by (auto intro!: fine_intros fine_enum_member)

lemma enum_line_spends:
  assumes "\<not> check_types [Layout Dedent, Special Eof, Layout Newline] p"
  shows "fine True k p (enum_line r x p)"
proof (cases "access_of (ttype (current_token p)) = None")
  case False
  then have "fine True k p (parseAccessModifier p)"
    unfolding parseAccessModifier_def
    by (auto intro!: fine_bind_in fine_advance fine_returns simp: access_of_def split: if_splits)
  then show ?thesis
    unfolding enum_line_def by (rule fine_bind_in) (auto intro!: fine_intros fine_enum_member)
next
  case True
  then have access: "parseAccessModifier p = Inr (Access_Default, p)"
    by (simp add: parseAccessModifier_def returns_def)
  show ?thesis
  proof (cases "check_types enum_modifiers p")
    case True
    then have "fine True k p (bindp (parse_modifiers enum_modifiers) (\<lambda>ms. enum_member r Access_Default ms x) p)"
      by (intro fine_bind_in fine_modifiers(2) fine_enum_member) simp_all
    then show ?thesis
      unfolding enum_line_def bindp_def [of parseAccessModifier] access by simp
  next
    case False
    then have words: "parse_modifiers enum_modifiers p = Inr ([], p)" by (rule fine_modifiers(3) [rotated]) simp
    show ?thesis
      using enum_member_spends [OF assms]
      unfolding enum_line_def bindp_def [of parseAccessModifier] access
      by (simp add: bindp_def words)
  qed
qed

lemma fine_enum_declaration: "fine True (Suc k) p (parseEnumDeclaration r access p)"
proof -
  have "fine False k q (optional_type r t q)" for t q
    unfolding optional_type_def by (intro fine_intros)
  moreover have "fine False k q (parse_indented (enum_line r) s q)" for s q
    by (intro fine_indented fine_enum_line enum_line_spends)
  ultimately show ?thesis
    unfolding parseEnumDeclaration_def by (intro fine_expected) (auto intro!: fine_intros fine_comma_separated)
qed

subsection \<open>Other declarations\<close>

lemma fine_optional_type [fine_intros]: "fine False k p (optional_type r t p)"
  unfolding optional_type_def by (intro fine_intros)

lemma fine_indented_lines:
  "(\<And>s p. fine True k p (item s p)) \<Longrightarrow> fine False k p (parse_indented item s p)"
  by (intro fine_indented) (auto intro: fine_keep)

lemma fine_interface_line: "fine True k p (interface_line r x p)"
  unfolding interface_line_def
  by (rule fine_prod, rule fine_bind, rule fine_access, intro fine_ifp fine_bind_in fine_class fine_interface fine_struct fine_enum
      fine_method fine_returns)

lemma fine_interface_declaration: "fine True (Suc k) p (parseInterfaceDeclaration r access p)"
proof -
  have "fine False k q (parse_parents r q)" for q
    unfolding parse_parents_def by (auto intro!: fine_intros)
  then show ?thesis
    unfolding parseInterfaceDeclaration_def
    by (intro fine_expected) (auto intro!: fine_intros fine_indented_lines fine_interface_line)
qed

lemma fine_trait_line: "fine True k p (trait_line r x p)"
  unfolding trait_line_def
  by (rule fine_prod, rule fine_bind, rule fine_access, rule fine_bind, rule fine_modifiers, simp,
      intro fine_ifp fine_bind_in fine_method fine_field fine_unexpected_member fine_returns)

lemma fine_trait: "fine True (Suc k) p (parseTraitDeclaration r access p)"
  unfolding parseTraitDeclaration_def
  by (rule fine_expected) (auto intro!: fine_intros fine_indented_lines fine_trait_line)

lemma fine_implement: "fine True (Suc k) p (parseImplementDeclaration r p)"
proof -
  have "fine True k q (bindp parseAccessModifier (\<lambda>access.
      bindp (call_function r access False False False False) (\<lambda>d. returns (ds @ [d]))) q)" for ds q
    by (rule fine_bind, rule fine_access, rule fine_bind_in, rule fine_function, rule fine_returns)
  then show ?thesis
    unfolding parseImplementDeclaration_def Let_def
    by (intro fine_expected) (auto intro!: fine_intros fine_indented_lines)
qed

lemma step_extern: "step_fine k p (extern_parameter r x p)"
proof (cases x)
  case (Pair v ps)
  have first: "step_fine k q (bindp (call_type r) (\<lambda>t.
      bindp (ifp (check_type Identifier) (bindp advance_token (\<lambda>tok. returns (tvalue tok))) (returns [])) (\<lambda>n.
      bindp (match_type (Punctuation Comma)) (\<lambda>go. returns (go, v, ps @ [(n, Some t)])))) q)" for q
    by (intro step_bind_spent fine_type fine_intros)
  show ?thesis
    unfolding extern_parameter_def Pair split_conv
    by (rule step_bind, rule fine_match, rule step_if, rule step_stops, rule first)
qed

lemma fine_extern: "fine True (Suc k) p (parseExternDeclaration r p)"
  unfolding parseExternDeclaration_def
  by (rule fine_expected) (auto intro!: fine_intros step_extern)

lemma fine_alias: "fine True (Suc k) p (parseTypeAliasDeclaration r access p)"
  unfolding parseTypeAliasDeclaration_def Let_def by (rule fine_expected) (auto intro!: fine_intros)

lemma fine_constant: "check_type (Declaration KeywordConstant) p \<Longrightarrow> fine True k p (parse_constant r access p)"
  unfolding parse_constant_def by (rule fine_bind_in, erule fine_check) (auto intro!: fine_intros)

lemma fine_global_variable: "fine True k p (parse_global_variable r access p)"
  unfolding parse_global_variable_def Let_def by (intro fine_bind_in fine_type fine_intros)

lemma fine_unexpected_declaration: "fine True k p (unexpected_declaration p)"
  unfolding unexpected_declaration_def by (intro fine_bind_in fine_error fine_intros)

lemma fine_some: "fine True k p (m p) \<Longrightarrow> fine True k p (some_declaration f m p)"
  unfolding some_declaration_def by (intro fine_bind_in fine_returns)

lemma fine_declaration: "fine True k p (parseDeclaration r p)"
proof -
  have "fine True k q (parseDeclaration_of r access ms t q)" if "ttype (current_token q) = t" for access ms t q
    using that
    by (cases "(r, access, ms, t)" rule: parseDeclaration_of.cases)
      (auto intro!: fine_some fine_function fine_class fine_struct fine_enum fine_interface fine_trait [THEN fine_below]
         fine_implement [THEN fine_below] fine_alias [THEN fine_below] fine_extern [THEN fine_below] fine_constant
         fine_global_variable fine_unexpected_declaration fine_ifp
       simp: check_type_def)
  then show ?thesis
    unfolding parseDeclaration_def by (intro fine_bind fine_access fine_modifiers) simp_all
qed

subsection \<open>Exports, imports and programs\<close>

lemma fine_skip_layout [fine_intros]: "fine False k p (skip_layout p)"
  unfolding skip_layout_def
  by (rule fine_repeat, rule step_ifp) (auto intro!: step_bind_spent fine_checks fine_returns step_stops)

lemma fine_item: "fine s k p (parse_item kind p)"
  by (rule fine_below) (auto simp: parse_item_def intro!: fine_named fine_intros)

lemma fine_export_list [fine_intros]: "fine False k p (parse_export_list p)"
proof -
  have "step_fine k q (export_step xs q)" for xs q
    unfolding export_step_def by (intro step_ifp step_stops step_bind_spent fine_item fine_intros)
  then show ?thesis unfolding parse_export_list_def by (intro fine_intros)
qed

lemma fine_export: "fine True k p (parseExportDeclaration r p)"
  unfolding parseExportDeclaration_def Let_def
  by (rule fine_bind_in, rule fine_expect) (auto intro!: fine_intros fine_declaration [THEN fine_keep])

lemma fine_path_segment [fine_intros]: "fine False k p (parse_path_segment hint hint2 p)"
proof -
  have "step_fine k q (ifp path_part
      (bindp advance_token (\<lambda>_.
       bindp (ifp (\<lambda>p. check_type (Literal LiteralInteger) p \<or> path_word (ttype (current_token p)))
                (bindp advance_token (\<lambda>tok. returns (tvalue tok))) (expect_name Identifier hint2)) (\<lambda>part.
         returns (True, s @ ''-'' @ part))))
      (returns (False, s)) q)" for s q
    by (rule step_ifp) (auto intro!: step_bind_spent fine_check fine_intros step_stops simp: path_part_def)
  then show ?thesis unfolding parse_path_segment_def by (intro fine_intros)
qed

lemma fine_path [fine_intros]: "fine False k p (parse_path h1 h2 h3 p)"
  unfolding parse_path_def by (auto intro!: fine_intros fine_more_after)

lemma fine_braced_items [fine_intros]: "fine False k p (parse_braced_items p)"
proof -
  have "step_fine k q (bindp skipNewline (\<lambda>_.
      ifp (check_types [Delimiter RightBrace, Layout Dedent]) (returns (False, xs))
        (bindp (parse_item ''import'') (\<lambda>x. bindp skipNewline (\<lambda>_. bindp (match_type (Punctuation Comma)) (\<lambda>go.
           returns (go, xs @ [x])))))) q)" for xs q
    by (rule step_bind, rule fine_skip, rule step_ifp, rule step_stops, rule step_bind_spent, rule fine_item, intro fine_intros)
  then show ?thesis unfolding parse_braced_items_def by (intro fine_intros)
qed

lemma fine_imported [fine_intros]: "fine False k p (parse_imported p)"
  unfolding parse_imported_def by (intro fine_intros fine_comma_separated fine_item)

lemma fine_import: "fine True k p (parseImportDeclaration p)"
proof (rule fine_below [where k = k])
  show "fine True (Suc k) p (parseImportDeclaration p)"
    unfolding parseImportDeclaration_def Let_def
    by (rule fine_match_spent) (auto intro!: fine_intros fine_expected)
qed

lemma fine_module [fine_intros]: "fine False k p (parseModuleDeclaration p)"
  unfolding parseModuleDeclaration_def Let_def by (intro fine_intros)

lemma step_top_level: "step_fine k p (top_level r g p)"
proof -
  have member: "fine True k q (ifp starts_import (bindp parseImportDeclaration (\<lambda>d. returns (add_import g d)))
      (ifp (check_type KeywordExport) (bindp (parseExportDeclaration r) (\<lambda>d. returns (add_export g d)))
        (bindp (parseDeclaration r) (\<lambda>d. returns (add_declaration g d)))) q)" for q
    by (intro fine_ifp fine_bind_in fine_import fine_export fine_declaration fine_returns)
  show ?thesis
    unfolding top_level_def
    by (rule step_ifp, rule step_stops, rule step_bind, rule fine_skip, rule step_ifp, rule step_stops, rule step_bind_spent,
        rule member, intro fine_intros)
qed

lemma fine_program: "fine False k p (parse_program r p)"
proof -
  have "step_fine k q (ifp starts_import
      (bindp parseImportDeclaration (\<lambda>d. bindp skipNewline (\<lambda>_. returns (True, is @ [d])))) (returns (False, is)) q)" for "is" q
    by (intro step_ifp step_stops step_bind_spent fine_import fine_intros)
  then show ?thesis
    unfolding parse_program_def by (intro fine_intros step_top_level)
qed

end

section \<open>The calls of every level\<close>

lemma fine_nothing: "fine s 0 p res"
  by (auto simp: fine_def live_def energy_def budget_def word_less_nat_alt)

lemma bounded_parsers: "bounded_calls (parsers n) n"
proof (induction n)
  case 0
  show ?case by unfold_locales (rule fine_nothing)+
next
  case (Suc n)
  note below = bounded_calls.fine_type_node bounded_calls.fine_unary_expression bounded_calls.fine_precedence_expression
    bounded_calls.fine_statement_node bounded_calls.fine_function_declaration bounded_calls.fine_class_declaration
    bounded_calls.fine_struct_declaration bounded_calls.fine_enum_declaration bounded_calls.fine_interface_declaration
  show ?case by unfold_locales (simp_all add: below [OF Suc])
qed

interpretation level: bounded_calls "parsers n" n for n
  by (rule bounded_parsers)

section \<open>The parser returns\<close>

text \<open>
  C2. The parser returns on every sequence of tokens without the keyword \<^verbatim>\<open>unit\<close>, when the engine has a limit of errors that
  is not yet reached: the depth of its calls and the turns of its loops, which are bounded in the model by the tokens left and the
  reports left, are never used up. It either leaves by an exception, or gives a program and a parser that is below the limit still and
  has no more tokens and reports left than before.
\<close>

theorem parse_returns:
  assumes "errorCounts (parser_diagnostic p) < errorMaximum (parser_diagnostic p)"
    and "without_unit (parser_tokens p)"
  shows "case parse p of
           Inl (f, q) \<Rightarrow> f \<noteq> Out_of_fuel
         | Inr (g, q) \<Rightarrow> errorCounts (parser_diagnostic q) < errorMaximum (parser_diagnostic q) \<and> energy q \<le> energy p"
proof -
  have "live p" using assms by (simp add: live_def)
  moreover have "fine False (Suc (energy p)) p (parse p)"
    unfolding parse_def by (rule level.fine_program)
  ultimately show ?thesis
    by (auto simp: fine_def live_def split: sum.splits prod.splits)
qed

definition demo_tokens :: "Token list" where
  "demo_tokens = [mk_token (Declaration KeywordImport) default_source ''import'', mk_token Identifier default_source ''core'',
     mk_token (Layout Newline) default_source [], mk_token (Special Eof) default_source []]"

lemma parse_returns_witness:
  "case parse (new_Parser demo_tokens Engine_default) of
     Inl (f, q) \<Rightarrow> f \<noteq> Out_of_fuel
   | Inr (g, q) \<Rightarrow> errorCounts (parser_diagnostic q) < errorMaximum (parser_diagnostic q)
       \<and> energy q \<le> energy (new_Parser demo_tokens Engine_default)"
  by (rule parse_returns) (simp_all add: new_Parser_def Engine_default_def without_unit_def demo_tokens_def)

section \<open>Loops that do not end\<close>

text \<open>The tokens at which the loop over the lines of the body of an enum variant does something.\<close>

definition starts_variant_line :: "token_type \<Rightarrow> bool" where
  "starts_variant_line t \<longleftrightarrow>
     t \<in> {Layout Dedent, Special Eof, Layout Newline, Declaration KeywordFunction, Oop KeywordProperty,
          Access KeywordPublic, Access KeywordPrivate, Access KeywordProtect} \<union> set enum_modifiers"

lemma variant_line_idle:
  assumes "\<not> starts_variant_line (ttype (current_token p))"
  shows "line_step (variant_line r) ds p = Inr ((True, ds), p)"
proof -
  have skip: "skipNewline p = Inr ((), p)" and "parseAccessModifier p = Inr (Access_Default, p)"
    and "parse_modifiers enum_modifiers p = Inr ([], p)"
    using assms
    by (auto simp: starts_variant_line_def check_type_def check_types_def parseAccessModifier_def access_of_def returns_def
        intro!: skip_idle fine_modifiers(3))
  then have "variant_line r ds p = Inr (ds, p)"
    using assms by (auto simp: variant_line_def starts_variant_line_def bindp_def returns_def ifp_def check_types_def)
  with skip show ?thesis
    using assms by (auto simp: line_step_def bindp_def returns_def ifp_def check_types_def check_type_def starts_variant_line_def)
qed

text \<open>
  C39. The loop over the body of an enum variant does not end at a token that starts no method: it neither reports nor skips the
  token, whatever the number of turns. This is why \<open>parse_returns\<close> leaves out the keyword \<^verbatim>\<open>unit\<close> that starts a variant.
\<close>

theorem variant_body_hangs:
  assumes "\<not> starts_variant_line (ttype (current_token p))"
  shows "iterate n (line_step (variant_line r)) ds p = Inl (Out_of_fuel, p)"
  using variant_line_idle [OF assms]
  by (induction n) (simp_all add: fails_def bindp_def)

lemma variant_body_hangs_witness:
  "iterate 1000 (line_step (variant_line no_calls)) []
     (new_Parser [mk_token Identifier default_source ''x''] Engine_default) =
   Inl (Out_of_fuel, new_Parser [mk_token Identifier default_source ''x''] Engine_default)"
  by (rule variant_body_hangs)
    (simp add: starts_variant_line_def new_Parser_def current_token_def enum_modifiers_def)

lemma report_without_limit:
  assumes "errorMaximum (parser_diagnostic p) = 0"
  obtains e where "parser_error src msg hint p = Inr ((), p\<lparr>parser_diagnostic := e\<rparr>)" and "errorMaximum e = 0"
    and "length (vdiagnostics e) = Suc (length (vdiagnostics (parser_diagnostic p)))"
  using assms that [of "record_diagnostic (parser_diagnostic p) \<lparr>hinting = hint, level = Level_Error, messages = msg p, dsource = src p\<rparr>"]
  by (simp add: parser_error_def emit_error_def emit_def Let_def)

lemma export_step_stays:
  assumes "errorMaximum (parser_diagnostic p) = 0"
    and "ttype (current_token p) \<notin> {Special Eof, Delimiter RightBrace, Identifier, Other KeywordAs, Punctuation Comma}"
    and "ttype (current_token p) \<notin> {Layout Dedent, Layout Indent, Layout Newline}"
  obtains xs' e where "export_step xs p = Inr ((True, xs'), p\<lparr>parser_diagnostic := e\<rparr>)" and "errorMaximum e = 0"
    and "length (vdiagnostics e) = Suc (length (vdiagnostics (parser_diagnostic p)))"
proof -
  obtain e where e: "parser_error here (expected_message Identifier) ''expected export name'' p = Inr ((), p\<lparr>parser_diagnostic := e\<rparr>)"
    "errorMaximum e = 0" "length (vdiagnostics e) = Suc (length (vdiagnostics (parser_diagnostic p)))"
    using report_without_limit [OF assms(1)] by blast
  let ?q = "p\<lparr>parser_diagnostic := e\<rparr>"
  have tok: "current_token ?q = current_token p" by (simp add: current_token_def)
  have "parse_item ''export'' p = Inr (([], []), ?q)"
    using assms(2) e(1) tok
    by (simp add: parse_item_def expect_name_def expect_type_def match_type_def ifp_def bindp_def returns_def error_token_def getp_def
        check_type_def)
  moreover have "match_type (Punctuation Comma) ?q = Inr (False, ?q)"
    using assms(2) tok by (simp add: match_type_def ifp_def returns_def check_type_def)
  moreover have "skip_layout ?q = Inr ((), ?q)"
    unfolding skip_layout_def using assms(3) tok by (intro repeat_idle) (simp add: ifp_def returns_def check_types_def)
  ultimately have "export_step xs p = Inr ((True, xs @ [([], [])]), ?q)"
    using assms(2) by (simp add: export_step_def ifp_def bindp_def returns_def check_types_def)
  with e that show thesis by blast
qed

text \<open>
  C40. Without a limit of errors the loop over an export list does not end at a token that is no name: each turn reports the token again
  and leaves the parser where it is, so that the diagnostics grow without bound.
\<close>

theorem export_list_hangs:
  assumes "errorMaximum (parser_diagnostic p) = 0"
    and "ttype (current_token p) \<notin> {Special Eof, Delimiter RightBrace, Identifier, Other KeywordAs, Punctuation Comma}"
    and "ttype (current_token p) \<notin> {Layout Dedent, Layout Indent, Layout Newline}"
  shows "\<exists>q. iterate n export_step xs p = Inl (Out_of_fuel, q) \<and> parser_position q = parser_position p
           \<and> length (vdiagnostics (parser_diagnostic q)) = n + length (vdiagnostics (parser_diagnostic p))"
  using assms
proof (induction n arbitrary: p xs)
  case 0
  then show ?case by (simp add: fails_def)
next
  case (Suc n)
  obtain xs' e where e: "export_step xs p = Inr ((True, xs'), p\<lparr>parser_diagnostic := e\<rparr>)" "errorMaximum e = 0"
    "length (vdiagnostics e) = Suc (length (vdiagnostics (parser_diagnostic p)))"
    using export_step_stays [OF Suc.prems] by blast
  have "current_token (p\<lparr>parser_diagnostic := e\<rparr>) = current_token p" by (simp add: current_token_def)
  with Suc.IH [of "p\<lparr>parser_diagnostic := e\<rparr>" xs'] Suc.prems e show ?case by (auto simp: bindp_def)
qed

lemma export_list_hangs_witness:
  "\<exists>q. iterate 1000 export_step []
       (new_Parser [mk_token (Arithmetic Plus) default_source ''+''] (setMaxErrors 0 Engine_default)) = Inl (Out_of_fuel, q)
     \<and> parser_position q = 0 \<and> length (vdiagnostics (parser_diagnostic q)) = 1000"
proof -
  let ?p = "new_Parser [mk_token (Arithmetic Plus) default_source ''+''] (setMaxErrors 0 Engine_default)"
  have "errorMaximum (parser_diagnostic ?p) = 0" and "ttype (current_token ?p) = Arithmetic Plus"
    and "parser_position ?p = 0" and "vdiagnostics (parser_diagnostic ?p) = []"
    by (simp_all add: new_Parser_def current_token_def setMaxErrors_def Engine_default_def)
  then show ?thesis using export_list_hangs [of ?p 1000 "[]"] by simp
qed

end
