(* ===== verification/ParserRoundTrip.thy ===== *)
theory ParserRoundTrip
  imports ParserDeclarations
begin

text \<open>
  Expressions with operators that are printed with as few parentheses as the precedences allow are parsed back: what the loop of
  \<^verbatim>\<open>parsePrecedenceExpression\<close> does with precedences and associativity is what the tree says. Left out are the operators
  whose right side is a type, \<^verbatim>\<open>is\<close>, which joins with a following \<^verbatim>\<open>not\<close>, and \<^verbatim>\<open><\<close>, which may start type arguments.
\<close>

section \<open>Trees of operators\<close>

datatype (plugins only: code size) operator_tree =
  Atom Token | Prefixed Token operator_tree | Infixed operator_tree Token operator_tree

definition atom_node :: "Token \<Rightarrow> expression_node option" where
  "atom_node t =
     (if ttype t = Identifier then Some (IdentifierExpression (tvalue t) [])
      else if ttype t = KValue KeywordTrue then Some (BoolLiteral True)
      else if ttype t = KValue KeywordFalse then Some (BoolLiteral False)
      else if ttype t = KValue KeywordNone then Some NoneLiteral
      else if ttype t = Literal LiteralString then Some (StringLiteral (tvalue t))
      else if ttype t = Literal LiteralInteger
      then (case integer_literal (tvalue t) of Inl _ \<Rightarrow> None | Inr v \<Rightarrow> Some (IntegerLiteral (tvalue t) v))
      else None)"

definition plain_operator :: "token_type \<Rightarrow> bool" where
  "plain_operator t \<longleftrightarrow>
     0 < getOperatorPrecedenceValue t
     \<and> t \<notin> {Comparison LessThan, Other KeywordAs, Other KeywordInstanceOf, Other KeywordSubclassOf, Other KeywordIs}"

fun valid_tree :: "operator_tree \<Rightarrow> bool" where
  "valid_tree (Atom t) = (atom_node t \<noteq> None)"
| "valid_tree (Prefixed op t) = (ttype op \<in> set prefix_operators \<and> valid_tree t)"
| "valid_tree (Infixed l op r) = (plain_operator (ttype op) \<and> valid_tree l \<and> valid_tree r)"

text \<open>The expression a tree stands for.\<close>

fun expression_of :: "operator_tree \<Rightarrow> expression" where
  "expression_of (Atom t) = expr (tsource t) (case atom_node t of None \<Rightarrow> NullExpression | Some n \<Rightarrow> n)"
| "expression_of (Prefixed op t) = expr (tsource op) (UnaryExpression True (Some (expression_of t)) (ttype op))"
| "expression_of (Infixed l op r) = expr (tsource op) (BinaryExpression (expression_of l) (ttype op) (expression_of r))"

text \<open>How tightly a tree holds together; the operands of \<^verbatim>\<open>**\<close> group to the right, those of the others to the left.\<close>

fun tightness :: "operator_tree \<Rightarrow> int" where
  "tightness (Infixed l op r) = getOperatorPrecedenceValue (ttype op)"
| "tightness other = 13"

definition left_tightness :: "token_type \<Rightarrow> int" where
  "left_tightness t = getOperatorPrecedenceValue t + (if t = Arithmetic Power then 1 else 0)"

definition right_tightness :: "token_type \<Rightarrow> int" where
  "right_tightness t = getOperatorPrecedenceValue t + (if t = Arithmetic Power then 0 else 1)"

definition parenthesised :: "bool \<Rightarrow> Token list \<Rightarrow> Token list" where
  "parenthesised b ts =
     (if b then mk_token (Delimiter LeftParenthesis) default_source ''('' # ts @ [mk_token (Delimiter RightParenthesis) default_source '')'']
      else ts)"

fun printed_tree :: "operator_tree \<Rightarrow> Token list" where
  "printed_tree (Atom t) = [t]"
| "printed_tree (Prefixed op t) = op # parenthesised (tightness t < 13) (printed_tree t)"
| "printed_tree (Infixed l op r) =
     parenthesised (tightness l < left_tightness (ttype op)) (printed_tree l)
     @ op # parenthesised (tightness r < right_tightness (ttype op)) (printed_tree r)"

text \<open>The kinds of token that may follow an operand of some tightness.\<close>

definition may_follow :: "int \<Rightarrow> token_type \<Rightarrow> bool" where
  "may_follow k t \<longleftrightarrow>
     getOperatorPrecedenceValue t \<le> k \<and> (k = 11 \<longrightarrow> getOperatorPrecedenceValue t \<noteq> 11)
     \<and> t \<notin> {Comparison LessThan, Delimiter LeftParenthesis, Delimiter LeftBracket, Punctuation Dot, Punctuation DoubleColon,
             Punctuation Question, Punctuation DoubleDot, Punctuation Ellipsis, Arithmetic Increment, Arithmetic Decrement}"

text \<open>The tree of \<^verbatim>\<open>-a * (b - (c - d)) ** e ** f\<close>.\<close>

definition demo_tree :: operator_tree where
  "demo_tree =
     (let name = (\<lambda>s. Atom (mk_token Identifier default_source s));
          op = (\<lambda>t s. mk_token (Arithmetic t) default_source s)
      in Infixed (Prefixed (op Minus ''-'') (name ''a'')) (op Star ''*'')
           (Infixed (Infixed (name ''b'') (op Minus ''-'') (Infixed (name ''c'') (op Minus ''-'') (name ''d'')))
              (op Power ''**'') (Infixed (name ''e'') (op Power ''**'') (name ''f''))))"

section \<open>Moving over tokens\<close>

definition ahead :: "Parser \<Rightarrow> Token list" where
  "ahead p = drop (parser_position p) (parser_tokens p)"

definition past :: "nat \<Rightarrow> Parser \<Rightarrow> Parser" where
  "past k p = p\<lparr>parser_position := parser_position p + k\<rparr>"

definition head_type :: "Token list \<Rightarrow> token_type" where
  "head_type ts = (case ts of [] \<Rightarrow> Special Eof | t # _ \<Rightarrow> ttype t)"

lemma past_past [simp]: "past i (past j p) = past (j + i) p"
  by (simp add: past_def add.assoc)

lemma ahead_past: "ahead (past k p) = drop k (ahead p)"
  by (simp add: ahead_def past_def add.commute)

lemma current_ahead: "current_token p = (case ahead p of [] \<Rightarrow> default_token | t # _ \<Rightarrow> t)"
proof (cases "length (parser_tokens p) \<le> parser_position p")
  case True
  then show ?thesis by (simp add: current_token_def ahead_def)
next
  case False
  then show ?thesis by (simp add: current_token_def ahead_def Cons_nth_drop_Suc [symmetric])
qed

lemma current_type: "ttype (current_token p) = head_type (ahead p)"
  by (simp add: current_ahead head_type_def default_token_def split: list.splits)

lemma advance_ahead:
  assumes "ahead p = t # ts"
  shows "advance_token p = Inr (t, past 1 p)"
proof -
  have "parser_position p < length (parser_tokens p)"
    using assms by (simp add: ahead_def) (metis drop_all list.distinct(1) not_le)
  then show ?thesis using assms by (simp add: advance_token_def past_def current_ahead)
qed

lemma remaining_ahead: "remaining p = length (ahead p)"
  by (simp add: remaining_def ahead_def)

lemma head_type_simps [simp]: "head_type [] = Special Eof" "head_type (t # ts) = ttype t"
  by (simp_all add: head_type_def)

section \<open>Operands\<close>

lemma is_null_expr [simp]: "is_null (expr src n) \<longleftrightarrow> n = NullExpression"
  by (simp add: is_null_def expr_def)

lemma atom_not_null: "atom_node t = Some n \<Longrightarrow> n \<noteq> NullExpression"
  by (auto simp: atom_node_def split: sum.splits if_splits)

lemma expression_of_not_null: "valid_tree t \<Longrightarrow> \<not> is_null (expression_of t)"
  by (cases t) (auto dest: atom_not_null)

lemma postfix_stops:
  assumes "may_follow k (head_type (ahead p))"
  shows "repeatp (postfix_step r) e p = Inr (e, p)"
  using assms by (simp add: repeatp_def postfix_step_def may_follow_def check_type_def current_type bindp_def returns_def)

lemma primary_unary:
  assumes "parsePrimaryExpression r p = Inr (e, q)" and "\<not> is_null e" and "may_follow k (head_type (ahead q))"
    and "ttype (current_token p) \<notin> set prefix_operators"
  shows "parseUnaryExpression r p = Inr (e, q)"
  using assms postfix_stops [OF assms(3)]
  by (simp add: parseUnaryExpression_def parsePostfixExpression_def ifp_def bindp_def check_types_def)

lemma atom_primary:
  assumes "ahead p = t # rest" and "atom_node t = Some n"
  shows "parsePrimaryExpression r p = Inr (expr (tsource t) n, past 1 p)"
  using assms
  by (auto simp: parsePrimaryExpression_def current_type atom_node_def literal_def bindp_def advance_ahead returns_def number_result_def
      split: if_splits sum.splits)

lemma atom_no_prefix: "atom_node t \<noteq> None \<Longrightarrow> ttype t \<notin> set prefix_operators"
  by (auto simp: atom_node_def prefix_operators_def split: if_splits)

lemma atom_unary:
  assumes "ahead p = t # rest" and "atom_node t \<noteq> None" and "may_follow k (head_type rest)"
  shows "parseUnaryExpression r p = Inr (expression_of (Atom t), past 1 p)"
proof -
  obtain n where n: "atom_node t = Some n" and "n \<noteq> NullExpression"
    using assms(2) by (auto dest: atom_not_null)
  then show ?thesis
    using atom_primary [OF assms(1) n] assms atom_no_prefix [OF assms(2)]
    by (intro primary_unary) (auto simp: ahead_past current_type)
qed

section \<open>Operators\<close>

text \<open>
  From \<open>p\<close> the loop of every precedence up to \<open>k\<close> comes to hold \<open>e\<close> at \<open>p'\<close>; \<open>c\<close> is the number of its turns until then.
\<close>

definition reads :: "nat \<Rightarrow> int \<Rightarrow> expression \<Rightarrow> Parser \<Rightarrow> Parser \<Rightarrow> bool" where
  "reads n k e p p' \<longleftrightarrow>
     (\<exists>left q c. parseUnaryExpression (parsers n) p = Inr (left, q) \<and> \<not> is_null left \<and> c + remaining p' \<le> remaining q
        \<and> (\<forall>m f. m \<le> k \<longrightarrow>
             iterate (c + f) (precedence_step (parsers n) m) left q = iterate f (precedence_step (parsers n) m) e p'))"

lemma reads_operand:
  assumes "parseUnaryExpression (parsers n) p = Inr (e, p')" and "\<not> is_null e"
  shows "reads n k e p p'"
  unfolding reads_def using assms by (intro exI [of _ e] exI [of _ p'] exI [of _ 0]) simp

lemma reads_precedence:
  assumes "reads n k e p p'" and "m \<le> k" and "getOperatorPrecedenceValue (head_type (ahead p')) < m"
    and "head_type (ahead p') \<notin> {Punctuation DoubleDot, Punctuation Ellipsis}"
  shows "parsePrecedenceExpression (parsers n) m p = Inr (e, p')"
proof -
  obtain left q c where u: "parseUnaryExpression (parsers n) p = Inr (left, q)" "\<not> is_null left"
    and c: "c + remaining p' \<le> remaining q"
    and loop: "\<And>f. iterate (c + f) (precedence_step (parsers n) m) left q = iterate f (precedence_step (parsers n) m) e p'"
    using assms(1,2) unfolding reads_def by blast
  have "repeatp (precedence_step (parsers n) m) left q = iterate (c + Suc (energy q - c)) (precedence_step (parsers n) m) left q"
    using c by (simp add: repeatp_def energy_def)
  also have "\<dots> = Inr (e, p')"
    unfolding loop using assms(3) by (simp add: precedence_step_def current_type bindp_def returns_def)
  finally show ?thesis
    using u assms(4) by (simp add: parsePrecedenceExpression_def bindp_def parse_range_def ifp_def check_types_def current_type returns_def)
qed

lemma operator_step:
  assumes "ahead q = op # rest" and "plain_operator (ttype op)" and "m \<le> getOperatorPrecedenceValue (ttype op)"
    and "parsePrecedenceExpression (parsers n) (right_tightness (ttype op)) (past 1 q) = Inr (e, q')"
  shows "precedence_step (parsers (Suc n)) m left q = Inr ((True, expr (tsource op) (BinaryExpression left (ttype op) e)), q')"
proof -
  have "(if ttype op = Arithmetic Power then getOperatorPrecedenceValue (ttype op) else getOperatorPrecedenceValue (ttype op) + 1)
      = right_tightness (ttype op)"
    by (simp add: right_tightness_def)
  with assms show ?thesis
    by (simp add: precedence_step_def current_type plain_operator_def binary_operator_def bindp_def advance_ahead returns_def Let_def)
qed

lemma reads_infixed:
  assumes "reads (Suc n) k left p q" and "getOperatorPrecedenceValue (ttype op) \<le> k"
    and "ahead q = op # rest" and "plain_operator (ttype op)"
    and "parsePrecedenceExpression (parsers n) (right_tightness (ttype op)) (past 1 q) = Inr (e, q')"
    and "remaining q' < remaining q"
  shows "reads (Suc n) (getOperatorPrecedenceValue (ttype op)) (expr (tsource op) (BinaryExpression left (ttype op) e)) p q'"
proof -
  let ?S = "precedence_step (parsers (Suc n))"
  obtain l0 q0 c where u: "parseUnaryExpression (parsers (Suc n)) p = Inr (l0, q0)" "\<not> is_null l0"
    and c: "c + remaining q \<le> remaining q0"
    and loop: "\<And>m f. m \<le> k \<Longrightarrow> iterate (c + f) (?S m) l0 q0 = iterate f (?S m) left q"
    using assms(1) unfolding reads_def by blast
  have "iterate (Suc c + f) (?S m) l0 q0 = iterate f (?S m) (expr (tsource op) (BinaryExpression left (ttype op) e)) q'"
    if m: "m \<le> getOperatorPrecedenceValue (ttype op)" for m f
  proof -
    have "iterate (c + Suc f) (?S m) l0 q0 = iterate (Suc f) (?S m) left q"
      using m assms(2) by (intro loop) simp
    also have "\<dots> = iterate f (?S m) (expr (tsource op) (BinaryExpression left (ttype op) e)) q'"
      using operator_step [OF assms(3,4) m assms(5)] by (simp add: bindp_def)
    finally show ?thesis by simp
  qed
  moreover have "Suc c + remaining q' \<le> remaining q0" using c assms(6) by simp
  ultimately show ?thesis unfolding reads_def using u by blast
qed

section \<open>Parentheses and prefixes\<close>

lemma match_other:
  assumes "ttype (current_token p) \<noteq> t" and "t \<noteq> Comparison GreaterThan"
  shows "match_type t p = Inr (False, p)"
  using assms by (simp add: match_type_def ifp_def check_type_def returns_def)

lemma expect_found:
  assumes "ahead p = t # ts" and "ttype t \<noteq> Comparison GreaterThan"
  shows "expect_type (ttype t) msg p = Inr (t, past 1 p)"
  using assms by (simp add: expect_type_def ifp_def check_type_def current_type advance_ahead)

lemma parenthesis_unary:
  assumes "ahead p = mk_token (Delimiter LeftParenthesis) default_source ''('' # ts" and "head_type ts \<noteq> Delimiter RightParenthesis"
    and inner: "parsePrecedenceExpression (parsers n) 1 (past 1 p) = Inr (e, q)" and "\<not> is_null e"
    and close: "ahead q = mk_token (Delimiter RightParenthesis) default_source '')'' # rest" and "may_follow k (head_type rest)"
  shows "parseUnaryExpression (parsers (Suc n)) p = Inr (e, past 1 q)"
proof -
  have "match_type (Punctuation Comma) q = Inr (False, q)"
    using close by (intro match_other) (simp_all add: current_type)
  moreover have "expect_type (Delimiter RightParenthesis) msg q = Inr (mk_token (Delimiter RightParenthesis) default_source '')'', past 1 q)"
    for msg
    using expect_found [OF close] by simp
  ultimately have "parsePrimaryExpression (parsers (Suc n)) p = Inr (e, past 1 q)"
    using assms(1,2) inner
    by (simp add: parsePrimaryExpression_def current_type parse_parenthesized_def Let_def bindp_def advance_ahead ifp_def check_type_def
        ahead_past returns_def)
  then show ?thesis
    using assms by (intro primary_unary) (auto simp: ahead_past current_type prefix_operators_def)
qed

lemma prefix_unary:
  assumes "ahead p = op # ts" and "ttype op \<in> set prefix_operators" and "head_type ts \<noteq> Declaration KeywordMutable"
    and "parseUnaryExpression (parsers n) (past 1 p) = Inr (e, q)" and "\<not> is_null e"
  shows "parseUnaryExpression (parsers (Suc n)) p = Inr (expr (tsource op) (UnaryExpression True (Some e) (ttype op)), q)"
proof -
  have "match_type (Declaration KeywordMutable) (past 1 p) = Inr (False, past 1 p)"
    using assms(1,3) by (intro match_other) (simp_all add: current_type ahead_past)
  with assms show ?thesis
    by (simp add: parseUnaryExpression_def ifp_def check_types_def current_type bindp_def advance_ahead returns_def pointer_def)
qed

section \<open>Printed trees are read\<close>

text \<open>The kinds of the first token of an operand.\<close>

definition starts_operand :: "token_type \<Rightarrow> bool" where
  "starts_operand t \<longleftrightarrow> t \<notin> {Delimiter RightParenthesis, Declaration KeywordMutable}"

lemma printed_start: "valid_tree t \<Longrightarrow> \<exists>u us. printed_tree t = u # us \<and> starts_operand (ttype u)"
proof (induction t)
  case (Atom t)
  then show ?case by (auto simp: starts_operand_def atom_node_def split: if_splits)
next
  case (Prefixed op t)
  then show ?case by (auto simp: starts_operand_def prefix_operators_def)
next
  case (Infixed l op r)
  then show ?case by (auto simp: parenthesised_def starts_operand_def)
qed

lemma parenthesised_start:
  "valid_tree t \<Longrightarrow> starts_operand (head_type (parenthesised b (printed_tree t) @ rest))"
  using printed_start [of t] by (auto simp: parenthesised_def starts_operand_def)

lemma precedence_bound: "getOperatorPrecedenceValue t \<le> 12"
  by (cases t rule: getOperatorPrecedenceValue.cases) auto

lemma tightness_bounds: "valid_tree t \<Longrightarrow> 1 \<le> tightness t \<and> tightness t \<le> 13"
proof (cases t)
  case (Infixed l op r)
  then show "valid_tree t \<Longrightarrow> ?thesis"
    using precedence_bound [of "ttype op"] by (simp add: plain_operator_def)
qed simp_all

text \<open>What the proof by induction shows of a tree with parentheses around it or not.\<close>

definition operand_read :: "nat \<Rightarrow> bool \<Rightarrow> operator_tree \<Rightarrow> Parser \<Rightarrow> bool" where
  "operand_read n b t p \<longleftrightarrow>
     (let q = past (length (parenthesised b (printed_tree t))) p in
      reads n (if b then 13 else tightness t) (expression_of t) p q
      \<and> (b \<or> tightness t = 13 \<longrightarrow> parseUnaryExpression (parsers n) p = Inr (expression_of t, q)))"

lemma operand_unary:
  assumes "operand_read n b t p" and "b \<or> tightness t = 13"
  shows "parseUnaryExpression (parsers n) p = Inr (expression_of t, past (length (parenthesised b (printed_tree t))) p)"
  using assms by (simp add: operand_read_def Let_def)

lemma parenthesised_read:
  assumes "valid_tree t" and "ahead p = parenthesised b (printed_tree t) @ rest"
    and "may_follow (if b then 13 else tightness t) (head_type rest)" and "length (parenthesised b (printed_tree t)) \<le> n"
    and IH: "\<And>n p rest. \<lbrakk>ahead p = printed_tree t @ rest; may_follow (tightness t) (head_type rest); length (printed_tree t) \<le> n\<rbrakk>
      \<Longrightarrow> operand_read n False t p"
  shows "operand_read n b t p"
proof (cases b)
  case False
  with assms show ?thesis by (simp add: parenthesised_def)
next
  case True
  let ?close = "mk_token (Delimiter RightParenthesis) default_source '')''"
  obtain k where n: "n = Suc k" "length (printed_tree t) \<le> k"
    using assms(4) True by (cases n) (auto simp: parenthesised_def)
  have a: "ahead p = mk_token (Delimiter LeftParenthesis) default_source ''('' # printed_tree t @ ?close # rest"
    using assms(2) True by (simp add: parenthesised_def)
  then have inside: "ahead (past 1 p) = printed_tree t @ ?close # rest" by (simp add: ahead_past)
  let ?q = "past (Suc (length (printed_tree t))) p"
  have close: "ahead ?q = ?close # rest" using a by (simp add: ahead_past)
  have "reads k (tightness t) (expression_of t) (past 1 p) ?q"
    using IH [OF inside _ n(2)] tightness_bounds [OF assms(1)] by (simp add: operand_read_def may_follow_def parenthesised_def Let_def)
  then have "parsePrecedenceExpression (parsers k) 1 (past 1 p) = Inr (expression_of t, ?q)"
    using close tightness_bounds [OF assms(1)] by (intro reads_precedence) auto
  moreover have "head_type (printed_tree t @ ?close # rest) \<noteq> Delimiter RightParenthesis"
    using printed_start [OF assms(1)] by (auto simp: starts_operand_def)
  ultimately have "parseUnaryExpression (parsers n) p = Inr (expression_of t, past 1 ?q)"
    unfolding n(1) using a close assms(1,3) True by (intro parenthesis_unary) (auto simp: expression_of_not_null)
  then show ?thesis
    using True assms(1) by (auto simp: operand_read_def parenthesised_def Let_def expression_of_not_null intro!: reads_operand)
qed

lemma power_tightness: "getOperatorPrecedenceValue t = 11 \<longleftrightarrow> t = Arithmetic Power"
  by (cases t rule: getOperatorPrecedenceValue.cases) auto

lemma operator_follows:
  assumes "plain_operator t" and "getOperatorPrecedenceValue t \<le> k" and "k = 11 \<longrightarrow> t \<noteq> Arithmetic Power"
  shows "may_follow k t"
  using assms by (auto simp: may_follow_def plain_operator_def power_tightness)

lemma infixed_read:
  assumes op: "plain_operator (ttype op)" and r: "valid_tree r"
    and left: "reads (Suc n) k left p q" and k: "left_tightness (ttype op) \<le> k"
    and ahead: "ahead q = op # parenthesised b (printed_tree r) @ rest" and b: "b \<longleftrightarrow> tightness r < right_tightness (ttype op)"
    and rest: "may_follow (getOperatorPrecedenceValue (ttype op)) (head_type rest)"
    and right: "operand_read n b r (past 1 q)"
  shows "reads (Suc n) (getOperatorPrecedenceValue (ttype op)) (expr (tsource op) (BinaryExpression left (ttype op) (expression_of r)))
           p (past (Suc (length (parenthesised b (printed_tree r)))) q)" (is "reads _ _ _ _ ?q")
proof -
  have after: "ahead ?q = rest" using ahead by (simp add: ahead_past)
  have "right_tightness (ttype op) \<le> (if b then 13 else tightness r)"
    using b precedence_bound [of "ttype op"] by (simp add: right_tightness_def)
  moreover have "getOperatorPrecedenceValue (head_type rest) < right_tightness (ttype op)"
    using rest by (auto simp: may_follow_def right_tightness_def)
  moreover have "reads n (if b then 13 else tightness r) (expression_of r) (past 1 q) ?q"
    using right by (simp add: operand_read_def Let_def)
  ultimately have "parsePrecedenceExpression (parsers n) (right_tightness (ttype op)) (past 1 q) = Inr (expression_of r, ?q)"
    using rest after by (intro reads_precedence) (auto simp: may_follow_def)
  moreover have "remaining ?q < remaining q" using ahead after by (simp add: remaining_ahead)
  moreover have "getOperatorPrecedenceValue (ttype op) \<le> k" using k by (simp add: left_tightness_def split: if_splits)
  ultimately show ?thesis using op by (intro reads_infixed [OF left _ ahead]) auto
qed

lemma printed_read:
  assumes "valid_tree t" and "ahead p = printed_tree t @ rest" and "may_follow (tightness t) (head_type rest)"
    and "length (printed_tree t) \<le> n"
  shows "operand_read n False t p"
  using assms
proof (induction t arbitrary: n p rest)
  case (Atom t)
  then have "parseUnaryExpression (parsers n) p = Inr (expression_of (Atom t), past 1 p)"
    by (intro atom_unary) auto
  moreover have "\<not> is_null (expression_of (Atom t))" using Atom.prems(1) by (rule expression_of_not_null)
  ultimately show ?case by (simp add: operand_read_def parenthesised_def reads_operand)
next
  case (Prefixed op t)
  let ?b = "tightness t < 13"
  have v: "valid_tree t" using Prefixed.prems(1) by simp
  obtain m where n: "n = Suc m" "length (parenthesised ?b (printed_tree t)) \<le> m"
    using Prefixed.prems(4) by (cases n) auto
  have a: "ahead p = op # parenthesised ?b (printed_tree t) @ rest" using Prefixed.prems(2) by simp
  then have "ahead (past 1 p) = parenthesised ?b (printed_tree t) @ rest" by (simp add: ahead_past)
  moreover have "may_follow (if ?b then 13 else tightness t) (head_type rest)"
    using Prefixed.prems(1,3) tightness_bounds [of t] by (simp add: may_follow_def)
  ultimately have "operand_read m ?b t (past 1 p)"
    by (rule parenthesised_read [OF v _ _ n(2) Prefixed.IH [OF v]])
  then have "parseUnaryExpression (parsers m) (past 1 p)
      = Inr (expression_of t, past (length (parenthesised ?b (printed_tree t))) (past 1 p))"
    using tightness_bounds [OF v] by (intro operand_unary) auto
  moreover have "head_type (parenthesised ?b (printed_tree t) @ rest) \<noteq> Declaration KeywordMutable"
    using parenthesised_start [of t ?b rest] Prefixed.prems(1) by (simp add: starts_operand_def)
  ultimately have "parseUnaryExpression (parsers n) p
      = Inr (expression_of (Prefixed op t), past (length (printed_tree (Prefixed op t))) p)"
    using prefix_unary [OF a, of m] Prefixed.prems(1) expression_of_not_null [OF v] unfolding n(1) by (simp del: parsers.simps)
  then show ?case by (simp add: operand_read_def parenthesised_def reads_operand)
next
  case (Infixed l op r)
  let ?bl = "tightness l < left_tightness (ttype op)" and ?br = "tightness r < right_tightness (ttype op)"
  let ?l = "parenthesised ?bl (printed_tree l)" and ?r = "parenthesised ?br (printed_tree r)"
  have op: "plain_operator (ttype op)" and v: "valid_tree l" "valid_tree r" using Infixed.prems(1) by simp_all
  obtain m where n: "n = Suc m" and m: "length ?l \<le> m" "length ?r \<le> m" using Infixed.prems(4) by (cases n) auto
  have a: "ahead p = ?l @ op # ?r @ rest" using Infixed.prems(2) by simp
  have kl: "left_tightness (ttype op) \<le> (if ?bl then 13 else tightness l)"
    using precedence_bound [of "ttype op"] by (simp add: left_tightness_def)
  have "may_follow (if ?bl then 13 else tightness l) (ttype op)"
    using kl op by (intro operator_follows) (auto simp: left_tightness_def split: if_splits)
  then have "operand_read (Suc m) ?bl l p"
    using a m(1) by (intro parenthesised_read [of _ _ _ "op # ?r @ rest", OF v(1) _ _ _ Infixed.IH(1) [OF v(1)]]) simp_all
  then have left: "reads (Suc m) (if ?bl then 13 else tightness l) (expression_of l) p (past (length ?l) p)"
    by (simp add: operand_read_def Let_def)
  have a2: "ahead (past (length ?l) p) = op # ?r @ rest" using a by (simp add: ahead_past)
  have "may_follow (if ?br then 13 else tightness r) (head_type rest)"
    using Infixed.prems(3) precedence_bound [of "head_type rest"]
    by (auto simp: may_follow_def right_tightness_def power_tightness split: if_splits)
  moreover have "ahead (past 1 (past (length ?l) p)) = ?r @ rest" using a by (simp add: ahead_past)
  ultimately have "operand_read m ?br r (past 1 (past (length ?l) p))"
    using m(2) by (intro parenthesised_read [of _ _ _ rest, OF v(2) _ _ _ Infixed.IH(2) [OF v(2)]]) simp_all
  from infixed_read [OF op v(2) left kl a2 refl _ this] Infixed.prems(3)
  have "reads n (tightness (Infixed l op r)) (expression_of (Infixed l op r)) p (past (length (printed_tree (Infixed l op r))) p)"
    using n by simp
  moreover have "tightness (Infixed l op r) \<noteq> 13" using precedence_bound [of "ttype op"] by simp
  ultimately show ?case by (simp add: operand_read_def parenthesised_def)
qed

text \<open>
  C1. Whatever tree of operators is printed with as few parentheses as its precedences allow, the parser reads the
  tokens up to what follows and gives back the expression of the tree: each operator gets the operands, the place in the tree and the
  location the printed tree gave it. The calls need no more depth than there are tokens.
\<close>

theorem printed_tree_parsed:
  assumes "valid_tree t" and "ahead p = printed_tree t @ rest" and "may_follow 0 (head_type rest)" and "length (printed_tree t) \<le> n"
  shows "parseExpression (parsers n) p = Inr (expression_of t, past (length (printed_tree t)) p)"
proof -
  have b: "1 \<le> tightness t" using tightness_bounds [OF assms(1)] by simp
  then have "may_follow (tightness t) (head_type rest)" using assms(3) by (auto simp: may_follow_def)
  then have "reads n (tightness t) (expression_of t) p (past (length (printed_tree t)) p)"
    using printed_read [OF assms(1,2) _ assms(4)] by (simp add: operand_read_def parenthesised_def Let_def)
  then show ?thesis
    unfolding parseExpression_def using b assms(2,3)
    by (intro reads_precedence) (auto simp: ahead_past may_follow_def)
qed

lemma printed_tree_parsed_witness:
  "concat (map tvalue (printed_tree demo_tree)) = ''-a*(b-(c-d))**e**f''
   \<and> parseExpression (parsers 20) (new_Parser (printed_tree demo_tree) Engine_default)
     = Inr (expression_of demo_tree, past 16 (new_Parser (printed_tree demo_tree) Engine_default))"
proof
  let ?p = "new_Parser (printed_tree demo_tree) Engine_default"
  show "concat (map tvalue (printed_tree demo_tree)) = ''-a*(b-(c-d))**e**f''"
    by (simp add: demo_tree_def parenthesised_def left_tightness_def right_tightness_def mk_token_def)
  have len: "length (printed_tree demo_tree) = 16"
    by (simp add: demo_tree_def parenthesised_def left_tightness_def right_tightness_def)
  have "valid_tree demo_tree"
    by (simp add: demo_tree_def atom_node_def plain_operator_def prefix_operators_def)
  moreover have "ahead ?p = printed_tree demo_tree @ []" by (simp add: ahead_def new_Parser_def)
  moreover have "may_follow 0 (head_type [])" by (simp add: may_follow_def)
  ultimately show "parseExpression (parsers 20) ?p = Inr (expression_of demo_tree, past 16 ?p)"
    using printed_tree_parsed [of demo_tree ?p "[]" 20] len by (simp del: parsers.simps)
qed

end
